(* ===== verification/Clang_Prelude.thy ===== *)
theory Clang_Prelude
  imports Main "HOL-Library.Monad_Syntax"
begin

text \<open>
  Shared vocabulary of the development.

  \<^item> Addresses and pointers.  An object is named by an address (a natural number) and a
    C pointer is an \<open>addr option\<close>, with \<open>None\<close> for \<open>NULL\<close>.  Code that follows a pointer is
    written in the option monad, so binding a pointer is the dereference: a \<open>NULL\<close>
    dereference makes the whole computation \<open>None\<close>.
  \<^item> Loops.  A loop whose end depends on the shape of the heap is a
    \<^theory_text>\<open>partial_function (option)\<close>: \<open>None\<close> is both "crashes" and "does not return", so every
    theorem that such a loop yields \<open>Some\<close> shows that it returns and dereferences no
    \<open>NULL\<close> pointer on the way.
  \<^item> \<open>for_each\<close> and \<open>for_each_safe\<close> are the two shapes of traversal that the BSD queue and
    tree macros expand to (the successor is read after, respectively before, the body).
  \<^item> the theorem collection \<open>heap_simps\<close> and the generic lemmas on lists that the
    components share.
\<close>

named_theorems heap_simps \<open>rewrite rules that carry a heap predicate through an update\<close>

type_synonym addr = nat
type_synonym ptr = "addr option"

subsection \<open>Traversal loops\<close>

partial_function (option) for_each ::
  "('s \<Rightarrow> addr \<Rightarrow> ptr) \<Rightarrow> (addr \<Rightarrow> 's \<Rightarrow> 's option) \<Rightarrow> ptr \<Rightarrow> 's \<Rightarrow> 's option" where
  "for_each nxt body var s =
     (case var of
        None \<Rightarrow> Some s
      | Some v \<Rightarrow> do { s' \<leftarrow> body v s; for_each nxt body (nxt s' v) s' })"

partial_function (option) for_each_safe ::
  "('s \<Rightarrow> addr \<Rightarrow> ptr) \<Rightarrow> (addr \<Rightarrow> 's \<Rightarrow> 's option) \<Rightarrow> ptr \<Rightarrow> 's \<Rightarrow> 's option" where
  "for_each_safe nxt body var s =
     (case var of
        None \<Rightarrow> Some s
      | Some v \<Rightarrow> (let tvar = nxt s v in
          do { s' \<leftarrow> body v s; for_each_safe nxt body tvar s' }))"

declare for_each.simps [code] for_each_safe.simps [code]

text \<open>The body that only records the element it is given: the traversal's visit order.\<close>

definition visit :: "addr \<Rightarrow> addr list \<times> 's \<Rightarrow> (addr list \<times> 's) option" where
  "visit v st = Some (fst st @ [v], snd st)"

text \<open>The abstract loop: run a body over a list of elements.\<close>

fun run_body :: "(addr \<Rightarrow> 's \<Rightarrow> 's option) \<Rightarrow> addr list \<Rightarrow> 's \<Rightarrow> 's option" where
  "run_body body [] s = Some s"
| "run_body body (x # xs) s = do { s' \<leftarrow> body x s; run_body body xs s' }"

lemma for_each_None [simp]: "for_each nxt body None s = Some s"
  by (subst for_each.simps) simp

lemma for_each_Some [simp]:
  "for_each nxt body (Some v) s = do { s' \<leftarrow> body v s; for_each nxt body (nxt s' v) s' }"
  by (subst for_each.simps) simp

lemma for_each_safe_None [simp]: "for_each_safe nxt body None s = Some s"
  by (subst for_each_safe.simps) simp

lemma for_each_safe_Some [simp]:
  "for_each_safe nxt body (Some v) s =
     do { s' \<leftarrow> body v s; for_each_safe nxt body (nxt s v) s' }"
  by (subst for_each_safe.simps) (simp add: Let_def)

subsection \<open>Chains of links\<close>

text \<open>\<open>chain nx p xs q\<close>: following \<open>nx\<close> from \<open>p\<close> visits exactly \<open>xs\<close> and arrives at \<open>q\<close>.\<close>

fun chain :: "(addr \<Rightarrow> ptr) \<Rightarrow> ptr \<Rightarrow> addr list \<Rightarrow> ptr \<Rightarrow> bool" where
  "chain nx p [] q \<longleftrightarrow> p = q"
| "chain nx p (a # as) q \<longleftrightarrow> p = Some a \<and> chain nx (nx a) as q"

lemma chain_append [heap_simps]:
  "chain nx p (as @ bs) q \<longleftrightarrow> (\<exists>r. chain nx p as r \<and> chain nx r bs q)"
  by (induction as arbitrary: p) auto

lemma chain_upd [simp]: "u \<notin> set as \<Longrightarrow> chain (nx(u := v)) p as q = chain nx p as q"
  by (induction as arbitrary: p) auto

lemma chain_NULL_unique: "chain nx p as None \<Longrightarrow> chain nx p bs None \<Longrightarrow> as = bs"
proof (induction as arbitrary: p bs)
  case Nil
  then show ?case by (cases bs) auto
next
  case (Cons a as)
  then show ?case by (cases bs) auto
qed

lemma chain_NULL_distinct: "chain nx p as None \<Longrightarrow> distinct as"
proof (induction as arbitrary: p)
  case Nil
  then show ?case by simp
next
  case (Cons a as)
  have "a \<notin> set as"
  proof
    assume "a \<in> set as"
    then obtain us vs where as: "as = us @ a # vs" by (auto simp: in_set_conv_decomp)
    with Cons.prems have "chain nx (nx a) vs None" "chain nx (nx a) as None"
      by (auto simp: chain_append)
    then have "vs = as" by (rule chain_NULL_unique)
    with as show False by simp
  qed
  with Cons show ?case by auto
qed

lemma for_each_chain:
  assumes "chain (nxt s) p xs None"
    and "\<And>x s'. x \<in> set xs \<Longrightarrow> nxt s' = nxt s \<Longrightarrow>
           \<exists>s''. body x s' = Some s'' \<and> nxt s'' = nxt s"
  shows "for_each nxt body p s = run_body body xs s"
  using assms
proof (induction xs arbitrary: p s)
  case Nil
  then show ?case by simp
next
  case (Cons x xs)
  from Cons.prems(2)[of x s] obtain s'' where b: "body x s = Some s''" "nxt s'' = nxt s"
    by auto
  have "for_each nxt body (nxt s'' x) s'' = run_body body xs s''"
    by (rule Cons.IH) (use Cons.prems b in auto)
  with Cons.prems(1) b show ?case by simp
qed

lemma run_body_visit: "run_body visit xs (vs, s) = Some (vs @ xs, s)"
  by (induction xs arbitrary: vs) (auto simp: visit_def)

subsection \<open>Lists\<close>

lemma last_Cons_append_case: "last (x # xs) = (case xs of [] \<Rightarrow> x | _ \<Rightarrow> last xs)"
  by (cases xs) auto

lemma remove1_append_middle: "a \<notin> set us \<Longrightarrow> remove1 a (us @ a # vs) = us @ vs"
  by (simp add: remove1_append)

text \<open>List insertion next to a known element, the specification of the
  \<open>INSERT_AFTER\<close> and \<open>INSERT_BEFORE\<close> macros.\<close>

fun insert_after :: "'a \<Rightarrow> 'a \<Rightarrow> 'a list \<Rightarrow> 'a list" where
  "insert_after x y [] = []"
| "insert_after x y (z # zs) = (if z = x then z # y # zs else z # insert_after x y zs)"

fun insert_before :: "'a \<Rightarrow> 'a \<Rightarrow> 'a list \<Rightarrow> 'a list" where
  "insert_before x y [] = []"
| "insert_before x y (z # zs) = (if z = x then y # z # zs else z # insert_before x y zs)"

lemma insert_after_split: "x \<notin> set us \<Longrightarrow> insert_after x y (us @ x # vs) = us @ x # y # vs"
  by (induction us) auto

lemma insert_before_split: "x \<notin> set us \<Longrightarrow> insert_before x y (us @ x # vs) = us @ y # x # vs"
  by (induction us) auto

lemma set_insert_after: "x \<in> set xs \<Longrightarrow> set (insert_after x y xs) = insert y (set xs)"
  by (induction xs) auto

lemma set_insert_before: "x \<in> set xs \<Longrightarrow> set (insert_before x y xs) = insert y (set xs)"
  by (induction xs) auto

subsection \<open>Runs of operations and forward simulation\<close>

text \<open>
  A component offers a set of operations \<open>'op\<close>; \<open>run_ops\<close> performs a sequence of them on the
  concrete state (stopping at the first crash), \<open>fold\<close> performs them on the abstract
  value, and \<open>ops_ok\<close> says that every operation of the sequence is legal when its turn
  comes.  The locale states the one-step obligation a component proves; what it gives back
  is the statement about every legal sequence.
\<close>

fun run_ops :: "('op \<Rightarrow> 's \<Rightarrow> 's option) \<Rightarrow> 'op list \<Rightarrow> 's \<Rightarrow> 's option" where
  "run_ops step [] s = Some s"
| "run_ops step (x # xs) s = do { s' \<leftarrow> step x s; run_ops step xs s' }"

fun ops_ok :: "('op \<Rightarrow> 'a \<Rightarrow> bool) \<Rightarrow> ('op \<Rightarrow> 'a \<Rightarrow> 'a) \<Rightarrow> 'op list \<Rightarrow> 'a \<Rightarrow> bool" where
  "ops_ok ok astep [] a \<longleftrightarrow> True"
| "ops_ok ok astep (x # xs) a \<longleftrightarrow> ok x a \<and> ops_ok ok astep xs (astep x a)"

locale simulation =
  fixes rel :: "'s \<Rightarrow> 'a \<Rightarrow> bool"
    and cstep :: "'op \<Rightarrow> 's \<Rightarrow> 's option"
    and astep :: "'op \<Rightarrow> 'a \<Rightarrow> 'a"
    and ok :: "'op \<Rightarrow> 'a \<Rightarrow> bool"
  assumes step_sim: "rel s a \<Longrightarrow> ok x a \<Longrightarrow> \<exists>s'. cstep x s = Some s' \<and> rel s' (astep x a)"
begin

lemma run_sim:
  "rel s a \<Longrightarrow> ops_ok ok astep xs a \<Longrightarrow>
     \<exists>s'. run_ops cstep xs s = Some s' \<and> rel s' (fold astep xs a)"
proof (induction xs arbitrary: s a)
  case Nil
  then show ?case by simp
next
  case (Cons x xs)
  then obtain s' where s': "cstep x s = Some s'" "rel s' (astep x a)"
    using step_sim by fastforce
  from Cons.IH[OF s'(2)] Cons.prems(2) s'(1) show ?case by simp
qed

end

end
