(* ===== verification/Nty_Queue_Base.thy ===== *)
theory Nty_Queue_Base
  imports Clang_Prelude
begin

text \<open>
  What the four list families of \<^verbatim>\<open>kvstore/NtyCo/core/nty_queue.h\<close> share.

  The macros keep addresses of pointer cells (\<^verbatim>\<open>struct type **\<close>): the address of a head's
  first pointer or of an element's next pointer.  Such an address is a value of \<open>loc\<close>, and
  the memory of pointer cells a function \<open>loc \<Rightarrow> ptr\<close>, so that \<^verbatim>\<open>*p\<close> is application
  and \<^verbatim>\<open>*p = v\<close> is function update.  \<open>lseg\<close> and \<open>prevs\<close> are the forward and backward halves
  of a linked segment, \<open>end_loc\<close> the cell behind its last element.  \<open>list_op\<close> with
  \<open>list_op_spec\<close> is the abstract list every family is compared with.
\<close>

datatype loc = FirstOf nat | NextOf addr

type_synonym cells = "loc \<Rightarrow> ptr"

subsection \<open>Segments\<close>

fun lseg :: "cells \<Rightarrow> loc \<Rightarrow> addr list \<Rightarrow> bool" where
  "lseg c l [] \<longleftrightarrow> True"
| "lseg c l (a # as) \<longleftrightarrow> c l = Some a \<and> lseg c (NextOf a) as"

fun prevs :: "(addr \<Rightarrow> loc) \<Rightarrow> loc \<Rightarrow> addr list \<Rightarrow> bool" where
  "prevs p l [] \<longleftrightarrow> True"
| "prevs p l (a # as) \<longleftrightarrow> p a = l \<and> prevs p (NextOf a) as"

fun end_loc :: "loc \<Rightarrow> addr list \<Rightarrow> loc" where
  "end_loc l [] = l"
| "end_loc l (a # as) = end_loc (NextOf a) as"

text \<open>The list that starts in the cell \<open>FirstOf h\<close> and ends with \<open>NULL\<close>.\<close>

definition seg_list :: "cells \<Rightarrow> nat \<Rightarrow> addr list \<Rightarrow> bool" where
  "seg_list c h xs \<longleftrightarrow> lseg c (FirstOf h) xs \<and> c (end_loc (FirstOf h) xs) = None"

lemma end_loc_append [simp]: "end_loc l (as @ bs) = end_loc (end_loc l as) bs"
  by (induction as arbitrary: l) auto

lemma end_loc_last: "end_loc l as = (if as = [] then l else NextOf (last as))"
  by (induction as arbitrary: l) auto

lemma end_loc_NextOf: "end_loc (NextOf a) as = NextOf (last (a # as))"
  by (simp add: end_loc_last)

lemma lseg_append [simp]: "lseg c l (as @ bs) \<longleftrightarrow> lseg c l as \<and> lseg c (end_loc l as) bs"
  by (induction as arbitrary: l) auto

lemma prevs_append [simp]: "prevs p l (as @ bs) \<longleftrightarrow> prevs p l as \<and> prevs p (end_loc l as) bs"
  by (induction as arbitrary: l) auto

lemma prevs_upd [simp]: "a \<notin> set as \<Longrightarrow> prevs (p(a := v)) l as = prevs p l as"
  by (induction as arbitrary: l) auto

lemma end_loc_FirstOf [simp]: "end_loc (FirstOf h) us = FirstOf h' \<longleftrightarrow> us = [] \<and> h = h'"
  by (auto simp: end_loc_last)

lemma end_loc_NextOf_FirstOf [simp]: "end_loc (NextOf a) us \<noteq> FirstOf h"
  by (auto simp: end_loc_last)

lemma end_loc_FirstOf_NextOf:
  "end_loc (FirstOf h) us = NextOf a \<longleftrightarrow> us \<noteq> [] \<and> last us = a"
  by (auto simp: end_loc_last)

lemma end_loc_notin [simp]: "a \<notin> set us \<Longrightarrow> l \<noteq> NextOf a \<Longrightarrow> end_loc l us \<noteq> NextOf a"
  by (induction us arbitrary: l) auto

lemma NextOf_image [simp]: "NextOf a \<in> NextOf ` A \<longleftrightarrow> a \<in> A"
  by auto

lemma FirstOf_image [simp]: "FirstOf h \<notin> NextOf ` A"
  by auto

lemma end_loc_in_image: "end_loc (NextOf v) vs \<in> NextOf ` set (v # vs)"
  by (simp only: end_loc_NextOf) (blast intro: last_in_set)

text \<open>Which cells a segment reads: its own start and the next cells of all but its last
  element.\<close>

lemma lseg_upd [simp]:
  "l' \<noteq> l \<Longrightarrow> l' \<notin> NextOf ` set as \<Longrightarrow> lseg (c(l' := v)) l as = lseg c l as"
  by (induction as arbitrary: l) auto

lemma lseg_upd_end:
  assumes "distinct as" "l \<notin> NextOf ` set as" "as \<noteq> []"
  shows "lseg (c(end_loc l as := v)) l as = lseg c l as"
  using assms
proof (induction as arbitrary: l)
  case (Cons b as)
  show ?case
  proof (cases "as = []")
    case False
    then have "end_loc (NextOf b) as \<noteq> l"
      using Cons.prems by (auto simp: end_loc_last)
    moreover have "lseg (c(end_loc (NextOf b) as := v)) (NextOf b) as = lseg c (NextOf b) as"
      by (rule Cons.IH) (use Cons.prems False in auto)
    ultimately show ?thesis by (simp only: lseg.simps end_loc.simps) auto
  qed (use Cons.prems in auto)
qed simp

lemma lseg_upd_end_FirstOf [simp]:
  "distinct as \<Longrightarrow>
     lseg (c(end_loc (FirstOf h) as := v)) (FirstOf h) as = lseg c (FirstOf h) as"
  by (cases as) (simp, rule lseg_upd_end, auto)

lemma seg_list_chain:
  "seg_list c h xs \<longleftrightarrow> chain (\<lambda>a. c (NextOf a)) (c (FirstOf h)) xs None"
proof -
  have "lseg c l xs \<and> c (end_loc l xs) = None \<longleftrightarrow> chain (\<lambda>a. c (NextOf a)) (c l) xs None" for l
    by (induction xs arbitrary: l) auto
  from this[of "FirstOf h"] show ?thesis by (simp add: seg_list_def)
qed

lemma seg_list_distinct: "seg_list c h xs \<Longrightarrow> distinct xs"
  unfolding seg_list_chain by (rule chain_NULL_distinct)

lemma seg_list_unique: "seg_list c h xs \<Longrightarrow> seg_list c h ys \<Longrightarrow> xs = ys"
  unfolding seg_list_chain by (rule chain_NULL_unique)

lemma seg_list_first:
  "seg_list c h xs \<Longrightarrow> c (FirstOf h) = (case xs of [] \<Rightarrow> None | x # _ \<Rightarrow> Some x)"
  by (auto simp: seg_list_def split: list.splits)

lemma seg_list_next:
  "seg_list c h (us @ a # vs) \<Longrightarrow> c (NextOf a) = (case vs of [] \<Rightarrow> None | v # _ \<Rightarrow> Some v)"
  by (auto simp: seg_list_def split: list.splits)

text \<open>Cell updates that insert into and delete from a list.\<close>

lemma seg_list_insert:
  assumes s: "seg_list c h (us @ vs)" and a: "a \<notin> set (us @ vs)"
  shows "seg_list (c(NextOf a := c (end_loc (FirstOf h) us), end_loc (FirstOf h) us := Some a))
           h (us @ a # vs)"
proof -
  have d: "distinct (us @ vs)" using s by (rule seg_list_distinct)
  have e: "end_loc (FirstOf h) us \<noteq> NextOf a"
    using a by simp
  have u: "lseg (c(NextOf a := w, end_loc (FirstOf h) us := Some a)) (FirstOf h) us" for w
    using s d a by (simp add: seg_list_def image_iff)
  have n: "end_loc (FirstOf h) us \<notin> NextOf ` set (a # vs)"
    using a d by (auto simp: end_loc_last disjoint_iff split: if_splits)
  show ?thesis
  proof (cases vs)
    case Nil
    with s u e n show ?thesis by (auto simp: seg_list_def)
  next
    case (Cons v vs')
    moreover have "lseg (c(NextOf a := Some v, end_loc (FirstOf h) us := Some a)) (NextOf v) vs'"
      using s a n Cons by (subst lseg_upd; auto simp: seg_list_def)
    moreover have "end_loc (NextOf v) vs' \<noteq> NextOf a"
      using a Cons by simp
    moreover have "end_loc (NextOf v) vs' \<noteq> end_loc (FirstOf h) us"
    proof
      assume e: "end_loc (NextOf v) vs' = end_loc (FirstOf h) us"
      have "end_loc (NextOf v) vs' \<in> NextOf ` set (a # vs)"
        using end_loc_in_image[of v vs'] Cons by auto
      then have "end_loc (FirstOf h) us \<in> NextOf ` set (a # vs)" by (simp only: e)
      with n show False by (rule notE)
    qed
    ultimately show ?thesis using s u e by (auto simp: seg_list_def)
  qed
qed

lemma seg_list_delete:
  assumes s: "seg_list c h (us @ a # vs)"
  shows "seg_list (c(end_loc (FirstOf h) us := c (NextOf a))) h (us @ vs)"
proof -
  have d: "distinct (us @ a # vs)" using s by (rule seg_list_distinct)
  then have n: "end_loc (FirstOf h) us \<notin> NextOf ` set vs"
    by (auto simp: end_loc_last disjoint_iff split: if_splits)
  show ?thesis
  proof (cases vs)
    case Nil
    with s d show ?thesis by (auto simp: seg_list_def)
  next
    case (Cons v vs')
    moreover have "end_loc (NextOf v) vs' \<noteq> end_loc (FirstOf h) us"
      using n Cons end_loc_in_image[of v vs'] by metis
    ultimately show ?thesis using s d n by (auto simp: seg_list_def)
  qed
qed

lemma seg_list_concat:
  assumes s1: "seg_list c h1 xs" and s2: "seg_list c h2 ys"
    and d: "set xs \<inter> set ys = {}" and h: "h1 \<noteq> h2"
  shows "seg_list (c(end_loc (FirstOf h1) xs := c (FirstOf h2), FirstOf h2 := None)) h1 (xs @ ys)"
proof -
  have dx: "distinct xs" using s1 by (rule seg_list_distinct)
  have n: "end_loc (FirstOf h1) xs \<notin> NextOf ` set ys"
    using d by (auto simp: end_loc_last disjoint_iff split: if_splits)
  have e: "end_loc (FirstOf h1) xs \<noteq> FirstOf h2" using h by simp
  have x: "lseg (c(end_loc (FirstOf h1) xs := v, FirstOf h2 := None)) (FirstOf h1) xs" for v
    using s1 dx h by (subst lseg_upd) (auto simp: seg_list_def)
  show ?thesis
  proof (cases ys)
    case Nil
    with s2 x e show ?thesis by (simp add: seg_list_def)
  next
    case (Cons y ys')
    have "end_loc (NextOf y) ys' \<noteq> end_loc (FirstOf h1) xs"
    proof
      assume eq: "end_loc (NextOf y) ys' = end_loc (FirstOf h1) xs"
      have "end_loc (NextOf y) ys' \<in> NextOf ` set ys"
        using end_loc_in_image[of y ys'] Cons by simp
      then have "end_loc (FirstOf h1) xs \<in> NextOf ` set ys" by (simp only: eq)
      with n show False by (rule notE)
    qed
    with s2 x e n Cons show ?thesis by (auto simp: seg_list_def)
  qed
qed

lemma seg_list_swap:
  assumes "seg_list c h1 xs" "seg_list c h2 ys" "h1 \<noteq> h2"
  shows "seg_list (c(FirstOf h1 := c (FirstOf h2), FirstOf h2 := c (FirstOf h1))) h1 ys"
    and "seg_list (c(FirstOf h1 := c (FirstOf h2), FirstOf h2 := c (FirstOf h1))) h2 xs"
  using assms by (auto simp: seg_list_chain)

text \<open>A list that shares no cell with the update is not affected by it.\<close>

lemma seg_list_upd_other [simp]:
  "l \<noteq> FirstOf h \<Longrightarrow> l \<notin> NextOf ` set xs \<Longrightarrow> seg_list (c(l := v)) h xs = seg_list c h xs"
  by (auto simp: seg_list_def end_loc_last)

subsection \<open>The abstract list\<close>

datatype list_op =
    Ins_head addr | Ins_tail addr | Ins_after addr addr | Ins_before addr addr | Del addr

fun list_op_spec :: "list_op \<Rightarrow> addr list \<Rightarrow> addr list" where
  "list_op_spec (Ins_head a) xs = a # xs"
| "list_op_spec (Ins_tail a) xs = xs @ [a]"
| "list_op_spec (Ins_after b a) xs = insert_after b a xs"
| "list_op_spec (Ins_before b a) xs = insert_before b a xs"
| "list_op_spec (Del a) xs = remove1 a xs"

fun list_op_ok :: "list_op \<Rightarrow> addr list \<Rightarrow> bool" where
  "list_op_ok (Ins_head a) xs \<longleftrightarrow> a \<notin> set xs"
| "list_op_ok (Ins_tail a) xs \<longleftrightarrow> a \<notin> set xs"
| "list_op_ok (Ins_after b a) xs \<longleftrightarrow> b \<in> set xs \<and> a \<notin> set xs"
| "list_op_ok (Ins_before b a) xs \<longleftrightarrow> b \<in> set xs \<and> a \<notin> set xs"
| "list_op_ok (Del a) xs \<longleftrightarrow> a \<in> set xs"

subsection \<open>The interface of the list families\<close>

text \<open>\<open>seq_list\<close> is what every family offers, \<open>seq_before\<close> adds insertion before an
  element (the families with back links), \<open>seq_queue\<close> insertion at the tail.\<close>

locale seq_list =
  fixes repr :: "'s \<Rightarrow> nat \<Rightarrow> addr list \<Rightarrow> bool"
    and init :: "nat \<Rightarrow> 's \<Rightarrow> 's"
    and first :: "nat \<Rightarrow> 's \<Rightarrow> ptr"
    and nxt :: "addr \<Rightarrow> 's \<Rightarrow> ptr"
    and ins_head :: "nat \<Rightarrow> addr \<Rightarrow> 's \<Rightarrow> 's"
    and ins_after :: "nat \<Rightarrow> addr \<Rightarrow> addr \<Rightarrow> 's \<Rightarrow> 's"
    and del :: "nat \<Rightarrow> addr \<Rightarrow> 's \<Rightarrow> 's option"
  assumes repr_distinct: "repr s h xs \<Longrightarrow> distinct xs"
    and repr_init: "repr (init h s) h []"
    and repr_first: "repr s h xs \<Longrightarrow> first h s = (case xs of [] \<Rightarrow> None | x # _ \<Rightarrow> Some x)"
    and repr_next:
      "repr s h (us @ a # vs) \<Longrightarrow> nxt a s = (case vs of [] \<Rightarrow> None | v # _ \<Rightarrow> Some v)"
    and repr_ins_head: "repr s h xs \<Longrightarrow> a \<notin> set xs \<Longrightarrow> repr (ins_head h a s) h (a # xs)"
    and repr_ins_after:
      "repr s h (us @ b # vs) \<Longrightarrow> a \<notin> set (us @ b # vs) \<Longrightarrow>
         repr (ins_after h b a s) h (us @ b # a # vs)"
    and repr_del:
      "repr s h (us @ a # vs) \<Longrightarrow> \<exists>s'. del h a s = Some s' \<and> repr s' h (us @ vs)"
begin

lemma ins_after_spec:
  assumes "repr s h xs" "b \<in> set xs" "a \<notin> set xs"
  shows "repr (ins_after h b a s) h (insert_after b a xs)"
proof -
  from assms(2) obtain us vs where xs: "xs = us @ b # vs" "b \<notin> set us"
    by (meson split_list_first)
  with repr_ins_after[of s h us b vs a] assms show ?thesis
    by (simp add: insert_after_split)
qed

lemma del_spec:
  assumes "repr s h xs" "a \<in> set xs"
  shows "\<exists>s'. del h a s = Some s' \<and> repr s' h (remove1 a xs)"
proof -
  from assms(2) obtain us vs where xs: "xs = us @ a # vs" "a \<notin> set us"
    by (meson split_list_first)
  with repr_del[of s h us a vs] assms show ?thesis
    by (simp add: remove1_append_middle)
qed

text \<open>The plain traversal visits the elements in list order; the safe traversal may delete
  each element it visits, and then leaves the list empty.\<close>

lemma foreach_visits:
  assumes "repr s h xs"
  shows "for_each (\<lambda>st v. nxt v (snd st)) visit (first h s) ([], s) = Some (xs, s)"
proof -
  have "xs = us @ vs \<Longrightarrow>
      for_each (\<lambda>st v. nxt v (snd st)) visit (case vs of [] \<Rightarrow> None | v # _ \<Rightarrow> Some v) (us, s)
        = Some (xs, s)" for us vs
  proof (induction vs arbitrary: us)
    case (Cons v vs)
    with assms have "nxt v s = (case vs of [] \<Rightarrow> None | v # _ \<Rightarrow> Some v)"
      by (auto intro: repr_next)
    with Cons.IH[of "us @ [v]"] Cons.prems show ?case by (simp add: visit_def)
  qed simp
  from this[of "[]" xs] repr_first[OF assms] show ?thesis by simp
qed

lemma foreach_safe_drain:
  assumes "repr s h xs"
  shows "\<exists>s'. for_each_safe (\<lambda>st v. nxt v (snd st))
                (\<lambda>v st. do { s' \<leftarrow> del h v (snd st); Some (fst st @ [v], s') })
                (first h s) (us, s) = Some (us @ xs, s') \<and> repr s' h []"
  using assms
proof (induction xs arbitrary: s us)
  case Nil
  then show ?case by (simp add: repr_first)
next
  case (Cons x xs)
  from Cons.prems obtain s' where d: "del h x s = Some s'" "repr s' h xs"
    using repr_del[of s h "[]" x xs] by auto
  have "nxt x s = first h s'"
    using repr_next[of s h "[]" x xs] repr_first[OF d(2)] Cons.prems by simp
  with Cons.IH[OF d(2), of "us @ [x]"] d(1) repr_first[OF Cons.prems] show ?case by simp
qed

lemma push_all:
  "repr s h ys \<Longrightarrow> distinct (xs @ ys) \<Longrightarrow> repr (fold (ins_head h) xs s) h (rev xs @ ys)"
proof (induction xs arbitrary: s ys)
  case (Cons x xs)
  then have "repr (ins_head h x s) h (x # ys)" by (auto intro: repr_ins_head)
  from Cons.IH[OF this] Cons.prems(2) show ?case by simp
qed simp

end

locale seq_before = seq_list +
  fixes ins_before :: "nat \<Rightarrow> addr \<Rightarrow> addr \<Rightarrow> 's \<Rightarrow> 's"
  assumes repr_ins_before:
      "repr s h (us @ b # vs) \<Longrightarrow> a \<notin> set (us @ b # vs) \<Longrightarrow>
         repr (ins_before h b a s) h (us @ a # b # vs)"
begin

lemma ins_before_spec:
  assumes "repr s h xs" "b \<in> set xs" "a \<notin> set xs"
  shows "repr (ins_before h b a s) h (insert_before b a xs)"
proof -
  from assms(2) obtain us vs where xs: "xs = us @ b # vs" "b \<notin> set us"
    by (meson split_list_first)
  with repr_ins_before[of s h us b vs a] assms show ?thesis
    by (simp add: insert_before_split)
qed

end

locale seq_queue = seq_list +
  fixes ins_tail :: "nat \<Rightarrow> addr \<Rightarrow> 's \<Rightarrow> 's"
  assumes repr_ins_tail: "repr s h xs \<Longrightarrow> a \<notin> set xs \<Longrightarrow> repr (ins_tail h a s) h (xs @ [a])"
begin

lemma enqueue_all:
  "repr s h ys \<Longrightarrow> distinct (ys @ xs) \<Longrightarrow> repr (fold (ins_tail h) xs s) h (ys @ xs)"
proof (induction xs arbitrary: s ys)
  case (Cons x xs)
  then have "repr (ins_tail h x s) h (ys @ [x])" by (auto intro: repr_ins_tail)
  from Cons.IH[OF this] Cons.prems(2) show ?case by simp
qed simp

end

end
