(* ===== verification/Nty_Slist.thy ===== *)
theory Nty_Slist
  imports Nty_Queue_Base
begin

text \<open>
  The singly-linked lists (\<^verbatim>\<open>SLIST_*\<close>) of \<^verbatim>\<open>nty_queue.h\<close>, lines 85-159, without
  \<^verbatim>\<open>QUEUE_MACRO_DEBUG\<close> (so \<^verbatim>\<open>TRASHIT\<close> expands to nothing).  A state holds the first
  pointer of every head and the next pointer of every element.  Each macro is one
  definition; those that dereference a pointer yield \<open>None\<close> when it is \<open>NULL\<close>.
\<close>

record slist =
  slh_first :: "nat \<Rightarrow> ptr"
  sle_next :: "addr \<Rightarrow> ptr"

definition SLIST_EMPTY :: "nat \<Rightarrow> slist \<Rightarrow> bool" where
  "SLIST_EMPTY head s \<longleftrightarrow> slh_first s head = None"

definition SLIST_FIRST :: "nat \<Rightarrow> slist \<Rightarrow> ptr" where
  "SLIST_FIRST head s = slh_first s head"

definition SLIST_NEXT :: "addr \<Rightarrow> slist \<Rightarrow> ptr" where
  "SLIST_NEXT elm s = sle_next s elm"

definition SLIST_FOREACH ::
  "(addr \<Rightarrow> 'b \<times> slist \<Rightarrow> ('b \<times> slist) option) \<Rightarrow> nat \<Rightarrow> 'b \<times> slist \<Rightarrow> ('b \<times> slist) option" where
  "SLIST_FOREACH body head st =
     for_each (\<lambda>st v. SLIST_NEXT v (snd st)) body (SLIST_FIRST head (snd st)) st"

definition SLIST_FOREACH_SAFE ::
  "(addr \<Rightarrow> 'b \<times> slist \<Rightarrow> ('b \<times> slist) option) \<Rightarrow> nat \<Rightarrow> 'b \<times> slist \<Rightarrow> ('b \<times> slist) option" where
  "SLIST_FOREACH_SAFE body head st =
     for_each_safe (\<lambda>st v. SLIST_NEXT v (snd st)) body (SLIST_FIRST head (snd st)) st"

text \<open>\<open>SLIST_FOREACH_PREVPTR\<close>: \<open>varp\<close> runs over the addresses of the pointers, \<open>var\<close> is
  what they hold; the result lists the pairs the body would see.\<close>

fun load :: "slist \<Rightarrow> loc \<Rightarrow> ptr" where
  "load s (FirstOf h) = slh_first s h"
| "load s (NextOf a) = sle_next s a"

partial_function (option) slist_prevptr_loop :: "slist \<Rightarrow> loc \<Rightarrow> (addr \<times> loc) list option" where
  "slist_prevptr_loop s varp =
     (case load s varp of
        None \<Rightarrow> Some []
      | Some var \<Rightarrow> do { rest \<leftarrow> slist_prevptr_loop s (NextOf var); Some ((var, varp) # rest) })"

definition SLIST_FOREACH_PREVPTR :: "nat \<Rightarrow> slist \<Rightarrow> (addr \<times> loc) list option" where
  "SLIST_FOREACH_PREVPTR head s = slist_prevptr_loop s (FirstOf head)"

definition SLIST_INIT :: "nat \<Rightarrow> slist \<Rightarrow> slist" where
  "SLIST_INIT head s = s\<lparr>slh_first := (slh_first s)(head := None)\<rparr>"

definition SLIST_INSERT_AFTER :: "addr \<Rightarrow> addr \<Rightarrow> slist \<Rightarrow> slist" where
  "SLIST_INSERT_AFTER slistelm elm s =
     (let s1 = s\<lparr>sle_next := (sle_next s)(elm := sle_next s slistelm)\<rparr>
      in s1\<lparr>sle_next := (sle_next s1)(slistelm := Some elm)\<rparr>)"

definition SLIST_INSERT_HEAD :: "nat \<Rightarrow> addr \<Rightarrow> slist \<Rightarrow> slist" where
  "SLIST_INSERT_HEAD head elm s =
     (let s1 = s\<lparr>sle_next := (sle_next s)(elm := slh_first s head)\<rparr>
      in s1\<lparr>slh_first := (slh_first s1)(head := Some elm)\<rparr>)"

definition SLIST_REMOVE_AFTER :: "addr \<Rightarrow> slist \<Rightarrow> slist option" where
  "SLIST_REMOVE_AFTER elm s =
     do { nx \<leftarrow> sle_next s elm;
          Some (s\<lparr>sle_next := (sle_next s)(elm := sle_next s nx)\<rparr>) }"

definition SLIST_REMOVE_HEAD :: "nat \<Rightarrow> slist \<Rightarrow> slist option" where
  "SLIST_REMOVE_HEAD head s =
     do { fst_elm \<leftarrow> slh_first s head;
          Some (s\<lparr>slh_first := (slh_first s)(head := sle_next s fst_elm)\<rparr>) }"

text \<open>The search loop of \<open>SLIST_REMOVE\<close>: advance \<open>curelm\<close> until its successor is \<open>elm\<close>.\<close>

partial_function (option) slist_find_prev :: "addr \<Rightarrow> ptr \<Rightarrow> slist \<Rightarrow> addr option" where
  "slist_find_prev elm curelm s =
     do { c \<leftarrow> curelm;
          if sle_next s c \<noteq> Some elm then slist_find_prev elm (sle_next s c) s else Some c }"

definition SLIST_REMOVE :: "nat \<Rightarrow> addr \<Rightarrow> slist \<Rightarrow> slist option" where
  "SLIST_REMOVE head elm s =
     (if slh_first s head = Some elm then SLIST_REMOVE_HEAD head s
      else do { curelm \<leftarrow> slist_find_prev elm (slh_first s head) s;
                SLIST_REMOVE_AFTER curelm s })"

declare slist_prevptr_loop.simps [code] slist_find_prev.simps [code]

lemmas slist_defs =
  SLIST_EMPTY_def SLIST_FIRST_def SLIST_NEXT_def SLIST_INIT_def SLIST_INSERT_AFTER_def
  SLIST_INSERT_HEAD_def SLIST_REMOVE_AFTER_def SLIST_REMOVE_HEAD_def SLIST_REMOVE_def

subsection \<open>Representation\<close>

definition slist_repr :: "slist \<Rightarrow> nat \<Rightarrow> addr list \<Rightarrow> bool" where
  "slist_repr s head xs \<longleftrightarrow> chain (sle_next s) (slh_first s head) xs None"

lemma slist_find_prev_found:
  "chain (sle_next s) p (us @ [c, elm]) q \<Longrightarrow> elm \<notin> set (us @ [c]) \<Longrightarrow>
     slist_find_prev elm p s = Some c"
proof (induction us arbitrary: p)
  case Nil
  then show ?case by (subst slist_find_prev.simps) simp
next
  case (Cons u us)
  then have "sle_next s u \<noteq> Some elm" by (cases us) auto
  with Cons show ?case by (subst slist_find_prev.simps) simp
qed

lemma slist_remove_middle:
  assumes r: "slist_repr s h (us @ [c, a] @ vs)"
  shows "\<exists>s'. SLIST_REMOVE h a s = Some s' \<and> slist_repr s' h (us @ c # vs)"
proof -
  have d: "distinct (us @ [c, a] @ vs)"
    using r unfolding slist_repr_def by (rule chain_NULL_distinct)
  from r obtain q where "chain (sle_next s) (slh_first s h) (us @ [c, a]) q"
    by (auto simp: slist_repr_def chain_append)
  with d have "slist_find_prev a (slh_first s h) s = Some c"
    by (intro slist_find_prev_found) auto
  moreover have "slh_first s h \<noteq> Some a"
    using r d by (cases us) (auto simp: slist_repr_def)
  ultimately show ?thesis
    using r d by (auto simp: slist_defs slist_repr_def chain_append)
qed

interpretation sl: seq_list slist_repr SLIST_INIT SLIST_FIRST SLIST_NEXT SLIST_INSERT_HEAD
  "\<lambda>_. SLIST_INSERT_AFTER" SLIST_REMOVE
proof (unfold_locales, goal_cases)
  case 1 then show ?case by (auto simp: slist_repr_def dest: chain_NULL_distinct)
next
  case 2 show ?case by (simp add: slist_defs slist_repr_def)
next
  case 3 then show ?case by (auto simp: slist_defs slist_repr_def split: list.splits)
next
  case (4 s h us a vs)
  then show ?case by (auto simp: slist_defs slist_repr_def chain_append split: list.splits)
next
  case 5 then show ?case by (auto simp: slist_defs slist_repr_def Let_def)
next
  case (6 s h us b vs a)
  then have "distinct (us @ b # vs)"
    unfolding slist_repr_def by (blast intro: chain_NULL_distinct)
  with 6 show ?case by (auto simp: slist_defs slist_repr_def Let_def chain_append)
next
  case (7 s h us a vs)
  show ?case
  proof (cases us rule: rev_cases)
    case Nil
    with 7 show ?thesis by (auto simp: slist_defs slist_repr_def)
  next
    case (snoc ys c)
    with 7 slist_remove_middle[of s h ys c a vs] show ?thesis by simp
  qed
qed

text \<open>One macro call of a client that keeps its elements on the list \<open>head\<close>.\<close>

fun slist_step :: "nat \<Rightarrow> list_op \<Rightarrow> slist \<Rightarrow> slist option" where
  "slist_step head (Ins_head a) s = Some (SLIST_INSERT_HEAD head a s)"
| "slist_step head (Ins_after b a) s = Some (SLIST_INSERT_AFTER b a s)"
| "slist_step head (Del a) s = SLIST_REMOVE head a s"
| "slist_step head (Ins_tail a) s = None"
| "slist_step head (Ins_before b a) s = None"

fun slist_op_ok :: "list_op \<Rightarrow> addr list \<Rightarrow> bool" where
  "slist_op_ok (Ins_tail a) xs = False"
| "slist_op_ok (Ins_before b a) xs = False"
| "slist_op_ok x xs = list_op_ok x xs"

interpretation sls: simulation "\<lambda>s. slist_repr s h" "slist_step h" list_op_spec slist_op_ok for h
proof (unfold_locales, goal_cases)
  case (1 s xs x)
  then show ?case
    by (cases x) (auto intro: sl.repr_ins_head sl.ins_after_spec sl.del_spec)
qed

lemma slist_foreach_visits:
  "slist_repr s h xs \<Longrightarrow> SLIST_FOREACH visit h ([], s) = Some (xs, s)"
  by (simp add: SLIST_FOREACH_def sl.foreach_visits)

subsection \<open>Properties\<close>

text \<open>Any legal sequence of \<^verbatim>\<open>SLIST_INSERT_HEAD\<close>, \<^verbatim>\<open>SLIST_INSERT_AFTER\<close> and
  \<^verbatim>\<open>SLIST_REMOVE\<close> on a freshly initialised list runs without a \<open>NULL\<close> dereference and
  terminates (the search loop of \<^verbatim>\<open>SLIST_REMOVE\<close> included), and \<^verbatim>\<open>SLIST_FOREACH\<close> then visits
  exactly the abstract list that the same operations build.\<close>

theorem slist_refines_list:
  assumes "ops_ok slist_op_ok list_op_spec ops []"
  shows "\<exists>s'. run_ops (slist_step h) ops (SLIST_INIT h s) = Some s'
           \<and> SLIST_FOREACH visit h ([], s') = Some (fold list_op_spec ops [], s')"
  using sls.run_sim[OF sl.repr_init assms] slist_foreach_visits by blast

theorem slist_refines_list_witness:
  "ops_ok slist_op_ok list_op_spec [Ins_head 1, Ins_after 1 2, Ins_head 3, Del 2] []
   \<and> (\<exists>s'. run_ops (slist_step 0) [Ins_head 1, Ins_after 1 2, Ins_head 3, Del 2]
            (SLIST_INIT 0 \<lparr>slh_first = (\<lambda>_. Some 9), sle_next = (\<lambda>_. None)\<rparr>) = Some s'
        \<and> SLIST_FOREACH visit 0 ([], s') = Some ([3, 1], s'))"
  using slist_refines_list[of "[Ins_head 1, Ins_after 1 2, Ins_head 3, Del 2]" 0
      "\<lparr>slh_first = (\<lambda>_. Some 9), sle_next = (\<lambda>_. None)\<rparr>"]
  by (simp del: run_ops.simps)

end
