(* ===== verification/Nty_Stailq.thy ===== *)
theory Nty_Stailq
  imports Nty_Queue_Base
begin

text \<open>
  The singly-linked tail queues (\<^verbatim>\<open>STAILQ_*\<close>) of \<^verbatim>\<open>nty_queue.h\<close>, lines 166-273.  A head
  keeps, beside its first pointer, the address \<open>stqh_last\<close> of the cell that holds the
  terminating \<open>NULL\<close>; a queue is well formed when that address is right.
\<close>

record stailq =
  stq_cells :: cells
  stqh_last :: "nat \<Rightarrow> loc"

definition STAILQ_FIRST :: "nat \<Rightarrow> stailq \<Rightarrow> ptr" where
  "STAILQ_FIRST head s = stq_cells s (FirstOf head)"

definition STAILQ_NEXT :: "addr \<Rightarrow> stailq \<Rightarrow> ptr" where
  "STAILQ_NEXT elm s = stq_cells s (NextOf elm)"

definition STAILQ_EMPTY :: "nat \<Rightarrow> stailq \<Rightarrow> bool" where
  "STAILQ_EMPTY head s \<longleftrightarrow> STAILQ_FIRST head s = None"

definition stq_store :: "loc \<Rightarrow> ptr \<Rightarrow> stailq \<Rightarrow> stailq" where
  "stq_store l v s = s\<lparr>stq_cells := (stq_cells s)(l := v)\<rparr>"

definition stq_set_last :: "nat \<Rightarrow> loc \<Rightarrow> stailq \<Rightarrow> stailq" where
  "stq_set_last head l s = s\<lparr>stqh_last := (stqh_last s)(head := l)\<rparr>"

definition STAILQ_INIT :: "nat \<Rightarrow> stailq \<Rightarrow> stailq" where
  "STAILQ_INIT head s = stq_set_last head (FirstOf head) (stq_store (FirstOf head) None s)"

definition STAILQ_CONCAT :: "nat \<Rightarrow> nat \<Rightarrow> stailq \<Rightarrow> stailq" where
  "STAILQ_CONCAT head1 head2 s =
     (if \<not> STAILQ_EMPTY head2 s then
        let s1 = stq_store (stqh_last s head1) (STAILQ_FIRST head2 s) s;
            s2 = stq_set_last head1 (stqh_last s1 head2) s1
        in STAILQ_INIT head2 s2
      else s)"

definition STAILQ_FOREACH ::
  "(addr \<Rightarrow> 'b \<times> stailq \<Rightarrow> ('b \<times> stailq) option) \<Rightarrow> nat \<Rightarrow> 'b \<times> stailq \<Rightarrow> ('b \<times> stailq) option" where
  "STAILQ_FOREACH body head st =
     for_each (\<lambda>st v. STAILQ_NEXT v (snd st)) body (STAILQ_FIRST head (snd st)) st"

definition STAILQ_FOREACH_SAFE ::
  "(addr \<Rightarrow> 'b \<times> stailq \<Rightarrow> ('b \<times> stailq) option) \<Rightarrow> nat \<Rightarrow> 'b \<times> stailq \<Rightarrow> ('b \<times> stailq) option" where
  "STAILQ_FOREACH_SAFE body head st =
     for_each_safe (\<lambda>st v. STAILQ_NEXT v (snd st)) body (STAILQ_FIRST head (snd st)) st"

definition STAILQ_INSERT_AFTER :: "nat \<Rightarrow> addr \<Rightarrow> addr \<Rightarrow> stailq \<Rightarrow> stailq" where
  "STAILQ_INSERT_AFTER head tqelm elm s =
     (let s1 = stq_store (NextOf elm) (STAILQ_NEXT tqelm s) s;
          s2 = (if STAILQ_NEXT elm s1 = None then stq_set_last head (NextOf elm) s1 else s1)
      in stq_store (NextOf tqelm) (Some elm) s2)"

definition STAILQ_INSERT_HEAD :: "nat \<Rightarrow> addr \<Rightarrow> stailq \<Rightarrow> stailq" where
  "STAILQ_INSERT_HEAD head elm s =
     (let s1 = stq_store (NextOf elm) (STAILQ_FIRST head s) s;
          s2 = (if STAILQ_NEXT elm s1 = None then stq_set_last head (NextOf elm) s1 else s1)
      in stq_store (FirstOf head) (Some elm) s2)"

definition STAILQ_INSERT_TAIL :: "nat \<Rightarrow> addr \<Rightarrow> stailq \<Rightarrow> stailq" where
  "STAILQ_INSERT_TAIL head elm s =
     (let s1 = stq_store (NextOf elm) None s;
          s2 = stq_store (stqh_last s1 head) (Some elm) s1
      in stq_set_last head (NextOf elm) s2)"

text \<open>\<open>STAILQ_LAST\<close> subtracts the field's offset from \<open>stqh_last\<close>: the element that contains
  the cell.  If the cell is not in an element the result is no object (outer \<open>None\<close>).\<close>

definition STAILQ_LAST :: "nat \<Rightarrow> stailq \<Rightarrow> ptr option" where
  "STAILQ_LAST head s =
     (if STAILQ_EMPTY head s then Some None
      else (case stqh_last s head of NextOf e \<Rightarrow> Some (Some e) | FirstOf _ \<Rightarrow> None))"

definition STAILQ_REMOVE_HEAD :: "nat \<Rightarrow> stailq \<Rightarrow> stailq option" where
  "STAILQ_REMOVE_HEAD head s =
     do { e \<leftarrow> STAILQ_FIRST head s;
          let s1 = stq_store (FirstOf head) (STAILQ_NEXT e s) s;
          Some (if STAILQ_FIRST head s1 = None then stq_set_last head (FirstOf head) s1 else s1) }"

definition STAILQ_REMOVE_AFTER :: "nat \<Rightarrow> addr \<Rightarrow> stailq \<Rightarrow> stailq option" where
  "STAILQ_REMOVE_AFTER head elm s =
     do { nx \<leftarrow> STAILQ_NEXT elm s;
          let s1 = stq_store (NextOf elm) (STAILQ_NEXT nx s) s;
          Some (if STAILQ_NEXT elm s1 = None then stq_set_last head (NextOf elm) s1 else s1) }"

partial_function (option) stailq_find_prev :: "addr \<Rightarrow> ptr \<Rightarrow> stailq \<Rightarrow> addr option" where
  "stailq_find_prev elm curelm s =
     do { c \<leftarrow> curelm;
          if STAILQ_NEXT c s \<noteq> Some elm then stailq_find_prev elm (STAILQ_NEXT c s) s
          else Some c }"

declare stailq_find_prev.simps [code]

definition STAILQ_REMOVE :: "nat \<Rightarrow> addr \<Rightarrow> stailq \<Rightarrow> stailq option" where
  "STAILQ_REMOVE head elm s =
     (if STAILQ_FIRST head s = Some elm then STAILQ_REMOVE_HEAD head s
      else do { curelm \<leftarrow> stailq_find_prev elm (STAILQ_FIRST head s) s;
                STAILQ_REMOVE_AFTER head curelm s })"

definition STAILQ_SWAP :: "nat \<Rightarrow> nat \<Rightarrow> stailq \<Rightarrow> stailq" where
  "STAILQ_SWAP head1 head2 s =
     (let swap_first = STAILQ_FIRST head1 s;
          swap_last = stqh_last s head1;
          s1 = stq_store (FirstOf head1) (STAILQ_FIRST head2 s) s;
          s2 = stq_set_last head1 (stqh_last s1 head2) s1;
          s3 = stq_store (FirstOf head2) swap_first s2;
          s4 = stq_set_last head2 swap_last s3;
          s5 = (if STAILQ_EMPTY head1 s4 then stq_set_last head1 (FirstOf head1) s4 else s4)
      in (if STAILQ_EMPTY head2 s5 then stq_set_last head2 (FirstOf head2) s5 else s5))"

lemmas stailq_defs =
  STAILQ_FIRST_def STAILQ_NEXT_def STAILQ_EMPTY_def stq_store_def stq_set_last_def
  STAILQ_INIT_def STAILQ_CONCAT_def STAILQ_INSERT_AFTER_def STAILQ_INSERT_HEAD_def
  STAILQ_INSERT_TAIL_def STAILQ_LAST_def STAILQ_REMOVE_HEAD_def STAILQ_REMOVE_AFTER_def
  STAILQ_REMOVE_def STAILQ_SWAP_def Let_def

subsection \<open>Representation\<close>

definition stailq_repr :: "stailq \<Rightarrow> nat \<Rightarrow> addr list \<Rightarrow> bool" where
  "stailq_repr s head xs \<longleftrightarrow>
     seg_list (stq_cells s) head xs \<and> stqh_last s head = end_loc (FirstOf head) xs"

lemma stailq_repr_distinct: "stailq_repr s h xs \<Longrightarrow> distinct xs"
  by (auto simp: stailq_repr_def intro: seg_list_distinct)

lemma stailq_find_prev_found:
  "lseg (stq_cells s) l (us @ [c, elm]) \<Longrightarrow> elm \<notin> set (us @ [c]) \<Longrightarrow>
     stailq_find_prev elm (stq_cells s l) s = Some c"
proof (induction us arbitrary: l)
  case Nil
  then show ?case by (subst stailq_find_prev.simps) (simp add: STAILQ_NEXT_def)
next
  case (Cons u us)
  then have "stq_cells s (NextOf u) \<noteq> Some elm" by (cases us) auto
  with Cons show ?case by (subst stailq_find_prev.simps) (simp add: STAILQ_NEXT_def)
qed

lemma stailq_remove_repr:
  assumes r: "stailq_repr s h (us @ a # vs)"
  shows "\<exists>s'. STAILQ_REMOVE h a s = Some s' \<and> stailq_repr s' h (us @ vs)"
proof -
  let ?c = "stq_cells s" and ?l = "end_loc (FirstOf h) us"
  from r have sl: "seg_list ?c h (us @ a # vs)" and la: "stqh_last s h = end_loc (FirstOf h) (us @ a # vs)"
    by (auto simp: stailq_repr_def)
  have d: "distinct (us @ a # vs)" using sl by (rule seg_list_distinct)
  have nx: "?c (NextOf a) = (case vs of [] \<Rightarrow> None | v # _ \<Rightarrow> Some v)"
    using sl by (rule seg_list_next)
  note del = seg_list_delete[OF sl]
  show ?thesis
  proof (cases us rule: rev_cases)
    case Nil
    with sl la nx del show ?thesis
      by (auto simp: stailq_defs stailq_repr_def seg_list_first end_loc_last split: list.splits)
  next
    case (snoc ys c)
    have f: "stailq_find_prev a (?c (FirstOf h)) s = Some c"
      by (rule stailq_find_prev_found[where us = ys])
        (use sl d snoc in \<open>auto simp: seg_list_def\<close>)
    have "?c (FirstOf h) \<noteq> Some a" "?c (NextOf c) = Some a"
      using sl d snoc by (cases ys; auto simp: seg_list_def)+
    with f del la nx snoc show ?thesis
      by (auto simp: stailq_defs stailq_repr_def end_loc_last split: list.splits if_splits)
  qed
qed

interpretation stq: seq_queue stailq_repr STAILQ_INIT STAILQ_FIRST STAILQ_NEXT
  STAILQ_INSERT_HEAD STAILQ_INSERT_AFTER STAILQ_REMOVE STAILQ_INSERT_TAIL
proof (unfold_locales, goal_cases)
  case 1 then show ?case by (rule stailq_repr_distinct)
next
  case 2 show ?case by (simp add: stailq_defs stailq_repr_def seg_list_def)
next
  case 3 then show ?case by (simp add: stailq_defs stailq_repr_def seg_list_first)
next
  case (4 s h us a vs)
  then show ?case
    using seg_list_next[of "stq_cells s" h us a vs] by (simp add: stailq_defs stailq_repr_def)
next
  case (5 s h xs a)
  then show ?case
    using seg_list_insert[of "stq_cells s" h "[]" xs a] seg_list_first[of "stq_cells s" h xs]
    by (auto simp: stailq_defs stailq_repr_def split: list.splits)
next
  case (6 s h us b vs a)
  then show ?case
    using seg_list_insert[of "stq_cells s" h "us @ [b]" vs a]
      seg_list_next[of "stq_cells s" h us b vs]
    by (auto simp: stailq_defs stailq_repr_def split: list.splits)
next
  case 7 then show ?case by (rule stailq_remove_repr)
next
  case (8 s h xs a)
  then show ?case
    using seg_list_insert[of "stq_cells s" h "xs" "[]" a]
    by (auto simp: stailq_defs stailq_repr_def seg_list_def)
qed

fun stailq_step :: "nat \<Rightarrow> list_op \<Rightarrow> stailq \<Rightarrow> stailq option" where
  "stailq_step head (Ins_head a) s = Some (STAILQ_INSERT_HEAD head a s)"
| "stailq_step head (Ins_tail a) s = Some (STAILQ_INSERT_TAIL head a s)"
| "stailq_step head (Ins_after b a) s = Some (STAILQ_INSERT_AFTER head b a s)"
| "stailq_step head (Del a) s = STAILQ_REMOVE head a s"
| "stailq_step head (Ins_before b a) s = None"

fun stailq_op_ok :: "list_op \<Rightarrow> addr list \<Rightarrow> bool" where
  "stailq_op_ok (Ins_before b a) xs = False"
| "stailq_op_ok x xs = list_op_ok x xs"

interpretation stqs: simulation "\<lambda>s. stailq_repr s h" "stailq_step h" list_op_spec stailq_op_ok for h
proof (unfold_locales, goal_cases)
  case (1 s xs x)
  then show ?case
    by (cases x)
      (auto intro: stq.repr_ins_head stq.repr_ins_tail stq.ins_after_spec stq.del_spec)
qed


subsection \<open>Concatenation, exchange, last element\<close>

lemma stailq_concat_repr:
  assumes "stailq_repr s h1 xs" "stailq_repr s h2 ys" "h1 \<noteq> h2" "set xs \<inter> set ys = {}"
  shows "stailq_repr (STAILQ_CONCAT h1 h2 s) h1 (xs @ ys)"
    and "stailq_repr (STAILQ_CONCAT h1 h2 s) h2 []"
proof -
  from assms have s: "seg_list (stq_cells s) h1 xs" "seg_list (stq_cells s) h2 ys"
    by (auto simp: stailq_repr_def)
  from seg_list_concat[OF s assms(4,3)] seg_list_first[OF s(2)] assms
  show "stailq_repr (STAILQ_CONCAT h1 h2 s) h1 (xs @ ys)"
    by (auto simp: stailq_defs stailq_repr_def split: list.splits)
  from seg_list_first[OF s(2)] assms show "stailq_repr (STAILQ_CONCAT h1 h2 s) h2 []"
    by (auto simp: stailq_defs stailq_repr_def seg_list_def split: list.splits)
qed

lemma stailq_swap_repr:
  assumes "stailq_repr s h1 xs" "stailq_repr s h2 ys" "h1 \<noteq> h2"
  shows "stailq_repr (STAILQ_SWAP h1 h2 s) h1 ys"
    and "stailq_repr (STAILQ_SWAP h1 h2 s) h2 xs"
proof -
  from assms have s: "seg_list (stq_cells s) h1 xs" "seg_list (stq_cells s) h2 ys"
    by (auto simp: stailq_repr_def)
  note f = seg_list_first[OF s(1)] seg_list_first[OF s(2)]
  from seg_list_swap[OF s assms(3)] f assms
  show "stailq_repr (STAILQ_SWAP h1 h2 s) h1 ys" "stailq_repr (STAILQ_SWAP h1 h2 s) h2 xs"
    by (auto simp: stailq_defs stailq_repr_def end_loc_last split: list.splits)
qed

lemma stailq_last_repr:
  assumes "stailq_repr s h xs"
  shows "STAILQ_LAST h s = Some (if xs = [] then None else Some (last xs))"
proof -
  from assms have "seg_list (stq_cells s) h xs" by (simp add: stailq_repr_def)
  from seg_list_first[OF this] assms show ?thesis
    by (auto simp: stailq_defs stailq_repr_def end_loc_last split: list.splits)
qed

lemma stailq_foreach_visits:
  "stailq_repr s h xs \<Longrightarrow> STAILQ_FOREACH visit h ([], s) = Some (xs, s)"
  by (simp add: STAILQ_FOREACH_def stq.foreach_visits)

subsection \<open>Properties\<close>

text \<open>C8 Any legal sequence of \<^verbatim>\<open>STAILQ_INSERT_HEAD\<close>, \<^verbatim>\<open>STAILQ_INSERT_TAIL\<close>,
  \<^verbatim>\<open>STAILQ_INSERT_AFTER\<close> and \<^verbatim>\<open>STAILQ_REMOVE\<close> on a freshly initialised queue runs without a
  \<open>NULL\<close> dereference and terminates; \<^verbatim>\<open>STAILQ_FOREACH\<close> then visits exactly the abstract
  list, and \<^verbatim>\<open>STAILQ_LAST\<close> is its last element.\<close>

theorem stailq_refines_list:
  assumes "ops_ok stailq_op_ok list_op_spec ops []"
  shows "\<exists>s'. run_ops (stailq_step h) ops (STAILQ_INIT h s) = Some s'
           \<and> STAILQ_FOREACH visit h ([], s') = Some (fold list_op_spec ops [], s')
           \<and> STAILQ_LAST h s' = Some (if fold list_op_spec ops [] = [] then None
                                     else Some (last (fold list_op_spec ops [])))"
  using stqs.run_sim[OF stq.repr_init assms] stailq_foreach_visits stailq_last_repr by blast

theorem stailq_refines_list_witness:
  "ops_ok stailq_op_ok list_op_spec [Ins_tail 1, Ins_tail 2, Ins_head 3, Del 2] []
   \<and> (\<exists>s'. run_ops (stailq_step 0) [Ins_tail 1, Ins_tail 2, Ins_head 3, Del 2]
            (STAILQ_INIT 0 \<lparr>stq_cells = (\<lambda>_. Some 9), stqh_last = FirstOf\<rparr>) = Some s'
        \<and> STAILQ_FOREACH visit 0 ([], s') = Some ([3, 1], s')
        \<and> STAILQ_LAST 0 s' = Some (Some 1))"
  using stailq_refines_list[of "[Ins_tail 1, Ins_tail 2, Ins_head 3, Del 2]" 0
      "\<lparr>stq_cells = (\<lambda>_. Some 9), stqh_last = FirstOf\<rparr>"]
  by (simp del: run_ops.simps)

end
