(* ===== verification/Nty_List.thy ===== *)
theory Nty_List
  imports Nty_Queue_Base
begin

text \<open>
  The doubly-linked lists (\<^verbatim>\<open>LIST_*\<close>) of \<^verbatim>\<open>nty_queue.h\<close>, lines 280-390.  Every element keeps
  the address of the cell that points to it (\<open>le_prev\<close>).  The \<^verbatim>\<open>QMD_LIST_CHECK_*\<close> macros of
  the \<^verbatim>\<open>INVARIANTS\<close> build are predicates that say when the check does not panic; the
  operations with a check in front of them are in \<open>list_checked_step\<close>.
\<close>

record dlist =
  l_cells :: cells
  le_prev :: "addr \<Rightarrow> loc"

definition LIST_FIRST :: "nat \<Rightarrow> dlist \<Rightarrow> ptr" where
  "LIST_FIRST head s = l_cells s (FirstOf head)"

definition LIST_NEXT :: "addr \<Rightarrow> dlist \<Rightarrow> ptr" where
  "LIST_NEXT elm s = l_cells s (NextOf elm)"

definition LIST_EMPTY :: "nat \<Rightarrow> dlist \<Rightarrow> bool" where
  "LIST_EMPTY head s \<longleftrightarrow> LIST_FIRST head s = None"

definition l_store :: "loc \<Rightarrow> ptr \<Rightarrow> dlist \<Rightarrow> dlist" where
  "l_store l v s = s\<lparr>l_cells := (l_cells s)(l := v)\<rparr>"

definition l_set_prev :: "addr \<Rightarrow> loc \<Rightarrow> dlist \<Rightarrow> dlist" where
  "l_set_prev e l s = s\<lparr>le_prev := (le_prev s)(e := l)\<rparr>"

definition QMD_LIST_CHECK_HEAD :: "nat \<Rightarrow> dlist \<Rightarrow> bool" where
  "QMD_LIST_CHECK_HEAD head s =
     (case LIST_FIRST head s of None \<Rightarrow> True | Some f \<Rightarrow> le_prev s f = FirstOf head)"

definition QMD_LIST_CHECK_NEXT :: "addr \<Rightarrow> dlist \<Rightarrow> bool" where
  "QMD_LIST_CHECK_NEXT elm s =
     (case LIST_NEXT elm s of None \<Rightarrow> True | Some n \<Rightarrow> le_prev s n = NextOf elm)"

definition QMD_LIST_CHECK_PREV :: "addr \<Rightarrow> dlist \<Rightarrow> bool" where
  "QMD_LIST_CHECK_PREV elm s \<longleftrightarrow> l_cells s (le_prev s elm) = Some elm"

definition LIST_FOREACH ::
  "(addr \<Rightarrow> 'b \<times> dlist \<Rightarrow> ('b \<times> dlist) option) \<Rightarrow> nat \<Rightarrow> 'b \<times> dlist \<Rightarrow> ('b \<times> dlist) option" where
  "LIST_FOREACH body head st =
     for_each (\<lambda>st v. LIST_NEXT v (snd st)) body (LIST_FIRST head (snd st)) st"

definition LIST_FOREACH_SAFE ::
  "(addr \<Rightarrow> 'b \<times> dlist \<Rightarrow> ('b \<times> dlist) option) \<Rightarrow> nat \<Rightarrow> 'b \<times> dlist \<Rightarrow> ('b \<times> dlist) option" where
  "LIST_FOREACH_SAFE body head st =
     for_each_safe (\<lambda>st v. LIST_NEXT v (snd st)) body (LIST_FIRST head (snd st)) st"

definition LIST_INIT :: "nat \<Rightarrow> dlist \<Rightarrow> dlist" where
  "LIST_INIT head s = l_store (FirstOf head) None s"

definition LIST_INSERT_AFTER :: "addr \<Rightarrow> addr \<Rightarrow> dlist \<Rightarrow> dlist" where
  "LIST_INSERT_AFTER listelm elm s =
     (let s1 = l_store (NextOf elm) (LIST_NEXT listelm s) s;
          s2 = (case LIST_NEXT elm s1 of
                  None \<Rightarrow> s1
                | Some _ \<Rightarrow> (case LIST_NEXT listelm s1 of
                     None \<Rightarrow> s1 | Some n \<Rightarrow> l_set_prev n (NextOf elm) s1));
          s3 = l_store (NextOf listelm) (Some elm) s2
      in l_set_prev elm (NextOf listelm) s3)"

definition LIST_INSERT_BEFORE :: "addr \<Rightarrow> addr \<Rightarrow> dlist \<Rightarrow> dlist" where
  "LIST_INSERT_BEFORE listelm elm s =
     (let s1 = l_set_prev elm (le_prev s listelm) s;
          s2 = l_store (NextOf elm) (Some listelm) s1;
          s3 = l_store (le_prev s2 listelm) (Some elm) s2
      in l_set_prev listelm (NextOf elm) s3)"

definition LIST_INSERT_HEAD :: "nat \<Rightarrow> addr \<Rightarrow> dlist \<Rightarrow> dlist" where
  "LIST_INSERT_HEAD head elm s =
     (let s1 = l_store (NextOf elm) (LIST_FIRST head s) s;
          s2 = (case LIST_NEXT elm s1 of
                  None \<Rightarrow> s1
                | Some _ \<Rightarrow> (case LIST_FIRST head s1 of
                     None \<Rightarrow> s1 | Some f \<Rightarrow> l_set_prev f (NextOf elm) s1));
          s3 = l_store (FirstOf head) (Some elm) s2
      in l_set_prev elm (FirstOf head) s3)"

definition LIST_REMOVE :: "addr \<Rightarrow> dlist \<Rightarrow> dlist" where
  "LIST_REMOVE elm s =
     (let s1 = (case LIST_NEXT elm s of
                  None \<Rightarrow> s | Some n \<Rightarrow> l_set_prev n (le_prev s elm) s)
      in l_store (le_prev s1 elm) (LIST_NEXT elm s1) s1)"

definition LIST_SWAP :: "nat \<Rightarrow> nat \<Rightarrow> dlist \<Rightarrow> dlist" where
  "LIST_SWAP head1 head2 s =
     (let swap_tmp = LIST_FIRST head1 s;
          s1 = l_store (FirstOf head1) (LIST_FIRST head2 s) s;
          s2 = l_store (FirstOf head2) swap_tmp s1;
          s3 = (case LIST_FIRST head1 s2 of
                  None \<Rightarrow> s2 | Some f \<Rightarrow> l_set_prev f (FirstOf head1) s2)
      in (case LIST_FIRST head2 s3 of
            None \<Rightarrow> s3 | Some f \<Rightarrow> l_set_prev f (FirstOf head2) s3))"

lemmas dlist_defs =
  LIST_FIRST_def LIST_NEXT_def LIST_EMPTY_def l_store_def l_set_prev_def
  LIST_INIT_def LIST_INSERT_AFTER_def LIST_INSERT_BEFORE_def LIST_INSERT_HEAD_def
  LIST_REMOVE_def LIST_SWAP_def Let_def

subsection \<open>Representation\<close>

definition dlist_repr :: "dlist \<Rightarrow> nat \<Rightarrow> addr list \<Rightarrow> bool" where
  "dlist_repr s head xs \<longleftrightarrow> seg_list (l_cells s) head xs \<and> prevs (le_prev s) (FirstOf head) xs"

lemma dlist_repr_distinct: "dlist_repr s h xs \<Longrightarrow> distinct xs"
  by (auto simp: dlist_repr_def intro: seg_list_distinct)

lemma dlist_insert_before_repr:
  assumes r: "dlist_repr s h (us @ b # vs)" and a: "a \<notin> set (us @ b # vs)"
  shows "dlist_repr (LIST_INSERT_BEFORE b a s) h (us @ a # b # vs)"
proof -
  have d: "distinct (us @ b # vs)" using r by (rule dlist_repr_distinct)
  from r have sl: "seg_list (l_cells s) h (us @ b # vs)" by (simp add: dlist_repr_def)
  from sl have "l_cells s (end_loc (FirstOf h) us) = Some b" by (simp add: seg_list_def)
  with seg_list_insert[OF sl a] a d r show ?thesis
    by (auto simp: dlist_defs dlist_repr_def)
qed

lemma dlist_remove_repr:
  assumes r: "dlist_repr s h (us @ a # vs)"
  shows "dlist_repr (LIST_REMOVE a s) h (us @ vs)"
proof -
  have d: "distinct (us @ a # vs)" using r by (rule dlist_repr_distinct)
  from r have sl: "seg_list (l_cells s) h (us @ a # vs)" by (simp add: dlist_repr_def)
  from seg_list_delete[OF sl] seg_list_next[OF sl] d r show ?thesis
    by (auto simp: dlist_defs dlist_repr_def split: list.splits)
qed

interpretation dl: seq_before dlist_repr LIST_INIT LIST_FIRST LIST_NEXT LIST_INSERT_HEAD
  "\<lambda>_. LIST_INSERT_AFTER" "\<lambda>_ elm s. Some (LIST_REMOVE elm s)" "\<lambda>_. LIST_INSERT_BEFORE"
proof (unfold_locales, goal_cases)
  case 1 then show ?case by (rule dlist_repr_distinct)
next
  case 2 show ?case by (simp add: dlist_defs dlist_repr_def seg_list_def)
next
  case 3 then show ?case by (simp add: dlist_defs dlist_repr_def seg_list_first)
next
  case (4 s h us a vs)
  then show ?case
    using seg_list_next[of "l_cells s" h us a vs] by (simp add: dlist_defs dlist_repr_def)
next
  case (5 s h xs a)
  have "distinct xs" using 5(1) by (rule dlist_repr_distinct)
  with 5 show ?case
    using seg_list_insert[of "l_cells s" h "[]" xs a] seg_list_first[of "l_cells s" h xs]
    by (auto simp: dlist_defs dlist_repr_def split: list.splits)
next
  case (6 s h us b vs a)
  have "distinct (us @ b # vs)" using 6(1) by (rule dlist_repr_distinct)
  with 6 show ?case
    using seg_list_insert[of "l_cells s" h "us @ [b]" vs a]
      seg_list_next[of "l_cells s" h us b vs]
    by (auto simp: dlist_defs dlist_repr_def split: list.splits)
next
  case 7 then show ?case by (auto intro: dlist_remove_repr)
next
  case 8 then show ?case by (rule dlist_insert_before_repr)
qed

text \<open>One macro call with the consistency checks of the \<^verbatim>\<open>INVARIANTS\<close> build: a failing check
  panics, which is \<open>None\<close>.\<close>

fun list_checked_step :: "nat \<Rightarrow> list_op \<Rightarrow> dlist \<Rightarrow> dlist option" where
  "list_checked_step head (Ins_head a) s =
     (if QMD_LIST_CHECK_HEAD head s then Some (LIST_INSERT_HEAD head a s) else None)"
| "list_checked_step head (Ins_after b a) s =
     (if QMD_LIST_CHECK_NEXT b s then Some (LIST_INSERT_AFTER b a s) else None)"
| "list_checked_step head (Ins_before b a) s =
     (if QMD_LIST_CHECK_PREV b s then Some (LIST_INSERT_BEFORE b a s) else None)"
| "list_checked_step head (Del a) s =
     (if QMD_LIST_CHECK_NEXT a s \<and> QMD_LIST_CHECK_PREV a s then Some (LIST_REMOVE a s) else None)"
| "list_checked_step head (Ins_tail a) s = None"

fun dlist_op_ok :: "list_op \<Rightarrow> addr list \<Rightarrow> bool" where
  "dlist_op_ok (Ins_tail a) xs = False"
| "dlist_op_ok x xs = list_op_ok x xs"

lemma dlist_check_head: "dlist_repr s h xs \<Longrightarrow> QMD_LIST_CHECK_HEAD h s"
  using seg_list_first[of "l_cells s" h xs]
  by (auto simp: QMD_LIST_CHECK_HEAD_def dlist_defs dlist_repr_def split: list.splits)

lemma dlist_check_elem:
  assumes "dlist_repr s h xs" "a \<in> set xs"
  shows "QMD_LIST_CHECK_NEXT a s" "QMD_LIST_CHECK_PREV a s"
proof -
  from assms(2) obtain us vs where xs: "xs = us @ a # vs" by (meson split_list)
  from assms xs show "QMD_LIST_CHECK_NEXT a s"
    using seg_list_next[of "l_cells s" h us a vs]
    by (auto simp: QMD_LIST_CHECK_NEXT_def dlist_defs dlist_repr_def split: list.splits)
  from assms xs show "QMD_LIST_CHECK_PREV a s"
    by (auto simp: QMD_LIST_CHECK_PREV_def dlist_repr_def seg_list_def)
qed

interpretation dls: simulation "\<lambda>s. dlist_repr s h" "list_checked_step h" list_op_spec dlist_op_ok for h
proof (unfold_locales, goal_cases)
  case (1 s xs x)
  then show ?case
    using dl.del_spec[of s h xs]
    by (cases x)
      (auto simp: dlist_check_head dlist_check_elem
        intro: dl.repr_ins_head dl.ins_after_spec dl.ins_before_spec)
qed

lemma dlist_swap_repr:
  assumes "dlist_repr s h1 xs" "dlist_repr s h2 ys" "h1 \<noteq> h2" "set xs \<inter> set ys = {}"
  shows "dlist_repr (LIST_SWAP h1 h2 s) h1 ys" and "dlist_repr (LIST_SWAP h1 h2 s) h2 xs"
proof -
  from assms have s: "seg_list (l_cells s) h1 xs" "seg_list (l_cells s) h2 ys"
    by (auto simp: dlist_repr_def)
  note f = seg_list_first[OF s(1)] seg_list_first[OF s(2)]
  have "distinct xs" "distinct ys" using assms by (auto intro: dlist_repr_distinct)
  with seg_list_swap[OF s assms(3)] f assms
  show "dlist_repr (LIST_SWAP h1 h2 s) h1 ys" "dlist_repr (LIST_SWAP h1 h2 s) h2 xs"
    by (auto simp: dlist_defs dlist_repr_def split: list.splits)
qed

lemma dlist_foreach_visits:
  "dlist_repr s h xs \<Longrightarrow> LIST_FOREACH visit h ([], s) = Some (xs, s)"
  by (simp add: LIST_FOREACH_def dl.foreach_visits)

subsection \<open>Properties\<close>

text \<open>C7 Any legal sequence of \<^verbatim>\<open>LIST_INSERT_HEAD\<close>, \<^verbatim>\<open>LIST_INSERT_AFTER\<close>,
  \<^verbatim>\<open>LIST_INSERT_BEFORE\<close> and \<^verbatim>\<open>LIST_REMOVE\<close> on a freshly initialised list passes every
  \<^verbatim>\<open>QMD_LIST_CHECK_*\<close> consistency check on the way (it never panics), and \<^verbatim>\<open>LIST_FOREACH\<close> then
  visits exactly the abstract list.\<close>

theorem dlist_refines_list:
  assumes "ops_ok dlist_op_ok list_op_spec ops []"
  shows "\<exists>s'. run_ops (list_checked_step h) ops (LIST_INIT h s) = Some s'
           \<and> LIST_FOREACH visit h ([], s') = Some (fold list_op_spec ops [], s')"
  using dls.run_sim[OF dl.repr_init assms] dlist_foreach_visits by blast

theorem dlist_refines_list_witness:
  "ops_ok dlist_op_ok list_op_spec [Ins_head 1, Ins_before 1 2, Ins_after 1 3, Del 1] []
   \<and> (\<exists>s'. run_ops (list_checked_step 0) [Ins_head 1, Ins_before 1 2, Ins_after 1 3, Del 1]
            (LIST_INIT 0 \<lparr>l_cells = (\<lambda>_. Some 9), le_prev = NextOf\<rparr>) = Some s'
        \<and> LIST_FOREACH visit 0 ([], s') = Some ([2, 3], s'))"
  using dlist_refines_list[of "[Ins_head 1, Ins_before 1 2, Ins_after 1 3, Del 1]" 0
      "\<lparr>l_cells = (\<lambda>_. Some 9), le_prev = NextOf\<rparr>"]
  by (simp del: run_ops.simps)

end
