(* ===== verification/Nty_Tailq.thy ===== *)
theory Nty_Tailq
  imports Nty_Queue_Base
begin

text \<open>
  The tail queues (\<^verbatim>\<open>TAILQ_*\<close>) of \<^verbatim>\<open>nty_queue.h\<close>, lines 398-579, the structure the
  coroutine scheduler keeps its ready queue in.  Heads have a first pointer and the address
  of the last next cell, elements a next pointer and the address of the cell that points
  to them.  The \<^verbatim>\<open>QMD_TRACE_*\<close> macros are empty outside \<^verbatim>\<open>QUEUE_MACRO_DEBUG\<close>; the
  \<^verbatim>\<open>QMD_TAILQ_CHECK_*\<close> macros are predicates that say when the check does not panic, and
  \<open>tailq_checked_step\<close> runs every operation behind its checks.
\<close>

record tailq =
  tq_cells :: cells
  tqh_last :: "nat \<Rightarrow> loc"
  tqe_prev :: "addr \<Rightarrow> loc"

definition TAILQ_FIRST :: "nat \<Rightarrow> tailq \<Rightarrow> ptr" where
  "TAILQ_FIRST head s = tq_cells s (FirstOf head)"

definition TAILQ_NEXT :: "addr \<Rightarrow> tailq \<Rightarrow> ptr" where
  "TAILQ_NEXT elm s = tq_cells s (NextOf elm)"

definition TAILQ_EMPTY :: "nat \<Rightarrow> tailq \<Rightarrow> bool" where
  "TAILQ_EMPTY head s \<longleftrightarrow> TAILQ_FIRST head s = None"

definition tq_store :: "loc \<Rightarrow> ptr \<Rightarrow> tailq \<Rightarrow> tailq" where
  "tq_store l v s = s\<lparr>tq_cells := (tq_cells s)(l := v)\<rparr>"

definition tq_set_last :: "nat \<Rightarrow> loc \<Rightarrow> tailq \<Rightarrow> tailq" where
  "tq_set_last head l s = s\<lparr>tqh_last := (tqh_last s)(head := l)\<rparr>"

definition tq_set_prev :: "addr \<Rightarrow> loc \<Rightarrow> tailq \<Rightarrow> tailq" where
  "tq_set_prev e l s = s\<lparr>tqe_prev := (tqe_prev s)(e := l)\<rparr>"

text \<open>The second member of the two-pointer structure that starts at a cell: \<open>TAILQ_LAST\<close> and
  \<open>TAILQ_PREV\<close> cast the address of a next cell to a head, whose \<open>tqh_last\<close> then overlays
  the element's \<open>tqe_prev\<close>.\<close>

fun second_of :: "tailq \<Rightarrow> loc \<Rightarrow> loc" where
  "second_of s (FirstOf h) = tqh_last s h"
| "second_of s (NextOf e) = tqe_prev s e"

definition TAILQ_LAST :: "nat \<Rightarrow> tailq \<Rightarrow> ptr" where
  "TAILQ_LAST head s = tq_cells s (second_of s (tqh_last s head))"

definition TAILQ_PREV :: "addr \<Rightarrow> tailq \<Rightarrow> ptr" where
  "TAILQ_PREV elm s = tq_cells s (second_of s (tqe_prev s elm))"

definition QMD_TAILQ_CHECK_HEAD :: "nat \<Rightarrow> tailq \<Rightarrow> bool" where
  "QMD_TAILQ_CHECK_HEAD head s =
     (case TAILQ_FIRST head s of None \<Rightarrow> True | Some f \<Rightarrow> tqe_prev s f = FirstOf head)"

definition QMD_TAILQ_CHECK_TAIL :: "nat \<Rightarrow> tailq \<Rightarrow> bool" where
  "QMD_TAILQ_CHECK_TAIL head s \<longleftrightarrow> tq_cells s (tqh_last s head) = None"

definition QMD_TAILQ_CHECK_NEXT :: "addr \<Rightarrow> tailq \<Rightarrow> bool" where
  "QMD_TAILQ_CHECK_NEXT elm s =
     (case TAILQ_NEXT elm s of None \<Rightarrow> True | Some n \<Rightarrow> tqe_prev s n = NextOf elm)"

definition QMD_TAILQ_CHECK_PREV :: "addr \<Rightarrow> tailq \<Rightarrow> bool" where
  "QMD_TAILQ_CHECK_PREV elm s \<longleftrightarrow> tq_cells s (tqe_prev s elm) = Some elm"

definition TAILQ_INIT :: "nat \<Rightarrow> tailq \<Rightarrow> tailq" where
  "TAILQ_INIT head s = tq_set_last head (FirstOf head) (tq_store (FirstOf head) None s)"

definition TAILQ_CONCAT :: "nat \<Rightarrow> nat \<Rightarrow> tailq \<Rightarrow> tailq" where
  "TAILQ_CONCAT head1 head2 s =
     (case TAILQ_FIRST head2 s of
        None \<Rightarrow> s
      | Some f \<Rightarrow>
          (let s1 = tq_store (tqh_last s head1) (Some f) s;
               s2 = (case TAILQ_FIRST head2 s1 of
                       None \<Rightarrow> s1 | Some f' \<Rightarrow> tq_set_prev f' (tqh_last s1 head1) s1);
               s3 = tq_set_last head1 (tqh_last s2 head2) s2
           in TAILQ_INIT head2 s3))"

definition TAILQ_FOREACH ::
  "(addr \<Rightarrow> 'b \<times> tailq \<Rightarrow> ('b \<times> tailq) option) \<Rightarrow> nat \<Rightarrow> 'b \<times> tailq \<Rightarrow> ('b \<times> tailq) option" where
  "TAILQ_FOREACH body head st =
     for_each (\<lambda>st v. TAILQ_NEXT v (snd st)) body (TAILQ_FIRST head (snd st)) st"

definition TAILQ_FOREACH_SAFE ::
  "(addr \<Rightarrow> 'b \<times> tailq \<Rightarrow> ('b \<times> tailq) option) \<Rightarrow> nat \<Rightarrow> 'b \<times> tailq \<Rightarrow> ('b \<times> tailq) option" where
  "TAILQ_FOREACH_SAFE body head st =
     for_each_safe (\<lambda>st v. TAILQ_NEXT v (snd st)) body (TAILQ_FIRST head (snd st)) st"

definition TAILQ_FOREACH_REVERSE ::
  "(addr \<Rightarrow> 'b \<times> tailq \<Rightarrow> ('b \<times> tailq) option) \<Rightarrow> nat \<Rightarrow> 'b \<times> tailq \<Rightarrow> ('b \<times> tailq) option" where
  "TAILQ_FOREACH_REVERSE body head st =
     for_each (\<lambda>st v. TAILQ_PREV v (snd st)) body (TAILQ_LAST head (snd st)) st"

definition TAILQ_FOREACH_REVERSE_SAFE ::
  "(addr \<Rightarrow> 'b \<times> tailq \<Rightarrow> ('b \<times> tailq) option) \<Rightarrow> nat \<Rightarrow> 'b \<times> tailq \<Rightarrow> ('b \<times> tailq) option" where
  "TAILQ_FOREACH_REVERSE_SAFE body head st =
     for_each_safe (\<lambda>st v. TAILQ_PREV v (snd st)) body (TAILQ_LAST head (snd st)) st"

definition TAILQ_INSERT_AFTER :: "nat \<Rightarrow> addr \<Rightarrow> addr \<Rightarrow> tailq \<Rightarrow> tailq" where
  "TAILQ_INSERT_AFTER head listelm elm s =
     (let s1 = tq_store (NextOf elm) (TAILQ_NEXT listelm s) s;
          s2 = (case TAILQ_NEXT elm s1 of
                  Some n \<Rightarrow> tq_set_prev n (NextOf elm) s1
                | None \<Rightarrow> tq_set_last head (NextOf elm) s1);
          s3 = tq_store (NextOf listelm) (Some elm) s2
      in tq_set_prev elm (NextOf listelm) s3)"

definition TAILQ_INSERT_BEFORE :: "addr \<Rightarrow> addr \<Rightarrow> tailq \<Rightarrow> tailq" where
  "TAILQ_INSERT_BEFORE listelm elm s =
     (let s1 = tq_set_prev elm (tqe_prev s listelm) s;
          s2 = tq_store (NextOf elm) (Some listelm) s1;
          s3 = tq_store (tqe_prev s2 listelm) (Some elm) s2
      in tq_set_prev listelm (NextOf elm) s3)"

definition TAILQ_INSERT_HEAD :: "nat \<Rightarrow> addr \<Rightarrow> tailq \<Rightarrow> tailq" where
  "TAILQ_INSERT_HEAD head elm s =
     (let s1 = tq_store (NextOf elm) (TAILQ_FIRST head s) s;
          s2 = (case TAILQ_NEXT elm s1 of
                  Some _ \<Rightarrow> (case TAILQ_FIRST head s1 of
                     None \<Rightarrow> s1 | Some f \<Rightarrow> tq_set_prev f (NextOf elm) s1)
                | None \<Rightarrow> tq_set_last head (NextOf elm) s1);
          s3 = tq_store (FirstOf head) (Some elm) s2
      in tq_set_prev elm (FirstOf head) s3)"

definition TAILQ_INSERT_TAIL :: "nat \<Rightarrow> addr \<Rightarrow> tailq \<Rightarrow> tailq" where
  "TAILQ_INSERT_TAIL head elm s =
     (let s1 = tq_store (NextOf elm) None s;
          s2 = tq_set_prev elm (tqh_last s1 head) s1;
          s3 = tq_store (tqh_last s2 head) (Some elm) s2
      in tq_set_last head (NextOf elm) s3)"

definition TAILQ_REMOVE :: "nat \<Rightarrow> addr \<Rightarrow> tailq \<Rightarrow> tailq" where
  "TAILQ_REMOVE head elm s =
     (let s1 = (case TAILQ_NEXT elm s of
                  Some n \<Rightarrow> tq_set_prev n (tqe_prev s elm) s
                | None \<Rightarrow> tq_set_last head (tqe_prev s elm) s)
      in tq_store (tqe_prev s1 elm) (TAILQ_NEXT elm s1) s1)"

definition TAILQ_SWAP :: "nat \<Rightarrow> nat \<Rightarrow> tailq \<Rightarrow> tailq" where
  "TAILQ_SWAP head1 head2 s =
     (let swap_first = TAILQ_FIRST head1 s;
          swap_last = tqh_last s head1;
          s1 = tq_store (FirstOf head1) (TAILQ_FIRST head2 s) s;
          s2 = tq_set_last head1 (tqh_last s1 head2) s1;
          s3 = tq_store (FirstOf head2) swap_first s2;
          s4 = tq_set_last head2 swap_last s3;
          s5 = (case TAILQ_FIRST head1 s4 of
                  Some f \<Rightarrow> tq_set_prev f (FirstOf head1) s4
                | None \<Rightarrow> tq_set_last head1 (FirstOf head1) s4)
      in (case TAILQ_FIRST head2 s5 of
            Some f \<Rightarrow> tq_set_prev f (FirstOf head2) s5
          | None \<Rightarrow> tq_set_last head2 (FirstOf head2) s5))"

lemmas tailq_defs =
  TAILQ_FIRST_def TAILQ_NEXT_def TAILQ_EMPTY_def tq_store_def tq_set_last_def tq_set_prev_def
  TAILQ_INIT_def TAILQ_CONCAT_def TAILQ_INSERT_AFTER_def TAILQ_INSERT_BEFORE_def
  TAILQ_INSERT_HEAD_def TAILQ_INSERT_TAIL_def TAILQ_REMOVE_def TAILQ_SWAP_def Let_def

subsection \<open>Representation\<close>

definition tailq_repr :: "tailq \<Rightarrow> nat \<Rightarrow> addr list \<Rightarrow> bool" where
  "tailq_repr s head xs \<longleftrightarrow>
     seg_list (tq_cells s) head xs \<and> prevs (tqe_prev s) (FirstOf head) xs
     \<and> tqh_last s head = end_loc (FirstOf head) xs"

lemma tailq_repr_distinct: "tailq_repr s h xs \<Longrightarrow> distinct xs"
  by (auto simp: tailq_repr_def intro: seg_list_distinct)

lemma tailq_repr_seg: "tailq_repr s h xs \<Longrightarrow> seg_list (tq_cells s) h xs"
  by (simp add: tailq_repr_def)

lemma tailq_insert_after_repr:
  assumes r: "tailq_repr s h (us @ b # vs)" and a: "a \<notin> set (us @ b # vs)"
  shows "tailq_repr (TAILQ_INSERT_AFTER h b a s) h (us @ b # a # vs)"
proof -
  note sl = tailq_repr_seg[OF r]
  have "distinct (us @ b # vs)" using r by (rule tailq_repr_distinct)
  with seg_list_insert[of "tq_cells s" h "us @ [b]" vs a] seg_list_next[OF sl] r a
  show ?thesis by (auto simp: tailq_defs tailq_repr_def split: list.splits)
qed

lemma tailq_insert_before_repr:
  assumes r: "tailq_repr s h (us @ b # vs)" and a: "a \<notin> set (us @ b # vs)"
  shows "tailq_repr (TAILQ_INSERT_BEFORE b a s) h (us @ a # b # vs)"
proof -
  note sl = tailq_repr_seg[OF r]
  have d: "distinct (us @ b # vs)" using r by (rule tailq_repr_distinct)
  from sl have "tq_cells s (end_loc (FirstOf h) us) = Some b" by (simp add: seg_list_def)
  with seg_list_insert[OF sl a] a d r show ?thesis
    by (auto simp: tailq_defs tailq_repr_def)
qed

lemma tailq_insert_head_repr:
  assumes r: "tailq_repr s h xs" and a: "a \<notin> set xs"
  shows "tailq_repr (TAILQ_INSERT_HEAD h a s) h (a # xs)"
proof -
  have "distinct xs" using r by (rule tailq_repr_distinct)
  with seg_list_insert[of "tq_cells s" h "[]" xs a] seg_list_first[OF tailq_repr_seg[OF r]] r a
  show ?thesis by (auto simp: tailq_defs tailq_repr_def split: list.splits)
qed

lemma tailq_insert_tail_repr:
  assumes r: "tailq_repr s h xs" and a: "a \<notin> set xs"
  shows "tailq_repr (TAILQ_INSERT_TAIL h a s) h (xs @ [a])"
  using seg_list_insert[of "tq_cells s" h xs "[]" a] r a
  by (auto simp: tailq_defs tailq_repr_def seg_list_def)

lemma tailq_remove_repr:
  assumes r: "tailq_repr s h (us @ a # vs)"
  shows "tailq_repr (TAILQ_REMOVE h a s) h (us @ vs)"
proof -
  note sl = tailq_repr_seg[OF r]
  have d: "distinct (us @ a # vs)" using r by (rule tailq_repr_distinct)
  from seg_list_delete[OF sl] seg_list_next[OF sl] d r show ?thesis
    by (auto simp: tailq_defs tailq_repr_def split: list.splits)
qed

interpretation tq: seq_queue tailq_repr TAILQ_INIT TAILQ_FIRST TAILQ_NEXT TAILQ_INSERT_HEAD
  TAILQ_INSERT_AFTER "\<lambda>h elm s. Some (TAILQ_REMOVE h elm s)" TAILQ_INSERT_TAIL
proof (unfold_locales, goal_cases)
  case 1 then show ?case by (rule tailq_repr_distinct)
next
  case 2 show ?case by (simp add: tailq_defs tailq_repr_def seg_list_def)
next
  case 3 then show ?case by (simp add: TAILQ_FIRST_def seg_list_first tailq_repr_seg)
next
  case 4 then show ?case using seg_list_next by (force simp: TAILQ_NEXT_def dest: tailq_repr_seg)
qed (auto intro: tailq_insert_head_repr tailq_insert_after_repr tailq_remove_repr
       tailq_insert_tail_repr)

interpretation tqb: seq_before tailq_repr TAILQ_INIT TAILQ_FIRST TAILQ_NEXT TAILQ_INSERT_HEAD
  TAILQ_INSERT_AFTER "\<lambda>h elm s. Some (TAILQ_REMOVE h elm s)" "\<lambda>_. TAILQ_INSERT_BEFORE"
  by unfold_locales (rule tailq_insert_before_repr)

text \<open>One macro call with the consistency checks of the \<^verbatim>\<open>INVARIANTS\<close> build: a failing check
  panics, which is \<open>None\<close>.\<close>

fun tailq_checked_step :: "nat \<Rightarrow> list_op \<Rightarrow> tailq \<Rightarrow> tailq option" where
  "tailq_checked_step head (Ins_head a) s =
     (if QMD_TAILQ_CHECK_HEAD head s then Some (TAILQ_INSERT_HEAD head a s) else None)"
| "tailq_checked_step head (Ins_tail a) s =
     (if QMD_TAILQ_CHECK_TAIL head s then Some (TAILQ_INSERT_TAIL head a s) else None)"
| "tailq_checked_step head (Ins_after b a) s =
     (if QMD_TAILQ_CHECK_NEXT b s then Some (TAILQ_INSERT_AFTER head b a s) else None)"
| "tailq_checked_step head (Ins_before b a) s =
     (if QMD_TAILQ_CHECK_PREV b s then Some (TAILQ_INSERT_BEFORE b a s) else None)"
| "tailq_checked_step head (Del a) s =
     (if QMD_TAILQ_CHECK_NEXT a s \<and> QMD_TAILQ_CHECK_PREV a s
      then Some (TAILQ_REMOVE head a s) else None)"

lemma tailq_check_head:
  assumes "tailq_repr s h xs"
  shows "QMD_TAILQ_CHECK_HEAD h s" "QMD_TAILQ_CHECK_TAIL h s"
  using assms seg_list_first[of "tq_cells s" h xs]
  by (auto simp: QMD_TAILQ_CHECK_HEAD_def QMD_TAILQ_CHECK_TAIL_def tailq_defs tailq_repr_def
      seg_list_def split: list.splits)

lemma tailq_check_elem:
  assumes "tailq_repr s h xs" "a \<in> set xs"
  shows "QMD_TAILQ_CHECK_NEXT a s" "QMD_TAILQ_CHECK_PREV a s"
proof -
  from assms(2) obtain us vs where xs: "xs = us @ a # vs" by (meson split_list)
  from assms xs show "QMD_TAILQ_CHECK_NEXT a s"
    using seg_list_next[of "tq_cells s" h us a vs]
    by (auto simp: QMD_TAILQ_CHECK_NEXT_def tailq_defs tailq_repr_def split: list.splits)
  from assms xs show "QMD_TAILQ_CHECK_PREV a s"
    by (auto simp: QMD_TAILQ_CHECK_PREV_def tailq_repr_def seg_list_def)
qed

interpretation tqs: simulation "\<lambda>s. tailq_repr s h" "tailq_checked_step h" list_op_spec list_op_ok for h
proof (unfold_locales, goal_cases)
  case (1 s xs x)
  then show ?case
    using tq.del_spec[of s h xs]
    by (cases x)
      (auto simp: tailq_check_head tailq_check_elem
        intro: tq.repr_ins_head tq.repr_ins_tail tq.ins_after_spec tqb.ins_before_spec)
qed

subsection \<open>Backward traversal\<close>

lemma second_of_end:
  assumes "tailq_repr s h (us @ vs)"
  shows "tq_cells s (second_of s (end_loc (FirstOf h) us)) =
           (case us of [] \<Rightarrow> tq_cells s (tqh_last s h) | _ \<Rightarrow> Some (last us))"
proof (cases us rule: rev_cases)
  case (snoc ys y)
  with assms have "tqe_prev s y = end_loc (FirstOf h) ys" "tq_cells s (end_loc (FirstOf h) ys) = Some y"
    by (auto simp: tailq_repr_def seg_list_def)
  with snoc show ?thesis by (cases ys) auto
qed simp

lemma tailq_last_repr:
  assumes r: "tailq_repr s h xs"
  shows "TAILQ_LAST h s = (if xs = [] then None else Some (last xs))"
  using second_of_end[of s h xs "[]"] r
  by (auto simp: TAILQ_LAST_def tailq_repr_def seg_list_def split: list.splits)

lemma tailq_prev_repr:
  assumes r: "tailq_repr s h (us @ a # vs)"
  shows "TAILQ_PREV a s = (if us = [] then None else Some (last us))"
proof -
  from r have "tqe_prev s a = end_loc (FirstOf h) us" "tq_cells s (tqh_last s h) = None"
    by (auto simp: tailq_repr_def seg_list_def)
  with second_of_end[OF r] show ?thesis by (auto simp: TAILQ_PREV_def split: list.splits)
qed

lemma tailq_foreach_reverse_visits:
  assumes "tailq_repr s h xs"
  shows "TAILQ_FOREACH_REVERSE visit h ([], s) = Some (rev xs, s)"
proof -
  have "xs = us @ vs \<Longrightarrow>
      for_each (\<lambda>st v. TAILQ_PREV v (snd st)) visit (if us = [] then None else Some (last us)) (rev vs, s)
        = Some (rev xs, s)" for us vs
  proof (induction us arbitrary: vs rule: rev_induct)
    case (snoc u us)
    then have "TAILQ_PREV u s = (if us = [] then None else Some (last us))"
      using assms by (intro tailq_prev_repr[of s h us u vs]) simp
    with snoc.IH[of "u # vs"] snoc.prems show ?case by (simp add: visit_def)
  qed simp
  from this[of xs "[]"] tailq_last_repr[OF assms] show ?thesis
    by (simp add: TAILQ_FOREACH_REVERSE_def)
qed

subsection \<open>Concatenation and exchange\<close>

lemma tailq_concat_repr:
  assumes "tailq_repr s h1 xs" "tailq_repr s h2 ys" "h1 \<noteq> h2" "set xs \<inter> set ys = {}"
  shows "tailq_repr (TAILQ_CONCAT h1 h2 s) h1 (xs @ ys)"
    and "tailq_repr (TAILQ_CONCAT h1 h2 s) h2 []"
proof -
  note s = tailq_repr_seg[OF assms(1)] tailq_repr_seg[OF assms(2)]
  have d: "distinct ys" using assms(2) by (rule tailq_repr_distinct)
  have e: "end_loc (FirstOf h1) xs \<noteq> FirstOf h2" using assms(3) by simp
  from seg_list_concat[OF s assms(4,3)] seg_list_first[OF s(2)] assms d e
  show "tailq_repr (TAILQ_CONCAT h1 h2 s) h1 (xs @ ys)"
    by (auto simp: tailq_defs tailq_repr_def split: list.splits)
  from seg_list_first[OF s(2)] assms e show "tailq_repr (TAILQ_CONCAT h1 h2 s) h2 []"
    by (auto simp: tailq_defs tailq_repr_def seg_list_def split: list.splits)
qed

lemma tailq_swap_repr:
  assumes "tailq_repr s h1 xs" "tailq_repr s h2 ys" "h1 \<noteq> h2" "set xs \<inter> set ys = {}"
  shows "tailq_repr (TAILQ_SWAP h1 h2 s) h1 ys" and "tailq_repr (TAILQ_SWAP h1 h2 s) h2 xs"
proof -
  note s = tailq_repr_seg[OF assms(1)] tailq_repr_seg[OF assms(2)]
  note f = seg_list_first[OF s(1)] seg_list_first[OF s(2)]
  have "distinct xs" "distinct ys" using assms by (auto intro: tailq_repr_distinct)
  with seg_list_swap[OF s assms(3)] f assms
  show "tailq_repr (TAILQ_SWAP h1 h2 s) h1 ys" "tailq_repr (TAILQ_SWAP h1 h2 s) h2 xs"
    by (auto simp: tailq_defs tailq_repr_def end_loc_last split: list.splits)
qed

lemma tailq_foreach_visits:
  "tailq_repr s h xs \<Longrightarrow> TAILQ_FOREACH visit h ([], s) = Some (xs, s)"
  by (simp add: TAILQ_FOREACH_def tq.foreach_visits)

subsection \<open>Properties\<close>

text \<open>C6 Any legal sequence of the five \<^verbatim>\<open>TAILQ\<close> insertions and deletions on a freshly
  initialised queue passes every \<^verbatim>\<open>QMD_TAILQ_CHECK_*\<close> consistency check on the way;
  afterwards \<^verbatim>\<open>TAILQ_FOREACH\<close> visits exactly the abstract list and
  \<^verbatim>\<open>TAILQ_FOREACH_REVERSE\<close>, which reads heads and elements through the same cast, visits it
  backwards.\<close>

theorem tailq_refines_list:
  assumes "ops_ok list_op_ok list_op_spec ops []"
  shows "\<exists>s'. run_ops (tailq_checked_step h) ops (TAILQ_INIT h s) = Some s'
           \<and> TAILQ_FOREACH visit h ([], s') = Some (fold list_op_spec ops [], s')
           \<and> TAILQ_FOREACH_REVERSE visit h ([], s') = Some (rev (fold list_op_spec ops []), s')"
  using tqs.run_sim[OF tq.repr_init assms] tailq_foreach_visits tailq_foreach_reverse_visits
  by blast

theorem tailq_refines_list_witness:
  "ops_ok list_op_ok list_op_spec [Ins_tail 1, Ins_before 1 2, Ins_after 1 3, Ins_head 4, Del 1] []
   \<and> (\<exists>s'. run_ops (tailq_checked_step 0) [Ins_tail 1, Ins_before 1 2, Ins_after 1 3, Ins_head 4, Del 1]
            (TAILQ_INIT 0 \<lparr>tq_cells = (\<lambda>_. Some 9), tqh_last = FirstOf, tqe_prev = NextOf\<rparr>) = Some s'
        \<and> TAILQ_FOREACH visit 0 ([], s') = Some ([4, 2, 3], s')
        \<and> TAILQ_FOREACH_REVERSE visit 0 ([], s') = Some ([3, 2, 4], s'))"
  using tailq_refines_list[of "[Ins_tail 1, Ins_before 1 2, Ins_after 1 3, Ins_head 4, Del 1]" 0
      "\<lparr>tq_cells = (\<lambda>_. Some 9), tqh_last = FirstOf, tqe_prev = NextOf\<rparr>"]
  by (simp del: run_ops.simps)

text \<open>\<^verbatim>\<open>TAILQ_CONCAT\<close> moves the whole second queue behind the first in one step and leaves
  the second empty; \<^verbatim>\<open>TAILQ_SWAP\<close> exchanges two queues.  Both keep all four kinds of links
  right, also when one of the queues is empty.\<close>

theorem tailq_concat_swap:
  assumes "tailq_repr s h1 xs" "tailq_repr s h2 ys" "h1 \<noteq> h2" "set xs \<inter> set ys = {}"
  shows "tailq_repr (TAILQ_CONCAT h1 h2 s) h1 (xs @ ys) \<and> tailq_repr (TAILQ_CONCAT h1 h2 s) h2 []
         \<and> tailq_repr (TAILQ_SWAP h1 h2 s) h1 ys \<and> tailq_repr (TAILQ_SWAP h1 h2 s) h2 xs"
  using tailq_concat_repr[OF assms] tailq_swap_repr[OF assms] by blast

definition tailq_example :: tailq where
  "tailq_example =
     TAILQ_INSERT_TAIL 1 7 (TAILQ_INSERT_TAIL 0 6 (TAILQ_INSERT_HEAD 0 5
       (TAILQ_INIT 1 (TAILQ_INIT 0
         \<lparr>tq_cells = (\<lambda>_. Some 9), tqh_last = FirstOf, tqe_prev = NextOf\<rparr>))))"

theorem tailq_concat_swap_witness:
  "tailq_repr tailq_example 0 [5, 6] \<and> tailq_repr tailq_example 1 [7]
   \<and> tailq_repr (TAILQ_CONCAT 0 1 tailq_example) 0 [5, 6, 7]
   \<and> tailq_repr (TAILQ_SWAP 0 1 tailq_example) 0 [7]"
proof -
  have "tailq_repr tailq_example 0 [5, 6]" "tailq_repr tailq_example 1 [7]"
    by (simp_all add: tailq_example_def tailq_defs tailq_repr_def seg_list_def)
  then show ?thesis using tailq_concat_swap[of tailq_example 0 "[5, 6]" 1 "[7]"] by simp
qed

end
