(* ===== verification/Nty_Rbtree.thy ===== *)
theory Nty_Rbtree
  imports Clang_Prelude
begin

text \<open>
  The red-black trees of \<^verbatim>\<open>kvstore/NtyCo/core/nty_tree.h\<close>, lines 277-745: what
  \<^verbatim>\<open>RB_HEAD\<close>, \<^verbatim>\<open>RB_ENTRY\<close> and \<^verbatim>\<open>RB_GENERATE\<close> produce for one tree.  A state holds the head's
  root pointer and, for every element, the four members of its entry.  \<open>cmp\<close> is the
  comparison function that the macros take as a parameter.  \<^verbatim>\<open>RB_AUGMENT\<close> has its default
  definition, the empty statement.  Dereferencing \<open>NULL\<close> is \<open>None\<close>, and so is a loop that does
  not end.

  \<open>rb_insert_color_left\<close> and \<open>rb_insert_color_right\<close> are the two halves of the loop body of
  \<^verbatim>\<open>RB_INSERT_COLOR\<close>, \<open>rb_remove_color_left\<close> and \<open>rb_remove_color_right\<close> those of
  \<^verbatim>\<open>RB_REMOVE_COLOR\<close>.
\<close>

datatype rb_color = RB_BLACK | RB_RED

record rb =
  rbh_root :: ptr
  rbe_left :: "addr \<Rightarrow> ptr"
  rbe_right :: "addr \<Rightarrow> ptr"
  rbe_parent :: "addr \<Rightarrow> ptr"
  rbe_color :: "addr \<Rightarrow> rb_color"

definition set_left :: "addr \<Rightarrow> ptr \<Rightarrow> rb \<Rightarrow> rb" where
  "set_left a v h = h\<lparr>rbe_left := (rbe_left h)(a := v)\<rparr>"

definition set_right :: "addr \<Rightarrow> ptr \<Rightarrow> rb \<Rightarrow> rb" where
  "set_right a v h = h\<lparr>rbe_right := (rbe_right h)(a := v)\<rparr>"

definition set_parent :: "addr \<Rightarrow> ptr \<Rightarrow> rb \<Rightarrow> rb" where
  "set_parent a v h = h\<lparr>rbe_parent := (rbe_parent h)(a := v)\<rparr>"

definition set_color :: "addr \<Rightarrow> rb_color \<Rightarrow> rb \<Rightarrow> rb" where
  "set_color a c h = h\<lparr>rbe_color := (rbe_color h)(a := c)\<rparr>"

definition RB_INIT :: "rb \<Rightarrow> rb" where
  "RB_INIT h = h\<lparr>rbh_root := None\<rparr>"

definition RB_EMPTY :: "rb \<Rightarrow> bool" where
  "RB_EMPTY h \<longleftrightarrow> rbh_root h = None"

definition RB_SET :: "addr \<Rightarrow> ptr \<Rightarrow> rb \<Rightarrow> rb" where
  "RB_SET elm parent h =
     set_color elm RB_RED (set_left elm None (set_right elm None (set_parent elm parent h)))"

definition RB_SET_BLACKRED :: "addr \<Rightarrow> addr \<Rightarrow> rb \<Rightarrow> rb" where
  "RB_SET_BLACKRED black red h = set_color red RB_RED (set_color black RB_BLACK h)"

subsection \<open>Rotations\<close>

definition RB_ROTATE_LEFT :: "addr \<Rightarrow> rb \<Rightarrow> rb option" where
  "RB_ROTATE_LEFT elm h =
     do { tmp \<leftarrow> rbe_right h elm;
          let h1 = set_right elm (rbe_left h tmp) h;
          let h2 = (case rbe_left h1 tmp of None \<Rightarrow> h1 | Some m \<Rightarrow> set_parent m (Some elm) h1);
          let h3 = set_parent tmp (rbe_parent h2 elm) h2;
          let h4 = (case rbe_parent h3 elm of
                      Some p \<Rightarrow> (if rbe_left h3 p = Some elm then set_left p (Some tmp) h3
                                else set_right p (Some tmp) h3)
                    | None \<Rightarrow> h3\<lparr>rbh_root := Some tmp\<rparr>);
          let h5 = set_left tmp (Some elm) h4;
          Some (set_parent elm (Some tmp) h5) }"

definition RB_ROTATE_RIGHT :: "addr \<Rightarrow> rb \<Rightarrow> rb option" where
  "RB_ROTATE_RIGHT elm h =
     do { tmp \<leftarrow> rbe_left h elm;
          let h1 = set_left elm (rbe_right h tmp) h;
          let h2 = (case rbe_right h1 tmp of None \<Rightarrow> h1 | Some m \<Rightarrow> set_parent m (Some elm) h1);
          let h3 = set_parent tmp (rbe_parent h2 elm) h2;
          let h4 = (case rbe_parent h3 elm of
                      Some p \<Rightarrow> (if rbe_left h3 p = Some elm then set_left p (Some tmp) h3
                                else set_right p (Some tmp) h3)
                    | None \<Rightarrow> h3\<lparr>rbh_root := Some tmp\<rparr>);
          let h5 = set_right tmp (Some elm) h4;
          Some (set_parent elm (Some tmp) h5) }"

subsection \<open>Rebalancing after insertion\<close>

definition is_red :: "rb \<Rightarrow> ptr \<Rightarrow> bool" where
  "is_red h p = (case p of None \<Rightarrow> False | Some a \<Rightarrow> rbe_color h a = RB_RED)"

definition null_or_black :: "rb \<Rightarrow> ptr \<Rightarrow> bool" where
  "null_or_black h p = (case p of None \<Rightarrow> True | Some a \<Rightarrow> rbe_color h a = RB_BLACK)"

definition blacken :: "ptr \<Rightarrow> rb \<Rightarrow> rb" where
  "blacken p h = (case p of None \<Rightarrow> h | Some a \<Rightarrow> set_color a RB_BLACK h)"

definition rb_insert_color_left :: "addr \<Rightarrow> addr \<Rightarrow> addr \<Rightarrow> rb \<Rightarrow> (addr \<times> rb) option" where
  "rb_insert_color_left gparent parent elm h =
     (let tmp = rbe_right h gparent in
      if is_red h tmp then
        Some (gparent, RB_SET_BLACKRED parent gparent (blacken tmp h))
      else do {
        (parent', elm', h1) \<leftarrow>
          (if rbe_right h parent = Some elm
           then do { h1 \<leftarrow> RB_ROTATE_LEFT parent h; Some (elm, parent, h1) }
           else Some (parent, elm, h));
        h3 \<leftarrow> RB_ROTATE_RIGHT gparent (RB_SET_BLACKRED parent' gparent h1);
        Some (elm', h3) })"

definition rb_insert_color_right :: "addr \<Rightarrow> addr \<Rightarrow> addr \<Rightarrow> rb \<Rightarrow> (addr \<times> rb) option" where
  "rb_insert_color_right gparent parent elm h =
     (let tmp = rbe_left h gparent in
      if is_red h tmp then
        Some (gparent, RB_SET_BLACKRED parent gparent (blacken tmp h))
      else do {
        (parent', elm', h1) \<leftarrow>
          (if rbe_left h parent = Some elm
           then do { h1 \<leftarrow> RB_ROTATE_RIGHT parent h; Some (elm, parent, h1) }
           else Some (parent, elm, h));
        h3 \<leftarrow> RB_ROTATE_LEFT gparent (RB_SET_BLACKRED parent' gparent h1);
        Some (elm', h3) })"

partial_function (option) rb_insert_color_loop :: "addr \<Rightarrow> rb \<Rightarrow> rb option" where
  "rb_insert_color_loop elm h =
     (case rbe_parent h elm of
        None \<Rightarrow> Some h
      | Some parent \<Rightarrow>
          if rbe_color h parent = RB_RED then do {
            gparent \<leftarrow> rbe_parent h parent;
            (elm', h') \<leftarrow> (if rbe_left h gparent = Some parent
                          then rb_insert_color_left gparent parent elm h
                          else rb_insert_color_right gparent parent elm h);
            rb_insert_color_loop elm' h' }
          else Some h)"

definition RB_INSERT_COLOR :: "addr \<Rightarrow> rb \<Rightarrow> rb option" where
  "RB_INSERT_COLOR elm h =
     do { h' \<leftarrow> rb_insert_color_loop elm h;
          root \<leftarrow> rbh_root h';
          Some (set_color root RB_BLACK h') }"

subsection \<open>Rebalancing after removal\<close>

text \<open>One iteration returns the new \<open>(parent, elm)\<close>; the flag says that the loop was left by
  \<^verbatim>\<open>break\<close>.\<close>

text \<open>Left half, from the test of the sibling's children on.\<close>

definition rb_remove_color_left_tail :: "addr \<Rightarrow> addr \<Rightarrow> rb \<Rightarrow> (bool \<times> ptr \<times> ptr \<times> rb) option" where
  "rb_remove_color_left_tail parent tmp h =
     (if null_or_black h (rbe_left h tmp) \<and> null_or_black h (rbe_right h tmp)
      then (let h1 = set_color tmp RB_RED h
            in Some (False, rbe_parent h1 parent, Some parent, h1))
      else do {
        (tmp, h) \<leftarrow> (if null_or_black h (rbe_right h tmp)
                     then do { h1 \<leftarrow> RB_ROTATE_RIGHT tmp
                                     (set_color tmp RB_RED (blacken (rbe_left h tmp) h));
                               tmp1 \<leftarrow> rbe_right h1 parent;
                               Some (tmp1, h1) }
                     else Some (tmp, h));
        let h1 = set_color tmp (rbe_color h parent) h;
        let h2 = set_color parent RB_BLACK h1;
        let h3 = blacken (rbe_right h2 tmp) h2;
        h4 \<leftarrow> RB_ROTATE_LEFT parent h3;
        Some (True, Some parent, rbh_root h4, h4) })"

definition rb_remove_color_left :: "addr \<Rightarrow> rb \<Rightarrow> (bool \<times> ptr \<times> ptr \<times> rb) option" where
  "rb_remove_color_left parent h = do {
     tmp \<leftarrow> rbe_right h parent;
     (tmp, h) \<leftarrow> (if rbe_color h tmp = RB_RED
                  then do { h1 \<leftarrow> RB_ROTATE_LEFT parent (RB_SET_BLACKRED tmp parent h);
                            tmp1 \<leftarrow> rbe_right h1 parent;
                            Some (tmp1, h1) }
                  else Some (tmp, h));
     rb_remove_color_left_tail parent tmp h }"

text \<open>Right half.\<close>

definition rb_remove_color_right_tail :: "addr \<Rightarrow> addr \<Rightarrow> rb \<Rightarrow> (bool \<times> ptr \<times> ptr \<times> rb) option" where
  "rb_remove_color_right_tail parent tmp h =
     (if null_or_black h (rbe_left h tmp) \<and> null_or_black h (rbe_right h tmp)
      then (let h1 = set_color tmp RB_RED h
            in Some (False, rbe_parent h1 parent, Some parent, h1))
      else do {
        (tmp, h) \<leftarrow> (if null_or_black h (rbe_left h tmp)
                     then do { h1 \<leftarrow> RB_ROTATE_LEFT tmp
                                     (set_color tmp RB_RED (blacken (rbe_right h tmp) h));
                               tmp1 \<leftarrow> rbe_left h1 parent;
                               Some (tmp1, h1) }
                     else Some (tmp, h));
        let h1 = set_color tmp (rbe_color h parent) h;
        let h2 = set_color parent RB_BLACK h1;
        let h3 = blacken (rbe_left h2 tmp) h2;
        h4 \<leftarrow> RB_ROTATE_RIGHT parent h3;
        Some (True, Some parent, rbh_root h4, h4) })"

definition rb_remove_color_right :: "addr \<Rightarrow> rb \<Rightarrow> (bool \<times> ptr \<times> ptr \<times> rb) option" where
  "rb_remove_color_right parent h = do {
     tmp \<leftarrow> rbe_left h parent;
     (tmp, h) \<leftarrow> (if rbe_color h tmp = RB_RED
                  then do { h1 \<leftarrow> RB_ROTATE_RIGHT parent (RB_SET_BLACKRED tmp parent h);
                            tmp1 \<leftarrow> rbe_left h1 parent;
                            Some (tmp1, h1) }
                  else Some (tmp, h));
     rb_remove_color_right_tail parent tmp h }"

partial_function (option) rb_remove_color_loop :: "ptr \<Rightarrow> ptr \<Rightarrow> rb \<Rightarrow> (ptr \<times> rb) option" where
  "rb_remove_color_loop parent elm h =
     (if null_or_black h elm \<and> elm \<noteq> rbh_root h then do {
        p \<leftarrow> parent;
        (brk, parent', elm', h') \<leftarrow> (if rbe_left h p = elm then rb_remove_color_left p h
                                    else rb_remove_color_right p h);
        if brk then Some (elm', h') else rb_remove_color_loop parent' elm' h' }
      else Some (elm, h))"

definition RB_REMOVE_COLOR :: "ptr \<Rightarrow> ptr \<Rightarrow> rb \<Rightarrow> rb option" where
  "RB_REMOVE_COLOR parent elm h =
     do { (elm', h') \<leftarrow> rb_remove_color_loop parent elm h;
          Some (blacken elm' h') }"

subsection \<open>Removal\<close>

text \<open>Hang \<open>child\<close> in the place of \<open>elm\<close> below \<open>parent\<close> (the same statements occur twice in
  \<^verbatim>\<open>RB_REMOVE\<close>).\<close>

definition rb_splice :: "ptr \<Rightarrow> addr \<Rightarrow> ptr \<Rightarrow> rb \<Rightarrow> rb" where
  "rb_splice parent elm child h =
     (let h1 = (case child of None \<Rightarrow> h | Some c \<Rightarrow> set_parent c parent h)
      in (case parent of
            Some p \<Rightarrow> (if rbe_left h1 p = Some elm then set_left p child h1 else set_right p child h1)
          | None \<Rightarrow> h1\<lparr>rbh_root := child\<rparr>))"

partial_function (option) rb_leftmost :: "addr \<Rightarrow> rb \<Rightarrow> addr option" where
  "rb_leftmost elm h =
     (case rbe_left h elm of None \<Rightarrow> Some elm | Some left \<Rightarrow> rb_leftmost left h)"

text \<open>The \<^verbatim>\<open>do ... while\<close> loop that calls \<^verbatim>\<open>RB_AUGMENT\<close> on every ancestor.\<close>

partial_function (option) rb_augment_up :: "addr \<Rightarrow> rb \<Rightarrow> rb option" where
  "rb_augment_up left h =
     (case rbe_parent h left of None \<Rightarrow> Some h | Some up \<Rightarrow> rb_augment_up up h)"

text \<open>\<^verbatim>\<open>(elm)->field = (old)->field\<close>\<close>

definition rb_copy_entry :: "addr \<Rightarrow> addr \<Rightarrow> rb \<Rightarrow> rb" where
  "rb_copy_entry elm old h =
     set_left elm (rbe_left h old) (set_right elm (rbe_right h old)
       (set_parent elm (rbe_parent h old) (set_color elm (rbe_color h old) h)))"

text \<open>Put \<open>elm\<close> in the place of \<open>old\<close>: copy the entry and redirect the neighbours' pointers.\<close>

definition rb_replace :: "addr \<Rightarrow> addr \<Rightarrow> rb \<Rightarrow> rb option" where
  "rb_replace old elm h = do {
     let h1 = rb_copy_entry elm old h;
     let h2 = (case rbe_parent h1 old of
                 Some p \<Rightarrow> (if rbe_left h1 p = Some old then set_left p (Some elm) h1
                           else set_right p (Some elm) h1)
               | None \<Rightarrow> h1\<lparr>rbh_root := Some elm\<rparr>);
     l \<leftarrow> rbe_left h2 old;
     let h3 = set_parent l (Some elm) h2;
     Some (case rbe_right h3 old of None \<Rightarrow> h3 | Some r \<Rightarrow> set_parent r (Some elm) h3) }"

definition RB_REMOVE :: "addr \<Rightarrow> rb \<Rightarrow> (addr \<times> rb) option" where
  "RB_REMOVE elm h = do {
     let old = elm;
     (color, parent, child, h) \<leftarrow>
       (if rbe_left h elm = None \<or> rbe_right h elm = None then
          (let child = (if rbe_left h elm = None then rbe_right h elm else rbe_left h elm);
               parent = rbe_parent h elm
           in Some (rbe_color h elm, parent, child, rb_splice parent elm child h))
        else do {
          right \<leftarrow> rbe_right h elm;
          elm \<leftarrow> rb_leftmost right h;
          let child = rbe_right h elm;
          let parent = rbe_parent h elm;
          let color = rbe_color h elm;
          let h1 = rb_splice parent elm child h;
          let parent = (if rbe_parent h1 elm = Some old then Some elm else parent);
          h2 \<leftarrow> rb_replace old elm h1;
          h3 \<leftarrow> (case parent of None \<Rightarrow> Some h2 | Some p \<Rightarrow> rb_augment_up p h2);
          Some (color, parent, child, h3) });
     h' \<leftarrow> (if color = RB_BLACK then RB_REMOVE_COLOR parent child h else Some h);
     Some (old, h') }"

subsection \<open>Insertion\<close>

text \<open>The descent: \<open>Inl\<close> is the early return of an element with an equal key, \<open>Inr\<close> the last
  \<open>parent\<close> and \<open>comp\<close> (\<open>cres\<close>).\<close>

partial_function (option) rb_insert_descend ::
  "(addr \<Rightarrow> addr \<Rightarrow> int) \<Rightarrow> addr \<Rightarrow> ptr \<Rightarrow> ptr \<Rightarrow> int \<Rightarrow> rb \<Rightarrow> (addr + ptr \<times> int) option" where
  "rb_insert_descend cmp elm tmp parent cres h =
     (case tmp of
        None \<Rightarrow> Some (Inr (parent, cres))
      | Some t \<Rightarrow>
          (let cres' = cmp elm t in
           if cres' < 0 then rb_insert_descend cmp elm (rbe_left h t) (Some t) cres' h
           else if cres' > 0 then rb_insert_descend cmp elm (rbe_right h t) (Some t) cres' h
           else Some (Inl t)))"

definition RB_INSERT :: "(addr \<Rightarrow> addr \<Rightarrow> int) \<Rightarrow> addr \<Rightarrow> rb \<Rightarrow> (ptr \<times> rb) option" where
  "RB_INSERT cmp elm h = do {
     r \<leftarrow> rb_insert_descend cmp elm (rbh_root h) None 0 h;
     (case r of
        Inl t \<Rightarrow> Some (Some t, h)
      | Inr (parent, cres) \<Rightarrow> do {
          let h1 = RB_SET elm parent h;
          let h2 = (case parent of
                      Some p \<Rightarrow> (if cres < 0 then set_left p (Some elm) h1
                                else set_right p (Some elm) h1)
                    | None \<Rightarrow> h1\<lparr>rbh_root := Some elm\<rparr>);
          h3 \<leftarrow> RB_INSERT_COLOR elm h2;
          Some (None, h3) }) }"

subsection \<open>Queries\<close>

partial_function (option) rb_find_loop ::
  "(addr \<Rightarrow> addr \<Rightarrow> int) \<Rightarrow> addr \<Rightarrow> ptr \<Rightarrow> rb \<Rightarrow> ptr option" where
  "rb_find_loop cmp elm tmp h =
     (case tmp of
        None \<Rightarrow> Some None
      | Some t \<Rightarrow>
          (let cres = cmp elm t in
           if cres < 0 then rb_find_loop cmp elm (rbe_left h t) h
           else if cres > 0 then rb_find_loop cmp elm (rbe_right h t) h
           else Some (Some t)))"

definition RB_FIND :: "(addr \<Rightarrow> addr \<Rightarrow> int) \<Rightarrow> addr \<Rightarrow> rb \<Rightarrow> ptr option" where
  "RB_FIND cmp elm h = rb_find_loop cmp elm (rbh_root h) h"

partial_function (option) rb_nfind_loop ::
  "(addr \<Rightarrow> addr \<Rightarrow> int) \<Rightarrow> addr \<Rightarrow> ptr \<Rightarrow> ptr \<Rightarrow> rb \<Rightarrow> ptr option" where
  "rb_nfind_loop cmp elm tmp res h =
     (case tmp of
        None \<Rightarrow> Some res
      | Some t \<Rightarrow>
          (let cres = cmp elm t in
           if cres < 0 then rb_nfind_loop cmp elm (rbe_left h t) (Some t) h
           else if cres > 0 then rb_nfind_loop cmp elm (rbe_right h t) res h
           else Some (Some t)))"

definition RB_NFIND :: "(addr \<Rightarrow> addr \<Rightarrow> int) \<Rightarrow> addr \<Rightarrow> rb \<Rightarrow> ptr option" where
  "RB_NFIND cmp elm h = rb_nfind_loop cmp elm (rbh_root h) None h"

partial_function (option) rb_rightmost :: "addr \<Rightarrow> rb \<Rightarrow> addr option" where
  "rb_rightmost elm h =
     (case rbe_right h elm of None \<Rightarrow> Some elm | Some right \<Rightarrow> rb_rightmost right h)"

text \<open>Climb while \<open>elm\<close> is a right (left) child; the result is the parent reached.\<close>

partial_function (option) rb_climb_right :: "addr \<Rightarrow> rb \<Rightarrow> ptr option" where
  "rb_climb_right elm h =
     (case rbe_parent h elm of
        None \<Rightarrow> Some None
      | Some p \<Rightarrow> if rbe_right h p = Some elm then rb_climb_right p h else Some (Some p))"

partial_function (option) rb_climb_left :: "addr \<Rightarrow> rb \<Rightarrow> ptr option" where
  "rb_climb_left elm h =
     (case rbe_parent h elm of
        None \<Rightarrow> Some None
      | Some p \<Rightarrow> if rbe_left h p = Some elm then rb_climb_left p h else Some (Some p))"

definition RB_NEXT :: "addr \<Rightarrow> rb \<Rightarrow> ptr option" where
  "RB_NEXT elm h =
     (case rbe_right h elm of
        Some r \<Rightarrow> do { e \<leftarrow> rb_leftmost r h; Some (Some e) }
      | None \<Rightarrow>
          (case rbe_parent h elm of
             Some p \<Rightarrow> if rbe_left h p = Some elm then Some (Some p) else rb_climb_right elm h
           | None \<Rightarrow> rb_climb_right elm h))"

definition RB_PREV :: "addr \<Rightarrow> rb \<Rightarrow> ptr option" where
  "RB_PREV elm h =
     (case rbe_left h elm of
        Some l \<Rightarrow> do { e \<leftarrow> rb_rightmost l h; Some (Some e) }
      | None \<Rightarrow>
          (case rbe_parent h elm of
             Some p \<Rightarrow> if rbe_right h p = Some elm then Some (Some p) else rb_climb_left elm h
           | None \<Rightarrow> rb_climb_left elm h))"

partial_function (option) rb_minmax_loop :: "int \<Rightarrow> ptr \<Rightarrow> ptr \<Rightarrow> rb \<Rightarrow> ptr option" where
  "rb_minmax_loop val tmp parent h =
     (case tmp of
        None \<Rightarrow> Some parent
      | Some t \<Rightarrow> rb_minmax_loop val (if val < 0 then rbe_left h t else rbe_right h t) (Some t) h)"

definition RB_MINMAX :: "int \<Rightarrow> rb \<Rightarrow> ptr option" where
  "RB_MINMAX val h = rb_minmax_loop val (rbh_root h) None h"

definition RB_NEGINF :: int where "RB_NEGINF = - 1"
definition RB_INF :: int where "RB_INF = 1"

definition RB_MIN :: "rb \<Rightarrow> ptr option" where "RB_MIN h = RB_MINMAX RB_NEGINF h"
definition RB_MAX :: "rb \<Rightarrow> ptr option" where "RB_MAX h = RB_MINMAX RB_INF h"

subsection \<open>Traversal\<close>

text \<open>The loop of \<^verbatim>\<open>RB_FOREACH\<close> and \<^verbatim>\<open>RB_FOREACH_REVERSE\<close>: the successor is computed after the
  body.  In the \<^verbatim>\<open>_SAFE\<close> and \<^verbatim>\<open>_FROM\<close> forms it is computed before.\<close>

partial_function (option) rb_for_each ::
  "(addr \<Rightarrow> rb \<Rightarrow> ptr option) \<Rightarrow> (addr \<Rightarrow> 'b \<times> rb \<Rightarrow> ('b \<times> rb) option) \<Rightarrow> ptr \<Rightarrow> 'b \<times> rb
     \<Rightarrow> ('b \<times> rb) option" where
  "rb_for_each step body x st =
     (case x of
        None \<Rightarrow> Some st
      | Some e \<Rightarrow> do { st' \<leftarrow> body e st; y \<leftarrow> step e (snd st'); rb_for_each step body y st' })"

partial_function (option) rb_for_each_safe ::
  "(addr \<Rightarrow> rb \<Rightarrow> ptr option) \<Rightarrow> (addr \<Rightarrow> 'b \<times> rb \<Rightarrow> ('b \<times> rb) option) \<Rightarrow> ptr \<Rightarrow> 'b \<times> rb
     \<Rightarrow> ('b \<times> rb) option" where
  "rb_for_each_safe step body x st =
     (case x of
        None \<Rightarrow> Some st
      | Some e \<Rightarrow> do { y \<leftarrow> step e (snd st); st' \<leftarrow> body e st; rb_for_each_safe step body y st' })"

definition RB_FOREACH ::
  "(addr \<Rightarrow> 'b \<times> rb \<Rightarrow> ('b \<times> rb) option) \<Rightarrow> 'b \<times> rb \<Rightarrow> ('b \<times> rb) option" where
  "RB_FOREACH body st = do { x \<leftarrow> RB_MIN (snd st); rb_for_each RB_NEXT body x st }"

definition RB_FOREACH_FROM ::
  "ptr \<Rightarrow> (addr \<Rightarrow> 'b \<times> rb \<Rightarrow> ('b \<times> rb) option) \<Rightarrow> 'b \<times> rb \<Rightarrow> ('b \<times> rb) option" where
  "RB_FOREACH_FROM y body st = rb_for_each_safe RB_NEXT body y st"

definition RB_FOREACH_SAFE ::
  "(addr \<Rightarrow> 'b \<times> rb \<Rightarrow> ('b \<times> rb) option) \<Rightarrow> 'b \<times> rb \<Rightarrow> ('b \<times> rb) option" where
  "RB_FOREACH_SAFE body st = do { x \<leftarrow> RB_MIN (snd st); rb_for_each_safe RB_NEXT body x st }"

definition RB_FOREACH_REVERSE ::
  "(addr \<Rightarrow> 'b \<times> rb \<Rightarrow> ('b \<times> rb) option) \<Rightarrow> 'b \<times> rb \<Rightarrow> ('b \<times> rb) option" where
  "RB_FOREACH_REVERSE body st = do { x \<leftarrow> RB_MAX (snd st); rb_for_each RB_PREV body x st }"

definition RB_FOREACH_REVERSE_FROM ::
  "ptr \<Rightarrow> (addr \<Rightarrow> 'b \<times> rb \<Rightarrow> ('b \<times> rb) option) \<Rightarrow> 'b \<times> rb \<Rightarrow> ('b \<times> rb) option" where
  "RB_FOREACH_REVERSE_FROM y body st = rb_for_each_safe RB_PREV body y st"

definition RB_FOREACH_REVERSE_SAFE ::
  "(addr \<Rightarrow> 'b \<times> rb \<Rightarrow> ('b \<times> rb) option) \<Rightarrow> 'b \<times> rb \<Rightarrow> ('b \<times> rb) option" where
  "RB_FOREACH_REVERSE_SAFE body st = do { x \<leftarrow> RB_MAX (snd st); rb_for_each_safe RB_PREV body x st }"

declare rb_insert_color_loop.simps [code] rb_remove_color_loop.simps [code]
  rb_leftmost.simps [code] rb_rightmost.simps [code] rb_augment_up.simps [code]
  rb_insert_descend.simps [code] rb_find_loop.simps [code] rb_nfind_loop.simps [code]
  rb_climb_right.simps [code] rb_climb_left.simps [code] rb_minmax_loop.simps [code]
  rb_for_each.simps [code] rb_for_each_safe.simps [code]

end
