(* ===== verification/Nty_Rb_Shape.thy ===== *)
theory Nty_Rb_Shape
  imports Nty_Rbtree
begin

text \<open>
  The shape of a red-black tree in the heap.  \<open>rbtree\<close> is the tree as a value, a list of
  frames is a tree with a hole (innermost frame first), and \<open>focus h t k\<close> says that the
  heap holds the tree \<open>t\<close> in the hole of \<open>k\<close>, with all parent pointers right and no two
  positions sharing an element.  Walking up and down is rewriting with \<open>focus_InL\<close> and
  \<open>focus_InR\<close>; every heap operation of the code has one lemma that says what it does to the
  focused tree.
\<close>

datatype rbtree = Lf | Nd rb_color rbtree addr rbtree

datatype frame = InL rb_color addr rbtree | InR rb_color rbtree addr

fun inord :: "rbtree \<Rightarrow> addr list" where
  "inord Lf = []"
| "inord (Nd c l a r) = inord l @ a # inord r"

fun rootp :: "rbtree \<Rightarrow> ptr" where
  "rootp Lf = None"
| "rootp (Nd c l a r) = Some a"

fun framep :: "frame list \<Rightarrow> ptr" where
  "framep [] = None"
| "framep (InL c a r # k) = Some a"
| "framep (InR c l a # k) = Some a"

fun plug :: "rbtree \<Rightarrow> frame list \<Rightarrow> rbtree" where
  "plug t [] = t"
| "plug t (InL c a r # k) = plug (Nd c t a r) k"
| "plug t (InR c l a # k) = plug (Nd c l a t) k"

fun lefts :: "frame list \<Rightarrow> addr list" where
  "lefts [] = []"
| "lefts (InL c a r # k) = lefts k"
| "lefts (InR c l a # k) = lefts k @ inord l @ [a]"

fun rights :: "frame list \<Rightarrow> addr list" where
  "rights [] = []"
| "rights (InL c a r # k) = a # inord r @ rights k"
| "rights (InR c l a # k) = rights k"

lemma inord_plug: "inord (plug t k) = lefts k @ inord t @ rights k"
  by (induction t k rule: plug.induct) auto

lemma plug_append: "plug t (k @ k') = plug (plug t k) k'"
  by (induction t k rule: plug.induct) auto

lemma inord_Nil [simp]: "inord t = [] \<longleftrightarrow> t = Lf"
  by (cases t) auto

lemma rootp_None [simp]: "rootp t = None \<longleftrightarrow> t = Lf"
  by (cases t) auto

lemma rootp_in: "rootp t = Some a \<Longrightarrow> a \<in> set (inord t)"
  by (cases t) auto

lemma framep_in: "framep k = Some a \<Longrightarrow> a \<in> set (lefts k) \<union> set (rights k)"
  by (cases k rule: framep.cases) auto

fun rep :: "rb \<Rightarrow> ptr \<Rightarrow> rbtree \<Rightarrow> bool" where
  "rep h p Lf \<longleftrightarrow> True"
| "rep h p (Nd c l a r) \<longleftrightarrow>
     rbe_parent h a = p \<and> rbe_color h a = c \<and> rbe_left h a = rootp l \<and> rbe_right h a = rootp r
     \<and> rep h (Some a) l \<and> rep h (Some a) r"

fun rep_ctx :: "rb \<Rightarrow> ptr \<Rightarrow> frame list \<Rightarrow> bool" where
  "rep_ctx h p [] \<longleftrightarrow> rbh_root h = p"
| "rep_ctx h p (InL c a r # k) \<longleftrightarrow>
     rbe_parent h a = framep k \<and> rbe_color h a = c \<and> rbe_left h a = p \<and> rbe_right h a = rootp r
     \<and> rep h (Some a) r \<and> rep_ctx h (Some a) k"
| "rep_ctx h p (InR c l a # k) \<longleftrightarrow>
     rbe_parent h a = framep k \<and> rbe_color h a = c \<and> rbe_left h a = rootp l \<and> rbe_right h a = p
     \<and> rep h (Some a) l \<and> rep_ctx h (Some a) k"

definition focus :: "rb \<Rightarrow> rbtree \<Rightarrow> frame list \<Rightarrow> bool" where
  "focus h t k \<longleftrightarrow> rep h (framep k) t \<and> rep_ctx h (rootp t) k \<and> distinct (inord (plug t k))"

lemma focus_InL: "focus h t (InL c a r # k) \<longleftrightarrow> focus h (Nd c t a r) k"
  by (auto simp: focus_def)

lemma focus_InR: "focus h t (InR c l a # k) \<longleftrightarrow> focus h (Nd c l a t) k"
  by (auto simp: focus_def)

lemma focus_plug: "focus h (plug t k) k' \<longleftrightarrow> focus h t (k @ k')"
  by (induction t k rule: plug.induct) (auto simp: focus_InL focus_InR)

lemma focus_append: "focus h t (k @ k') \<longleftrightarrow> focus h (plug t k) k'"
  by (simp add: focus_plug)

subsection \<open>Updates elsewhere\<close>

lemmas rb_set_defs = set_left_def set_right_def set_parent_def set_color_def

lemma rb_set_simps [simp]:
  "rbh_root (set_left a v h) = rbh_root h" "rbh_root (set_right a v h) = rbh_root h"
  "rbh_root (set_parent a v h) = rbh_root h" "rbh_root (set_color a c h) = rbh_root h"
  "rbe_left (set_left a v h) = (rbe_left h)(a := v)" "rbe_left (set_right a v h) = rbe_left h"
  "rbe_left (set_parent a v h) = rbe_left h" "rbe_left (set_color a c h) = rbe_left h"
  "rbe_right (set_left a v h) = rbe_right h" "rbe_right (set_right a v h) = (rbe_right h)(a := v)"
  "rbe_right (set_parent a v h) = rbe_right h" "rbe_right (set_color a c h) = rbe_right h"
  "rbe_parent (set_left a v h) = rbe_parent h" "rbe_parent (set_right a v h) = rbe_parent h"
  "rbe_parent (set_parent a v h) = (rbe_parent h)(a := v)" "rbe_parent (set_color a c h) = rbe_parent h"
  "rbe_color (set_left a v h) = rbe_color h" "rbe_color (set_right a v h) = rbe_color h"
  "rbe_color (set_parent a v h) = rbe_color h" "rbe_color (set_color a c h) = (rbe_color h)(a := c)"
  by (simp_all add: rb_set_defs)

text \<open>A heap that agrees on the elements of a tree holds the same tree.\<close>

definition agree :: "addr set \<Rightarrow> rb \<Rightarrow> rb \<Rightarrow> bool" where
  "agree A h h' \<longleftrightarrow> (\<forall>a\<in>A. rbe_left h' a = rbe_left h a \<and> rbe_right h' a = rbe_right h a
      \<and> rbe_parent h' a = rbe_parent h a \<and> rbe_color h' a = rbe_color h a)"

lemma rep_agree: "agree (set (inord t)) h h' \<Longrightarrow> rep h p t \<Longrightarrow> rep h' p t"
  by (induction t arbitrary: p) (auto simp: agree_def)

lemma rep_ctx_agree:
  "agree (set (lefts k) \<union> set (rights k)) h h' \<Longrightarrow> rbh_root h' = rbh_root h \<Longrightarrow>
     rep_ctx h p k \<Longrightarrow> rep_ctx h' p k"
proof (induction k arbitrary: p)
  case (Cons f k)
  then show ?case by (cases f) (auto simp: agree_def intro: rep_agree[unfolded agree_def])
qed simp

lemma agree_set [simp]:
  "a \<notin> A \<Longrightarrow> agree A h (set_left a v h')  = agree A h h'"
  "a \<notin> A \<Longrightarrow> agree A h (set_right a v h') = agree A h h'"
  "a \<notin> A \<Longrightarrow> agree A h (set_parent a v h') = agree A h h'"
  "a \<notin> A \<Longrightarrow> agree A h (set_color a c h') = agree A h h'"
  "agree A h (h'\<lparr>rbh_root := v\<rparr>) = agree A h h'"
  "agree A h h"
  by (auto simp: agree_def)

lemma rep_set [simp]:
  "a \<notin> set (inord t) \<Longrightarrow> rep (set_left a v h) p t = rep h p t"
  "a \<notin> set (inord t) \<Longrightarrow> rep (set_right a v h) p t = rep h p t"
  "a \<notin> set (inord t) \<Longrightarrow> rep (set_parent a v h) p t = rep h p t"
  "a \<notin> set (inord t) \<Longrightarrow> rep (set_color a c h) p t = rep h p t"
  "rep (h\<lparr>rbh_root := q\<rparr>) p t = rep h p t"
  by (induction t arbitrary: p) auto

lemma rep_ctx_set [simp]:
  "a \<notin> set (lefts k) \<Longrightarrow> a \<notin> set (rights k) \<Longrightarrow> rep_ctx (set_left a v h) p k = rep_ctx h p k"
  "a \<notin> set (lefts k) \<Longrightarrow> a \<notin> set (rights k) \<Longrightarrow> rep_ctx (set_right a v h) p k = rep_ctx h p k"
  "a \<notin> set (lefts k) \<Longrightarrow> a \<notin> set (rights k) \<Longrightarrow> rep_ctx (set_parent a v h) p k = rep_ctx h p k"
  "a \<notin> set (lefts k) \<Longrightarrow> a \<notin> set (rights k) \<Longrightarrow> rep_ctx (set_color a c h) p k = rep_ctx h p k"
  by (induction k arbitrary: p rule: lefts.induct) auto

text \<open>Hanging another subtree root into the hole of a context, and giving a subtree another
  parent.\<close>

definition rb_rehang :: "ptr \<Rightarrow> addr \<Rightarrow> ptr \<Rightarrow> rb \<Rightarrow> rb" where
  "rb_rehang parent elm new h =
     (case parent of
        Some p \<Rightarrow> (if rbe_left h p = Some elm then set_left p new h else set_right p new h)
      | None \<Rightarrow> h\<lparr>rbh_root := new\<rparr>)"

lemma rep_set_parent_root:
  "distinct (inord t) \<Longrightarrow> rep h p t \<Longrightarrow> rootp t = Some a \<Longrightarrow> rep (set_parent a q h) q t"
  by (cases t) auto

lemma rep_ctx_rehang:
  assumes "rep_ctx h (Some e) k" "distinct (lefts k @ rights k)" "e \<notin> set (lefts k)" "e \<notin> set (rights k)"
  shows "rep_ctx (rb_rehang (framep k) e new h) new k"
proof (cases k rule: framep.cases)
  case (2 c a r k')
  with assms show ?thesis by (auto simp: rb_rehang_def)
next
  case (3 c l a k')
  with assms have "rootp l \<noteq> Some e" by (auto dest: rootp_in)
  with 3 assms show ?thesis by (auto simp: rb_rehang_def)
qed (use assms in \<open>auto simp: rb_rehang_def\<close>)

lemma rep_rehang:
  assumes "rep h p t" "set (inord t) \<inter> (set (lefts k) \<union> set (rights k)) = {}"
  shows "rep (rb_rehang (framep k) e new h) p t"
proof (cases "framep k")
  case (Some a)
  with assms(2) have "a \<notin> set (inord t)" by (auto dest!: framep_in)
  with assms(1) Some show ?thesis by (auto simp: rb_rehang_def)
qed (use assms in \<open>auto simp: rb_rehang_def\<close>)

lemma rb_rehang_fields [simp]:
  "rbe_parent (rb_rehang q e n h) = rbe_parent h"
  "rbe_color (rb_rehang q e n h) = rbe_color h"
  "q \<noteq> Some x \<Longrightarrow> rbe_left (rb_rehang q e n h) x = rbe_left h x"
  "q \<noteq> Some x \<Longrightarrow> rbe_right (rb_rehang q e n h) x = rbe_right h x"
  by (auto simp: rb_rehang_def split: option.splits)

subsection \<open>What the heap operations do to the focused tree\<close>

lemma focus_distinct:
  "focus h t k \<Longrightarrow> distinct (inord t) \<and> distinct (lefts k @ rights k)
     \<and> set (inord t) \<inter> (set (lefts k) \<union> set (rights k)) = {}"
  by (auto simp: focus_def inord_plug)

lemma focus_framep_notin: "focus h t k \<Longrightarrow> x \<in> set (inord t) \<Longrightarrow> framep k \<noteq> Some x"
  by (auto dest!: focus_distinct framep_in)

lemma focusI:
  assumes "rep h (framep k) t" "rep_ctx h (rootp t) k" "focus h' t' k" "distinct (inord t)"
    "set (inord t) \<subseteq> set (inord t')"
  shows "focus h t k"
  using assms by (auto simp: focus_def inord_plug)

text \<open>The heap with \<open>m\<close>'s root re-parented, when there is one.\<close>

definition reparent :: "ptr \<Rightarrow> ptr \<Rightarrow> rb \<Rightarrow> rb" where
  "reparent p q h = (case p of None \<Rightarrow> h | Some a \<Rightarrow> set_parent a q h)"

lemma reparent_fields [simp]:
  "rbh_root (reparent p q h) = rbh_root h" "rbe_left (reparent p q h) = rbe_left h"
  "rbe_right (reparent p q h) = rbe_right h" "rbe_color (reparent p q h) = rbe_color h"
  "p \<noteq> Some x \<Longrightarrow> rbe_parent (reparent p q h) x = rbe_parent h x"
  by (auto simp: reparent_def split: option.splits)

lemma rep_reparent: "distinct (inord t) \<Longrightarrow> rep h p t \<Longrightarrow> rep (reparent (rootp t) q h) q t"
  by (cases t) (auto simp: reparent_def)

lemma rep_reparent_other:
  "set (inord t) \<inter> set (inord m) = {} \<Longrightarrow> rep (reparent (rootp m) q h) p t = rep h p t"
  by (cases m) (auto simp: reparent_def)

lemma rep_ctx_reparent:
  "set (inord m) \<inter> (set (lefts k) \<union> set (rights k)) = {} \<Longrightarrow>
     rep_ctx (reparent (rootp m) q h) p k = rep_ctx h p k"
  by (cases m) (auto simp: reparent_def)

lemma RB_ROTATE_LEFT_eq:
  "RB_ROTATE_LEFT elm h =
     do { tmp \<leftarrow> rbe_right h elm;
          let h3 = set_parent tmp (rbe_parent (reparent (rbe_left h tmp) (Some elm) h) elm)
                     (reparent (rbe_left h tmp) (Some elm) (set_right elm (rbe_left h tmp) h));
          Some (set_parent elm (Some tmp) (set_left tmp (Some elm)
                 (rb_rehang (rbe_parent h3 elm) elm (Some tmp) h3))) }"
  by (cases "rbe_right h elm")
    (auto simp: RB_ROTATE_LEFT_def reparent_def rb_rehang_def Let_def split: option.splits)

lemma RB_ROTATE_RIGHT_eq:
  "RB_ROTATE_RIGHT elm h =
     do { tmp \<leftarrow> rbe_left h elm;
          let h3 = set_parent tmp (rbe_parent (reparent (rbe_right h tmp) (Some elm) h) elm)
                     (reparent (rbe_right h tmp) (Some elm) (set_left elm (rbe_right h tmp) h));
          Some (set_parent elm (Some tmp) (set_right tmp (Some elm)
                 (rb_rehang (rbe_parent h3 elm) elm (Some tmp) h3))) }"
  by (cases "rbe_left h elm")
    (auto simp: RB_ROTATE_RIGHT_def reparent_def rb_rehang_def Let_def split: option.splits)

lemma rotate_left_focus:
  assumes f: "focus h (Nd c l a (Nd c' m b r)) k"
  shows "\<exists>h'. RB_ROTATE_LEFT a h = Some h' \<and> focus h' (Nd c' (Nd c l a m) b r) k"
proof -
  note d = focus_distinct[OF f]
  from d have ne: "rootp m \<noteq> Some a" "rootp m \<noteq> Some b" by (auto dest!: rootp_in)
  from d have n: "a \<notin> set (inord l)" "b \<notin> set (inord l)" "a \<notin> set (inord m)"
      "b \<notin> set (inord m)" "a \<notin> set (inord r)" "b \<notin> set (inord r)"
      "set (inord l) \<inter> set (inord m) = {}" "set (inord r) \<inter> set (inord m) = {}"
      "distinct (inord m)" by auto
  from d have dk: "set (inord l) \<inter> (set (lefts k) \<union> set (rights k)) = {}"
      "set (inord m) \<inter> (set (lefts k) \<union> set (rights k)) = {}"
      "set (inord r) \<inter> (set (lefts k) \<union> set (rights k)) = {}" by auto
  have fr: "framep k \<noteq> Some a" "framep k \<noteq> Some b"
    using focus_framep_notin[OF f] by auto
  let ?h3 = "set_parent b (framep k) (reparent (rootp m) (Some a) (set_right a (rootp m) h))"
  let ?h' = "set_parent a (Some b) (set_left b (Some a) (rb_rehang (framep k) a (Some b) ?h3))"
  from f have r: "rep h (framep k) (Nd c l a (Nd c' m b r))" and rc: "rep_ctx h (Some a) k"
    by (auto simp: focus_def)
  have "RB_ROTATE_LEFT a h = Some ?h'"
    using r ne d by (simp add: RB_ROTATE_LEFT_eq Let_def)
  moreover have "rep_ctx ?h' (Some b) k"
  proof -
    have "rep_ctx ?h3 (Some a) k" using rc d by (simp add: rep_ctx_reparent disjoint_iff)
    then have "rep_ctx (rb_rehang (framep k) a (Some b) ?h3) (Some b) k"
      by (rule rep_ctx_rehang) (use d in auto)
    then show ?thesis using d by simp
  qed
  moreover have "rep (rb_rehang (framep k) a (Some b) ?h3) (Some a) l"
    by (rule rep_rehang[OF _ dk(1)]) (use r n in \<open>simp add: rep_reparent_other\<close>)
  moreover have "rep (rb_rehang (framep k) a (Some b) ?h3) (Some a) m"
    by (rule rep_rehang[OF _ dk(2)])
      (use r n in \<open>simp, intro rep_reparent[where p = "Some b"], auto\<close>)
  moreover have "rep (rb_rehang (framep k) a (Some b) ?h3) (Some b) r"
    by (rule rep_rehang[OF _ dk(3)]) (use r n in \<open>simp add: rep_reparent_other\<close>)
  ultimately have "focus ?h' (Nd c' (Nd c l a m) b r) k"
    using r d fr ne by (intro focusI[OF _ _ f]) auto
  with \<open>RB_ROTATE_LEFT a h = Some ?h'\<close> show ?thesis by blast
qed

lemma rotate_right_focus:
  assumes f: "focus h (Nd c (Nd c' l b m) a r) k"
  shows "\<exists>h'. RB_ROTATE_RIGHT a h = Some h' \<and> focus h' (Nd c' l b (Nd c m a r)) k"
proof -
  note d = focus_distinct[OF f]
  from d have ne: "rootp m \<noteq> Some a" "rootp m \<noteq> Some b" by (auto dest!: rootp_in)
  from d have n: "a \<notin> set (inord l)" "b \<notin> set (inord l)" "a \<notin> set (inord m)"
      "b \<notin> set (inord m)" "a \<notin> set (inord r)" "b \<notin> set (inord r)"
      "set (inord l) \<inter> set (inord m) = {}" "set (inord r) \<inter> set (inord m) = {}"
      "distinct (inord m)" by auto
  from d have dk: "set (inord l) \<inter> (set (lefts k) \<union> set (rights k)) = {}"
      "set (inord m) \<inter> (set (lefts k) \<union> set (rights k)) = {}"
      "set (inord r) \<inter> (set (lefts k) \<union> set (rights k)) = {}" by auto
  have fr: "framep k \<noteq> Some a" "framep k \<noteq> Some b"
    using focus_framep_notin[OF f] by auto
  let ?h3 = "set_parent b (framep k) (reparent (rootp m) (Some a) (set_left a (rootp m) h))"
  let ?h' = "set_parent a (Some b) (set_right b (Some a) (rb_rehang (framep k) a (Some b) ?h3))"
  from f have r: "rep h (framep k) (Nd c (Nd c' l b m) a r)" and rc: "rep_ctx h (Some a) k"
    by (auto simp: focus_def)
  have "RB_ROTATE_RIGHT a h = Some ?h'"
    using r ne d by (simp add: RB_ROTATE_RIGHT_eq Let_def)
  moreover have "rep_ctx ?h' (Some b) k"
  proof -
    have "rep_ctx ?h3 (Some a) k" using rc d by (simp add: rep_ctx_reparent disjoint_iff)
    then have "rep_ctx (rb_rehang (framep k) a (Some b) ?h3) (Some b) k"
      by (rule rep_ctx_rehang) (use d in auto)
    then show ?thesis using d by simp
  qed
  moreover have "rep (rb_rehang (framep k) a (Some b) ?h3) (Some b) l"
    by (rule rep_rehang[OF _ dk(1)]) (use r n in \<open>simp add: rep_reparent_other\<close>)
  moreover have "rep (rb_rehang (framep k) a (Some b) ?h3) (Some a) m"
    by (rule rep_rehang[OF _ dk(2)])
      (use r n in \<open>simp, intro rep_reparent[where p = "Some b"], auto\<close>)
  moreover have "rep (rb_rehang (framep k) a (Some b) ?h3) (Some a) r"
    by (rule rep_rehang[OF _ dk(3)]) (use r n in \<open>simp add: rep_reparent_other\<close>)
  ultimately have "focus ?h' (Nd c' l b (Nd c m a r)) k"
    using r d fr ne by (intro focusI[OF _ _ f]) auto
  with \<open>RB_ROTATE_RIGHT a h = Some ?h'\<close> show ?thesis by blast
qed

lemma focus_set_color:
  assumes f: "focus h (Nd c l a r) k"
  shows "focus (set_color a c' h) (Nd c' l a r) k"
  using focus_distinct[OF f] f by (auto simp: focus_def inord_plug)

lemma splice_focus:
  assumes f: "focus h t k" and y: "rootp t = Some y" and s: "rep h p s"
    and sub: "set (inord s) \<subseteq> set (inord t)" "y \<notin> set (inord s)" "distinct (inord s)"
  shows "focus (rb_splice (framep k) y (rootp s) h) s k"
proof -
  note d = focus_distinct[OF f]
  have eq: "rb_splice (framep k) y (rootp s) h
      = rb_rehang (framep k) y (rootp s) (reparent (rootp s) (framep k) h)"
    by (auto simp: rb_splice_def rb_rehang_def reparent_def Let_def split: option.splits)
  have ds: "set (inord s) \<inter> (set (lefts k) \<union> set (rights k)) = {}" using d sub by blast
  have "rep (rb_splice (framep k) y (rootp s) h) (framep k) s"
    unfolding eq by (rule rep_rehang[OF _ ds]) (rule rep_reparent[OF sub(3) s])
  moreover have "rep_ctx (rb_splice (framep k) y (rootp s) h) (rootp s) k"
    unfolding eq
    by (rule rep_ctx_rehang)
      (use f d y rootp_in[OF y] in \<open>auto simp: rep_ctx_reparent[OF ds] focus_def\<close>)
  ultimately show ?thesis by (rule focusI[OF _ _ f]) (use sub in auto)
qed

lemma replace_focus:
  assumes f: "focus h (Nd c l z r) k" and l: "l \<noteq> Lf" and y: "y \<notin> set (inord (plug (Nd c l z r) k))"
  shows "\<exists>h'. rb_replace z y h = Some h' \<and> focus h' (Nd c l y r) k"
proof -
  note d = focus_distinct[OF f]
  from y have ny: "y \<noteq> z" "y \<notin> set (inord l)" "y \<notin> set (inord r)" "y \<notin> set (lefts k)" "y \<notin> set (rights k)"
    by (auto simp: inord_plug)
  from d have dl: "set (inord l) \<inter> (set (lefts k) \<union> set (rights k)) = {}" "distinct (inord l)"
      "set (inord r) \<inter> (set (lefts k) \<union> set (rights k)) = {}" "distinct (inord r)"
      "set (inord l) \<inter> set (inord r) = {}" "set (inord r) \<inter> set (inord l) = {}" by auto
  have fr: "framep k \<noteq> Some z" "framep k \<noteq> Some y"
    using focus_framep_notin[OF f] ny by (auto dest: framep_in)
  from ny have rn: "rootp l \<noteq> Some y" "rootp r \<noteq> Some y" by (auto dest: rootp_in)
  from f have r: "rep h (framep k) (Nd c l z r)" and rc: "rep_ctx h (Some z) k"
    by (auto simp: focus_def)
  let ?h1 = "rb_copy_entry y z h"
  let ?h2 = "rb_rehang (framep k) z (Some y) ?h1"
  let ?h' = "reparent (rootp r) (Some y) (reparent (rootp l) (Some y) ?h2)"
  have f1: "rbe_left ?h1 y = rootp l" "rbe_right ?h1 y = rootp r" "rbe_parent ?h1 y = framep k"
      "rbe_color ?h1 y = c" "rbe_left ?h1 z = rootp l" "rbe_right ?h1 z = rootp r"
      "rbe_parent ?h1 z = framep k"
    using r ny by (auto simp: rb_copy_entry_def)
  have "rb_replace z y h = Some ?h'"
    using r f1 fr l by (cases l) (auto simp: rb_replace_def rb_rehang_def reparent_def Let_def split: option.splits)
  moreover have "focus ?h' (Nd c l y r) k"
  proof -
    have "rep ?h1 (Some z) l" "rep ?h1 (Some z) r" using r ny by (auto simp: rb_copy_entry_def)
    then have "rep ?h2 (Some z) l" "rep ?h2 (Some z) r"
      using rep_rehang[OF _ dl(1)] rep_rehang[OF _ dl(3)] by blast+
    then have "rep ?h' (Some y) l" "rep ?h' (Some y) r"
      using dl rep_reparent rep_reparent_other by metis+
    moreover have "rep_ctx ?h' (Some y) k"
    proof -
      have "rep_ctx ?h1 (Some z) k" using rc ny by (simp add: rb_copy_entry_def)
      then have "rep_ctx ?h2 (Some y) k" by (rule rep_ctx_rehang) (use d in auto)
      then show ?thesis by (simp only: rep_ctx_reparent[OF dl(1)] rep_ctx_reparent[OF dl(3)])
    qed
    moreover have "distinct (inord (plug (Nd c l y r) k))" using f y by (auto simp: focus_def inord_plug)
    ultimately show ?thesis using f1 fr rn by (auto simp: focus_def)
  qed
  ultimately show ?thesis by blast
qed

lemma attach_focus:
  assumes f: "focus h Lf k" and e: "e \<notin> set (inord (plug Lf k))"
  shows "focus (case k of
            [] \<Rightarrow> (RB_SET e (framep k) h)\<lparr>rbh_root := Some e\<rparr>
          | InL c p r # _ \<Rightarrow> set_left p (Some e) (RB_SET e (framep k) h)
          | InR c l p # _ \<Rightarrow> set_right p (Some e) (RB_SET e (framep k) h))
         (Nd RB_RED Lf e Lf) k"
proof -
  note d = focus_distinct[OF f]
  from e have "e \<notin> set (lefts k)" "e \<notin> set (rights k)" by (auto simp: inord_plug)
  with f d e show ?thesis
    by (cases k rule: framep.cases) (auto simp: focus_def RB_SET_def inord_plug)
qed

lemma leftmost_down:
  assumes "focus h t k" "rootp t = Some a"
  shows "\<exists>c y r kk. rb_leftmost a h = Some y \<and> t = plug (Nd c Lf y r) kk
           \<and> focus h (Nd c Lf y r) (kk @ k) \<and> lefts kk = []"
  using assms
proof (induction t arbitrary: a k)
  case (Nd c l b r)
  show ?case
  proof (cases l)
    case Lf
    with Nd.prems show ?thesis
      by (intro exI[of _ c] exI[of _ b] exI[of _ r] exI[of _ "[]"])
        (auto simp: rb_leftmost.simps focus_def)
  next
    case (Nd cl ll bl rl)
    have "focus h l (InL c b r # k)" using Nd.prems by (simp add: focus_InL)
    from Nd.IH(1)[OF this] Nd obtain cy y ry kk where
      "rb_leftmost bl h = Some y" "l = plug (Nd cy Lf y ry) kk"
      "focus h (Nd cy Lf y ry) (kk @ InL c b r # k)" "lefts kk = []" by auto
    moreover have "rb_leftmost a h = rb_leftmost bl h"
      using Nd Nd.prems by (subst rb_leftmost.simps) (auto simp: focus_def)
    moreover have "lefts (kk' @ [InL c b r]) = lefts kk'" for kk'
      by (induction kk' rule: lefts.induct) auto
    ultimately show ?thesis
      by (intro exI[of _ cy] exI[of _ y] exI[of _ ry] exI[of _ "kk @ [InL c b r]"])
        (auto simp: plug_append)
  qed
qed simp

lemma augment_up_returns:
  assumes "focus h t k" "rootp t = Some a"
  shows "rb_augment_up a h = Some h"
  using assms
proof (induction k arbitrary: t a)
  case Nil
  then show ?case by (cases t) (auto simp: focus_def rb_augment_up.simps)
next
  case (Cons f k)
  then obtain b where b: "framep (f # k) = Some b" by (cases f) auto
  have "rb_augment_up b h = Some h"
  proof (cases f)
    case (InL c a' r)
    with Cons.prems have "focus h (Nd c t a' r) k" by (simp add: focus_InL)
    with b InL show ?thesis by (auto intro: Cons.IH)
  next
    case (InR c l a')
    with Cons.prems have "focus h (Nd c l a' t) k" by (simp add: focus_InR)
    with b InR show ?thesis by (auto intro: Cons.IH)
  qed
  moreover have "rbe_parent h a = Some b"
    using Cons.prems b by (cases t) (auto simp: focus_def)
  ultimately show ?case by (subst rb_augment_up.simps) simp
qed

end
