(* ===== verification/Nty_Rb_Insert.thy ===== *)
theory Nty_Rb_Insert
  imports Nty_Rb_Shape
begin

text \<open>
  The red-black invariants and rebalancing after insertion.  \<open>rbt n t\<close>: the tree \<open>t\<close> has black
  height \<open>n\<close> and no red node with a red child; \<open>rbt_ctx n k\<close>: the context \<open>k\<close> expects a tree of
  black height \<open>n\<close> in its hole and is otherwise in order.  \<open>rb_tree h t\<close> is the state between two
  operations: a well-coloured tree with a black root.
\<close>

fun black :: "rbtree \<Rightarrow> bool" where
  "black Lf = True"
| "black (Nd c l a r) = (c = RB_BLACK)"

fun rbt :: "nat \<Rightarrow> rbtree \<Rightarrow> bool" where
  "rbt n Lf \<longleftrightarrow> n = 0"
| "rbt n (Nd RB_RED l a r) \<longleftrightarrow> rbt n l \<and> rbt n r \<and> black l \<and> black r"
| "rbt 0 (Nd RB_BLACK l a r) \<longleftrightarrow> False"
| "rbt (Suc n) (Nd RB_BLACK l a r) \<longleftrightarrow> rbt n l \<and> rbt n r"

fun black_frame :: "frame list \<Rightarrow> bool" where
  "black_frame [] = False"
| "black_frame (InL c a r # k) = (c = RB_BLACK)"
| "black_frame (InR c l a # k) = (c = RB_BLACK)"

fun rbt_ctx :: "nat \<Rightarrow> frame list \<Rightarrow> bool" where
  "rbt_ctx n [] \<longleftrightarrow> True"
| "rbt_ctx n (InL RB_RED a r # k) \<longleftrightarrow> rbt n r \<and> black r \<and> black_frame k \<and> rbt_ctx n k"
| "rbt_ctx n (InR RB_RED l a # k) \<longleftrightarrow> rbt n l \<and> black l \<and> black_frame k \<and> rbt_ctx n k"
| "rbt_ctx n (InL RB_BLACK a r # k) \<longleftrightarrow> rbt n r \<and> rbt_ctx (Suc n) k"
| "rbt_ctx n (InR RB_BLACK l a # k) \<longleftrightarrow> rbt n l \<and> rbt_ctx (Suc n) k"

definition rb_tree :: "rb \<Rightarrow> rbtree \<Rightarrow> bool" where
  "rb_tree h t \<longleftrightarrow> focus h t [] \<and> (\<exists>n. rbt n t) \<and> black t"

lemma rbt_black_Suc: "rbt (Suc n) t \<Longrightarrow> black t \<Longrightarrow> \<exists>l a r. t = Nd RB_BLACK l a r \<and> rbt n l \<and> rbt n r"
  by (cases t) (auto elim: rbt.elims)

text \<open>Closing a context that fits: the whole tree is well coloured, and its root is black
  unless the context is empty.\<close>

lemma rbt_plug:
  "rbt n t \<Longrightarrow> rbt_ctx n k \<Longrightarrow> black t \<or> k = [] \<or> black_frame k \<Longrightarrow>
     (\<exists>m. rbt m (plug t k)) \<and> (k \<noteq> [] \<longrightarrow> black (plug t k))"
proof (induction n k arbitrary: t rule: rbt_ctx.induct)
  case (2 n a r k)
  then show ?case by (cases k) (auto simp del: plug.simps simp add: plug.simps(2,3))
next
  case (3 n l a k)
  then show ?case by (cases k) (auto simp del: plug.simps simp add: plug.simps(2,3))
next
  case (4 n a r k)
  have "rbt (Suc n) (Nd RB_BLACK t a r)" using 4 by simp
  with 4 show ?case by (cases k) auto
next
  case (5 n l a k)
  have "rbt (Suc n) (Nd RB_BLACK l a t)" using 5 by simp
  with 5 show ?case by (cases k) auto
qed auto

subsection \<open>Reading and writing colours at the focus\<close>

fun paint :: "rb_color \<Rightarrow> rbtree \<Rightarrow> rbtree" where
  "paint c Lf = Lf"
| "paint c (Nd c' l a r) = Nd c l a r"

lemma inord_paint [simp]: "inord (paint c t) = inord t"
  by (cases t) auto

lemma rootp_paint [simp]: "rootp (paint c t) = rootp t"
  by (cases t) auto

lemma black_paint [simp]: "black (paint RB_BLACK t)"
  by (cases t) auto

lemma rbt_paint_black: "rbt n t \<Longrightarrow> \<not> black t \<Longrightarrow> rbt (Suc n) (paint RB_BLACK t)"
  by (cases t) (auto elim: rbt.elims)

lemma focus_blacken: "focus h t k \<Longrightarrow> focus (blacken (rootp t) h) (paint RB_BLACK t) k"
  by (cases t) (auto simp: blacken_def intro: focus_set_color)

lemma focus_is_red: "focus h t k \<Longrightarrow> is_red h (rootp t) \<longleftrightarrow> \<not> black t"
  by (cases t; cases "rbe_color h (case rootp t of Some a \<Rightarrow> a)")
    (auto simp: focus_def is_red_def)

lemma focus_null_or_black: "focus h t k \<Longrightarrow> null_or_black h (rootp t) \<longleftrightarrow> black t"
  by (cases t) (auto simp: focus_def null_or_black_def)

lemma focus_node:
  assumes "focus h (Nd c l a r) k"
  shows "rbe_left h a = rootp l" "rbe_right h a = rootp r" "rbe_parent h a = framep k"
    "rbe_color h a = c"
  using assms by (auto simp: focus_def)

lemma focus_children:
  assumes "focus h (Nd c l a r) k"
  shows "focus h l (InL c a r # k)" "focus h r (InR c l a # k)"
  using assms by (auto simp: focus_InL focus_InR)

lemma focus_color_left:
  "focus h (Nd c (Nd c2 x p y) g u) k \<Longrightarrow>
     focus (set_color p c2' h) (Nd c (Nd c2' x p y) g u) k"
  by (metis focus_InL focus_set_color)

lemma focus_color_right:
  "focus h (Nd c u g (Nd c2 x p y)) k \<Longrightarrow>
     focus (set_color p c2' h) (Nd c u g (Nd c2' x p y)) k"
  by (metis focus_InR focus_set_color)

lemma focus_blacken_left:
  "focus h (Nd c u g r) k \<Longrightarrow> focus (blacken (rootp u) h) (Nd c (paint RB_BLACK u) g r) k"
  by (metis focus_InL focus_blacken)

lemma focus_blacken_right:
  "focus h (Nd c l g u) k \<Longrightarrow> focus (blacken (rootp u) h) (Nd c l g (paint RB_BLACK u)) k"
  by (metis focus_InR focus_blacken)

lemma focus_blackred_left:
  "focus h (Nd c (Nd c2 x p y) g u) k \<Longrightarrow>
     focus (RB_SET_BLACKRED p g h) (Nd RB_RED (Nd RB_BLACK x p y) g u) k"
  unfolding RB_SET_BLACKRED_def by (rule focus_set_color) (rule focus_color_left)

lemma focus_blackred_right:
  "focus h (Nd c u g (Nd c2 x p y)) k \<Longrightarrow>
     focus (RB_SET_BLACKRED p g h) (Nd RB_RED u g (Nd RB_BLACK x p y)) k"
  unfolding RB_SET_BLACKRED_def by (rule focus_set_color) (rule focus_color_right)

lemma focus_not_same:
  assumes "focus h (Nd c l a r) k"
  shows "rootp l = rootp r \<longleftrightarrow> l = Lf \<and> r = Lf" "rootp l \<noteq> Some a" "rootp r \<noteq> Some a"
  using focus_distinct[OF assms] by (cases l; cases r; auto)+

subsection \<open>One iteration\<close>

text \<open>With a black uncle the iteration rotates and the subtree is in order afterwards, with
  black root \<open>q\<close> and the new \<open>elm\<close> directly below it; with a red uncle it recolours and the
  grandparent becomes the new \<open>elm\<close>.\<close>

definition insert_done :: "nat \<Rightarrow> addr list \<Rightarrow> addr \<Rightarrow> rb \<Rightarrow> frame list \<Rightarrow> bool" where
  "insert_done n xs e h k \<longleftrightarrow>
     (\<exists>l q r. focus h (Nd RB_BLACK l q r) k \<and> rbt (Suc n) (Nd RB_BLACK l q r)
        \<and> inord (Nd RB_BLACK l q r) = xs \<and> (rootp l = Some e \<or> rootp r = Some e))"

definition insert_up :: "nat \<Rightarrow> addr list \<Rightarrow> addr \<Rightarrow> rb \<Rightarrow> frame list \<Rightarrow> bool" where
  "insert_up n xs e h k \<longleftrightarrow>
     (\<exists>l r. focus h (Nd RB_RED l e r) k \<and> rbt (Suc n) (Nd RB_RED l e r)
        \<and> inord (Nd RB_RED l e r) = xs)"

lemma insert_step_left:
  assumes f: "focus h (Nd RB_BLACK (Nd RB_RED x p y) g u) k"
    and a: "rootp (if inner then y else x) = Some a"
    and b: "rbt n x" "rbt n y" "rbt n u" "if inner then black x \<and> \<not> black y else black y \<and> \<not> black x"
  shows "\<exists>e h'. rb_insert_color_left g p a h = Some (e, h')
      \<and> (insert_done n (inord (Nd RB_BLACK (Nd RB_RED x p y) g u)) e h' k
         \<or> insert_up n (inord (Nd RB_BLACK (Nd RB_RED x p y) g u)) e h' k)"
proof (cases "black u")
  case False
  let ?h' = "RB_SET_BLACKRED p g (blacken (rootp u) h)"
  have "focus ?h' (Nd RB_RED (Nd RB_BLACK x p y) g (paint RB_BLACK u)) k"
    by (intro focus_blackred_left focus_blacken_right) (rule f)
  then have "insert_up n (inord (Nd RB_BLACK (Nd RB_RED x p y) g u)) g ?h' k"
    using b False by (force simp: insert_up_def rbt_paint_black)
  moreover have "rb_insert_color_left g p a h = Some (g, ?h')"
    using focus_node[OF f] focus_is_red[OF focus_children(2)[OF f]] False
    by (simp add: rb_insert_color_left_def Let_def)
  ultimately show ?thesis by blast
next
  case True
  have u: "rbe_right h g = rootp u" "\<not> is_red h (rootp u)"
    using focus_node[OF f] focus_is_red[OF focus_children(2)[OF f]] True by auto
  note fp = focus_children(1)[OF f]
  show ?thesis
  proof (cases inner)
    case False
    then have "rbe_right h p \<noteq> Some a"
      using a focus_node(2)[OF fp] focus_not_same(1)[OF fp] by auto
    moreover obtain h' where "RB_ROTATE_RIGHT g (RB_SET_BLACKRED p g h) = Some h'"
      and h': "focus h' (Nd RB_BLACK x p (Nd RB_RED y g u)) k"
      using rotate_right_focus[OF focus_blackred_left[OF f]] by blast
    moreover have "insert_done n (inord (Nd RB_BLACK (Nd RB_RED x p y) g u)) a h' k"
      unfolding insert_done_def using h' a b False True
      by (intro exI[of _ x] exI[of _ p] exI[of _ "Nd RB_RED y g u"]) auto
    ultimately show ?thesis using u by (auto simp: rb_insert_color_left_def)
  next
    case inner: True
    with a obtain cy yl yr where y: "y = Nd cy yl a yr" by (cases y) auto
    with b inner have cy: "cy = RB_RED" by (cases cy) auto
    obtain h1 where r1: "RB_ROTATE_LEFT p h = Some h1"
      and h1: "focus h1 (Nd RB_RED (Nd RB_RED x p yl) a yr) (InL RB_BLACK g u # k)"
      using rotate_left_focus[OF fp[unfolded y cy]] by blast
    then obtain h' where "RB_ROTATE_RIGHT g (RB_SET_BLACKRED a g h1) = Some h'"
      and h': "focus h' (Nd RB_BLACK (Nd RB_RED x p yl) a (Nd RB_RED yr g u)) k"
      using rotate_right_focus[OF focus_blackred_left] unfolding focus_InL by blast
    moreover have "insert_done n (inord (Nd RB_BLACK (Nd RB_RED x p y) g u)) p h' k"
      unfolding insert_done_def using h' a b inner True y cy
      by (intro exI[of _ "Nd RB_RED x p yl"] exI[of _ a] exI[of _ "Nd RB_RED yr g u"]) auto
    moreover have "rbe_right h p = Some a" using focus_node(2)[OF fp] y by simp
    ultimately show ?thesis using u r1 by (auto simp: rb_insert_color_left_def)
  qed
qed

lemma insert_step_right:
  assumes f: "focus h (Nd RB_BLACK u g (Nd RB_RED x p y)) k"
    and a: "rootp (if inner then x else y) = Some a"
    and b: "rbt n x" "rbt n y" "rbt n u" "if inner then black y \<and> \<not> black x else black x \<and> \<not> black y"
  shows "\<exists>e h'. rb_insert_color_right g p a h = Some (e, h')
      \<and> (insert_done n (inord (Nd RB_BLACK u g (Nd RB_RED x p y))) e h' k
         \<or> insert_up n (inord (Nd RB_BLACK u g (Nd RB_RED x p y))) e h' k)"
proof (cases "black u")
  case False
  let ?h' = "RB_SET_BLACKRED p g (blacken (rootp u) h)"
  have "focus ?h' (Nd RB_RED (paint RB_BLACK u) g (Nd RB_BLACK x p y)) k"
    by (intro focus_blackred_right focus_blacken_left) (rule f)
  then have "insert_up n (inord (Nd RB_BLACK u g (Nd RB_RED x p y))) g ?h' k"
    using b False by (force simp: insert_up_def rbt_paint_black)
  moreover have "rb_insert_color_right g p a h = Some (g, ?h')"
    using focus_node[OF f] focus_is_red[OF focus_children(1)[OF f]] False
    by (simp add: rb_insert_color_right_def Let_def)
  ultimately show ?thesis by blast
next
  case True
  have u: "rbe_left h g = rootp u" "\<not> is_red h (rootp u)"
    using focus_node[OF f] focus_is_red[OF focus_children(1)[OF f]] True by auto
  note fp = focus_children(2)[OF f]
  show ?thesis
  proof (cases inner)
    case False
    then have "rbe_left h p \<noteq> Some a"
      using a focus_node(1)[OF fp] focus_not_same(1)[OF fp] by auto
    moreover obtain h' where "RB_ROTATE_LEFT g (RB_SET_BLACKRED p g h) = Some h'"
      and h': "focus h' (Nd RB_BLACK (Nd RB_RED u g x) p y) k"
      using rotate_left_focus[OF focus_blackred_right[OF f]] by blast
    moreover have "insert_done n (inord (Nd RB_BLACK u g (Nd RB_RED x p y))) a h' k"
      unfolding insert_done_def using h' a b False True
      by (intro exI[of _ "Nd RB_RED u g x"] exI[of _ p] exI[of _ y]) auto
    ultimately show ?thesis using u by (auto simp: rb_insert_color_right_def)
  next
    case inner: True
    with a obtain cx xl xr where x: "x = Nd cx xl a xr" by (cases x) auto
    with b inner have cx: "cx = RB_RED" by (cases cx) auto
    obtain h1 where r1: "RB_ROTATE_RIGHT p h = Some h1"
      and h1: "focus h1 (Nd RB_RED xl a (Nd RB_RED xr p y)) (InR RB_BLACK u g # k)"
      using rotate_right_focus[OF fp[unfolded x cx]] by blast
    then obtain h' where "RB_ROTATE_LEFT g (RB_SET_BLACKRED a g h1) = Some h'"
      and h': "focus h' (Nd RB_BLACK (Nd RB_RED u g xl) a (Nd RB_RED xr p y)) k"
      using rotate_left_focus[OF focus_blackred_right] unfolding focus_InR by blast
    moreover have "insert_done n (inord (Nd RB_BLACK u g (Nd RB_RED x p y))) p h' k"
      unfolding insert_done_def using h' a b inner True x cx
      by (intro exI[of _ "Nd RB_RED u g xl"] exI[of _ a] exI[of _ "Nd RB_RED xr p y"]) auto
    moreover have "rbe_left h p = Some a" using focus_node(1)[OF fp] x by simp
    ultimately show ?thesis using u r1 by (auto simp: rb_insert_color_right_def)
  qed
qed

subsection \<open>The loop and the whole rebalancing\<close>

definition insert_fixed :: "addr list \<Rightarrow> rb \<Rightarrow> bool" where
  "insert_fixed xs h \<longleftrightarrow> (\<exists>t. focus h t [] \<and> (\<exists>m. rbt m t) \<and> inord t = xs)"

lemma insert_done_exit:
  assumes "insert_done n xs e h k"
  shows "rb_insert_color_loop e h = Some h"
proof -
  from assms obtain l q r where f: "focus h (Nd RB_BLACK l q r) k" and e: "rootp l = Some e \<or> rootp r = Some e"
    by (auto simp: insert_done_def)
  have "rbe_parent h e = Some q" "rbe_color h q = RB_BLACK"
    using f e by (cases l; cases r; auto simp: focus_def)+
  then show ?thesis by (subst rb_insert_color_loop.simps) simp
qed

lemma insert_done_fixed:
  assumes "insert_done n xs e h k" "rbt_ctx (Suc n) k"
  shows "insert_fixed (lefts k @ xs @ rights k) h"
proof -
  from assms(1) obtain l q r where t: "focus h (Nd RB_BLACK l q r) k"
    "rbt (Suc n) (Nd RB_BLACK l q r)" "inord (Nd RB_BLACK l q r) = xs"
    by (auto simp: insert_done_def)
  from rbt_plug[OF t(2) assms(2)] have "\<exists>m. rbt m (plug (Nd RB_BLACK l q r) k)" by simp
  with t focus_plug[of h "Nd RB_BLACK l q r" k "[]"] inord_plug[of "Nd RB_BLACK l q r" k]
  show ?thesis
    unfolding insert_fixed_def by (intro exI[of _ "plug (Nd RB_BLACK l q r) k"]) simp
qed

lemma insert_loop_exit:
  assumes "focus h t k" "rootp t = Some a" "k = [] \<or> black_frame k"
  shows "rb_insert_color_loop a h = Some h"
proof -
  have p: "rbe_parent h a = framep k" using assms by (cases t) (auto simp: focus_def)
  show ?thesis
  proof (cases k rule: framep.cases)
    case 1
    with p show ?thesis by (subst rb_insert_color_loop.simps) simp
  next
    case (2 c b r k')
    with assms have "rbe_color h b = RB_BLACK" by (auto simp: focus_def)
    with p 2 show ?thesis by (subst rb_insert_color_loop.simps) simp
  next
    case (3 c l b k')
    with assms have "rbe_color h b = RB_BLACK" by (auto simp: focus_def)
    with p 3 show ?thesis by (subst rb_insert_color_loop.simps) simp
  qed
qed

text \<open>A context below a red parent: the grandparent exists, is black, and the loop takes one of
  the four branches.\<close>

lemma insert_loop_step:
  assumes f: "focus h (Nd RB_RED l a r) k" and t: "rbt n (Nd RB_RED l a r)" and k: "rbt_ctx n k"
    and red: "k \<noteq> []" "\<not> black_frame k"
  shows "\<exists>k2 e h' xs. rb_insert_color_loop a h = rb_insert_color_loop e h' \<and> length k2 < length k
      \<and> (insert_done n xs e h' k2 \<or> insert_up n xs e h' k2) \<and> rbt_ctx (Suc n) k2
      \<and> lefts k2 @ xs @ rights k2 = inord (plug (Nd RB_RED l a r) k)"
proof -
  from red obtain fr k1 where k1: "k = fr # k1" by (cases k) auto
  have pa: "rbe_parent h a = framep k" using focus_node[OF f] by simp
  show ?thesis
  proof (cases fr)
    case (InL c p y)
    with red k1 have c: "c = RB_RED" by (cases c) auto
    with k k1 InL have y: "rbt n y" "black y" and bk: "black_frame k1" and kc: "rbt_ctx n k1" by auto
    have fp: "focus h (Nd RB_RED (Nd RB_RED l a r) p y) k1"
      using f k1 InL c by (simp add: focus_InL)
    have pp: "rbe_parent h p = framep k1" "rbe_color h p = RB_RED" using focus_node[OF fp] by auto
    from bk consider (L) g u k2 where "k1 = InL RB_BLACK g u # k2" | (R) u g k2 where "k1 = InR RB_BLACK u g # k2"
      by (cases k1 rule: black_frame.cases) auto
    then show ?thesis
    proof cases
      case L
      note fg = fp[unfolded L focus_InL]
      from insert_step_left[OF fg, where inner = False and n = n and a = a] t y kc L obtain e h' where
        s: "rb_insert_color_left g p a h = Some (e, h')"
        "insert_done n (inord (Nd RB_BLACK (Nd RB_RED (Nd RB_RED l a r) p y) g u)) e h' k2
         \<or> insert_up n (inord (Nd RB_BLACK (Nd RB_RED (Nd RB_RED l a r) p y) g u)) e h' k2" by auto
      have "rb_insert_color_loop a h = rb_insert_color_loop e h'"
        using pa pp s(1) focus_node(1)[OF fg] L k1 InL by (subst rb_insert_color_loop.simps) simp
      with s(2) kc L k1 InL show ?thesis
        by (intro exI[of _ k2] exI[of _ e] exI[of _ h'] exI conjI) (auto simp: inord_plug)
    next
      case R
      note fg = fp[unfolded R focus_InR]
      from insert_step_right[OF fg, where inner = True and n = n and a = a] t y kc R obtain e h' where
        s: "rb_insert_color_right g p a h = Some (e, h')"
        "insert_done n (inord (Nd RB_BLACK u g (Nd RB_RED (Nd RB_RED l a r) p y))) e h' k2
         \<or> insert_up n (inord (Nd RB_BLACK u g (Nd RB_RED (Nd RB_RED l a r) p y))) e h' k2" by auto
      have "rb_insert_color_loop a h = rb_insert_color_loop e h'"
        using pa pp s(1) focus_node(1)[OF fg] focus_not_same(1)[OF fg] R k1 InL
        by (subst rb_insert_color_loop.simps) simp
      with s(2) kc R k1 InL show ?thesis
        by (intro exI[of _ k2] exI[of _ e] exI[of _ h'] exI conjI) (auto simp: inord_plug)
    qed
  next
    case (InR c x p)
    with red k1 have c: "c = RB_RED" by (cases c) auto
    with k k1 InR have x: "rbt n x" "black x" and bk: "black_frame k1" and kc: "rbt_ctx n k1" by auto
    have fp: "focus h (Nd RB_RED x p (Nd RB_RED l a r)) k1"
      using f k1 InR c by (simp add: focus_InR)
    have pp: "rbe_parent h p = framep k1" "rbe_color h p = RB_RED" using focus_node[OF fp] by auto
    from bk consider (L) g u k2 where "k1 = InL RB_BLACK g u # k2" | (R) u g k2 where "k1 = InR RB_BLACK u g # k2"
      by (cases k1 rule: black_frame.cases) auto
    then show ?thesis
    proof cases
      case L
      note fg = fp[unfolded L focus_InL]
      from insert_step_left[OF fg, where inner = True and n = n and a = a] t x kc L obtain e h' where
        s: "rb_insert_color_left g p a h = Some (e, h')"
        "insert_done n (inord (Nd RB_BLACK (Nd RB_RED x p (Nd RB_RED l a r)) g u)) e h' k2
         \<or> insert_up n (inord (Nd RB_BLACK (Nd RB_RED x p (Nd RB_RED l a r)) g u)) e h' k2" by auto
      have "rb_insert_color_loop a h = rb_insert_color_loop e h'"
        using pa pp s(1) focus_node(1)[OF fg] L k1 InR by (subst rb_insert_color_loop.simps) simp
      with s(2) kc L k1 InR show ?thesis
        by (intro exI[of _ k2] exI[of _ e] exI[of _ h'] exI conjI) (auto simp: inord_plug)
    next
      case R
      note fg = fp[unfolded R focus_InR]
      from insert_step_right[OF fg, where inner = False and n = n and a = a] t x kc R obtain e h' where
        s: "rb_insert_color_right g p a h = Some (e, h')"
        "insert_done n (inord (Nd RB_BLACK u g (Nd RB_RED x p (Nd RB_RED l a r)))) e h' k2
         \<or> insert_up n (inord (Nd RB_BLACK u g (Nd RB_RED x p (Nd RB_RED l a r)))) e h' k2" by auto
      have "rb_insert_color_loop a h = rb_insert_color_loop e h'"
        using pa pp s(1) focus_node(1)[OF fg] focus_not_same(1)[OF fg] R k1 InR
        by (subst rb_insert_color_loop.simps) simp
      with s(2) kc R k1 InR show ?thesis
        by (intro exI[of _ k2] exI[of _ e] exI[of _ h'] exI conjI) (auto simp: inord_plug)
    qed
  qed
qed

lemma insert_color_loop_fixes:
  assumes "focus h (Nd RB_RED l a r) k" "rbt n (Nd RB_RED l a r)" "rbt_ctx n k"
  shows "\<exists>h'. rb_insert_color_loop a h = Some h' \<and> insert_fixed (inord (plug (Nd RB_RED l a r) k)) h'"
  using assms
proof (induction k arbitrary: h l a r n rule: measure_induct_rule[of length])
  case (less k)
  show ?case
  proof (cases "k = [] \<or> black_frame k")
    case True
    then have "rb_insert_color_loop a h = Some h"
      using less.prems by (intro insert_loop_exit) auto
    moreover have "\<exists>m. rbt m (plug (Nd RB_RED l a r) k)"
      using rbt_plug[OF less.prems(2,3)] True by blast
    moreover have "focus h (plug (Nd RB_RED l a r) k) []"
      using less.prems(1) by (simp add: focus_plug)
    ultimately show ?thesis by (auto simp: insert_fixed_def)
  next
    case False
    with insert_loop_step[OF less.prems] obtain k2 e h' xs where s:
      "rb_insert_color_loop a h = rb_insert_color_loop e h'" "length k2 < length k"
      "insert_done n xs e h' k2 \<or> insert_up n xs e h' k2" "rbt_ctx (Suc n) k2"
      "lefts k2 @ xs @ rights k2 = inord (plug (Nd RB_RED l a r) k)" by auto
    from s(3) show ?thesis
    proof
      assume "insert_done n xs e h' k2"
      with s insert_done_exit insert_done_fixed show ?thesis by fastforce
    next
      assume "insert_up n xs e h' k2"
      then obtain l' r' where u: "focus h' (Nd RB_RED l' e r') k2" "rbt (Suc n) (Nd RB_RED l' e r')"
        "inord (Nd RB_RED l' e r') = xs" by (auto simp: insert_up_def)
      from less.IH[OF s(2) u(1,2) s(4)] s(1,5) u(3) show ?thesis
        by (simp only: inord_plug)
    qed
  qed
qed

lemma insert_color_correct:
  assumes "focus h (Nd RB_RED l a r) k" "rbt n (Nd RB_RED l a r)" "rbt_ctx n k"
  shows "\<exists>h' t. RB_INSERT_COLOR a h = Some h' \<and> rb_tree h' t
           \<and> inord t = inord (plug (Nd RB_RED l a r) k)"
proof -
  from insert_color_loop_fixes[OF assms] obtain h' t m where h': "rb_insert_color_loop a h = Some h'"
    "focus h' t []" "rbt m t" "inord t = inord (plug (Nd RB_RED l a r) k)"
    by (auto simp: insert_fixed_def)
  have "t \<noteq> Lf" using h'(4) by (auto simp: inord_plug)
  then obtain c tl b tr where t: "t = Nd c tl b tr" by (cases t) auto
  have "rbt m (Nd RB_BLACK tl b tr) \<or> rbt (Suc m) (Nd RB_BLACK tl b tr)"
    using h'(3) t by (cases c) auto
  then have "\<exists>m. rbt m (Nd RB_BLACK tl b tr)" by blast
  moreover have "focus (set_color b RB_BLACK h') (Nd RB_BLACK tl b tr) []"
    using h'(2) t by (auto intro: focus_set_color)
  moreover have "rbh_root h' = Some b" using h'(2) t by (auto simp: focus_def)
  ultimately show ?thesis using h' t
    by (intro exI[of _ "set_color b RB_BLACK h'"] exI[of _ "Nd RB_BLACK tl b tr"])
      (auto simp: RB_INSERT_COLOR_def rb_tree_def)
qed

end
