(* ===== verification/Nty_Rb_Remove.thy ===== *)
theory Nty_Rb_Remove
  imports Nty_Rb_Insert
begin

text \<open>
  Rebalancing after removal.  The loop of \<^verbatim>\<open>RB_REMOVE_COLOR\<close> runs in states where the focused
  tree is one black node short of what its context expects: \<open>short n t\<close> says that \<open>t\<close> has
  black height \<open>n\<close> if its root is black, and that painting a red root black makes up for the
  missing node.
\<close>

definition short :: "nat \<Rightarrow> rbtree \<Rightarrow> bool" where
  "short n t \<longleftrightarrow> (if black t then rbt n t else rbt (Suc n) (paint RB_BLACK t))"

definition fits :: "nat \<Rightarrow> rb_color \<Rightarrow> frame list \<Rightarrow> bool" where
  "fits n c k \<longleftrightarrow> (case c of RB_BLACK \<Rightarrow> rbt_ctx (Suc n) k | RB_RED \<Rightarrow> black_frame k \<and> rbt_ctx n k)"

text \<open>The result of one iteration: either the whole tree is in order (\<^verbatim>\<open>break\<close>), or the loop
  goes on in a short state nearer to the root, or with a red tree, at which it ends.\<close>

definition removed :: "addr list \<Rightarrow> nat \<Rightarrow> bool \<times> ptr \<times> ptr \<times> rb \<Rightarrow> bool" where
  "removed xs m res \<longleftrightarrow> (case res of (brk, P, E, h') \<Rightarrow>
     if brk then E = rbh_root h' \<and> insert_fixed xs h'
     else (\<exists>t' k' n'. P = framep k' \<and> E = rootp t' \<and> focus h' t' k' \<and> short n' t'
             \<and> rbt_ctx (Suc n') k' \<and> inord (plug t' k') = xs \<and> (length k' < m \<or> \<not> black t')))"

lemma rbt_node:
  "rbt n l \<Longrightarrow> rbt n r \<Longrightarrow> c = RB_BLACK \<or> black l \<and> black r \<Longrightarrow>
     rbt (if c = RB_BLACK then Suc n else n) (Nd c l a r)"
  by (cases c) auto

text \<open>A node with both subtrees of height \<open>n\<close> completes a context that \<open>fits n\<close> its colour.\<close>

lemma fixed_node:
  assumes "focus h (Nd c l a r) k" "rbt n l" "rbt n r" "black l" "black r" "fits n c k"
  shows "insert_fixed (inord (plug (Nd c l a r) k)) h"
proof -
  have "\<exists>m. rbt m (plug (Nd c l a r) k)"
    using assms(2-6) rbt_plug[of "if c = RB_BLACK then Suc n else n" "Nd c l a r" k]
    by (cases c) (auto simp: fits_def)
  with assms(1) show ?thesis
    unfolding insert_fixed_def by (intro exI[of _ "plug (Nd c l a r) k"]) (simp add: focus_plug)
qed

subsection \<open>Left half\<close>

lemma remove_left_outer:
  assumes f: "focus h (Nd c t p (Nd c2 wl b wr)) k" and b: "rbt n t" "rbt n wl" "rbt n wr" "\<not> black wr"
    and k: "fits (Suc n) c k"
  shows "\<exists>h4. RB_ROTATE_LEFT p (blacken (rbe_right (set_color p RB_BLACK (set_color b (rbe_color h p) h)) b)
                (set_color p RB_BLACK (set_color b (rbe_color h p) h))) = Some h4
          \<and> insert_fixed (inord (plug (Nd c t p (Nd c2 wl b wr)) k)) h4"
proof -
  note nd = focus_node[OF f]
  let ?h2 = "set_color p RB_BLACK (set_color b (rbe_color h p) h)"
  have f2: "focus ?h2 (Nd RB_BLACK t p (Nd c wl b wr)) k"
    unfolding nd(4) by (rule focus_set_color) (rule focus_color_right[OF f])
  have "rbe_right ?h2 b = rootp wr" using f2 by (auto simp: focus_def)
  moreover have "focus (blacken (rootp wr) ?h2) (Nd RB_BLACK t p (Nd c wl b (paint RB_BLACK wr))) k"
    using f2 by (metis focus_InR focus_blacken_right)
  then obtain h4 where "RB_ROTATE_LEFT p (blacken (rootp wr) ?h2) = Some h4"
    and f4: "focus h4 (Nd c (Nd RB_BLACK t p wl) b (paint RB_BLACK wr)) k"
    using rotate_left_focus by blast
  moreover have "insert_fixed (inord (plug (Nd c (Nd RB_BLACK t p wl) b (paint RB_BLACK wr)) k)) h4"
    by (rule fixed_node[OF f4, of "Suc n"]) (use b k in \<open>auto simp: rbt_paint_black\<close>)
  ultimately show ?thesis by (simp add: inord_plug)
qed

lemma remove_left_tail:
  assumes f: "focus h (Nd c t p (Nd RB_BLACK wl b wr)) k" and b: "rbt n t" "black t" "rbt n wl" "rbt n wr"
    and k: "fits (Suc n) c k" and m: "length k < m \<or> c = RB_RED"
  shows "\<exists>res. rb_remove_color_left_tail p b h = Some res
          \<and> removed (inord (plug (Nd c t p (Nd RB_BLACK wl b wr)) k)) m res"
proof -
  note nd = focus_node[OF f]
  note fw = focus_children(2)[OF f]
  note ndw = focus_node[OF fw]
  have nb: "null_or_black h (rootp wl) = black wl" "null_or_black h (rootp wr) = black wr"
    using focus_null_or_black[OF focus_children(1)[OF fw]] focus_null_or_black[OF focus_children(2)[OF fw]]
    by auto
  consider (both) "black wl" "black wr" | (outer) "\<not> black wr" | (inner) "\<not> black wl" "black wr" by blast
  then show ?thesis
  proof cases
    case both
    let ?h1 = "set_color b RB_RED h"
    have f1: "focus ?h1 (Nd c t p (Nd RB_RED wl b wr)) k" by (rule focus_color_right[OF f])
    have "short (if c = RB_BLACK then Suc n else n) (Nd c t p (Nd RB_RED wl b wr))"
      "rbt_ctx (Suc (if c = RB_BLACK then Suc n else n)) k"
      using b both k by (cases c; auto simp: short_def fits_def)+
    then have "removed (inord (plug (Nd c t p (Nd RB_BLACK wl b wr)) k)) m
        (False, rbe_parent ?h1 p, Some p, ?h1)"
      unfolding removed_def using f1 nd m
      by (auto simp: inord_plug intro!: exI[of _ "Nd c t p (Nd RB_RED wl b wr)"] exI[of _ k]
          exI[of _ "if c = RB_BLACK then Suc n else n"])
    moreover have "rb_remove_color_left_tail p b h = Some (False, rbe_parent ?h1 p, Some p, ?h1)"
      using both nb ndw by (simp add: rb_remove_color_left_tail_def Let_def)
    ultimately show ?thesis by blast
  next
    case outer
    from remove_left_outer[OF f b(1,3,4) outer k] outer nb ndw show ?thesis
      by (auto simp: rb_remove_color_left_tail_def Let_def removed_def)
  next
    case inner
    then obtain wll bl wlr where wl: "wl = Nd RB_RED wll bl wlr" "rbt n wll" "rbt n wlr"
      using b(3) by (cases wl) (auto elim: rbt.elims)
    have "focus (set_color b RB_RED (blacken (rootp wl) h)) (Nd RB_RED (paint RB_BLACK wl) b wr) (InR c t p # k)"
      by (rule focus_set_color) (rule focus_blacken_left[OF fw])
    then obtain h1 where r: "RB_ROTATE_RIGHT b (set_color b RB_RED (blacken (rootp wl) h)) = Some h1"
      and f1: "focus h1 (Nd c t p (Nd RB_BLACK wll bl (Nd RB_RED wlr b wr))) k"
      using rotate_right_focus unfolding wl(1) by (metis focus_InR paint.simps(2))
    have "rbe_right h1 p = Some bl" using focus_node[OF f1] by simp
    moreover from remove_left_outer[OF f1 b(1) wl(2) _ _ k] wl b inner obtain h4 where
      "RB_ROTATE_LEFT p (blacken (rbe_right (set_color p RB_BLACK (set_color bl (rbe_color h1 p) h1)) bl)
                (set_color p RB_BLACK (set_color bl (rbe_color h1 p) h1))) = Some h4"
      "insert_fixed (inord (plug (Nd c t p (Nd RB_BLACK wll bl (Nd RB_RED wlr b wr))) k)) h4"
      by auto
    ultimately show ?thesis using inner nb ndw r wl(1)
      by (auto simp: rb_remove_color_left_tail_def Let_def removed_def inord_plug)
  qed
qed

lemma remove_left_step:
  assumes f: "focus h (Nd c t p w) k" and b: "rbt n t" "black t" "rbt (Suc n) w"
    and k: "fits (Suc n) c k" and cw: "c = RB_BLACK \<or> black w" and m: "length k < m"
  shows "\<exists>res. rb_remove_color_left p h = Some res \<and> removed (inord (plug (Nd c t p w) k)) m res"
proof (cases "black w")
  case True
  with b(3) rbt_black_Suc obtain wl wb wr where w: "w = Nd RB_BLACK wl wb wr" "rbt n wl" "rbt n wr"
    by blast
  have "rbe_right h p = Some wb" "rbe_color h wb = RB_BLACK"
    using focus_node[OF f] focus_node[OF focus_children(2)[OF f[unfolded w(1)]]] w by auto
  with remove_left_tail[OF f[unfolded w(1)] b(1,2) w(2,3) k, of m] m w show ?thesis
    by (auto simp: rb_remove_color_left_def)
next
  case False
  with b(3) obtain wl wb wr where w: "w = Nd RB_RED wl wb wr" "rbt (Suc n) wl" "rbt (Suc n) wr"
      "black wl" "black wr"
    by (cases w) (auto elim: rbt.elims)
  from rbt_black_Suc[OF w(2,4)] obtain x xb y where x: "wl = Nd RB_BLACK x xb y" "rbt n x" "rbt n y"
    by blast
  from cw False have c: "c = RB_BLACK" by simp
  note f' = f[unfolded w(1)]
  obtain h1 where r: "RB_ROTATE_LEFT p (RB_SET_BLACKRED wb p h) = Some h1"
    and f1: "focus h1 (Nd RB_BLACK (Nd RB_RED t p wl) wb wr) k"
    using rotate_left_focus[OF focus_blackred_right[OF f']] by blast
  note f2 = focus_children(1)[OF f1, unfolded x(1)]
  have "rbe_right h p = Some wb" "rbe_color h wb = RB_RED" "rbe_right h1 p = Some xb"
    using focus_node[OF f'] focus_node[OF focus_children(2)[OF f']] focus_node[OF f2] by auto
  moreover have "fits (Suc n) RB_RED (InL RB_BLACK wb wr # k)"
    using k c w by (simp add: fits_def)
  ultimately show ?thesis
    using remove_left_tail[OF f2 b(1,2) x(2,3), of m] w(1) x(1) r
    by (auto simp: rb_remove_color_left_def inord_plug)
qed

subsection \<open>Right half\<close>

lemma remove_right_outer:
  assumes f: "focus h (Nd c (Nd c2 wl b wr) p t) k" and b: "rbt n t" "rbt n wl" "rbt n wr" "\<not> black wl"
    and k: "fits (Suc n) c k"
  shows "\<exists>h4. RB_ROTATE_RIGHT p (blacken (rbe_left (set_color p RB_BLACK (set_color b (rbe_color h p) h)) b)
                (set_color p RB_BLACK (set_color b (rbe_color h p) h))) = Some h4
          \<and> insert_fixed (inord (plug (Nd c (Nd c2 wl b wr) p t) k)) h4"
proof -
  note nd = focus_node[OF f]
  let ?h2 = "set_color p RB_BLACK (set_color b (rbe_color h p) h)"
  have f2: "focus ?h2 (Nd RB_BLACK (Nd c wl b wr) p t) k"
    unfolding nd(4) by (rule focus_set_color) (rule focus_color_left[OF f])
  have "rbe_left ?h2 b = rootp wl" using f2 by (auto simp: focus_def)
  moreover have "focus (blacken (rootp wl) ?h2) (Nd RB_BLACK (Nd c (paint RB_BLACK wl) b wr) p t) k"
    using f2 by (metis focus_InL focus_blacken_left)
  then obtain h4 where "RB_ROTATE_RIGHT p (blacken (rootp wl) ?h2) = Some h4"
    and f4: "focus h4 (Nd c (paint RB_BLACK wl) b (Nd RB_BLACK wr p t)) k"
    using rotate_right_focus by blast
  moreover have "insert_fixed (inord (plug (Nd c (paint RB_BLACK wl) b (Nd RB_BLACK wr p t)) k)) h4"
    by (rule fixed_node[OF f4, of "Suc n"]) (use b k in \<open>auto simp: rbt_paint_black\<close>)
  ultimately show ?thesis by (simp add: inord_plug)
qed

lemma remove_right_tail:
  assumes f: "focus h (Nd c (Nd RB_BLACK wl b wr) p t) k" and b: "rbt n t" "black t" "rbt n wl" "rbt n wr"
    and k: "fits (Suc n) c k" and m: "length k < m \<or> c = RB_RED"
  shows "\<exists>res. rb_remove_color_right_tail p b h = Some res
          \<and> removed (inord (plug (Nd c (Nd RB_BLACK wl b wr) p t) k)) m res"
proof -
  note nd = focus_node[OF f]
  note fw = focus_children(1)[OF f]
  note ndw = focus_node[OF fw]
  have nb: "null_or_black h (rootp wl) = black wl" "null_or_black h (rootp wr) = black wr"
    using focus_null_or_black[OF focus_children(1)[OF fw]] focus_null_or_black[OF focus_children(2)[OF fw]]
    by auto
  consider (both) "black wl" "black wr" | (outer) "\<not> black wl" | (inner) "\<not> black wr" "black wl" by blast
  then show ?thesis
  proof cases
    case both
    let ?h1 = "set_color b RB_RED h"
    have f1: "focus ?h1 (Nd c (Nd RB_RED wl b wr) p t) k" by (rule focus_color_left[OF f])
    have "short (if c = RB_BLACK then Suc n else n) (Nd c (Nd RB_RED wl b wr) p t)"
      "rbt_ctx (Suc (if c = RB_BLACK then Suc n else n)) k"
      using b both k by (cases c; auto simp: short_def fits_def)+
    then have "removed (inord (plug (Nd c (Nd RB_BLACK wl b wr) p t) k)) m
        (False, rbe_parent ?h1 p, Some p, ?h1)"
      unfolding removed_def using f1 nd m
      by (auto simp: inord_plug intro!: exI[of _ "Nd c (Nd RB_RED wl b wr) p t"] exI[of _ k]
          exI[of _ "if c = RB_BLACK then Suc n else n"])
    moreover have "rb_remove_color_right_tail p b h = Some (False, rbe_parent ?h1 p, Some p, ?h1)"
      using both nb ndw by (simp add: rb_remove_color_right_tail_def Let_def)
    ultimately show ?thesis by blast
  next
    case outer
    from remove_right_outer[OF f b(1,3,4) outer k] outer nb ndw show ?thesis
      by (auto simp: rb_remove_color_right_tail_def Let_def removed_def)
  next
    case inner
    then obtain wrl br wrr where wr: "wr = Nd RB_RED wrl br wrr" "rbt n wrl" "rbt n wrr"
      using b(4) by (cases wr) (auto elim: rbt.elims)
    have "focus (set_color b RB_RED (blacken (rootp wr) h)) (Nd RB_RED wl b (paint RB_BLACK wr)) (InL c p t # k)"
      by (rule focus_set_color) (rule focus_blacken_right[OF fw])
    then obtain h1 where r: "RB_ROTATE_LEFT b (set_color b RB_RED (blacken (rootp wr) h)) = Some h1"
      and f1: "focus h1 (Nd c (Nd RB_BLACK (Nd RB_RED wl b wrl) br wrr) p t) k"
      using rotate_left_focus unfolding wr(1) by (metis focus_InL paint.simps(2))
    have "rbe_left h1 p = Some br" using focus_node[OF f1] by simp
    moreover from remove_right_outer[OF f1 b(1) _ wr(3) _ k] wr b inner obtain h4 where
      "RB_ROTATE_RIGHT p (blacken (rbe_left (set_color p RB_BLACK (set_color br (rbe_color h1 p) h1)) br)
                (set_color p RB_BLACK (set_color br (rbe_color h1 p) h1))) = Some h4"
      "insert_fixed (inord (plug (Nd c (Nd RB_BLACK (Nd RB_RED wl b wrl) br wrr) p t) k)) h4"
      by auto
    ultimately show ?thesis using inner nb ndw r wr(1)
      by (auto simp: rb_remove_color_right_tail_def Let_def removed_def inord_plug)
  qed
qed

lemma remove_right_step:
  assumes f: "focus h (Nd c w p t) k" and b: "rbt n t" "black t" "rbt (Suc n) w"
    and k: "fits (Suc n) c k" and cw: "c = RB_BLACK \<or> black w" and m: "length k < m"
  shows "\<exists>res. rb_remove_color_right p h = Some res \<and> removed (inord (plug (Nd c w p t) k)) m res"
proof (cases "black w")
  case True
  with b(3) rbt_black_Suc obtain wl wb wr where w: "w = Nd RB_BLACK wl wb wr" "rbt n wl" "rbt n wr"
    by blast
  have "rbe_left h p = Some wb" "rbe_color h wb = RB_BLACK"
    using focus_node[OF f] focus_node[OF focus_children(1)[OF f[unfolded w(1)]]] w by auto
  with remove_right_tail[OF f[unfolded w(1)] b(1,2) w(2,3) k, of m] m w show ?thesis
    by (auto simp: rb_remove_color_right_def)
next
  case False
  with b(3) obtain wl wb wr where w: "w = Nd RB_RED wl wb wr" "rbt (Suc n) wl" "rbt (Suc n) wr"
      "black wl" "black wr"
    by (cases w) (auto elim: rbt.elims)
  from rbt_black_Suc[OF w(3,5)] obtain x xb y where x: "wr = Nd RB_BLACK x xb y" "rbt n x" "rbt n y"
    by blast
  from cw False have c: "c = RB_BLACK" by simp
  note f' = f[unfolded w(1)]
  obtain h1 where r: "RB_ROTATE_RIGHT p (RB_SET_BLACKRED wb p h) = Some h1"
    and f1: "focus h1 (Nd RB_BLACK wl wb (Nd RB_RED wr p t)) k"
    using rotate_right_focus[OF focus_blackred_left[OF f']] by blast
  note f2 = focus_children(2)[OF f1, unfolded x(1)]
  have "rbe_left h p = Some wb" "rbe_color h wb = RB_RED" "rbe_left h1 p = Some xb"
    using focus_node[OF f'] focus_node[OF focus_children(1)[OF f']] focus_node[OF f2] by auto
  moreover have "fits (Suc n) RB_RED (InR RB_BLACK wl wb # k)"
    using k c w by (simp add: fits_def)
  ultimately show ?thesis
    using remove_right_tail[OF f2 b(1,2) x(2,3), of m] w(1) x(1) r
    by (auto simp: rb_remove_color_right_def inord_plug)
qed

subsection \<open>The loop and the whole rebalancing\<close>

definition remove_end :: "addr list \<Rightarrow> ptr \<times> rb \<Rightarrow> bool" where
  "remove_end xs res \<longleftrightarrow> (\<exists>t. rb_tree (blacken (fst res) (snd res)) t \<and> inord t = xs)"

lemma fixed_remove_end:
  assumes "insert_fixed xs h"
  shows "remove_end xs (rbh_root h, h)"
proof -
  from assms obtain t m where t: "focus h t []" "rbt m t" "inord t = xs" by (auto simp: insert_fixed_def)
  have "\<exists>m'. rbt m' (paint RB_BLACK t)"
  proof (cases "black t")
    case True
    then have "paint RB_BLACK t = t" by (cases t) auto
    with t show ?thesis by auto
  qed (use t in \<open>auto dest: rbt_paint_black\<close>)
  moreover have "rbh_root h = rootp t" using t by (simp add: focus_def)
  ultimately show ?thesis using focus_blacken[OF t(1)] t(3)
    by (auto simp: remove_end_def rb_tree_def intro!: exI[of _ "paint RB_BLACK t"])
qed

text \<open>The loop ends at a red tree: painting it black restores the invariant.\<close>

lemma short_red_end:
  assumes f: "focus h t k" and s: "short n t" "rbt_ctx (Suc n) k" and r: "\<not> black t"
  shows "remove_end (inord (plug t k)) (rootp t, h)"
proof -
  have p: "rbt (Suc n) (paint RB_BLACK t)" using s r by (simp add: short_def)
  have "black (plug (paint RB_BLACK t) k)" "\<exists>m. rbt m (plug (paint RB_BLACK t) k)"
    using rbt_plug[OF p s(2)] by (cases k; auto)+
  with focus_blacken[OF f] show ?thesis
    by (auto simp: remove_end_def rb_tree_def focus_plug inord_plug
        intro!: exI[of _ "plug (paint RB_BLACK t) k"])
qed

lemma remove_loop_exit:
  "\<not> (null_or_black h elm \<and> elm \<noteq> rbh_root h) \<Longrightarrow> rb_remove_color_loop parent elm h = Some (elm, h)"
  by (subst rb_remove_color_loop.simps) auto

lemma rep_ctx_root: "rep_ctx h p k \<Longrightarrow> k \<noteq> [] \<Longrightarrow> \<exists>a \<in> set (lefts k) \<union> set (rights k). rbh_root h = Some a"
proof (induction k arbitrary: p)
  case (Cons f k)
  then show ?case by (cases f; cases k) auto
qed simp

lemma focus_root_neq:
  assumes "focus h t k" "k \<noteq> []"
  shows "rootp t \<noteq> rbh_root h"
proof -
  from assms obtain a where "a \<in> set (lefts k) \<union> set (rights k)" "rbh_root h = Some a"
    using rep_ctx_root by (force simp: focus_def)
  with focus_distinct[OF assms(1)] show ?thesis by (auto dest: rootp_in)
qed

lemma remove_loop_step:
  assumes f: "focus h t k" and s: "short n t" "rbt_ctx (Suc n) k" and b: "black t" "k \<noteq> []"
  shows "\<exists>brk P E h'. removed (inord (plug t k)) (length k) (brk, P, E, h')
          \<and> rb_remove_color_loop (framep k) (rootp t) h
            = (if brk then Some (E, h') else rb_remove_color_loop P E h')"
proof -
  have test: "null_or_black h (rootp t)" "rootp t \<noteq> rbh_root h"
    using focus_null_or_black[OF f] b focus_root_neq[OF f] by auto
  have t: "rbt n t" using s b by (simp add: short_def)
  from b obtain fr k1 where k1: "k = fr # k1" by (cases k) auto
  show ?thesis
  proof (cases fr)
    case (InL c p w)
    have fp: "focus h (Nd c t p w) k1" using f k1 InL by (simp add: focus_InL)
    have "rbt (Suc n) w" "fits (Suc n) c k1" "c = RB_BLACK \<or> black w"
      using s k1 InL by (cases c; auto simp: fits_def)+
    from remove_left_step[OF fp t b(1) this, of "length k"] k1 obtain brk P E h' where
      res: "rb_remove_color_left p h = Some (brk, P, E, h')"
        "removed (inord (plug (Nd c t p w) k1)) (length k) (brk, P, E, h')"
      by (metis length_Cons lessI prod_cases4)
    with test k1 InL focus_node(1)[OF fp] show ?thesis
      by (intro exI[of _ brk] exI[of _ P] exI[of _ E] exI[of _ h'])
        (subst rb_remove_color_loop.simps, simp)
  next
    case (InR c w p)
    have fp: "focus h (Nd c w p t) k1" using f k1 InR by (simp add: focus_InR)
    have w: "rbt (Suc n) w" "fits (Suc n) c k1" "c = RB_BLACK \<or> black w"
      using s k1 InR by (cases c; auto simp: fits_def)+
    from remove_right_step[OF fp t b(1) this, of "length k"] k1 obtain brk P E h' where
      res: "rb_remove_color_right p h = Some (brk, P, E, h')"
        "removed (inord (plug (Nd c w p t) k1)) (length k) (brk, P, E, h')"
      by (metis length_Cons lessI prod_cases4)
    have "w \<noteq> Lf" using w(1) by auto
    then have "rbe_left h p \<noteq> rootp t"
      using focus_node(1)[OF fp] focus_not_same(1)[OF fp] by auto
    with res test k1 InR show ?thesis
      by (intro exI[of _ brk] exI[of _ P] exI[of _ E] exI[of _ h'])
        (subst rb_remove_color_loop.simps, simp)
  qed
qed

lemma remove_loop_fixes:
  assumes "focus h t k" "short n t" "rbt_ctx (Suc n) k"
  shows "\<exists>res. rb_remove_color_loop (framep k) (rootp t) h = Some res \<and> remove_end (inord (plug t k)) res"
  using assms
proof (induction k arbitrary: h t n rule: measure_induct_rule[of length])
  case (less k)
  consider (red) "\<not> black t" | (root) "black t" "k = []" | (up) "black t" "k \<noteq> []" by blast
  then show ?case
  proof cases
    case red
    with less.prems(1) have "\<not> null_or_black h (rootp t)" by (simp add: focus_null_or_black)
    with short_red_end[OF less.prems red] remove_loop_exit show ?thesis by auto
  next
    case root
    with less.prems have "rbh_root h = rootp t" "insert_fixed (inord (plug t k)) h"
      by (auto simp: focus_def insert_fixed_def short_def)
    with fixed_remove_end[of "inord (plug t k)" h] remove_loop_exit show ?thesis by auto
  next
    case up
    from remove_loop_step[OF less.prems up] obtain brk P E h' where
      s: "removed (inord (plug t k)) (length k) (brk, P, E, h')"
        "rb_remove_color_loop (framep k) (rootp t) h
            = (if brk then Some (E, h') else rb_remove_color_loop P E h')" by blast
    show ?thesis
    proof (cases brk)
      case True
      with s fixed_remove_end show ?thesis by (auto simp: removed_def)
    next
      case False
      with s(1) obtain t' k' n' where n: "P = framep k'" "E = rootp t'" "focus h' t' k'" "short n' t'"
        "rbt_ctx (Suc n') k'" "inord (plug t' k') = inord (plug t k)" "length k' < length k \<or> \<not> black t'"
        by (auto simp: removed_def)
      from n(7) show ?thesis
      proof
        assume "length k' < length k"
        from less.IH[OF this n(3-5)] n(1,2,6) s(2) False show ?thesis by auto
      next
        assume red: "\<not> black t'"
        with n(3) have "\<not> null_or_black h' (rootp t')" by (simp add: focus_null_or_black)
        with short_red_end[OF n(3-5) red] remove_loop_exit n(1,2,6) s(2) False show ?thesis by auto
      qed
    qed
  qed
qed

lemma remove_color_correct:
  assumes "focus h t k" "short n t" "rbt_ctx (Suc n) k"
  shows "\<exists>h' t'. RB_REMOVE_COLOR (framep k) (rootp t) h = Some h' \<and> rb_tree h' t'
           \<and> inord t' = inord (plug t k)"
  using remove_loop_fixes[OF assms] by (fastforce simp: RB_REMOVE_COLOR_def remove_end_def)

subsection \<open>Removal of an element\<close>

lemma locate: "e \<in> set (inord t) \<Longrightarrow> \<exists>c l r k. t = plug (Nd c l e r) k"
proof (induction t)
  case (Nd c l a r)
  consider "a = e" | "e \<in> set (inord l)" | "e \<in> set (inord r)" using Nd.prems by auto
  then show ?case
  proof cases
    case 1
    then have "Nd c l a r = plug (Nd c l e r) []" by simp
    then show ?thesis by blast
  next
    case 2
    with Nd.IH(1) obtain c' l' r' k where "l = plug (Nd c' l' e r') k" by blast
    then have "Nd c l a r = plug (Nd c' l' e r') (k @ [InL c a r])" by (simp add: plug_append)
    then show ?thesis by blast
  next
    case 3
    with Nd.IH(2) obtain c' l' r' k where "r = plug (Nd c' l' e r') k" by blast
    then have "Nd c l a r = plug (Nd c' l' e r') (k @ [InR c l a])" by (simp add: plug_append)
    then show ?thesis by blast
  qed
qed simp

lemma rbt_unplug:
  "rbt m (plug t k) \<Longrightarrow> black (plug t k) \<Longrightarrow> \<exists>n. rbt n t \<and> rbt_ctx n k \<and> (black t \<or> black_frame k)"
proof (induction t k rule: plug.induct)
  case (2 t c a r k)
  then obtain n where n: "rbt n (Nd c t a r)" "rbt_ctx n k" "c = RB_BLACK \<or> black_frame k" by auto
  then show ?case by (cases c; cases n) auto
next
  case (3 t c l a k)
  then obtain n where n: "rbt n (Nd c l a t)" "rbt_ctx n k" "c = RB_BLACK \<or> black_frame k" by auto
  then show ?case by (cases c; cases n) auto
qed auto

lemma remove_finish:
  assumes f: "focus h s k" and t: "rbt n (Nd c l y r)" "l = Lf \<and> s = r \<or> r = Lf \<and> s = l"
    and k: "rbt_ctx n k" "c = RB_BLACK \<or> black_frame k"
  shows "\<exists>h' t'. (if c = RB_BLACK then RB_REMOVE_COLOR (framep k) (rootp s) h else Some h) = Some h'
           \<and> rb_tree h' t' \<and> inord t' = inord (plug s k)"
proof (cases c)
  case RB_BLACK
  with t obtain n' where n: "n = Suc n'" "rbt n' s" by (cases n) auto
  then have "short n' s" by (auto simp: short_def rbt_paint_black)
  from remove_color_correct[OF f this] k n RB_BLACK show ?thesis by auto
next
  case RB_RED
  with t have s: "rbt n s" "black s" by auto
  from rbt_plug[OF s(1) k(1)] s(2) RB_RED k have "\<exists>m. rbt m (plug s k)" "black (plug s k)"
    by (cases k; auto)+
  with f RB_RED show ?thesis
    by (intro exI[of _ h] exI[of _ "plug s k"]) (simp add: rb_tree_def focus_plug)
qed

lemma context_replace_addr:
  "rbt_ctx n (kk @ InR c l e # k) = rbt_ctx n (kk @ InR c l y # k)"
  "black_frame (kk @ InR c l e # k) = black_frame (kk @ InR c l y # k)"
proof -
  show b: "black_frame (kk @ InR c l e # k) = black_frame (kk @ InR c l y # k)" for kk
    by (cases kk rule: black_frame.cases) auto
  have base: "rbt_ctx n (InR c l e # k) = rbt_ctx n (InR c l y # k)" for n
    by (cases c) auto
  show "rbt_ctx n (kk @ InR c l e # k) = rbt_ctx n (kk @ InR c l y # k)"
  proof (induction kk arbitrary: n)
    case (Cons f kk)
    show ?case
    proof (cases f)
      case (InL c' a r)
      with Cons b[of kk] show ?thesis by (cases c') auto
    next
      case (InR c' l' a)
      with Cons b[of kk] show ?thesis by (cases c') auto
    qed
  qed (simp add: base)
qed

lemma augment_up_parent:
  assumes "focus h t k" "framep k = Some p"
  shows "rb_augment_up p h = Some h"
proof (cases k rule: framep.cases)
  case (2 c a r k')
  with assms show ?thesis by (auto simp: focus_InL intro: augment_up_returns)
next
  case (3 c l a k')
  with assms show ?thesis by (auto simp: focus_InR intro: augment_up_returns)
qed (use assms in auto)

lemma splice_fields:
  "rootp s \<noteq> Some y \<Longrightarrow> rbe_parent (rb_splice q y (rootp s) h) y = rbe_parent h y"
  by (auto simp: rb_splice_def Let_def split: option.splits)

lemma framep_append: "framep (kk @ k) = (if kk = [] then framep k else framep kk)"
  by (cases kk rule: framep.cases) auto

text \<open>The two-children case up to the label \<^verbatim>\<open>color\<close>: the successor \<open>y\<close> takes the place of \<open>e\<close>
  and its right subtree takes the place of \<open>y\<close>.\<close>

lemma remove_two_children:
  assumes f: "focus h (Nd c l e r) k" and n: "l \<noteq> Lf" "r \<noteq> Lf"
  shows "\<exists>ra cy y ry kk h1 h2. rbe_right h e = Some ra \<and> rb_leftmost ra h = Some y
      \<and> r = plug (Nd cy Lf y ry) kk \<and> lefts kk = []
      \<and> rbe_right h y = rootp ry \<and> rbe_color h y = cy
      \<and> h1 = rb_splice (rbe_parent h y) y (rootp ry) h
      \<and> rb_replace e y h1 = Some h2
      \<and> (if rbe_parent h1 y = Some e then Some y else rbe_parent h y) = framep (kk @ InR c l y # k)
      \<and> focus h2 ry (kk @ InR c l y # k)"
proof -
  from n(2) obtain ra where ra: "rootp r = Some ra" by (cases r) auto
  have fr: "focus h r (InR c l e # k)" using f by (simp add: focus_InR)
  from leftmost_down[OF fr ra] obtain cy y ry kk where
    y: "rb_leftmost ra h = Some y" "r = plug (Nd cy Lf y ry) kk"
      "focus h (Nd cy Lf y ry) (kk @ InR c l e # k)" "lefts kk = []" by blast
  note ny = focus_node[OF y(3)]
  let ?K = "kk @ InR c l e # k"
  let ?h1 = "rb_splice (framep ?K) y (rootp ry) h"
  have d: "distinct (inord (plug (Nd cy Lf y ry) ?K))" using y(3) by (simp add: focus_def)
  then have ney: "rootp ry \<noteq> Some y" "y \<noteq> e"
    by (auto simp: inord_plug plug_append dest: rootp_in)
  have f1: "focus ?h1 ry ?K"
    by (rule splice_focus[OF y(3), where p = "Some y"])
      (use y(3) focus_distinct[OF y(3)] in \<open>auto simp: focus_def\<close>)
  then have f1': "focus ?h1 (Nd c l e (plug ry kk)) k"
    by (simp add: focus_append focus_InR)
  have "y \<notin> set (inord (plug (Nd c l e (plug ry kk)) k))"
    using d by (auto simp: inord_plug plug_append)
  from replace_focus[OF f1' n(1) this] obtain h2 where
    h2: "rb_replace e y ?h1 = Some h2" "focus h2 (Nd c l y (plug ry kk)) k" by blast
  have "framep kk \<noteq> Some e"
    using d by (auto simp: inord_plug plug_append dest!: framep_in)
  then have "(if rbe_parent ?h1 y = Some e then Some y else rbe_parent h y) = framep (kk @ InR c l y # k)"
    using ny ney splice_fields[OF ney(1)] by (auto simp: framep_append)
  moreover have "focus h2 ry (kk @ InR c l y # k)"
    using h2(2) by (simp add: focus_append focus_InR)
  moreover have "rbe_right h e = Some ra" using focus_node[OF f] ra by simp
  ultimately show ?thesis using y ny h2 by force
qed

lemma remove_correct:
  assumes t: "rb_tree h t" and e: "e \<in> set (inord t)"
  shows "\<exists>h' t'. RB_REMOVE e h = Some (e, h') \<and> rb_tree h' t' \<and> inord t' = remove1 e (inord t)"
proof -
  from locate[OF e] obtain c l r k where tk: "t = plug (Nd c l e r) k" by blast
  with t have f: "focus h (Nd c l e r) k" by (simp add: rb_tree_def focus_plug)
  note nd = focus_node[OF f]
  from t tk obtain n where n: "rbt n (Nd c l e r)" "rbt_ctx n k" "c = RB_BLACK \<or> black_frame k"
    using rbt_unplug[of _ "Nd c l e r" k] by (auto simp: rb_tree_def)
  have d: "distinct (inord t)" using t by (simp add: rb_tree_def focus_def)
  show ?thesis
  proof (cases "l = Lf \<or> r = Lf")
    case True
    define s where "s = (if l = Lf then r else l)"
    have s: "l = Lf \<and> s = r \<or> r = Lf \<and> s = l" using True by (auto simp: s_def)
    have fs: "focus (rb_splice (framep k) e (rootp s) h) s k"
      by (rule splice_focus[OF f, where p = "Some e"])
        (use f focus_distinct[OF f] s in \<open>auto simp: focus_def\<close>)
    from remove_finish[OF fs n(1) s n(2,3)] obtain h' t' where r:
      "(if c = RB_BLACK then RB_REMOVE_COLOR (framep k) (rootp s) (rb_splice (framep k) e (rootp s) h)
        else Some (rb_splice (framep k) e (rootp s) h)) = Some h'"
      "rb_tree h' t'" "inord t' = inord (plug s k)" by blast
    have "RB_REMOVE e h = Some (e, h')"
      using r(1) nd True s by (auto simp: RB_REMOVE_def s_def Let_def split: if_splits)
    moreover have "inord t' = remove1 e (inord t)"
      using r(3) tk d s by (auto simp: inord_plug remove1_append)
    ultimately show ?thesis using r(2) by blast
  next
    case False
    then obtain ra cy y ry kk h1 h2 where y: "rbe_right h e = Some ra" "rb_leftmost ra h = Some y"
      "r = plug (Nd cy Lf y ry) kk" "lefts kk = []" "rbe_right h y = rootp ry" "rbe_color h y = cy"
      "h1 = rb_splice (rbe_parent h y) y (rootp ry) h" "rb_replace e y h1 = Some h2"
      "(if rbe_parent h1 y = Some e then Some y else rbe_parent h y) = framep (kk @ InR c l y # k)"
      "focus h2 ry (kk @ InR c l y # k)"
      using remove_two_children[OF f] by blast
    have "t = plug (Nd cy Lf y ry) (kk @ InR c l e # k)" using tk y(3) by (simp add: plug_append)
    with t obtain m where m: "rbt m (Nd cy Lf y ry)" "rbt_ctx m (kk @ InR c l y # k)"
      "cy = RB_BLACK \<or> black_frame (kk @ InR c l y # k)"
      using rbt_unplug[of _ "Nd cy Lf y ry" "kk @ InR c l e # k"] context_replace_addr[where kk = kk and c = c and l = l and e = e and k = k and y = y]
      by (auto simp: rb_tree_def)
    from remove_finish[OF y(10) m(1) _ m(2,3)] obtain h' t' where r:
      "(if cy = RB_BLACK then RB_REMOVE_COLOR (framep (kk @ InR c l y # k)) (rootp ry) h2
        else Some h2) = Some h'"
      "rb_tree h' t'" "inord t' = inord (plug ry (kk @ InR c l y # k))" by auto
    obtain p where p: "framep (kk @ InR c l y # k) = Some p"
      by (cases kk rule: framep.cases) auto
    have "\<not> (rbe_left h e = None \<or> rbe_right h e = None)" using False nd by simp
    then have "RB_REMOVE e h = Some (e, h')"
      by (simp add: RB_REMOVE_def Let_def y(1,2,5,6,8) y(7)[symmetric] y(9)[unfolded p]
          augment_up_parent[OF y(10) p] del: not_None_eq)
        (use r(1)[unfolded p] in \<open>auto split: if_splits\<close>)
    moreover have "inord t' = remove1 e (inord t)"
      using r(3) tk d y(3,4) by (auto simp: inord_plug plug_append remove1_append)
    ultimately show ?thesis using r(2) by blast
  qed
qed

end
