(* ===== verification/Nty_Order.thy ===== *)
theory Nty_Order
  imports Clang_Prelude
begin

text \<open>
  What the two kinds of search trees of \<^verbatim>\<open>nty_tree.h\<close> share.  \<open>cmp_ok cmp key\<close> is what the
  macros require of the caller's comparison function: it compares some key of the elements.
  The abstract value of a tree is the list of its elements in strictly increasing key order;
  \<open>tree_op_spec\<close> is insertion (refused when the key is present) and removal on it.  The locale
  \<open>ordered_tree\<close> is the contract of a tree implementation: the result and the new content of
  insertion, removal and search.
\<close>

definition cmp_ok :: "(addr \<Rightarrow> addr \<Rightarrow> int) \<Rightarrow> (addr \<Rightarrow> 'k::linorder) \<Rightarrow> bool" where
  "cmp_ok cmp key \<longleftrightarrow>
     (\<forall>x y. (cmp x y < 0 \<longleftrightarrow> key x < key y) \<and> (cmp x y > 0 \<longleftrightarrow> key x > key y))"

abbreviation keys_sorted :: "(addr \<Rightarrow> 'k::linorder) \<Rightarrow> addr list \<Rightarrow> bool" where
  "keys_sorted key \<equiv> sorted_wrt (\<lambda>a b. key a < key b)"

lemma cmp_okD:
  assumes "cmp_ok cmp key"
  shows "cmp x y < 0 \<longleftrightarrow> key x < key y" "0 < cmp x y \<longleftrightarrow> key y < key x" "cmp x y = 0 \<longleftrightarrow> key x = key y"
proof -
  show a: "cmp x y < 0 \<longleftrightarrow> key x < key y" "0 < cmp x y \<longleftrightarrow> key y < key x"
    using assms by (auto simp: cmp_ok_def)
  have "cmp x y = 0 \<longleftrightarrow> \<not> cmp x y < 0 \<and> \<not> 0 < cmp x y" by auto
  then show "cmp x y = 0 \<longleftrightarrow> key x = key y" by (auto simp: a)
qed

lemma find_append: "List.find P (xs @ ys) = (case List.find P xs of None \<Rightarrow> List.find P ys | Some x \<Rightarrow> Some x)"
  by (induction xs) auto

lemma find_NoneI: "(\<And>x. x \<in> set xs \<Longrightarrow> \<not> P x) \<Longrightarrow> List.find P xs = None"
  by (simp add: find_None_iff)

lemma find_key_eq:
  assumes "keys_sorted key xs" "a \<in> set xs" "key a = key e"
  shows "List.find (\<lambda>a. key a = key e) xs = Some a"
proof -
  from assms(2) obtain us vs where xs: "xs = us @ a # vs" by (meson split_list)
  with assms have "List.find (\<lambda>a. key a = key e) us = None"
    by (intro find_NoneI) (auto simp: sorted_wrt_append)
  with xs assms(3) show ?thesis by (simp add: find_append)
qed

lemma insort_middle:
  assumes "\<forall>a\<in>set L. key a < key e" "\<forall>a\<in>set R. key e < key a"
  shows "insort_key key e (L @ R) = L @ e # R"
  using assms
proof (induction L)
  case Nil
  then show ?case by (cases R) auto
qed auto

lemma insort_keys_sorted:
  "keys_sorted key xs \<Longrightarrow> \<forall>a\<in>set xs. key a \<noteq> key e \<Longrightarrow> keys_sorted key (insort_key key e xs)"
  by (induction xs) (auto simp: set_insort_key less_le)

lemma remove1_keys_sorted: "keys_sorted key xs \<Longrightarrow> keys_sorted key (remove1 a xs)"
  by (induction xs) (auto dest: set_remove1_subset[THEN subsetD])

lemma keys_sorted_distinct: "keys_sorted key xs \<Longrightarrow> distinct (map key xs)"
  by (induction xs) auto

subsection \<open>Operations and their specification\<close>

datatype tree_op = Tree_insert addr | Tree_remove addr

fun tree_op_spec :: "(addr \<Rightarrow> 'k::linorder) \<Rightarrow> tree_op \<Rightarrow> addr list \<Rightarrow> addr list" where
  "tree_op_spec key (Tree_insert e) xs =
     (if \<exists>a\<in>set xs. key a = key e then xs else insort_key key e xs)"
| "tree_op_spec key (Tree_remove e) xs = remove1 e xs"

fun tree_op_ok :: "tree_op \<Rightarrow> addr list \<Rightarrow> bool" where
  "tree_op_ok (Tree_insert e) xs \<longleftrightarrow> e \<notin> set xs"
| "tree_op_ok (Tree_remove e) xs \<longleftrightarrow> e \<in> set xs"

text \<open>A caller's operation: the returned pointer is dropped.\<close>

fun tree_step ::
  "(addr \<Rightarrow> 's \<Rightarrow> (ptr \<times> 's) option) \<Rightarrow> (addr \<Rightarrow> 's \<Rightarrow> (ptr \<times> 's) option) \<Rightarrow> tree_op \<Rightarrow> 's \<Rightarrow> 's option" where
  "tree_step ins del (Tree_insert e) s = do { (_, s') \<leftarrow> ins e s; Some s' }"
| "tree_step ins del (Tree_remove e) s = do { (_, s') \<leftarrow> del e s; Some s' }"

locale ordered_tree =
  fixes key :: "addr \<Rightarrow> 'k::linorder"
    and repr :: "'s \<Rightarrow> addr list \<Rightarrow> bool"
    and ins :: "addr \<Rightarrow> 's \<Rightarrow> (ptr \<times> 's) option"
    and del :: "addr \<Rightarrow> 's \<Rightarrow> (ptr \<times> 's) option"
    and look :: "addr \<Rightarrow> 's \<Rightarrow> (ptr \<times> 's) option"
  assumes repr_sorted: "repr s xs \<Longrightarrow> keys_sorted key xs"
    and repr_ins: "repr s xs \<Longrightarrow> e \<notin> set xs \<Longrightarrow>
        \<exists>s'. ins e s = Some (List.find (\<lambda>a. key a = key e) xs, s')
           \<and> repr s' (tree_op_spec key (Tree_insert e) xs)"
    and repr_rem: "repr s xs \<Longrightarrow> e \<in> set xs \<Longrightarrow> \<exists>s'. del e s = Some (Some e, s') \<and> repr s' (remove1 e xs)"
    and repr_look: "repr s xs \<Longrightarrow>
        \<exists>s'. look e s = Some (List.find (\<lambda>a. key a = key e) xs, s') \<and> repr s' xs"
begin

lemma step_spec:
  "repr s xs \<Longrightarrow> tree_op_ok x xs \<Longrightarrow>
     \<exists>s'. tree_step ins del x s = Some s' \<and> repr s' (tree_op_spec key x xs)"
  using repr_ins repr_rem by (cases x) fastforce+

text \<open>Insertion after insertion: the tree sorts.\<close>

lemma ins_all:
  assumes "repr s ys" "distinct (map key (xs @ ys))"
  shows "\<exists>s'. run_ops (tree_step ins del) (map Tree_insert xs) s = Some s'
           \<and> repr s' (fold (insort_key key) xs ys)"
  using assms
proof (induction xs arbitrary: s ys)
  case (Cons x xs)
  have n1: "\<not> (\<exists>a\<in>set ys. key a = key x)" using Cons.prems(2) by (auto simp: image_iff)
  then have n: "\<not> (\<exists>a\<in>set ys. key a = key x)" "x \<notin> set ys" by auto
  from step_spec[OF Cons.prems(1), of "Tree_insert x"] n obtain s' where
    s': "tree_step ins del (Tree_insert x) s = Some s'" "repr s' (insort_key key x ys)" by auto
  have "distinct (map key (xs @ insort_key key x ys))"
    using Cons.prems(2) keys_sorted_distinct[OF repr_sorted[OF s'(2)]]
    by (auto simp: set_insort_key)
  from Cons.IH[OF s'(2) this] s'(1) show ?case by simp
qed simp

lemma look_after_rem:
  assumes "repr s xs" "e \<in> set xs"
  shows "\<exists>s' s''. del e s = Some (Some e, s') \<and> look e s' = Some (None, s'')"
proof -
  from repr_rem[OF assms] obtain s' where s': "del e s = Some (Some e, s')" "repr s' (remove1 e xs)"
    by blast
  from keys_sorted_distinct[OF repr_sorted[OF assms(1)]] assms(2)
  have "List.find (\<lambda>a. key a = key e) (remove1 e xs) = None"
    by (intro find_NoneI) (auto simp: distinct_map inj_on_def)
  with repr_look[OF s'(2), of e] s'(1) show ?thesis by auto
qed

end

subsection \<open>A concrete comparison\<close>

text \<open>Elements that are their own keys, for the examples.\<close>

definition int_cmp :: "addr \<Rightarrow> addr \<Rightarrow> int" where
  "int_cmp x y = int x - int y"

lemma int_cmp_ok: "cmp_ok int_cmp id"
  by (auto simp: cmp_ok_def int_cmp_def)

end
