(* ===== verification/Nty_Rb_Order.thy ===== *)
theory Nty_Rb_Order
  imports Nty_Rb_Remove Nty_Order
begin

text \<open>
  The red-black tree as an ordered set: searching, insertion, iteration in both directions,
  the contract \<open>ordered_tree\<close> and the refinement of the sorted list of elements.
\<close>

subsection \<open>Searching\<close>

lemma find_loop_correct:
  assumes "cmp_ok cmp key" "rep h p t" "keys_sorted key (inord t)"
  shows "rb_find_loop cmp e (rootp t) h = Some (List.find (\<lambda>a. key a = key e) (inord t))"
  using assms(2,3)
proof (induction t arbitrary: p)
  case Lf
  then show ?case by (simp add: rb_find_loop.simps)
next
  case (Nd c l a r)
  note cd = cmp_okD[OF assms(1)]
  consider "key e < key a" | "key a < key e" | "key e = key a" using less_linear by blast
  then show ?case
  proof cases
    case 1
    then have "List.find (\<lambda>a. key a = key e) (a # inord r) = None"
      using Nd.prems by (intro find_NoneI) (auto simp: sorted_wrt_append)
    with 1 Nd show ?thesis
      by (subst rb_find_loop.simps) (auto simp: cd sorted_wrt_append find_append split: option.splits)
  next
    case 2
    then have "List.find (\<lambda>a. key a = key e) (inord l) = None"
      using Nd.prems by (intro find_NoneI) (auto simp: sorted_wrt_append)
    with 2 Nd show ?thesis
      by (subst rb_find_loop.simps) (auto simp: cd sorted_wrt_append find_append)
  next
    case 3
    then have "List.find (\<lambda>a. key a = key e) (inord l) = None"
      using Nd.prems by (intro find_NoneI) (auto simp: sorted_wrt_append)
    with 3 show ?thesis
      by (subst rb_find_loop.simps) (auto simp: cd find_append)
  qed
qed

lemma nfind_loop_correct:
  assumes "cmp_ok cmp key" "rep h p t" "keys_sorted key (inord t)"
  shows "rb_nfind_loop cmp e (rootp t) res h =
           Some (case List.find (\<lambda>a. key e \<le> key a) (inord t) of None \<Rightarrow> res | Some a \<Rightarrow> Some a)"
  using assms(2,3)
proof (induction t arbitrary: p res)
  case Lf
  then show ?case by (simp add: rb_nfind_loop.simps)
next
  case (Nd c l a r)
  note cd = cmp_okD[OF assms(1)]
  consider "key e < key a" | "key a < key e" | "key e = key a" using less_linear by blast
  then show ?case
  proof cases
    case 1
    with Nd show ?thesis
      by (subst rb_nfind_loop.simps) (auto simp: cd sorted_wrt_append find_append split: option.splits)
  next
    case 2
    then have "List.find (\<lambda>a. key e \<le> key a) (inord l) = None"
      using Nd.prems by (intro find_NoneI) (force simp: sorted_wrt_append)
    with 2 Nd show ?thesis
      by (subst rb_nfind_loop.simps) (auto simp: cd sorted_wrt_append find_append)
  next
    case 3
    then have "List.find (\<lambda>a. key e \<le> key a) (inord l) = None"
      using Nd.prems by (intro find_NoneI) (force simp: sorted_wrt_append)
    with 3 show ?thesis
      by (subst rb_nfind_loop.simps) (auto simp: cd find_append)
  qed
qed

lemma minmax_loop_correct:
  assumes "rep h p t"
  shows "rb_minmax_loop val (rootp t) par h =
           Some (if t = Lf then par else Some (if val < 0 then hd (inord t) else last (inord t)))"
  using assms
proof (induction t arbitrary: p par)
  case Lf
  then show ?case by (simp add: rb_minmax_loop.simps)
next
  case (Nd c l a r)
  then show ?case by (subst rb_minmax_loop.simps) (auto simp: hd_append)
qed

subsection \<open>Insertion\<close>

fun below :: "frame list \<Rightarrow> int \<Rightarrow> bool" where
  "below [] c \<longleftrightarrow> True"
| "below (InL _ _ _ # k) c \<longleftrightarrow> c < 0"
| "below (InR _ _ _ # k) c \<longleftrightarrow> c > 0"

lemma lefts_append [simp]: "lefts (k @ k') = lefts k' @ lefts k"
  by (induction k rule: lefts.induct) auto

lemma rights_append [simp]: "rights (k @ k') = rights k @ rights k'"
  by (induction k rule: rights.induct) auto

lemma insert_descend_correct:
  assumes "cmp_ok cmp key" "focus h t k" "keys_sorted key (inord t)"
  shows "(\<exists>a\<in>set (inord t). key a = key e \<and> rb_insert_descend cmp e (rootp t) par c0 h = Some (Inl a))
    \<or> (\<exists>kk c. rb_insert_descend cmp e (rootp t) par c0 h = Some (Inr (if kk = [] then par else framep kk, c))
         \<and> t = plug Lf kk \<and> focus h Lf (kk @ k) \<and> (kk \<noteq> [] \<longrightarrow> below kk c)
         \<and> (\<forall>a\<in>set (lefts kk). key a < key e) \<and> (\<forall>a\<in>set (rights kk). key e < key a))"
  using assms(2,3)
proof (induction t arbitrary: k par c0)
  case Lf
  then show ?case by (auto simp: rb_insert_descend.simps intro!: exI[of _ "[]"])
next
  case (Nd c l a r)
  note cd = cmp_okD[OF assms(1)]
  note nd = focus_node[OF Nd.prems(1)]
  have srt: "keys_sorted key (inord l)" "keys_sorted key (inord r)"
    "\<forall>x\<in>set (inord l). key x < key a" "\<forall>x\<in>set (inord r). key a < key x"
    using Nd.prems(2) by (auto simp: sorted_wrt_append)
  consider (lt) "key e < key a" | (gt) "key a < key e" | (eq) "key e = key a" using less_linear by blast
  then show ?case
  proof cases
    case lt
    then have eqn: "rb_insert_descend cmp e (rootp (Nd c l a r)) par c0 h
        = rb_insert_descend cmp e (rootp l) (Some a) (cmp e a) h"
      by (subst rb_insert_descend.simps) (simp add: cd nd)
    from Nd.IH(1)[OF focus_children(1)[OF Nd.prems(1)] srt(1), of "Some a" "cmp e a"]
    show ?thesis
    proof (elim disjE bexE exE conjE)
      fix kk cc
      assume r: "rb_insert_descend cmp e (rootp l) (Some a) (cmp e a) h
          = Some (Inr (if kk = [] then Some a else framep kk, cc))"
        "l = plug Lf kk" "focus h Lf (kk @ InL c a r # k)" "kk \<noteq> [] \<longrightarrow> below kk cc"
        "\<forall>a\<in>set (lefts kk). key a < key e" "\<forall>a\<in>set (rights kk). key e < key a"
      have "kk = [] \<Longrightarrow> cc < 0"
        using r(1,2) lt cd by (auto simp: rb_insert_descend.simps[of _ _ None])
      then have "below (kk @ [InL c a r]) cc" using r(4) by (cases kk rule: framep.cases) auto
      moreover have "\<forall>x\<in>set (lefts (kk @ [InL c a r])). key x < key e"
        "\<forall>x\<in>set (rights (kk @ [InL c a r])). key e < key x"
        using r(5,6) lt srt by (auto intro: less_trans)
      ultimately show ?thesis using r(1-3) eqn
        by (intro disjI2 exI[of _ "kk @ [InL c a r]"] exI[of _ cc]) (simp add: plug_append framep_append)
    qed (use eqn in auto)
  next
    case gt
    then have eqn: "rb_insert_descend cmp e (rootp (Nd c l a r)) par c0 h
        = rb_insert_descend cmp e (rootp r) (Some a) (cmp e a) h"
      by (subst rb_insert_descend.simps) (auto simp: Let_def cd nd)
    from Nd.IH(2)[OF focus_children(2)[OF Nd.prems(1)] srt(2), of "Some a" "cmp e a"]
    show ?thesis
    proof (elim disjE bexE exE conjE)
      fix kk cc
      assume r: "rb_insert_descend cmp e (rootp r) (Some a) (cmp e a) h
          = Some (Inr (if kk = [] then Some a else framep kk, cc))"
        "r = plug Lf kk" "focus h Lf (kk @ InR c l a # k)" "kk \<noteq> [] \<longrightarrow> below kk cc"
        "\<forall>a\<in>set (lefts kk). key a < key e" "\<forall>a\<in>set (rights kk). key e < key a"
      have "kk = [] \<Longrightarrow> 0 < cc"
        using r(1,2) gt cd by (auto simp: rb_insert_descend.simps[of _ _ None])
      then have "below (kk @ [InR c l a]) cc" using r(4) by (cases kk rule: framep.cases) auto
      moreover have "\<forall>x\<in>set (lefts (kk @ [InR c l a])). key x < key e"
        "\<forall>x\<in>set (rights (kk @ [InR c l a])). key e < key x"
        using r(5,6) gt srt by (auto intro: less_trans)
      ultimately show ?thesis using r(1-3) eqn
        by (intro disjI2 exI[of _ "kk @ [InR c l a]"] exI[of _ cc]) (simp add: plug_append framep_append)
    qed (use eqn in auto)
  next
    case eq
    then show ?thesis by (intro disjI1 bexI[of _ a]) (subst rb_insert_descend.simps, auto simp: Let_def cd)
  qed
qed

lemma insert_correct:
  assumes c: "cmp_ok cmp key" and t: "rb_tree h t" and s: "keys_sorted key (inord t)"
    and e: "e \<notin> set (inord t)"
  shows "(\<exists>a\<in>set (inord t). key a = key e \<and> RB_INSERT cmp e h = Some (Some a, h))
    \<or> (\<forall>a\<in>set (inord t). key a \<noteq> key e)
      \<and> (\<exists>h' t'. RB_INSERT cmp e h = Some (None, h') \<and> rb_tree h' t'
           \<and> inord t' = insort_key key e (inord t))"
proof -
  have f: "focus h t []" using t by (simp add: rb_tree_def)
  then have root: "rbh_root h = rootp t" by (simp add: focus_def)
  from insert_descend_correct[OF c f s, of e None 0] show ?thesis
  proof (elim disjE bexE exE conjE)
    fix a assume "a \<in> set (inord t)" "key a = key e"
      "rb_insert_descend cmp e (rootp t) None 0 h = Some (Inl a)"
    then show ?thesis by (auto simp: RB_INSERT_def root)
  next
    fix kk d
    assume r: "rb_insert_descend cmp e (rootp t) None 0 h = Some (Inr (if kk = [] then None else framep kk, d))"
      "t = plug Lf kk" "focus h Lf (kk @ [])" "kk \<noteq> [] \<longrightarrow> below kk d"
      "\<forall>a\<in>set (lefts kk). key a < key e" "\<forall>a\<in>set (rights kk). key e < key a"
    let ?h2 = "case kk of
            [] \<Rightarrow> (RB_SET e (framep kk) h)\<lparr>rbh_root := Some e\<rparr>
          | InL c p r # _ \<Rightarrow> set_left p (Some e) (RB_SET e (framep kk) h)
          | InR c l p # _ \<Rightarrow> set_right p (Some e) (RB_SET e (framep kk) h)"
    have fe: "focus ?h2 (Nd RB_RED Lf e Lf) kk"
      using attach_focus[of h kk e] r(2,3) e by simp
    have ctx: "rbt_ctx 0 kk" using rbt_unplug[of _ Lf kk] t r(2) by (auto simp: rb_tree_def)
    from insert_color_correct[OF fe, of 0] ctx obtain h' t' where h':
      "RB_INSERT_COLOR e ?h2 = Some h'" "rb_tree h' t'" "inord t' = inord (plug (Nd RB_RED Lf e Lf) kk)"
      by auto
    have "RB_INSERT cmp e h = Some (None, h')"
      using r(1,4) h'(1) by (cases kk rule: framep.cases) (auto simp: RB_INSERT_def root)
    moreover have "inord t' = insort_key key e (inord t)"
      using h'(3) r(2) insort_middle[OF r(5,6)] by (simp add: inord_plug)
    moreover have "\<forall>a\<in>set (inord t). key a \<noteq> key e" using r(2,5,6) by (auto simp: inord_plug)
    ultimately show ?thesis using h'(2) by blast
  qed
qed

subsection \<open>Iteration\<close>

lemma rightmost_down:
  assumes "focus h t k" "rootp t = Some a"
  shows "\<exists>c y l kk. rb_rightmost a h = Some y \<and> t = plug (Nd c l y Lf) kk \<and> rights kk = []"
  using assms
proof (induction t arbitrary: a k)
  case (Nd c l b r)
  show ?case
  proof (cases r)
    case Lf
    with Nd.prems show ?thesis
      by (intro exI[of _ c] exI[of _ b] exI[of _ l] exI[of _ "[]"])
        (auto simp: rb_rightmost.simps focus_def)
  next
    case (Nd cr lr br rr)
    have "focus h r (InR c l b # k)" using Nd.prems by (simp add: focus_InR)
    from Nd.IH(2)[OF this] Nd obtain cy y ly kk where
      "rb_rightmost br h = Some y" "r = plug (Nd cy ly y Lf) kk" "rights kk = []" by auto
    moreover have "rb_rightmost a h = rb_rightmost br h"
      using Nd Nd.prems by (subst rb_rightmost.simps) (auto simp: focus_def)
    ultimately show ?thesis
      by (intro exI[of _ cy] exI[of _ y] exI[of _ ly] exI[of _ "kk @ [InR c l b]"])
        (auto simp: plug_append)
  qed
qed simp

lemma climb_right_correct:
  assumes "focus h s k" "rootp s = Some a"
  shows "rb_climb_right a h = Some (case rights k of [] \<Rightarrow> None | y # _ \<Rightarrow> Some y)"
  using assms
proof (induction k arbitrary: s a)
  case Nil
  then have "rbe_parent h a = None" by (cases s) (auto simp: focus_def)
  then show ?case by (subst rb_climb_right.simps) simp
next
  case (Cons f k)
  have p: "rbe_parent h a = framep (f # k)" using Cons.prems by (cases s) (auto simp: focus_def)
  show ?case
  proof (cases f)
    case (InL c b r)
    with Cons.prems have fb: "focus h (Nd c s b r) k" by (simp add: focus_InL)
    have "rbe_right h b \<noteq> Some a"
      using focus_node(2)[OF fb] focus_not_same(1)[OF fb] Cons.prems(2) by auto
    with p InL show ?thesis by (subst rb_climb_right.simps) simp
  next
    case (InR c l b)
    with Cons.prems have fb: "focus h (Nd c l b s) k" by (simp add: focus_InR)
    have "rbe_right h b = Some a" using focus_node(2)[OF fb] Cons.prems(2) by simp
    with p InR Cons.IH[OF fb, of b] show ?thesis by (subst rb_climb_right.simps) simp
  qed
qed

lemma climb_left_correct:
  assumes "focus h s k" "rootp s = Some a"
  shows "rb_climb_left a h = Some (if lefts k = [] then None else Some (last (lefts k)))"
  using assms
proof (induction k arbitrary: s a)
  case Nil
  then have "rbe_parent h a = None" by (cases s) (auto simp: focus_def)
  then show ?case by (subst rb_climb_left.simps) simp
next
  case (Cons f k)
  have p: "rbe_parent h a = framep (f # k)" using Cons.prems by (cases s) (auto simp: focus_def)
  show ?case
  proof (cases f)
    case (InL c b r)
    with Cons.prems have fb: "focus h (Nd c s b r) k" by (simp add: focus_InL)
    have "rbe_left h b = Some a" using focus_node(1)[OF fb] Cons.prems(2) by simp
    with p InL Cons.IH[OF fb, of b] show ?thesis by (subst rb_climb_left.simps) simp
  next
    case (InR c l b)
    with Cons.prems have fb: "focus h (Nd c l b s) k" by (simp add: focus_InR)
    have "rbe_left h b \<noteq> Some a"
      using focus_node(1)[OF fb] focus_not_same(1)[OF fb] Cons.prems(2) by auto
    with p InR show ?thesis by (subst rb_climb_left.simps) simp
  qed
qed

lemma next_focus:
  assumes f: "focus h (Nd c l a r) k"
  shows "RB_NEXT a h = Some (case inord r @ rights k of [] \<Rightarrow> None | y # _ \<Rightarrow> Some y)"
proof (cases r)
  case Lf
  note cl = climb_right_correct[OF f, of a]
  show ?thesis
  proof (cases k rule: framep.cases)
    case (2 d b r' k')
    with f have "rbe_left h b = Some a" by (auto simp: focus_def)
    with Lf 2 focus_node[OF f] show ?thesis by (simp add: RB_NEXT_def)
  next
    case (3 d l' b k')
    with f have fb: "focus h (Nd d l' b (Nd c l a r)) k'" by (simp add: focus_InR)
    have "rbe_left h b \<noteq> Some a" using focus_node(1)[OF fb] focus_not_same(1)[OF fb] by auto
    with Lf 3 focus_node[OF f] cl show ?thesis by (simp add: RB_NEXT_def)
  qed (use Lf focus_node[OF f] cl in \<open>simp add: RB_NEXT_def\<close>)
next
  case (Nd d rl b rr)
  from leftmost_down[OF focus_children(2)[OF f], of b] Nd obtain cy y ry kk where
    y: "rb_leftmost b h = Some y" "r = plug (Nd cy Lf y ry) kk" "lefts kk = []" by auto
  then have "inord r = y # inord ry @ rights kk" by (simp add: inord_plug)
  moreover have "rbe_right h a = Some b" using focus_node[OF f] Nd by simp
  ultimately show ?thesis using y(1) by (simp add: RB_NEXT_def)
qed

lemma prev_focus:
  assumes f: "focus h (Nd c l a r) k"
  shows "RB_PREV a h = Some (if lefts k @ inord l = [] then None else Some (last (lefts k @ inord l)))"
proof (cases l)
  case Lf
  note cl = climb_left_correct[OF f, of a]
  show ?thesis
  proof (cases k rule: framep.cases)
    case (3 d l' b k')
    with f have "rbe_right h b = Some a" by (auto simp: focus_def)
    with Lf 3 focus_node[OF f] show ?thesis by (simp add: RB_PREV_def)
  next
    case (2 d b r' k')
    with f have fb: "focus h (Nd d (Nd c l a r) b r') k'" by (simp add: focus_InL)
    have "rbe_right h b \<noteq> Some a" using focus_node(2)[OF fb] focus_not_same(1)[OF fb] by auto
    with Lf 2 focus_node[OF f] cl show ?thesis by (simp add: RB_PREV_def)
  qed (use Lf focus_node[OF f] cl in \<open>simp add: RB_PREV_def\<close>)
next
  case (Nd d ll b lr)
  from rightmost_down[OF focus_children(1)[OF f], of b] Nd obtain cy y ly kk where
    y: "rb_rightmost b h = Some y" "l = plug (Nd cy ly y Lf) kk" "rights kk = []" by auto
  then have "inord l = lefts kk @ inord ly @ [y]" by (simp add: inord_plug)
  moreover have "rbe_left h a = Some b" using focus_node[OF f] Nd by simp
  ultimately show ?thesis using y(1) by (simp add: RB_PREV_def)
qed

lemma distinct_split_unique:
  assumes "us @ a # vs = xs @ a # ys" "distinct (us @ a # vs)"
  shows "us = xs \<and> vs = ys"
proof -
  have "a \<notin> set us" "a \<notin> set vs" using assms(2) by auto
  with assms(1) show ?thesis by (simp add: append_Cons_eq_iff)
qed

lemma next_prev_correct:
  assumes f: "focus h t []" and t: "inord t = us @ a # vs"
  shows "RB_NEXT a h = Some (case vs of [] \<Rightarrow> None | y # _ \<Rightarrow> Some y)"
    and "RB_PREV a h = Some (if us = [] then None else Some (last us))"
proof -
  from locate[of a t] t obtain c l r k where k: "t = plug (Nd c l a r) k" by auto
  with f have fa: "focus h (Nd c l a r) k" by (simp add: focus_plug)
  have "us = lefts k @ inord l \<and> vs = inord r @ rights k"
    by (rule distinct_split_unique[where a = a])
      (use t k f in \<open>auto simp: inord_plug focus_def\<close>)
  with next_focus[OF fa] prev_focus[OF fa] show
    "RB_NEXT a h = Some (case vs of [] \<Rightarrow> None | y # _ \<Rightarrow> Some y)"
    "RB_PREV a h = Some (if us = [] then None else Some (last us))" by auto
qed

lemma rb_for_each_Some [simp]:
  "rb_for_each step body (Some e) st =
     do { st' \<leftarrow> body e st; y \<leftarrow> step e (snd st'); rb_for_each step body y st' }"
  by (subst rb_for_each.simps) simp

lemma rb_for_each_None [simp]: "rb_for_each step body None st = Some st"
  by (subst rb_for_each.simps) simp

lemma rb_for_each_safe_Some [simp]:
  "rb_for_each_safe step body (Some e) st =
     do { y \<leftarrow> step e (snd st); st' \<leftarrow> body e st; rb_for_each_safe step body y st' }"
  by (subst rb_for_each_safe.simps) simp

lemma rb_for_each_safe_None [simp]: "rb_for_each_safe step body None st = Some st"
  by (subst rb_for_each_safe.simps) simp

lemma min_max_correct:
  assumes "focus h t []"
  shows "RB_MIN h = Some (case inord t of [] \<Rightarrow> None | x # _ \<Rightarrow> Some x)"
    and "RB_MAX h = Some (if inord t = [] then None else Some (last (inord t)))"
  using assms minmax_loop_correct[of h None t]
  by (cases "inord t"; auto simp: RB_MIN_def RB_MAX_def RB_MINMAX_def RB_NEGINF_def RB_INF_def focus_def)+

lemma foreach_correct:
  assumes f: "focus h t []"
  shows "RB_FOREACH visit ([], h) = Some (inord t, h)"
proof -
  have "inord t = us @ vs \<Longrightarrow>
      rb_for_each RB_NEXT visit (case vs of [] \<Rightarrow> None | v # _ \<Rightarrow> Some v) (us, h)
        = Some (inord t, h)" for us vs
  proof (induction vs arbitrary: us)
    case (Cons v vs)
    from next_prev_correct(1)[OF f Cons.prems] Cons.IH[of "us @ [v]"] Cons.prems
    show ?case by (simp add: visit_def)
  qed simp
  from this[of "[]" "inord t"] min_max_correct(1)[OF f] show ?thesis by (simp add: RB_FOREACH_def)
qed

lemma foreach_reverse_correct:
  assumes f: "focus h t []"
  shows "RB_FOREACH_REVERSE visit ([], h) = Some (rev (inord t), h)"
proof -
  have "inord t = us @ vs \<Longrightarrow>
      rb_for_each RB_PREV visit (if us = [] then None else Some (last us)) (rev vs, h)
        = Some (rev (inord t), h)" for us vs
  proof (induction us arbitrary: vs rule: rev_induct)
    case (snoc u us)
    then have "inord t = us @ u # vs" by simp
    from next_prev_correct(2)[OF f this] snoc.IH[of "u # vs"] snoc.prems
    show ?case by (simp add: visit_def)
  qed simp
  from this[of "inord t" "[]"] min_max_correct(2)[OF f] show ?thesis
    by (simp add: RB_FOREACH_REVERSE_def)
qed

text \<open>The body that removes each element it is given, as a caller that tears the tree down
  writes it.\<close>

definition rb_remove_body :: "addr \<Rightarrow> addr list \<times> rb \<Rightarrow> (addr list \<times> rb) option" where
  "rb_remove_body e st = do { (old, h) \<leftarrow> RB_REMOVE e (snd st); Some (fst st @ [old], h) }"

lemma foreach_safe_drain_loop:
  assumes "rb_tree h t"
  shows "\<exists>h'. rb_for_each_safe RB_NEXT rb_remove_body (case inord t of [] \<Rightarrow> None | v # _ \<Rightarrow> Some v) (us, h)
           = Some (us @ inord t, h') \<and> RB_EMPTY h'"
  using assms
proof (induction "inord t" arbitrary: t h us)
  case Nil
  then show ?case by (cases t) (auto simp: RB_EMPTY_def rb_tree_def focus_def)
next
  case (Cons x xs)
  have f: "focus h t []" using Cons.prems by (simp add: rb_tree_def)
  have t: "inord t = [] @ x # xs" using Cons.hyps(2) by simp
  from remove_correct[OF Cons.prems, of x] t obtain h' t' where
    r: "RB_REMOVE x h = Some (x, h')" "rb_tree h' t'" "inord t' = xs" by auto
  from Cons.hyps(1)[OF r(3)[symmetric] r(2), of "us @ [x]"] r next_prev_correct(1)[OF f t] t
  show ?case by (simp add: rb_remove_body_def)
qed

subsection \<open>Height\<close>

fun height :: "rbtree \<Rightarrow> nat" where
  "height Lf = 0"
| "height (Nd c l a r) = Suc (max (height l) (height r))"

lemma rbt_height: "rbt n t \<Longrightarrow> height t \<le> 2 * n + (if black t then 0 else 1)"
proof (induction n t rule: rbt.induct)
  case (2 n l a r)
  then show ?case by (auto simp: max_def)
next
  case (4 n l a r)
  then show ?case by (force simp: max_def split: if_splits)
qed auto

lemma rbt_size: "rbt n t \<Longrightarrow> 2 ^ n \<le> Suc (length (inord t))"
proof (induction n t rule: rbt.induct)
  case (2 n l a r)
  then show ?case by (auto intro: order_trans)
next
  case (4 n l a r)
  then show ?case by auto
qed auto

lemma rb_tree_height:
  assumes "rb_tree h t"
  shows "2 ^ height t \<le> (Suc (length (inord t)))\<^sup>2"
proof -
  from assms obtain n where n: "rbt n t" "black t" by (auto simp: rb_tree_def)
  from rbt_height[OF n(1)] n(2) have "(2::nat) ^ height t \<le> 2 ^ (2 * n)"
    by (intro power_increasing) auto
  also have "\<dots> = (2 ^ n)\<^sup>2" by (simp add: power_mult mult.commute)
  also have "\<dots> \<le> (Suc (length (inord t)))\<^sup>2" using rbt_size[OF n(1)] by (rule power_mono) simp
  finally show ?thesis .
qed

subsection \<open>Refinement of the sorted list\<close>

definition rb_rel :: "(addr \<Rightarrow> 'k::linorder) \<Rightarrow> rb \<Rightarrow> addr list \<Rightarrow> bool" where
  "rb_rel key h xs \<longleftrightarrow> (\<exists>t. rb_tree h t \<and> inord t = xs) \<and> keys_sorted key xs"

lemma rb_init_rel: "rb_rel key (RB_INIT h) []"
  by (auto simp: rb_rel_def rb_tree_def RB_INIT_def focus_def intro!: exI[of _ Lf])

lemma rb_rel_find:
  assumes "cmp_ok cmp key" "rb_rel key h xs"
  shows "RB_FIND cmp e h = Some (List.find (\<lambda>a. key a = key e) xs)"
proof -
  from assms(2) obtain t where t: "focus h t []" "inord t = xs" "keys_sorted key xs"
    by (auto simp: rb_rel_def rb_tree_def)
  then have "rep h None t" "rbh_root h = rootp t" by (auto simp: focus_def)
  with find_loop_correct[OF assms(1), of h None t e] t show ?thesis by (simp add: RB_FIND_def)
qed

text \<open>The operations as the contract has them (\<^verbatim>\<open>RB_REMOVE\<close> returns a plain element,
  \<^verbatim>\<open>RB_FIND\<close> leaves the heap alone).\<close>

definition rb_del :: "addr \<Rightarrow> rb \<Rightarrow> (ptr \<times> rb) option" where
  "rb_del e h = do { (old, h') \<leftarrow> RB_REMOVE e h; Some (Some old, h') }"

definition rb_look :: "(addr \<Rightarrow> addr \<Rightarrow> int) \<Rightarrow> addr \<Rightarrow> rb \<Rightarrow> (ptr \<times> rb) option" where
  "rb_look cmp e h = do { r \<leftarrow> RB_FIND cmp e h; Some (r, h) }"

interpretation rbt: ordered_tree key "\<lambda>h xs. cmp_ok cmp key \<and> rb_rel key h xs"
  "RB_INSERT cmp" rb_del "rb_look cmp" for cmp and key :: "addr \<Rightarrow> 'k::linorder"
proof (unfold_locales, goal_cases)
  case 1 then show ?case by (simp add: rb_rel_def)
next
  case (2 h xs e)
  then obtain t where t: "rb_tree h t" "inord t = xs" "keys_sorted key xs" "cmp_ok cmp key"
    by (auto simp: rb_rel_def)
  have ie: "(\<exists>a\<in>set xs. key a = key e \<and> RB_INSERT cmp e h = Some (Some a, h))
    \<or> (\<forall>a\<in>set xs. key a \<noteq> key e) \<and> (\<exists>h' t'. RB_INSERT cmp e h = Some (None, h')
        \<and> rb_tree h' t' \<and> inord t' = insort_key key e xs)"
    using insert_correct[OF t(4,1), of e] t(2,3) 2(2) by simp
  then show ?case
  proof (elim disjE bexE conjE exE)
    fix a assume "a \<in> set xs" "key a = key e" "RB_INSERT cmp e h = Some (Some a, h)"
    with 2(1) find_key_eq[OF t(3)] show ?thesis by auto
  next
    fix h' t' assume "\<forall>a\<in>set xs. key a \<noteq> key e" "RB_INSERT cmp e h = Some (None, h')"
      "rb_tree h' t'" "inord t' = insort_key key e xs"
    moreover from this(1) have "List.find (\<lambda>a. key a = key e) xs = None" by (intro find_NoneI) auto
    ultimately show ?thesis using t insort_keys_sorted[OF t(3), of e] by (auto simp: rb_rel_def)
  qed
next
  case (3 h xs e)
  then show ?case using remove_correct[of h _ e]
    by (fastforce simp: rb_rel_def rb_del_def intro: remove1_keys_sorted)
next
  case (4 h xs e)
  then show ?case by (auto simp: rb_look_def rb_rel_find)
qed

interpretation rbs: simulation "\<lambda>h xs. cmp_ok cmp key \<and> rb_rel key h xs"
  "tree_step (RB_INSERT cmp) rb_del" "tree_op_spec key" tree_op_ok
  for cmp and key :: "addr \<Rightarrow> 'k::linorder"
  by unfold_locales (rule rbt.step_spec)

subsection \<open>Properties\<close>

text \<open>C2 \<^verbatim>\<open>RB_INSERT\<close> on a well-formed red-black tree returns, without touching the heap, the
  element that already has the key; otherwise it returns \<open>NULL\<close> and leaves a tree that again
  satisfies every red-black invariant (parent pointers, black heights, no red node with a red
  child, black root) and holds the new element at its place in the order.  The descent and the
  rebalancing loop terminate and never dereference \<open>NULL\<close>.\<close>

theorem rb_insert_correct:
  assumes "cmp_ok cmp key" "rb_tree h t" "keys_sorted key (inord t)" "e \<notin> set (inord t)"
  shows "(\<exists>a\<in>set (inord t). key a = key e \<and> RB_INSERT cmp e h = Some (Some a, h))
    \<or> (\<forall>a\<in>set (inord t). key a \<noteq> key e)
      \<and> (\<exists>h' t'. RB_INSERT cmp e h = Some (None, h') \<and> rb_tree h' t'
           \<and> inord t' = insort_key key e (inord t) \<and> keys_sorted key (inord t'))"
  using insert_correct[OF assms] insort_keys_sorted[OF assms(3)] by metis

definition rb_one :: rb where
  "rb_one = \<lparr>rbh_root = Some 5, rbe_left = (\<lambda>_. None), rbe_right = (\<lambda>_. None),
     rbe_parent = (\<lambda>_. None), rbe_color = (\<lambda>_. RB_BLACK)\<rparr>"

lemma rb_one_tree: "rb_tree rb_one (Nd RB_BLACK Lf 5 Lf)"
  by (auto simp: rb_tree_def focus_def rb_one_def intro!: exI[of _ "Suc 0"])

theorem rb_insert_correct_witness:
  "cmp_ok int_cmp id \<and> rb_tree rb_one (Nd RB_BLACK Lf 5 Lf)
   \<and> (\<exists>h' t'. RB_INSERT int_cmp 3 rb_one = Some (None, h') \<and> rb_tree h' t' \<and> inord t' = [3, 5])"
  using rb_insert_correct[OF int_cmp_ok rb_one_tree, of 3] int_cmp_ok rb_one_tree by auto

text \<open>C1 \<^verbatim>\<open>RB_REMOVE\<close> of an element of a well-formed tree returns that element and leaves a tree
  that again satisfies every red-black invariant and holds exactly the other elements, in the
  same order, in the three structural cases (no left child, no right child, successor moved
  up) and all cases of \<^verbatim>\<open>RB_REMOVE_COLOR\<close>.\<close>

theorem rb_remove_correct:
  assumes "rb_tree h t" "e \<in> set (inord t)"
  shows "\<exists>h' t'. RB_REMOVE e h = Some (e, h') \<and> rb_tree h' t' \<and> inord t' = remove1 e (inord t)"
  by (rule remove_correct[OF assms])

theorem rb_remove_correct_witness:
  "rb_tree rb_one (Nd RB_BLACK Lf 5 Lf) \<and> 5 \<in> set (inord (Nd RB_BLACK Lf 5 Lf))
   \<and> (\<exists>h' t'. RB_REMOVE 5 rb_one = Some (5, h') \<and> rb_tree h' t' \<and> inord t' = [])"
  using rb_remove_correct[OF rb_one_tree, of 5] rb_one_tree by simp

text \<open>C4 \<^verbatim>\<open>RB_FIND\<close> returns the element with the searched key, \<^verbatim>\<open>RB_NFIND\<close> the first element
  whose key is not smaller, and both return \<open>NULL\<close> exactly when there is none; \<^verbatim>\<open>RB_MIN\<close> and
  \<^verbatim>\<open>RB_MAX\<close> return the ends of the order.  The longest search path is logarithmic in the
  number of elements.\<close>

theorem rb_search_correct:
  assumes "cmp_ok cmp key" "rb_tree h t" "keys_sorted key (inord t)"
  shows "RB_FIND cmp e h = Some (List.find (\<lambda>a. key a = key e) (inord t))
       \<and> RB_NFIND cmp e h = Some (List.find (\<lambda>a. key e \<le> key a) (inord t))
       \<and> RB_MIN h = Some (case inord t of [] \<Rightarrow> None | x # _ \<Rightarrow> Some x)
       \<and> RB_MAX h = Some (if inord t = [] then None else Some (last (inord t)))
       \<and> 2 ^ height t \<le> (Suc (length (inord t)))\<^sup>2"
proof -
  have f: "focus h t []" using assms(2) by (simp add: rb_tree_def)
  then have r: "rep h None t" "rbh_root h = rootp t" by (auto simp: focus_def)
  show ?thesis
    using find_loop_correct[OF assms(1) r(1) assms(3)] nfind_loop_correct[OF assms(1) r(1) assms(3)]
      min_max_correct[OF f] rb_tree_height[OF assms(2)] r(2)
    by (auto simp: RB_FIND_def RB_NFIND_def split: option.splits)
qed

theorem rb_search_correct_witness:
  "cmp_ok int_cmp id \<and> rb_tree rb_one (Nd RB_BLACK Lf 5 Lf)
   \<and> RB_FIND int_cmp 5 rb_one = Some (Some 5) \<and> RB_FIND int_cmp 4 rb_one = Some None
   \<and> RB_NFIND int_cmp 4 rb_one = Some (Some 5) \<and> RB_MAX rb_one = Some (Some 5)"
  using rb_search_correct[OF int_cmp_ok rb_one_tree, of 5] rb_search_correct[OF int_cmp_ok rb_one_tree, of 4]
    int_cmp_ok rb_one_tree by auto

text \<open>C3 Any legal sequence of insertions and removals on an initialised tree runs to its end
  without a crash; \<^verbatim>\<open>RB_FOREACH\<close> then visits the elements that the sorted list of the
  specification holds, in the order of their keys, and \<^verbatim>\<open>RB_FOREACH_REVERSE\<close> visits them
  backwards.\<close>

theorem rb_refines_sorted_list:
  assumes "cmp_ok cmp (key :: addr \<Rightarrow> 'k::linorder)" "ops_ok tree_op_ok (tree_op_spec key) ops []"
  shows "\<exists>h'. run_ops (tree_step (RB_INSERT cmp) rb_del) ops (RB_INIT h) = Some h'
           \<and> RB_FOREACH visit ([], h') = Some (fold (tree_op_spec key) ops [], h')
           \<and> RB_FOREACH_REVERSE visit ([], h') = Some (rev (fold (tree_op_spec key) ops []), h')
           \<and> keys_sorted key (fold (tree_op_spec key) ops [])"
proof -
  from rbs.run_sim[of cmp key "RB_INIT h" "[]" ops] assms rb_init_rel obtain h' where
    h': "run_ops (tree_step (RB_INSERT cmp) rb_del) ops (RB_INIT h) = Some h'" "rb_rel key h' (fold (tree_op_spec key) ops [])"
    by blast
  then obtain t where t: "rb_tree h' t" "inord t = fold (tree_op_spec key) ops []"
      "keys_sorted key (fold (tree_op_spec key) ops [])" by (auto simp: rb_rel_def)
  have "focus h' t []" using t(1) by (simp add: rb_tree_def)
  from foreach_correct[OF this] foreach_reverse_correct[OF this] h'(1) t show ?thesis by simp
qed

theorem rb_refines_sorted_list_witness:
  "cmp_ok int_cmp id
   \<and> ops_ok tree_op_ok (tree_op_spec id) [Tree_insert 2, Tree_insert 3, Tree_insert 1, Tree_remove 2] []
   \<and> (\<exists>h'. run_ops (tree_step (RB_INSERT int_cmp) rb_del) [Tree_insert 2, Tree_insert 3, Tree_insert 1, Tree_remove 2] (RB_INIT rb_one) = Some h'
        \<and> RB_FOREACH visit ([], h') = Some ([1, 3], h'))"
  using rb_refines_sorted_list[OF int_cmp_ok, of "[Tree_insert 2, Tree_insert 3, Tree_insert 1, Tree_remove 2]" rb_one]
    int_cmp_ok by (auto simp del: run_ops.simps)

text \<open>C5 \<^verbatim>\<open>RB_FOREACH_SAFE\<close> survives a body that removes the element it is given: it visits
  every element once, in order, and leaves the tree empty.\<close>

theorem rb_foreach_safe_drains:
  assumes "rb_tree h t"
  shows "\<exists>h'. RB_FOREACH_SAFE rb_remove_body ([], h) = Some (inord t, h') \<and> RB_EMPTY h'"
proof -
  have "focus h t []" using assms by (simp add: rb_tree_def)
  from min_max_correct(1)[OF this] foreach_safe_drain_loop[OF assms, of "[]"] show ?thesis
    by (simp add: RB_FOREACH_SAFE_def)
qed

theorem rb_foreach_safe_drains_witness:
  "rb_tree rb_one (Nd RB_BLACK Lf 5 Lf)
   \<and> (\<exists>h'. RB_FOREACH_SAFE rb_remove_body ([], rb_one) = Some ([5], h') \<and> RB_EMPTY h')"
  using rb_foreach_safe_drains[OF rb_one_tree] rb_one_tree by simp

end
