(* ===== verification/Nty_Splay.thy ===== *)
theory Nty_Splay
  imports Clang_Prelude "HOL-Library.Tree"
begin

text \<open>
  The splay trees of \<^verbatim>\<open>kvstore/NtyCo/core/nty_tree.h\<close>, lines 49-271: what \<^verbatim>\<open>SPLAY_HEAD\<close>,
  \<^verbatim>\<open>SPLAY_ENTRY\<close>, \<^verbatim>\<open>SPLAY_PROTOTYPE\<close> and \<^verbatim>\<open>SPLAY_GENERATE\<close> produce for one tree.  The top-down
  splay collects what it passes in two trees that hang off a local variable \<^verbatim>\<open>__node\<close>; a
  position is therefore either that local node or an element.  \<open>cmp\<close> is the caller's
  comparison function; calling it on a \<open>NULL\<close> root is a crash (\<open>None\<close>).
\<close>

datatype snode = Tmp_node | Elm addr

record splay =
  sph_root :: ptr
  spe_left :: "snode \<Rightarrow> ptr"
  spe_right :: "snode \<Rightarrow> ptr"

definition sp_set_left :: "snode \<Rightarrow> ptr \<Rightarrow> splay \<Rightarrow> splay" where
  "sp_set_left n v h = h\<lparr>spe_left := (spe_left h)(n := v)\<rparr>"

definition sp_set_right :: "snode \<Rightarrow> ptr \<Rightarrow> splay \<Rightarrow> splay" where
  "sp_set_right n v h = h\<lparr>spe_right := (spe_right h)(n := v)\<rparr>"

definition SPLAY_INIT :: "splay \<Rightarrow> splay" where
  "SPLAY_INIT h = h\<lparr>sph_root := None\<rparr>"

definition SPLAY_EMPTY :: "splay \<Rightarrow> bool" where
  "SPLAY_EMPTY h \<longleftrightarrow> sph_root h = None"

definition SPLAY_ROTATE_RIGHT :: "addr \<Rightarrow> splay \<Rightarrow> splay option" where
  "SPLAY_ROTATE_RIGHT tmp h = do {
     root \<leftarrow> sph_root h;
     let h1 = sp_set_left (Elm root) (spe_right h (Elm tmp)) h;
     let h2 = sp_set_right (Elm tmp) (sph_root h1) h1;
     Some (h2\<lparr>sph_root := Some tmp\<rparr>) }"

definition SPLAY_ROTATE_LEFT :: "addr \<Rightarrow> splay \<Rightarrow> splay option" where
  "SPLAY_ROTATE_LEFT tmp h = do {
     root \<leftarrow> sph_root h;
     let h1 = sp_set_right (Elm root) (spe_left h (Elm tmp)) h;
     let h2 = sp_set_left (Elm tmp) (sph_root h1) h1;
     Some (h2\<lparr>sph_root := Some tmp\<rparr>) }"

definition SPLAY_LINKLEFT :: "snode \<Rightarrow> splay \<Rightarrow> (snode \<times> splay) option" where
  "SPLAY_LINKLEFT tmp h = do {
     let h1 = sp_set_left tmp (sph_root h) h;
     root \<leftarrow> sph_root h1;
     Some (Elm root, h1\<lparr>sph_root := spe_left h1 (Elm root)\<rparr>) }"

definition SPLAY_LINKRIGHT :: "snode \<Rightarrow> splay \<Rightarrow> (snode \<times> splay) option" where
  "SPLAY_LINKRIGHT tmp h = do {
     let h1 = sp_set_right tmp (sph_root h) h;
     root \<leftarrow> sph_root h1;
     Some (Elm root, h1\<lparr>sph_root := spe_right h1 (Elm root)\<rparr>) }"

definition SPLAY_ASSEMBLE :: "snode \<Rightarrow> snode \<Rightarrow> splay \<Rightarrow> splay option" where
  "SPLAY_ASSEMBLE lft rgt h = do {
     root \<leftarrow> sph_root h;
     let h1 = sp_set_right lft (spe_left h (Elm root)) h;
     let h2 = sp_set_left rgt (spe_right h1 (Elm root)) h1;
     let h3 = sp_set_left (Elm root) (spe_right h2 Tmp_node) h2;
     Some (sp_set_right (Elm root) (spe_left h3 Tmp_node) h3) }"

text \<open>One iteration of the splay loop going left (right): \<open>Inl\<close> is \<^verbatim>\<open>break\<close>, \<open>Inr\<close> carries the
  new \<open>__right\<close> (\<open>__left\<close>).  \<open>g\<close> is the comparison with the searched element in \<^verbatim>\<open>SPLAY\<close> and the
  constant \<open>__comp\<close> in \<^verbatim>\<open>SPLAY_MINMAX\<close>.\<close>

definition splay_go_left :: "(addr \<Rightarrow> int) \<Rightarrow> snode \<Rightarrow> splay \<Rightarrow> (splay + snode \<times> splay) option" where
  "splay_go_left g rgt h = do {
     root \<leftarrow> sph_root h;
     (case spe_left h (Elm root) of
        None \<Rightarrow> Some (Inl h)
      | Some tmp \<Rightarrow>
          if g tmp < 0 then do {
            h1 \<leftarrow> SPLAY_ROTATE_RIGHT tmp h;
            root1 \<leftarrow> sph_root h1;
            if spe_left h1 (Elm root1) = None then Some (Inl h1)
            else do { r \<leftarrow> SPLAY_LINKLEFT rgt h1; Some (Inr r) } }
          else do { r \<leftarrow> SPLAY_LINKLEFT rgt h; Some (Inr r) }) }"

definition splay_go_right :: "(addr \<Rightarrow> int) \<Rightarrow> snode \<Rightarrow> splay \<Rightarrow> (splay + snode \<times> splay) option" where
  "splay_go_right g lft h = do {
     root \<leftarrow> sph_root h;
     (case spe_right h (Elm root) of
        None \<Rightarrow> Some (Inl h)
      | Some tmp \<Rightarrow>
          if g tmp > 0 then do {
            h1 \<leftarrow> SPLAY_ROTATE_LEFT tmp h;
            root1 \<leftarrow> sph_root h1;
            if spe_right h1 (Elm root1) = None then Some (Inl h1)
            else do { l \<leftarrow> SPLAY_LINKRIGHT lft h1; Some (Inr l) } }
          else do { l \<leftarrow> SPLAY_LINKRIGHT lft h; Some (Inr l) }) }"

partial_function (option) splay_loop ::
  "(addr \<Rightarrow> addr \<Rightarrow> int) \<Rightarrow> addr \<Rightarrow> snode \<Rightarrow> snode \<Rightarrow> splay \<Rightarrow> (snode \<times> snode \<times> splay) option" where
  "splay_loop cmp elm lft rgt h = do {
     root \<leftarrow> sph_root h;
     if cmp elm root = 0 then Some (lft, rgt, h)
     else if cmp elm root < 0 then do {
       res \<leftarrow> splay_go_left (cmp elm) rgt h;
       (case res of Inl h' \<Rightarrow> Some (lft, rgt, h')
                  | Inr (rgt', h') \<Rightarrow> splay_loop cmp elm lft rgt' h') }
     else do {
       res \<leftarrow> splay_go_right (cmp elm) lft h;
       (case res of Inl h' \<Rightarrow> Some (lft, rgt, h')
                  | Inr (lft', h') \<Rightarrow> splay_loop cmp elm lft' rgt h') } }"

definition splay_begin :: "splay \<Rightarrow> splay" where
  "splay_begin h = sp_set_left Tmp_node None (sp_set_right Tmp_node None h)"

definition SPLAY :: "(addr \<Rightarrow> addr \<Rightarrow> int) \<Rightarrow> addr \<Rightarrow> splay \<Rightarrow> splay option" where
  "SPLAY cmp elm h = do {
     (lft, rgt, h') \<leftarrow> splay_loop cmp elm Tmp_node Tmp_node (splay_begin h);
     SPLAY_ASSEMBLE lft rgt h' }"

partial_function (option) splay_minmax_loop ::
  "int \<Rightarrow> snode \<Rightarrow> snode \<Rightarrow> splay \<Rightarrow> (snode \<times> snode \<times> splay) option" where
  "splay_minmax_loop c lft rgt h =
     (if c < 0 then do {
        res \<leftarrow> splay_go_left (\<lambda>_. c) rgt h;
        (case res of Inl h' \<Rightarrow> Some (lft, rgt, h')
                   | Inr (rgt', h') \<Rightarrow> splay_minmax_loop c lft rgt' h') }
      else if c > 0 then do {
        res \<leftarrow> splay_go_right (\<lambda>_. c) lft h;
        (case res of Inl h' \<Rightarrow> Some (lft, rgt, h')
                   | Inr (lft', h') \<Rightarrow> splay_minmax_loop c lft' rgt h') }
      else splay_minmax_loop c lft rgt h)"

definition SPLAY_MINMAX :: "int \<Rightarrow> splay \<Rightarrow> splay option" where
  "SPLAY_MINMAX c h = do {
     (lft, rgt, h') \<leftarrow> splay_minmax_loop c Tmp_node Tmp_node (splay_begin h);
     SPLAY_ASSEMBLE lft rgt h' }"

definition SPLAY_INSERT :: "(addr \<Rightarrow> addr \<Rightarrow> int) \<Rightarrow> addr \<Rightarrow> splay \<Rightarrow> (ptr \<times> splay) option" where
  "SPLAY_INSERT cmp elm h =
     (if SPLAY_EMPTY h then
        (let h1 = sp_set_left (Elm elm) None (sp_set_right (Elm elm) None h)
         in Some (None, h1\<lparr>sph_root := Some elm\<rparr>))
      else do {
        h \<leftarrow> SPLAY cmp elm h;
        root \<leftarrow> sph_root h;
        let c = cmp elm root;
        if c < 0 then
          (let h1 = sp_set_left (Elm elm) (spe_left h (Elm root)) h;
               h2 = sp_set_right (Elm elm) (sph_root h1) h1;
               h3 = sp_set_left (Elm root) None h2
           in Some (None, h3\<lparr>sph_root := Some elm\<rparr>))
        else if c > 0 then
          (let h1 = sp_set_right (Elm elm) (spe_right h (Elm root)) h;
               h2 = sp_set_left (Elm elm) (sph_root h1) h1;
               h3 = sp_set_right (Elm root) None h2
           in Some (None, h3\<lparr>sph_root := Some elm\<rparr>))
        else Some (sph_root h, h) })"

definition SPLAY_REMOVE :: "(addr \<Rightarrow> addr \<Rightarrow> int) \<Rightarrow> addr \<Rightarrow> splay \<Rightarrow> (ptr \<times> splay) option" where
  "SPLAY_REMOVE cmp elm h =
     (if SPLAY_EMPTY h then Some (None, h)
      else do {
        h \<leftarrow> SPLAY cmp elm h;
        root \<leftarrow> sph_root h;
        if cmp elm root = 0 then
          (if spe_left h (Elm root) = None
           then Some (Some elm, h\<lparr>sph_root := spe_right h (Elm root)\<rparr>)
           else do {
             let tmp = spe_right h (Elm root);
             h1 \<leftarrow> SPLAY cmp elm (h\<lparr>sph_root := spe_left h (Elm root)\<rparr>);
             root1 \<leftarrow> sph_root h1;
             Some (Some elm, sp_set_right (Elm root1) tmp h1) })
        else Some (None, h) })"

definition SPLAY_FIND :: "(addr \<Rightarrow> addr \<Rightarrow> int) \<Rightarrow> addr \<Rightarrow> splay \<Rightarrow> (ptr \<times> splay) option" where
  "SPLAY_FIND cmp elm h =
     (if SPLAY_EMPTY h then Some (None, h)
      else do {
        h \<leftarrow> SPLAY cmp elm h;
        root \<leftarrow> sph_root h;
        Some (if cmp elm root = 0 then sph_root h else None, h) })"

partial_function (option) splay_leftmost :: "addr \<Rightarrow> splay \<Rightarrow> addr option" where
  "splay_leftmost elm h =
     (case spe_left h (Elm elm) of None \<Rightarrow> Some elm | Some l \<Rightarrow> splay_leftmost l h)"

definition SPLAY_NEXT :: "(addr \<Rightarrow> addr \<Rightarrow> int) \<Rightarrow> addr \<Rightarrow> splay \<Rightarrow> (ptr \<times> splay) option" where
  "SPLAY_NEXT cmp elm h = do {
     h \<leftarrow> SPLAY cmp elm h;
     (case spe_right h (Elm elm) of
        Some r \<Rightarrow> do { e \<leftarrow> splay_leftmost r h; Some (Some e, h) }
      | None \<Rightarrow> Some (None, h)) }"

definition SPLAY_MIN_MAX :: "int \<Rightarrow> splay \<Rightarrow> (ptr \<times> splay) option" where
  "SPLAY_MIN_MAX val h = do { h \<leftarrow> SPLAY_MINMAX val h; Some (sph_root h, h) }"

definition SPLAY_NEGINF :: int where "SPLAY_NEGINF = - 1"
definition SPLAY_INF :: int where "SPLAY_INF = 1"

definition SPLAY_MIN :: "splay \<Rightarrow> (ptr \<times> splay) option" where
  "SPLAY_MIN h = (if SPLAY_EMPTY h then Some (None, h) else SPLAY_MIN_MAX SPLAY_NEGINF h)"

definition SPLAY_MAX :: "splay \<Rightarrow> (ptr \<times> splay) option" where
  "SPLAY_MAX h = (if SPLAY_EMPTY h then Some (None, h) else SPLAY_MIN_MAX SPLAY_INF h)"

partial_function (option) splay_foreach_loop ::
  "(addr \<Rightarrow> addr \<Rightarrow> int) \<Rightarrow> (addr \<Rightarrow> 'b \<times> splay \<Rightarrow> ('b \<times> splay) option) \<Rightarrow> ptr \<Rightarrow> 'b \<times> splay
     \<Rightarrow> ('b \<times> splay) option" where
  "splay_foreach_loop cmp body x st =
     (case x of
        None \<Rightarrow> Some st
      | Some e \<Rightarrow> do {
          (b, h) \<leftarrow> body e st;
          (y, h') \<leftarrow> SPLAY_NEXT cmp e h;
          splay_foreach_loop cmp body y (b, h') })"

definition SPLAY_FOREACH ::
  "(addr \<Rightarrow> addr \<Rightarrow> int) \<Rightarrow> (addr \<Rightarrow> 'b \<times> splay \<Rightarrow> ('b \<times> splay) option) \<Rightarrow> 'b \<times> splay
     \<Rightarrow> ('b \<times> splay) option" where
  "SPLAY_FOREACH cmp body st = do {
     (x, h) \<leftarrow> SPLAY_MIN (snd st);
     splay_foreach_loop cmp body x (fst st, h) }"

declare splay_loop.simps [code] splay_minmax_loop.simps [code] splay_leftmost.simps [code]
  splay_foreach_loop.simps [code]

subsection \<open>Shape\<close>

fun rootq :: "addr tree \<Rightarrow> ptr" where
  "rootq Leaf = None"
| "rootq (Node l a r) = Some a"

fun srep :: "splay \<Rightarrow> addr tree \<Rightarrow> bool" where
  "srep h Leaf \<longleftrightarrow> True"
| "srep h (Node l a r) \<longleftrightarrow>
     spe_left h (Elm a) = rootq l \<and> spe_right h (Elm a) = rootq r \<and> srep h l \<and> srep h r"

definition splay_tree :: "splay \<Rightarrow> addr tree \<Rightarrow> bool" where
  "splay_tree h t \<longleftrightarrow> sph_root h = rootq t \<and> srep h t \<and> distinct (inorder t)"

text \<open>The tree of smaller elements as the list of nodes on its right spine, the tree of larger
  elements as the list of nodes on its left spine; the last node's open pointer is the one
  that \<^verbatim>\<open>__left\<close> (\<^verbatim>\<open>__right\<close>) will fill.\<close>

fun lchain :: "splay \<Rightarrow> snode \<Rightarrow> (addr tree \<times> addr) list \<Rightarrow> snode \<Rightarrow> bool" where
  "lchain h n [] e \<longleftrightarrow> n = e"
| "lchain h n ((l, a) # ls) e \<longleftrightarrow>
     spe_right h n = Some a \<and> spe_left h (Elm a) = rootq l \<and> srep h l \<and> lchain h (Elm a) ls e"

fun rchain :: "splay \<Rightarrow> snode \<Rightarrow> (addr \<times> addr tree) list \<Rightarrow> snode \<Rightarrow> bool" where
  "rchain h n [] e \<longleftrightarrow> n = e"
| "rchain h n ((a, r) # rs) e \<longleftrightarrow>
     spe_left h n = Some a \<and> spe_right h (Elm a) = rootq r \<and> srep h r \<and> rchain h (Elm a) rs e"

fun linord :: "(addr tree \<times> addr) list \<Rightarrow> addr list" where
  "linord [] = []"
| "linord ((l, a) # ls) = inorder l @ a # linord ls"

fun rinord :: "(addr \<times> addr tree) list \<Rightarrow> addr list" where
  "rinord [] = []"
| "rinord ((a, r) # rs) = rinord rs @ a # inorder r"

fun ltree :: "(addr tree \<times> addr) list \<Rightarrow> addr tree \<Rightarrow> addr tree" where
  "ltree [] t = t"
| "ltree ((l, a) # ls) t = Node l a (ltree ls t)"

fun rtree :: "(addr \<times> addr tree) list \<Rightarrow> addr tree \<Rightarrow> addr tree" where
  "rtree [] t = t"
| "rtree ((a, r) # rs) t = Node (rtree rs t) a r"

definition splay_inv :: "splay \<Rightarrow> (addr tree \<times> addr) list \<Rightarrow> addr tree \<Rightarrow> (addr \<times> addr tree) list
    \<Rightarrow> snode \<Rightarrow> snode \<Rightarrow> bool" where
  "splay_inv h ls t rs lft rgt \<longleftrightarrow>
     lchain h Tmp_node ls lft \<and> rchain h Tmp_node rs rgt \<and> srep h t \<and> sph_root h = rootq t
     \<and> (ls = [] \<longrightarrow> spe_right h Tmp_node = None) \<and> (rs = [] \<longrightarrow> spe_left h Tmp_node = None)
     \<and> distinct (linord ls @ inorder t @ rinord rs)"

lemma inorder_ltree: "inorder (ltree ls t) = linord ls @ inorder t"
  by (induction ls rule: linord.induct) auto

lemma inorder_rtree: "inorder (rtree rs t) = inorder t @ rinord rs"
  by (induction rs rule: rinord.induct) auto

lemma linord_append [simp]: "linord (xs @ ys) = linord xs @ linord ys"
  by (induction xs rule: linord.induct) auto

lemma rinord_append [simp]: "rinord (xs @ ys) = rinord ys @ rinord xs"
  by (induction xs rule: rinord.induct) auto

lemma lchain_append: "lchain h n (xs @ ys) e \<longleftrightarrow> (\<exists>m. lchain h n xs m \<and> lchain h m ys e)"
  by (induction xs arbitrary: n rule: linord.induct) auto

lemma rchain_append: "rchain h n (xs @ ys) e \<longleftrightarrow> (\<exists>m. rchain h n xs m \<and> rchain h m ys e)"
  by (induction xs arbitrary: n rule: rinord.induct) auto

lemma rootq_None [simp]: "rootq t = None \<longleftrightarrow> t = Leaf"
  by (cases t) auto

lemma rootq_in: "rootq t = Some a \<Longrightarrow> a \<in> set (inorder t)"
  by (cases t) auto

subsection \<open>Updates\<close>

lemma sp_set_fields [simp]:
  "sph_root (sp_set_left n v h) = sph_root h" "sph_root (sp_set_right n v h) = sph_root h"
  "spe_left (sp_set_left n v h) = (spe_left h)(n := v)" "spe_left (sp_set_right n v h) = spe_left h"
  "spe_right (sp_set_left n v h) = spe_right h" "spe_right (sp_set_right n v h) = (spe_right h)(n := v)"
  by (simp_all add: sp_set_left_def sp_set_right_def)

declare set_inorder [simp del] image_Un [simp]

lemma Elm_image [simp]: "Elm a \<in> Elm ` A \<longleftrightarrow> a \<in> A" "Tmp_node \<notin> Elm ` A"
  by auto

lemma srep_set [simp]:
  "n \<notin> Elm ` set (inorder t) \<Longrightarrow> srep (sp_set_left n v h) t = srep h t"
  "n \<notin> Elm ` set (inorder t) \<Longrightarrow> srep (sp_set_right n v h) t = srep h t"
  "srep (h\<lparr>sph_root := p\<rparr>) t = srep h t"
  by (induction t) auto

lemma lchain_set [simp]:
  "n \<notin> Elm ` set (linord ls) \<Longrightarrow> lchain (sp_set_left n v h) m ls e = lchain h m ls e"
  "n \<notin> Elm ` set (linord ls) \<Longrightarrow> n \<noteq> m \<Longrightarrow> lchain (sp_set_right n v h) m ls e = lchain h m ls e"
  "lchain (h\<lparr>sph_root := p\<rparr>) m ls e = lchain h m ls e"
  by (induction ls arbitrary: m rule: linord.induct) auto

lemma rchain_set [simp]:
  "n \<notin> Elm ` set (rinord rs) \<Longrightarrow> rchain (sp_set_right n v h) m rs e = rchain h m rs e"
  "n \<notin> Elm ` set (rinord rs) \<Longrightarrow> n \<noteq> m \<Longrightarrow> rchain (sp_set_left n v h) m rs e = rchain h m rs e"
  "rchain (h\<lparr>sph_root := p\<rparr>) m rs e = rchain h m rs e"
  by (induction rs arbitrary: m rule: rinord.induct) auto

lemma lchain_end: "lchain h n ls e \<Longrightarrow> e = (if ls = [] then n else Elm (snd (last ls)))"
  by (induction ls arbitrary: n rule: linord.induct) auto

lemma rchain_end: "rchain h n rs e \<Longrightarrow> e = (if rs = [] then n else Elm (fst (last rs)))"
  by (induction rs arbitrary: n rule: rinord.induct) auto

lemma snd_last_linord: "ls \<noteq> [] \<Longrightarrow> snd (last ls) \<in> set (linord ls)"
  by (induction ls rule: linord.induct) auto

lemma fst_last_rinord: "rs \<noteq> [] \<Longrightarrow> fst (last rs) \<in> set (rinord rs)"
  by (induction rs rule: rinord.induct) auto

text \<open>Filling the open pointer at the end of a chain closes it into a tree.\<close>

lemma lchain_close:
  assumes "lchain h n ls e" "distinct (linord ls)" "n \<notin> Elm ` set (linord ls)"
    "srep h t" "set (linord ls) \<inter> set (inorder t) = {}" "n \<notin> Elm ` set (inorder t)"
  shows "spe_right (sp_set_right e (rootq t) h) n = rootq (ltree ls t)
       \<and> srep (sp_set_right e (rootq t) h) (ltree ls t)"
  using assms
proof (induction ls arbitrary: n rule: linord.induct)
  case (2 l a ls)
  then have IH: "spe_right (sp_set_right e (rootq t) h) (Elm a) = rootq (ltree ls t)
      \<and> srep (sp_set_right e (rootq t) h) (ltree ls t)" by (intro 2(1)) auto
  have e: "e = (if ls = [] then Elm a else Elm (snd (last ls)))"
    using 2(2) by (auto dest: lchain_end)
  with 2 have "e \<noteq> n" "e \<notin> Elm ` set (inorder l)"
    using snd_last_linord[of ls] by (auto split: if_splits)
  with 2 IH show ?case by auto
qed auto

lemma rchain_close:
  assumes "rchain h n rs e" "distinct (rinord rs)" "n \<notin> Elm ` set (rinord rs)"
    "srep h t" "set (rinord rs) \<inter> set (inorder t) = {}" "n \<notin> Elm ` set (inorder t)"
  shows "spe_left (sp_set_left e (rootq t) h) n = rootq (rtree rs t)
       \<and> srep (sp_set_left e (rootq t) h) (rtree rs t)"
  using assms
proof (induction rs arbitrary: n rule: rinord.induct)
  case (2 a r rs)
  then have IH: "spe_left (sp_set_left e (rootq t) h) (Elm a) = rootq (rtree rs t)
      \<and> srep (sp_set_left e (rootq t) h) (rtree rs t)" by (intro 2(1)) auto
  have e: "e = (if rs = [] then Elm a else Elm (fst (last rs)))"
    using 2(2) by (auto dest: rchain_end)
  with 2 have "e \<noteq> n" "e \<notin> Elm ` set (inorder r)"
    using fst_last_rinord[of rs] by (auto split: if_splits)
  with 2 IH show ?case by auto
qed auto

lemma lchain_upd_end:
  assumes "lchain h n ls e" "distinct (linord ls)" "n \<notin> Elm ` set (linord ls)"
  shows "lchain (sp_set_right e v h) n ls e"
  using assms
proof (induction ls arbitrary: n rule: linord.induct)
  case (2 l a ls)
  then have "lchain (sp_set_right e v h) (Elm a) ls e" by (intro 2(1)) auto
  moreover have "e = (if ls = [] then Elm a else Elm (snd (last ls)))"
    using 2(2) by (auto dest: lchain_end)
  with 2 have "e \<noteq> n" "e \<notin> Elm ` set (inorder l)"
    using snd_last_linord[of ls] by (auto split: if_splits)
  ultimately show ?case using 2 by auto
qed auto

lemma rchain_upd_end:
  assumes "rchain h n rs e" "distinct (rinord rs)" "n \<notin> Elm ` set (rinord rs)"
  shows "rchain (sp_set_left e v h) n rs e"
  using assms
proof (induction rs arbitrary: n rule: rinord.induct)
  case (2 a r rs)
  then have "rchain (sp_set_left e v h) (Elm a) rs e" by (intro 2(1)) auto
  moreover have "e = (if rs = [] then Elm a else Elm (fst (last rs)))"
    using 2(2) by (auto dest: rchain_end)
  with 2 have "e \<noteq> n" "e \<notin> Elm ` set (inorder r)"
    using fst_last_rinord[of rs] by (auto split: if_splits)
  ultimately show ?case using 2 by auto
qed auto

text \<open>Where \<^verbatim>\<open>__left\<close> and \<^verbatim>\<open>__right\<close> point.\<close>

lemma splay_inv_ends:
  assumes "splay_inv h ls t rs L R"
  shows "L \<notin> Elm ` set (inorder t)" "L \<notin> Elm ` set (rinord rs)"
    "R \<notin> Elm ` set (inorder t)" "R \<notin> Elm ` set (linord ls)"
proof -
  have L: "L = (if ls = [] then Tmp_node else Elm (snd (last ls)))"
    and R: "R = (if rs = [] then Tmp_node else Elm (fst (last rs)))"
    using assms by (auto simp: splay_inv_def dest: lchain_end rchain_end)
  have d: "set (linord ls) \<inter> set (inorder t) = {}" "set (linord ls) \<inter> set (rinord rs) = {}"
    "set (inorder t) \<inter> set (rinord rs) = {}" using assms by (auto simp: splay_inv_def)
  show "L \<notin> Elm ` set (inorder t)" "L \<notin> Elm ` set (rinord rs)"
    using L d snd_last_linord[of ls] by auto
  show "R \<notin> Elm ` set (inorder t)" "R \<notin> Elm ` set (linord ls)"
    using R d fst_last_rinord[of rs] by auto
qed

text \<open>Elements outside a set keep their entries.\<close>

definition same_outside :: "addr set \<Rightarrow> splay \<Rightarrow> splay \<Rightarrow> bool" where
  "same_outside A h h' \<longleftrightarrow> (\<forall>a. a \<notin> A \<longrightarrow>
     spe_left h' (Elm a) = spe_left h (Elm a) \<and> spe_right h' (Elm a) = spe_right h (Elm a))"

lemma same_outside_trans:
  "same_outside A h h' \<Longrightarrow> same_outside B h' h'' \<Longrightarrow> B \<subseteq> A \<Longrightarrow> same_outside A h h''"
  by (auto simp: same_outside_def)

lemma same_outside_refl [simp]: "same_outside A h h"
  by (simp add: same_outside_def)

lemma srep_same_outside:
  "same_outside A h h' \<Longrightarrow> srep h t \<Longrightarrow> set (inorder t) \<inter> A = {} \<Longrightarrow> srep h' t"
  by (induction t) (auto simp: same_outside_def)

lemma splay_inv_ends_in:
  assumes "splay_inv h ls t rs L R"
  shows "L = Elm a \<Longrightarrow> a \<in> set (linord ls)" "R = Elm b \<Longrightarrow> b \<in> set (rinord rs)"
  using assms snd_last_linord[of ls] fst_last_rinord[of rs]
  by (auto simp: splay_inv_def dest!: lchain_end rchain_end split: if_splits)

lemma splay_rotate_right_inv:
  assumes "splay_inv h ls (Node (Node a x b) y c) rs L R"
  shows "\<exists>h'. SPLAY_ROTATE_RIGHT x h = Some h' \<and> splay_inv h' ls (Node a x (Node b y c)) rs L R
           \<and> same_outside {x, y} h h'"
  using assms by (auto simp: SPLAY_ROTATE_RIGHT_def splay_inv_def Let_def same_outside_def)

lemma splay_rotate_left_inv:
  assumes "splay_inv h ls (Node a y (Node b x c)) rs L R"
  shows "\<exists>h'. SPLAY_ROTATE_LEFT x h = Some h' \<and> splay_inv h' ls (Node (Node a y b) x c) rs L R
           \<and> same_outside {x, y} h h'"
  using assms by (auto simp: SPLAY_ROTATE_LEFT_def splay_inv_def Let_def same_outside_def)

lemma splay_linkleft_inv:
  assumes i: "splay_inv h ls (Node l a r) rs L R"
  shows "\<exists>h'. SPLAY_LINKLEFT R h = Some (Elm a, h') \<and> splay_inv h' ls l (rs @ [(a, r)]) L (Elm a)
           \<and> same_outside (set (rinord rs)) h h'"
proof -
  note e = splay_inv_ends[OF i]
  from i have "rchain (sp_set_left R (Some a) h) Tmp_node rs R"
    by (intro rchain_upd_end) (auto simp: splay_inv_def)
  moreover have "same_outside (set (rinord rs)) h ((sp_set_left R (Some a) h)\<lparr>sph_root := p\<rparr>)" for p
    using splay_inv_ends_in[OF i] by (auto simp: same_outside_def)
  ultimately show ?thesis using i e
    by (auto simp: SPLAY_LINKLEFT_def splay_inv_def Let_def rchain_append)
qed

lemma splay_linkright_inv:
  assumes i: "splay_inv h ls (Node l a r) rs L R"
  shows "\<exists>h'. SPLAY_LINKRIGHT L h = Some (Elm a, h') \<and> splay_inv h' (ls @ [(l, a)]) r rs (Elm a) R
           \<and> same_outside (set (linord ls)) h h'"
proof -
  note e = splay_inv_ends[OF i]
  from i have "lchain (sp_set_right L (Some a) h) Tmp_node ls L"
    by (intro lchain_upd_end) (auto simp: splay_inv_def)
  moreover have "same_outside (set (linord ls)) h ((sp_set_right L (Some a) h)\<lparr>sph_root := p\<rparr>)" for p
    using splay_inv_ends_in[OF i] by (auto simp: same_outside_def)
  ultimately show ?thesis using i e
    by (auto simp: SPLAY_LINKRIGHT_def splay_inv_def Let_def lchain_append)
qed

lemma splay_assemble_tree:
  assumes i: "splay_inv h ls (Node l x r) rs L R"
  shows "\<exists>h'. SPLAY_ASSEMBLE L R h = Some h' \<and> splay_tree h' (Node (ltree ls l) x (rtree rs r))
           \<and> same_outside (set (linord ls @ inorder (Node l x r) @ rinord rs)) h h'"
proof -
  note e = splay_inv_ends[OF i]
  let ?h1 = "sp_set_right L (rootq l) h"
  let ?h2 = "sp_set_left R (rootq r) ?h1"
  from i have 1: "spe_right ?h1 Tmp_node = rootq (ltree ls l) \<and> srep ?h1 (ltree ls l)"
    by (intro lchain_close) (auto simp: splay_inv_def)
  from i e have 2: "spe_left ?h2 Tmp_node = rootq (rtree rs r) \<and> srep ?h2 (rtree rs r)"
    by (intro rchain_close) (auto simp: splay_inv_def)
  have d: "distinct (inorder (Node (ltree ls l) x (rtree rs r)))"
    using i by (auto simp: splay_inv_def inorder_ltree inorder_rtree)
  have "srep ?h2 (ltree ls l)" using 1 e by (simp add: inorder_ltree)
  moreover have "same_outside (set (linord ls @ inorder (Node l x r) @ rinord rs)) h
      (sp_set_right (Elm x) p (sp_set_left (Elm x) q ?h2))" for p q
    using splay_inv_ends_in[OF i] by (auto simp: same_outside_def)
  ultimately show ?thesis using 1 2 d i e
    by (auto simp: SPLAY_ASSEMBLE_def splay_tree_def splay_inv_def Let_def)
qed

subsection \<open>The splay loop\<close>

text \<open>\<open>cuts g xs\<close>: the sign of \<open>g\<close> cuts \<open>xs\<close> into elements with positive, at most one with zero,
  and elements with negative value, in this order.  The comparison with any element cuts a
  sorted list, and so does a constant.\<close>

definition cuts :: "(addr \<Rightarrow> int) \<Rightarrow> addr list \<Rightarrow> bool" where
  "cuts g xs \<longleftrightarrow> sorted_wrt (\<lambda>a b. g a \<le> 0 \<longrightarrow> g b < 0) xs"

lemma cut_after: "cuts g (us @ a # vs) \<Longrightarrow> g a \<le> 0 \<Longrightarrow> b \<in> set vs \<Longrightarrow> g b < 0"
  by (auto simp: cuts_def sorted_wrt_append)

lemma cut_before: "cuts g (us @ a # vs) \<Longrightarrow> 0 \<le> g a \<Longrightarrow> b \<in> set us \<Longrightarrow> 0 < g b"
  by (force simp: cuts_def sorted_wrt_append)

definition splay_state ::
  "splay \<Rightarrow> (addr \<Rightarrow> int) \<Rightarrow> addr list \<Rightarrow> splay \<Rightarrow> addr tree \<Rightarrow> snode \<Rightarrow> snode \<Rightarrow> bool" where
  "splay_state h0 g xs h t L R \<longleftrightarrow> same_outside (set xs) h0 h \<and> (\<exists>ls rs. splay_inv h ls t rs L R \<and> t \<noteq> Leaf
     \<and> linord ls @ inorder t @ rinord rs = xs \<and> (\<forall>a\<in>set (linord ls). 0 < g a) \<and> (\<forall>a\<in>set (rinord rs). g a < 0))"

definition splay_stop :: "splay \<Rightarrow> (addr \<Rightarrow> int) \<Rightarrow> addr list \<Rightarrow> splay \<Rightarrow> snode \<Rightarrow> snode \<Rightarrow> bool" where
  "splay_stop h0 g xs h L R \<longleftrightarrow> (\<exists>l x r. splay_state h0 g xs h (Node l x r) L R
     \<and> (\<forall>a\<in>set (inorder l). 0 < g a) \<and> (\<forall>a\<in>set (inorder r). g a < 0))"

lemma splay_go_left_step:
  assumes s: "splay_state h0 g xs h (Node l y r) L R" and c: "cuts g xs" and y: "g y < 0"
  shows "(\<exists>h'. splay_go_left g R h = Some (Inl h') \<and> splay_stop h0 g xs h' L R)
    \<or> (\<exists>R' h' t'. splay_go_left g R h = Some (Inr (R', h')) \<and> splay_state h0 g xs h' t' L R'
          \<and> size t' < size (Node l y r))"
proof -
  from s obtain ls rs where i: "splay_inv h ls (Node l y r) rs L R"
    and xs: "linord ls @ inorder (Node l y r) @ rinord rs = xs"
    and p: "\<forall>a\<in>set (linord ls). 0 < g a" and n: "\<forall>a\<in>set (rinord rs). g a < 0"
    and o: "same_outside (set xs) h0 h"
    by (auto simp: splay_state_def)
  have nr: "\<forall>a\<in>set (inorder r). g a < 0"
    using c y cut_after[of g "linord ls @ inorder l" y "inorder r @ rinord rs"] xs by auto
  have root: "sph_root h = Some y" "spe_left h (Elm y) = rootq l" using i by (auto simp: splay_inv_def)
  show ?thesis
  proof (cases l)
    case Leaf
    with s nr have "splay_stop h0 g xs h L R" by (force simp: splay_stop_def)
    with Leaf root show ?thesis by (simp add: splay_go_left_def)
  next
    case (Node ll x lr)
    show ?thesis
    proof (cases "g x < 0")
      case True
      obtain h1 where r1: "SPLAY_ROTATE_RIGHT x h = Some h1"
        and i1: "splay_inv h1 ls (Node ll x (Node lr y r)) rs L R"
          and so: "same_outside {x, y} h h1"
        using splay_rotate_right_inv[OF i[unfolded Node]] by blast
      have o1: "same_outside (set xs) h0 h1"
        by (rule same_outside_trans[OF o so]) (use xs Node in auto)
      have nl: "\<forall>a\<in>set (inorder lr). g a < 0"
        using c True cut_after[of g "linord ls @ inorder ll" x "inorder lr @ y # inorder r @ rinord rs"] xs Node
        by auto
      have root1: "sph_root h1 = Some x" "spe_left h1 (Elm x) = rootq ll" using i1 by (auto simp: splay_inv_def)
      show ?thesis
      proof (cases "ll = Leaf")
        case leaf: True
        with i1 o1 xs Node p n nl nr y have "splay_stop h0 g xs h1 L R"
          unfolding splay_stop_def splay_state_def
          by (intro exI[of _ Leaf] exI[of _ x] exI[of _ "Node lr y r"] conjI exI[of _ ls] exI[of _ rs]) auto
        with True Node root root1 leaf r1 show ?thesis by (simp add: splay_go_left_def)
      next
        case False
        obtain h2 where lk: "SPLAY_LINKLEFT R h1 = Some (Elm x, h2)"
          and i2: "splay_inv h2 ls ll (rs @ [(x, Node lr y r)]) L (Elm x)"
            and so2: "same_outside (set (rinord rs)) h1 h2"
          using splay_linkleft_inv[OF i1] by blast
        have o2: "same_outside (set xs) h0 h2"
          by (rule same_outside_trans[OF o1 so2]) (use xs in auto)
        have "splay_state h0 g xs h2 ll L (Elm x)"
          unfolding splay_state_def using o2 i2 False xs Node p n nl nr y True
          by (intro conjI exI[of _ ls] exI[of _ "rs @ [(x, Node lr y r)]"]) auto
        with lk show ?thesis using True Node root root1 False r1 by (auto simp: splay_go_left_def)
      qed
    next
      case False
      obtain h2 where lk: "SPLAY_LINKLEFT R h = Some (Elm y, h2)"
        and i2: "splay_inv h2 ls l (rs @ [(y, r)]) L (Elm y)"
          and so2: "same_outside (set (rinord rs)) h h2"
        using splay_linkleft_inv[OF i] by blast
      have o2: "same_outside (set xs) h0 h2"
        by (rule same_outside_trans[OF o so2]) (use xs in auto)
      have "splay_state h0 g xs h2 l L (Elm y)"
        unfolding splay_state_def using o2 i2 xs Node p n nr y
        by (intro conjI exI[of _ ls] exI[of _ "rs @ [(y, r)]"]) auto
      with lk show ?thesis using False Node root by (auto simp: splay_go_left_def)
    qed
  qed
qed

lemma splay_go_right_step:
  assumes s: "splay_state h0 g xs h (Node l y r) L R" and c: "cuts g xs" and y: "0 < g y"
  shows "(\<exists>h'. splay_go_right g L h = Some (Inl h') \<and> splay_stop h0 g xs h' L R)
    \<or> (\<exists>L' h' t'. splay_go_right g L h = Some (Inr (L', h')) \<and> splay_state h0 g xs h' t' L' R
          \<and> size t' < size (Node l y r))"
proof -
  from s obtain ls rs where i: "splay_inv h ls (Node l y r) rs L R"
    and xs: "linord ls @ inorder (Node l y r) @ rinord rs = xs"
    and p: "\<forall>a\<in>set (linord ls). 0 < g a" and n: "\<forall>a\<in>set (rinord rs). g a < 0"
    and o: "same_outside (set xs) h0 h"
    by (auto simp: splay_state_def)
  have pl: "\<forall>a\<in>set (inorder l). 0 < g a"
    using c y cut_before[of g "linord ls @ inorder l" y "inorder r @ rinord rs"] xs by auto
  have root: "sph_root h = Some y" "spe_right h (Elm y) = rootq r" using i by (auto simp: splay_inv_def)
  show ?thesis
  proof (cases r)
    case Leaf
    with s pl have "splay_stop h0 g xs h L R" by (force simp: splay_stop_def)
    with Leaf root show ?thesis by (simp add: splay_go_right_def)
  next
    case (Node rl x rr)
    show ?thesis
    proof (cases "0 < g x")
      case True
      obtain h1 where r1: "SPLAY_ROTATE_LEFT x h = Some h1"
        and i1: "splay_inv h1 ls (Node (Node l y rl) x rr) rs L R"
          and so: "same_outside {x, y} h h1"
        using splay_rotate_left_inv[OF i[unfolded Node]] by blast
      have o1: "same_outside (set xs) h0 h1"
        by (rule same_outside_trans[OF o so]) (use xs Node in auto)
      have pr: "\<forall>a\<in>set (inorder rl). 0 < g a"
        using c True cut_before[of g "linord ls @ inorder l @ y # inorder rl" x "inorder rr @ rinord rs"] xs Node
        by auto
      have root1: "sph_root h1 = Some x" "spe_right h1 (Elm x) = rootq rr" using i1 by (auto simp: splay_inv_def)
      show ?thesis
      proof (cases "rr = Leaf")
        case leaf: True
        with i1 o1 xs Node p n pl pr y have "splay_stop h0 g xs h1 L R"
          unfolding splay_stop_def splay_state_def
          by (intro exI[of _ "Node l y rl"] exI[of _ x] exI[of _ Leaf] conjI exI[of _ ls] exI[of _ rs]) auto
        with True Node root root1 leaf r1 show ?thesis by (simp add: splay_go_right_def)
      next
        case False
        obtain h2 where lk: "SPLAY_LINKRIGHT L h1 = Some (Elm x, h2)"
          and i2: "splay_inv h2 (ls @ [(Node l y rl, x)]) rr rs (Elm x) R"
            and so2: "same_outside (set (linord ls)) h1 h2"
          using splay_linkright_inv[OF i1] by blast
        have o2: "same_outside (set xs) h0 h2"
          by (rule same_outside_trans[OF o1 so2]) (use xs in auto)
        have "splay_state h0 g xs h2 rr (Elm x) R"
          unfolding splay_state_def using o2 i2 False xs Node p n pl pr y True
          by (intro conjI exI[of _ "ls @ [(Node l y rl, x)]"] exI[of _ rs]) auto
        with lk show ?thesis using True Node root root1 False r1 by (auto simp: splay_go_right_def)
      qed
    next
      case False
      obtain h2 where lk: "SPLAY_LINKRIGHT L h = Some (Elm y, h2)"
        and i2: "splay_inv h2 (ls @ [(l, y)]) r rs (Elm y) R"
          and so2: "same_outside (set (linord ls)) h h2"
        using splay_linkright_inv[OF i] by blast
      have o2: "same_outside (set xs) h0 h2"
        by (rule same_outside_trans[OF o so2]) (use xs in auto)
      have "splay_state h0 g xs h2 r (Elm y) R"
        unfolding splay_state_def using o2 i2 xs Node p n pl y
        by (intro conjI exI[of _ "ls @ [(l, y)]"] exI[of _ rs]) auto
      with lk show ?thesis using False Node root by (auto simp: splay_go_right_def)
    qed
  qed
qed

end
