(* ===== verification/Nty_Splay_Order.thy ===== *)
theory Nty_Splay_Order
  imports Nty_Splay Nty_Order
begin

text \<open>
  The splay tree as an ordered set: what \<^verbatim>\<open>SPLAY\<close> and \<^verbatim>\<open>SPLAY_MINMAX\<close> do to the tree, the
  contract \<open>ordered_tree\<close> for insertion, removal and search, and in-order iteration.
\<close>

subsection \<open>Splaying\<close>

lemma splay_state_begin:
  assumes "splay_tree h t" "t \<noteq> Leaf"
  shows "splay_state h g (inorder t) (splay_begin h) t Tmp_node Tmp_node"
  using assms unfolding splay_state_def
  by (intro conjI exI[of _ "[]"])
    (auto simp: splay_tree_def splay_inv_def splay_begin_def same_outside_def)

lemma splay_loop_stops:
  assumes "splay_state h0 (cmp e) xs h t L R" "cuts (cmp e) xs"
  shows "\<exists>L' R' h'. splay_loop cmp e L R h = Some (L', R', h') \<and> splay_stop h0 (cmp e) xs h' L' R'"
  using assms(1)
proof (induction t arbitrary: h L R rule: measure_induct_rule[of size])
  case (less t)
  then obtain l y r where t: "t = Node l y r" by (cases t) (auto simp: splay_state_def)
  note s = less.prems[unfolded t]
  have root: "sph_root h = Some y" using s by (auto simp: splay_state_def splay_inv_def)
  consider (eq) "cmp e y = 0" | (lt) "cmp e y < 0" | (gt) "0 < cmp e y" by linarith
  then show ?case
  proof cases
    case eq
    from s obtain ls rs where "linord ls @ inorder (Node l y r) @ rinord rs = xs"
      by (auto simp: splay_state_def)
    with assms(2) eq cut_after[of "cmp e" "linord ls @ inorder l" y "inorder r @ rinord rs"]
      cut_before[of "cmp e" "linord ls @ inorder l" y "inorder r @ rinord rs"] s
    have "splay_stop h0 (cmp e) xs h L R"
      unfolding splay_stop_def by (intro exI[of _ l] exI[of _ y] exI[of _ r]) auto
    with eq root show ?thesis by (subst splay_loop.simps) simp
  next
    case lt
    from splay_go_left_step[OF s assms(2) lt] show ?thesis
    proof (elim disjE exE conjE)
      fix h' assume "splay_go_left (cmp e) R h = Some (Inl h')" "splay_stop h0 (cmp e) xs h' L R"
      with lt root show ?thesis by (subst splay_loop.simps) simp
    next
      fix R' h' t' assume r: "splay_go_left (cmp e) R h = Some (Inr (R', h'))"
        "splay_state h0 (cmp e) xs h' t' L R'" "size t' < size (Node l y r)"
      from less.IH[OF _ r(2)] r(1,3) t lt root show ?thesis by (subst splay_loop.simps) simp
    qed
  next
    case gt
    from splay_go_right_step[OF s assms(2) gt] show ?thesis
    proof (elim disjE exE conjE)
      fix h' assume "splay_go_right (cmp e) L h = Some (Inl h')" "splay_stop h0 (cmp e) xs h' L R"
      with gt root show ?thesis by (subst splay_loop.simps) simp
    next
      fix L' h' t' assume r: "splay_go_right (cmp e) L h = Some (Inr (L', h'))"
        "splay_state h0 (cmp e) xs h' t' L' R" "size t' < size (Node l y r)"
      from less.IH[OF _ r(2)] r(1,3) t gt root show ?thesis by (subst splay_loop.simps) simp
    qed
  qed
qed

lemma splay_minmax_loop_stops:
  assumes "splay_state h0 (\<lambda>_. c) xs h t L R" "c \<noteq> 0"
  shows "\<exists>L' R' h'. splay_minmax_loop c L R h = Some (L', R', h') \<and> splay_stop h0 (\<lambda>_. c) xs h' L' R'"
  using assms(1)
proof (induction t arbitrary: h L R rule: measure_induct_rule[of size])
  case (less t)
  then obtain l y r where t: "t = Node l y r" by (cases t) (auto simp: splay_state_def)
  note s = less.prems[unfolded t]
  have "cuts (\<lambda>_. c) xs"
    unfolding cuts_def using assms(2) by (induction xs) auto
  show ?case
  proof (cases "c < 0")
    case True
    from splay_go_left_step[OF s \<open>cuts (\<lambda>_. c) xs\<close> True] show ?thesis
    proof (elim disjE exE conjE)
      fix h' assume "splay_go_left (\<lambda>_. c) R h = Some (Inl h')" "splay_stop h0 (\<lambda>_. c) xs h' L R"
      with True show ?thesis by (subst splay_minmax_loop.simps) simp
    next
      fix R' h' t' assume r: "splay_go_left (\<lambda>_. c) R h = Some (Inr (R', h'))"
        "splay_state h0 (\<lambda>_. c) xs h' t' L R'" "size t' < size (Node l y r)"
      from less.IH[OF _ r(2)] r(1,3) t True show ?thesis by (subst splay_minmax_loop.simps) simp
    qed
  next
    case False
    with assms(2) have c: "0 < c" by simp
    from splay_go_right_step[OF s \<open>cuts (\<lambda>_. c) xs\<close> c] show ?thesis
    proof (elim disjE exE conjE)
      fix h' assume "splay_go_right (\<lambda>_. c) L h = Some (Inl h')" "splay_stop h0 (\<lambda>_. c) xs h' L R"
      with c show ?thesis by (subst splay_minmax_loop.simps) simp
    next
      fix L' h' t' assume r: "splay_go_right (\<lambda>_. c) L h = Some (Inr (L', h'))"
        "splay_state h0 (\<lambda>_. c) xs h' t' L' R" "size t' < size (Node l y r)"
      from less.IH[OF _ r(2)] r(1,3) t c show ?thesis by (subst splay_minmax_loop.simps) simp
    qed
  qed
qed

lemma splay_stop_assemble:
  assumes "splay_stop h0 g xs h L R"
  shows "\<exists>h' l x r. SPLAY_ASSEMBLE L R h = Some h' \<and> splay_tree h' (Node l x r)
     \<and> inorder (Node l x r) = xs \<and> (\<forall>a\<in>set (inorder l). 0 < g a) \<and> (\<forall>a\<in>set (inorder r). g a < 0)
     \<and> same_outside (set xs) h0 h'"
proof -
  from assms obtain l x r ls rs where s: "splay_inv h ls (Node l x r) rs L R"
    "linord ls @ inorder (Node l x r) @ rinord rs = xs" "\<forall>a\<in>set (linord ls). 0 < g a"
    "\<forall>a\<in>set (rinord rs). g a < 0" "\<forall>a\<in>set (inorder l). 0 < g a" "\<forall>a\<in>set (inorder r). g a < 0"
    "same_outside (set xs) h0 h"
    by (auto simp: splay_stop_def splay_state_def)
  from splay_assemble_tree[OF s(1)] obtain h' where
    h': "SPLAY_ASSEMBLE L R h = Some h'" "splay_tree h' (Node (ltree ls l) x (rtree rs r))"
      "same_outside (set xs) h h'" using s(2) by auto
  have "same_outside (set xs) h0 h'" by (rule same_outside_trans[OF s(7) h'(3)]) simp
  with h' s(2-6) show ?thesis
    by (intro exI[of _ h'] exI[of _ "ltree ls l"] exI[of _ x] exI[of _ "rtree rs r"])
      (auto simp: inorder_ltree inorder_rtree)
qed

lemma SPLAY_correct:
  assumes "splay_tree h t" "t \<noteq> Leaf" "cuts (cmp e) (inorder t)"
  shows "\<exists>h' l x r. SPLAY cmp e h = Some h' \<and> splay_tree h' (Node l x r)
     \<and> inorder (Node l x r) = inorder t \<and> (\<forall>a\<in>set (inorder l). 0 < cmp e a)
     \<and> (\<forall>a\<in>set (inorder r). cmp e a < 0) \<and> same_outside (set (inorder t)) h h'"
proof -
  from splay_loop_stops[of h cmp e "inorder t" "splay_begin h" t Tmp_node Tmp_node]
    splay_state_begin[OF assms(1,2), of "cmp e"] assms(3) obtain L R h1 where
    l: "splay_loop cmp e Tmp_node Tmp_node (splay_begin h) = Some (L, R, h1)"
      "splay_stop h (cmp e) (inorder t) h1 L R" by blast
  from splay_stop_assemble[OF l(2)] l(1) show ?thesis by (auto simp: SPLAY_def)
qed

lemma SPLAY_MINMAX_correct:
  assumes "splay_tree h t" "t \<noteq> Leaf" "c \<noteq> 0"
  shows "\<exists>h' l x r. SPLAY_MINMAX c h = Some h' \<and> splay_tree h' (Node l x r)
     \<and> inorder (Node l x r) = inorder t \<and> (if c < 0 then l = Leaf else r = Leaf)"
proof -
  from splay_minmax_loop_stops[OF splay_state_begin[OF assms(1,2), of "\<lambda>_. c"] assms(3)] obtain L R h1 where
    l: "splay_minmax_loop c Tmp_node Tmp_node (splay_begin h) = Some (L, R, h1)"
      "splay_stop h (\<lambda>_. c) (inorder t) h1 L R" by blast
  from splay_stop_assemble[OF l(2)] obtain h' tl x tr where
    a: "SPLAY_ASSEMBLE L R h1 = Some h'" "splay_tree h' (Node tl x tr)" "inorder (Node tl x tr) = inorder t"
      "\<forall>a\<in>set (inorder tl). 0 < c" "\<forall>a\<in>set (inorder tr). c < 0" by blast
  then have "if c < 0 then tl = Leaf else tr = Leaf"
    using assms(3) by (cases tl; cases tr) (auto split: if_splits)
  with a l(1) show ?thesis
    by (intro exI[of _ h'] exI[of _ tl] exI[of _ x] exI[of _ tr]) (simp add: SPLAY_MINMAX_def)
qed

subsection \<open>The ordered set\<close>

definition splay_rel :: "(addr \<Rightarrow> 'k::linorder) \<Rightarrow> splay \<Rightarrow> addr list \<Rightarrow> bool" where
  "splay_rel key h xs \<longleftrightarrow> (\<exists>t. splay_tree h t \<and> inorder t = xs) \<and> keys_sorted key xs"

lemma cut_cmp:
  assumes "cmp_ok cmp key" "keys_sorted key xs"
  shows "cuts (cmp e) xs"
  unfolding cuts_def
proof (rule sorted_wrt_mono_rel[OF _ assms(2)], rule impI)
  fix a b assume k: "key a < key b" "cmp e a \<le> 0"
  then have "\<not> key a < key e" using cmp_okD(2)[OF assms(1), of e a] by auto
  with k show "cmp e b < 0" by (auto simp: cmp_okD[OF assms(1)])
qed

lemma splay_rel_empty: "splay_rel key h xs \<Longrightarrow> SPLAY_EMPTY h \<longleftrightarrow> xs = []"
  by (auto simp: splay_rel_def SPLAY_EMPTY_def splay_tree_def) (metis rootq_None)

text \<open>Splaying a non-empty tree in terms of the relation: the new root splits the elements at
  the searched key.\<close>

lemma splay_split:
  assumes "cmp_ok cmp key" "splay_rel key h xs" "xs \<noteq> []"
  shows "\<exists>h' l x r. SPLAY cmp e h = Some h' \<and> splay_tree h' (Node l x r)
     \<and> inorder l @ x # inorder r = xs \<and> (\<forall>a\<in>set (inorder l). key a < key e)
     \<and> (\<forall>a\<in>set (inorder r). key e < key a) \<and> same_outside (set xs) h h'"
proof -
  from assms(2,3) obtain t where t: "splay_tree h t" "inorder t = xs" "t \<noteq> Leaf" "keys_sorted key xs"
    by (force simp: splay_rel_def)
  have "cuts (cmp e) (inorder t)" using cut_cmp[OF assms(1) t(4)] t(2) by simp
  from SPLAY_correct[OF t(1,3), of cmp e] this t(2) show ?thesis
    by (auto simp: cmp_okD[OF assms(1)])
qed

lemma sorted_split_find:
  assumes "keys_sorted key (us @ x # vs)" "\<forall>a\<in>set us. key a < key e" "\<forall>a\<in>set vs. key e < key a"
  shows "List.find (\<lambda>a. key a = key e) (us @ x # vs) = (if key x = key e then Some x else None)"
proof -
  have "List.find (\<lambda>a. key a = key e) us = None" "List.find (\<lambda>a. key a = key e) vs = None"
    using assms by (auto intro!: find_NoneI)
  then show ?thesis by (simp add: find_append)
qed

lemma splay_find_correct:
  assumes "cmp_ok cmp key" "splay_rel key h xs"
  shows "\<exists>h'. SPLAY_FIND cmp e h = Some (List.find (\<lambda>a. key a = key e) xs, h') \<and> splay_rel key h' xs"
proof (cases "xs = []")
  case True
  with assms splay_rel_empty[OF assms(2)] show ?thesis by (simp add: SPLAY_FIND_def)
next
  case False
  from splay_split[OF assms False] obtain h' l x r where s: "SPLAY cmp e h = Some h'"
    "splay_tree h' (Node l x r)" "inorder l @ x # inorder r = xs" "\<forall>a\<in>set (inorder l). key a < key e"
    "\<forall>a\<in>set (inorder r). key e < key a" by blast
  have sorted: "keys_sorted key xs" using assms(2) by (simp add: splay_rel_def)
  have "List.find (\<lambda>a. key a = key e) xs = (if key x = key e then Some x else None)"
    using sorted_split_find[of key "inorder l" x "inorder r" e] sorted s(3-5) by simp
  moreover have "splay_rel key h' xs" using s(2,3) sorted by (force simp: splay_rel_def)
  moreover have "sph_root h' = Some x" using s(2) by (simp add: splay_tree_def)
  ultimately show ?thesis using s(1) False splay_rel_empty[OF assms(2)]
    by (auto simp: SPLAY_FIND_def cmp_okD[OF assms(1)])
qed

lemma splay_insert_tree:
  assumes "splay_tree h (Node l x r)" "e \<notin> set (inorder (Node l x r))"
  shows "splay_tree ((sp_set_left (Elm x) None (sp_set_right (Elm e) (Some x) (sp_set_left (Elm e) (spe_left h (Elm x)) h)))
           \<lparr>sph_root := Some e\<rparr>) (Node l e (Node Leaf x r))"
    and "splay_tree ((sp_set_right (Elm x) None (sp_set_left (Elm e) (Some x) (sp_set_right (Elm e) (spe_right h (Elm x)) h)))
           \<lparr>sph_root := Some e\<rparr>) (Node (Node l x Leaf) e r)"
  using assms by (auto simp: splay_tree_def)

lemma splay_insert_correct:
  assumes c: "cmp_ok cmp key" and r: "splay_rel key h xs" and e: "e \<notin> set xs"
  shows "\<exists>h'. SPLAY_INSERT cmp e h = Some (List.find (\<lambda>a. key a = key e) xs, h')
     \<and> splay_rel key h' (tree_op_spec key (Tree_insert e) xs)"
proof (cases "xs = []")
  case True
  with splay_rel_empty[OF r] show ?thesis
    by (auto simp: SPLAY_INSERT_def Let_def splay_rel_def splay_tree_def intro!: exI[of _ "Node Leaf e Leaf"])
next
  case False
  from splay_split[OF c r False] obtain h' l x rt where s: "SPLAY cmp e h = Some h'"
    "splay_tree h' (Node l x rt)" "inorder l @ x # inorder rt = xs" "\<forall>a\<in>set (inorder l). key a < key e"
    "\<forall>a\<in>set (inorder rt). key e < key a" by blast
  have sorted: "keys_sorted key xs" using r by (simp add: splay_rel_def)
  have fnd: "List.find (\<lambda>a. key a = key e) xs = (if key x = key e then Some x else None)"
    using sorted_split_find[of key "inorder l" x "inorder rt" e] sorted s(3-5) by simp
  have ne: "\<not> SPLAY_EMPTY h" using splay_rel_empty[OF r] False by simp
  have root: "sph_root h' = Some x" using s(2) by (simp add: splay_tree_def)
  note it = splay_insert_tree[OF s(2)]
  consider (eq) "key e = key x" | (lt) "key e < key x" | (gt) "key x < key e" using less_linear by blast
  then show ?thesis
  proof cases
    case eq
    then have "tree_op_spec key (Tree_insert e) xs = xs" using s(3) by auto
    with eq s(1-3) ne root fnd sorted show ?thesis
      by (force simp: SPLAY_INSERT_def Let_def cmp_okD[OF c] splay_rel_def)
  next
    case lt
    have sp: "tree_op_spec key (Tree_insert e) xs = inorder l @ e # x # inorder rt"
      using lt s(3-5) insort_middle[of "inorder l" key e "x # inorder rt"] by fastforce
    have "keys_sorted key (inorder l @ e # x # inorder rt)"
      using sorted s(3-5) lt by (auto simp: sorted_wrt_append)
    then have "splay_rel key ((sp_set_left (Elm x) None (sp_set_right (Elm e) (Some x)
        (sp_set_left (Elm e) (spe_left h' (Elm x)) h')))\<lparr>sph_root := Some e\<rparr>)
        (tree_op_spec key (Tree_insert e) xs)"
      unfolding splay_rel_def sp using it(1) e s(3)
      by (intro conjI exI[of _ "Node l e (Node Leaf x rt)"]) auto
    with lt s(1) ne root fnd show ?thesis by (simp add: SPLAY_INSERT_def Let_def cmp_okD[OF c])
  next
    case gt
    have sp: "tree_op_spec key (Tree_insert e) xs = inorder l @ x # e # inorder rt"
      using gt s(3-5) insort_middle[of "inorder l @ [x]" key e "inorder rt"] by fastforce
    have "keys_sorted key (inorder l @ x # e # inorder rt)"
      using sorted s(3-5) gt by (auto simp: sorted_wrt_append)
    then have "splay_rel key ((sp_set_right (Elm x) None (sp_set_left (Elm e) (Some x)
        (sp_set_right (Elm e) (spe_right h' (Elm x)) h')))\<lparr>sph_root := Some e\<rparr>)
        (tree_op_spec key (Tree_insert e) xs)"
      unfolding splay_rel_def sp using it(2) e s(3)
      by (intro conjI exI[of _ "Node (Node l x Leaf) e rt"]) auto
    moreover have "\<not> key e < key x" using gt by simp
    ultimately show ?thesis using gt s(1) ne root fnd
      by (simp add: SPLAY_INSERT_def Let_def cmp_okD[OF c])
  qed
qed

lemma splay_root_is:
  fixes key :: "addr \<Rightarrow> 'k::linorder"
  assumes "e \<in> set (us @ x # vs)" "\<forall>a\<in>set us. key a < key e" "\<forall>a\<in>set vs. key e < key a"
  shows "x = e"
  using assms by auto

lemma splay_remove_correct:
  assumes c: "cmp_ok cmp key" and r: "splay_rel key h xs" and e: "e \<in> set xs"
  shows "\<exists>h'. SPLAY_REMOVE cmp e h = Some (Some e, h') \<and> splay_rel key h' (remove1 e xs)"
proof -
  have ne: "xs \<noteq> []" using e by auto
  from splay_split[OF c r ne] obtain h' l x rt where s: "SPLAY cmp e h = Some h'"
    "splay_tree h' (Node l x rt)" "inorder l @ x # inorder rt = xs" "\<forall>a\<in>set (inorder l). key a < key e"
    "\<forall>a\<in>set (inorder rt). key e < key a" by blast
  have x: "x = e" using splay_root_is[of e "inorder l" x "inorder rt" key] e s(3-5) by auto
  have sorted: "keys_sorted key xs" using r by (simp add: splay_rel_def)
  have d: "distinct (inorder l @ e # inorder rt)" using s(2) x by (simp add: splay_tree_def)
  have rem: "remove1 e xs = inorder l @ inorder rt" using s(3) x d by (auto simp: remove1_append)
  have nemp: "\<not> SPLAY_EMPTY h" using splay_rel_empty[OF r] ne by simp
  have root: "sph_root h' = Some e" "spe_left h' (Elm e) = rootq l" "spe_right h' (Elm e) = rootq rt"
    using s(2) x by (auto simp: splay_tree_def)
  have zero: "cmp e e = 0" using cmp_okD(3)[OF c] by simp
  have rsorted: "keys_sorted key (remove1 e xs)" using sorted by (rule remove1_keys_sorted)
  show ?thesis
  proof (cases "l = Leaf")
    case True
    with s(2) rem rsorted have "splay_rel key (h'\<lparr>sph_root := rootq rt\<rparr>) (remove1 e xs)"
      by (auto simp: splay_rel_def splay_tree_def)
    with s(1) nemp root zero True show ?thesis by (simp add: SPLAY_REMOVE_def)
  next
    case False
    let ?h1 = "h'\<lparr>sph_root := rootq l\<rparr>"
    have "splay_tree ?h1 l" using s(2) by (simp add: splay_tree_def)
    moreover have sl: "keys_sorted key (inorder l)" using sorted s(3) by (auto simp: sorted_wrt_append)
    ultimately have rl: "splay_rel key ?h1 (inorder l)" by (auto simp: splay_rel_def)
    have "inorder l \<noteq> []" using False by (cases l) auto
    from splay_split[OF c rl this] obtain h2 l2 x2 r2 where t: "SPLAY cmp e ?h1 = Some h2"
      "splay_tree h2 (Node l2 x2 r2)" "inorder l2 @ x2 # inorder r2 = inorder l"
      "\<forall>a\<in>set (inorder r2). key e < key a" "same_outside (set (inorder l)) ?h1 h2" by blast
    have "\<forall>a\<in>set (inorder r2). key a < key e" using s(4) t(3) by (metis Un_iff list.set_intros(2) set_append)
    with t(4) have "a \<notin> set (inorder r2)" for a by (meson less_asym)
    then have r2: "r2 = Leaf" by (cases r2) auto
    have "srep ?h1 rt" using s(2) by (simp add: splay_tree_def)
    from srep_same_outside[OF t(5) this] d have rr: "srep h2 rt" by auto
    let ?h3 = "sp_set_right (Elm x2) (rootq rt) h2"
    have x2: "x2 \<in> set (inorder l)" using t(3) by (metis in_set_conv_decomp)
    have io: "inorder (Node l2 x2 rt) = remove1 e xs" using rem t(3) r2 by simp
    have "x2 \<notin> set (inorder rt)" "x2 \<notin> set (inorder l2)" using d x2 t(2) by (auto simp: splay_tree_def)
    moreover have "distinct (inorder (Node l2 x2 rt))" unfolding io rem using d by auto
    ultimately have "splay_tree ?h3 (Node l2 x2 rt)"
      using t(2) rr by (simp add: splay_tree_def)
    with io rsorted have "splay_rel key ?h3 (remove1 e xs)" by (auto simp: splay_rel_def)
    moreover have "sph_root h2 = Some x2" using t(2) by (simp add: splay_tree_def)
    ultimately show ?thesis using s(1) nemp root zero False t(1)
      by (simp add: SPLAY_REMOVE_def Let_def)
  qed
qed

interpretation spt: ordered_tree key "\<lambda>h xs. cmp_ok cmp key \<and> splay_rel key h xs"
  "SPLAY_INSERT cmp" "SPLAY_REMOVE cmp" "SPLAY_FIND cmp" for cmp and key :: "addr \<Rightarrow> 'k::linorder"
proof (unfold_locales, goal_cases)
  case 1 then show ?case by (simp add: splay_rel_def)
next
  case (2 h xs e) then show ?case using splay_insert_correct[of cmp key h xs e] by simp
next
  case (3 h xs e) then show ?case using splay_remove_correct[of cmp key h xs e] by simp
next
  case (4 h xs e) then show ?case using splay_find_correct[of cmp key h xs e] by simp
qed

interpretation sps: simulation "\<lambda>h xs. cmp_ok cmp key \<and> splay_rel key h xs"
  "tree_step (SPLAY_INSERT cmp) (SPLAY_REMOVE cmp)" "tree_op_spec key" tree_op_ok
  for cmp and key :: "addr \<Rightarrow> 'k::linorder"
  by unfold_locales (rule spt.step_spec)

lemma splay_init_rel: "splay_rel key (SPLAY_INIT h) []"
  by (auto simp: splay_rel_def splay_tree_def SPLAY_INIT_def intro!: exI[of _ Leaf])

subsection \<open>Iteration\<close>

lemma splay_leftmost_correct:
  "srep h t \<Longrightarrow> rootq t = Some a \<Longrightarrow> splay_leftmost a h = Some (hd (inorder t))"
proof (induction t arbitrary: a)
  case (Node l b r)
  show ?case
  proof (cases l)
    case Leaf
    with Node.prems show ?thesis by (subst splay_leftmost.simps) simp
  next
    case (Node ll bl lr)
    with Node.prems Node.IH(1)[of bl] show ?thesis
      by (subst splay_leftmost.simps) (simp add: hd_append)
  qed
qed simp

lemma splay_next_correct:
  assumes c: "cmp_ok cmp key" and r: "splay_rel key h xs" and xs: "xs = us @ e # vs"
  shows "\<exists>h'. SPLAY_NEXT cmp e h = Some (case vs of [] \<Rightarrow> None | y # _ \<Rightarrow> Some y, h') \<and> splay_rel key h' xs"
proof -
  have ne: "xs \<noteq> []" using xs by simp
  from splay_split[OF c r ne] obtain h' l x rt where s: "SPLAY cmp e h = Some h'"
    "splay_tree h' (Node l x rt)" "inorder l @ x # inorder rt = xs" "\<forall>a\<in>set (inorder l). key a < key e"
    "\<forall>a\<in>set (inorder rt). key e < key a" by blast
  have x: "x = e" using splay_root_is[of e "inorder l" x "inorder rt" key] s(3-5) xs by auto
  have "e \<notin> set (inorder l)" "e \<notin> set (inorder rt)" using s(4,5) by auto
  with s(3) x xs have vs: "vs = inorder rt" using append_Cons_eq_iff by metis
  have "splay_rel key h' xs" using s(2,3) r by (force simp: splay_rel_def)
  moreover have "spe_right h' (Elm e) = rootq rt" "srep h' rt" using s(2) x by (auto simp: splay_tree_def)
  moreover have "rt = Leaf \<or> (\<exists>a. rootq rt = Some a \<and> vs = hd vs # tl vs)"
    using vs by (cases rt) auto
  ultimately show ?thesis using s(1) vs splay_leftmost_correct[of h' rt]
    by (auto simp: SPLAY_NEXT_def split: list.splits)
qed

lemma splay_min_max_correct:
  assumes r: "splay_rel key h xs"
  shows "\<exists>h'. SPLAY_MIN h = Some (case xs of [] \<Rightarrow> None | x # _ \<Rightarrow> Some x, h') \<and> splay_rel key h' xs"
    and "\<exists>h'. SPLAY_MAX h = Some (if xs = [] then None else Some (last xs), h') \<and> splay_rel key h' xs"
proof -
  from r obtain t where t: "splay_tree h t" "inorder t = xs" "keys_sorted key xs" by (auto simp: splay_rel_def)
  have *: "\<exists>h' l x rt. SPLAY_MINMAX c h = Some h' \<and> splay_rel key h' xs \<and> sph_root h' = Some x
      \<and> xs = inorder l @ x # inorder rt \<and> (if c < 0 then l = Leaf else rt = Leaf)"
    if "xs \<noteq> []" "c \<noteq> 0" for c
  proof -
    from that t have "t \<noteq> Leaf" by auto
    from SPLAY_MINMAX_correct[OF t(1) this that(2)] obtain h' l x rt where
      m: "SPLAY_MINMAX c h = Some h'" "splay_tree h' (Node l x rt)" "inorder (Node l x rt) = inorder t"
        "if c < 0 then l = Leaf else rt = Leaf" by blast
    then have "splay_rel key h' xs" using t by (force simp: splay_rel_def)
    with m t(2) show ?thesis by (intro exI[of _ h'] exI[of _ l] exI[of _ x] exI[of _ rt]) (auto simp: splay_tree_def)
  qed
  from *[of SPLAY_NEGINF] splay_rel_empty[OF r] r
  show "\<exists>h'. SPLAY_MIN h = Some (case xs of [] \<Rightarrow> None | x # _ \<Rightarrow> Some x, h') \<and> splay_rel key h' xs"
    by (cases "xs = []") (auto simp: SPLAY_MIN_def SPLAY_MIN_MAX_def SPLAY_NEGINF_def)
  from *[of SPLAY_INF] splay_rel_empty[OF r] r
  show "\<exists>h'. SPLAY_MAX h = Some (if xs = [] then None else Some (last xs), h') \<and> splay_rel key h' xs"
    by (cases "xs = []") (auto simp: SPLAY_MAX_def SPLAY_MIN_MAX_def SPLAY_INF_def)
qed

lemma splay_foreach_correct:
  assumes c: "cmp_ok cmp key" and r: "splay_rel key h xs"
  shows "\<exists>h'. SPLAY_FOREACH cmp visit ([], h) = Some (xs, h') \<and> splay_rel key h' xs"
proof -
  have loop: "splay_rel key g xs \<Longrightarrow> xs = us @ vs \<Longrightarrow>
      \<exists>h'. splay_foreach_loop cmp visit (case vs of [] \<Rightarrow> None | v # _ \<Rightarrow> Some v) (us, g) = Some (xs, h')
         \<and> splay_rel key h' xs" for us vs g
  proof (induction vs arbitrary: us g)
    case Nil
    then show ?case by (subst splay_foreach_loop.simps) simp
  next
    case (Cons v vs)
    from splay_next_correct[OF c Cons.prems] obtain g' where
      n: "SPLAY_NEXT cmp v g = Some (case vs of [] \<Rightarrow> None | y # _ \<Rightarrow> Some y, g')" "splay_rel key g' xs" by blast
    have "visit v (us, g) = Some (us @ [v], g)" by (simp add: visit_def)
    with Cons.IH[OF n(2), of "us @ [v]"] Cons.prems(2) n(1) show ?case
      by (subst splay_foreach_loop.simps) simp
  qed
  from splay_min_max_correct(1)[OF r] obtain h' where
    m: "SPLAY_MIN h = Some (case xs of [] \<Rightarrow> None | x # _ \<Rightarrow> Some x, h')" "splay_rel key h' xs" by blast
  from loop[OF m(2), of "[]" xs] m(1) show ?thesis by (simp add: SPLAY_FOREACH_def)
qed

subsection \<open>Properties\<close>

text \<open>C9 \<^verbatim>\<open>SPLAY\<close> on a non-empty tree terminates without a \<open>NULL\<close> dereference, keeps the in-order
  sequence, touches no other element, and brings to the root an element that splits the others
  at the searched key: everything in the left subtree is smaller, everything in the right
  subtree larger.\<close>

theorem splay_splits:
  assumes "cmp_ok cmp (key :: addr \<Rightarrow> 'k::linorder)" "splay_tree h t" "t \<noteq> Leaf" "keys_sorted key (inorder t)"
  shows "\<exists>h' l x r. SPLAY cmp e h = Some h' \<and> splay_tree h' (Node l x r)
     \<and> inorder (Node l x r) = inorder t \<and> (\<forall>a\<in>set (inorder l). key a < key e)
     \<and> (\<forall>a\<in>set (inorder r). key e < key a) \<and> same_outside (set (inorder t)) h h'"
proof -
  have "splay_rel key h (inorder t)" using assms by (auto simp: splay_rel_def)
  moreover have "inorder t \<noteq> []" using assms(3) by (cases t) auto
  ultimately show ?thesis using splay_split[OF assms(1), of h "inorder t" e] by simp
qed

definition splay_two :: splay where
  "splay_two = \<lparr>sph_root = Some 5,
     spe_left = (\<lambda>n. if n = Elm 5 then Some 3 else None), spe_right = (\<lambda>_. None)\<rparr>"

lemma splay_two_tree: "splay_tree splay_two (Node (Node Leaf 3 Leaf) 5 Leaf)"
  by (simp add: splay_tree_def splay_two_def)

theorem splay_splits_witness:
  "splay_tree splay_two (Node (Node Leaf 3 Leaf) 5 Leaf)
   \<and> (\<exists>h' l x r. SPLAY int_cmp 3 splay_two = Some h' \<and> splay_tree h' (Node l x r)
        \<and> inorder (Node l x r) = [3, 5] \<and> (\<forall>a\<in>set (inorder l). a < 3) \<and> (\<forall>a\<in>set (inorder r). 3 < a))"
proof -
  from splay_splits[OF int_cmp_ok splay_two_tree, of 3] show ?thesis
    using splay_two_tree by (auto simp: int_cmp_ok)
qed

text \<open>C10 Any legal sequence of \<^verbatim>\<open>SPLAY_INSERT\<close> and \<^verbatim>\<open>SPLAY_REMOVE\<close> on an initialised tree runs to its
  end without a crash and refines the sorted list; \<^verbatim>\<open>SPLAY_FOREACH\<close>, which splays at every step,
  then visits the elements in key order, and \<^verbatim>\<open>SPLAY_FIND\<close> finds exactly them.\<close>

theorem splay_refines_sorted_list:
  assumes "cmp_ok cmp (key :: addr \<Rightarrow> 'k::linorder)" "ops_ok tree_op_ok (tree_op_spec key) ops []"
  shows "\<exists>h' h''. run_ops (tree_step (SPLAY_INSERT cmp) (SPLAY_REMOVE cmp)) ops (SPLAY_INIT h) = Some h'
           \<and> SPLAY_FOREACH cmp visit ([], h') = Some (fold (tree_op_spec key) ops [], h'')
           \<and> (\<forall>e. \<exists>g. SPLAY_FIND cmp e h' = Some (List.find (\<lambda>a. key a = key e) (fold (tree_op_spec key) ops []), g))"
proof -
  from sps.run_sim[of cmp key "SPLAY_INIT h" "[]" ops] assms splay_init_rel obtain h' where
    h': "run_ops (tree_step (SPLAY_INSERT cmp) (SPLAY_REMOVE cmp)) ops (SPLAY_INIT h) = Some h'"
      "splay_rel key h' (fold (tree_op_spec key) ops [])" by blast
  with splay_foreach_correct[OF assms(1) h'(2)] splay_find_correct[OF assms(1) h'(2)] show ?thesis by blast
qed

theorem splay_refines_sorted_list_witness:
  "ops_ok tree_op_ok (tree_op_spec id) [Tree_insert 2, Tree_insert 3, Tree_insert 1, Tree_remove 2] []
   \<and> (\<exists>h' h''. run_ops (tree_step (SPLAY_INSERT int_cmp) (SPLAY_REMOVE int_cmp))
            [Tree_insert 2, Tree_insert 3, Tree_insert 1, Tree_remove 2] (SPLAY_INIT splay_two) = Some h'
        \<and> SPLAY_FOREACH int_cmp visit ([], h') = Some ([1, 3], h''))"
  using splay_refines_sorted_list[OF int_cmp_ok,
      of "[Tree_insert 2, Tree_insert 3, Tree_insert 1, Tree_remove 2]" splay_two]
  by (auto simp del: run_ops.simps)

end
