(* ===== verification/Net_Os.thy ===== *)
theory Net_Os
  imports Main "HOL-Library.Word"
begin

text \<open>
  The common ground of the programs under \<^verbatim>\<open>net-program/\<close>.  A process is a function on its
  history, the list of the system and library calls it has made with their replies.  The
  operating system and the peers are the parameter \<open>os\<close>, which may answer every call as it
  likes depending on the whole history; \<open>call os c h\<close> performs the call \<open>c\<close>.

  A piece of a program ends in a \<open>flow\<close>: \<open>Next v h\<close> (it goes on, or \<^verbatim>\<open>main\<close> returns, with the
  value \<open>v\<close>), \<open>Exited c h\<close> (\<^verbatim>\<open>exit(c)\<close>), \<open>Undef h\<close> (an access outside a buffer), or \<open>Cut h\<close>: the
  loop bound given as fuel was used up while the loop was still running, which is how the
  endless server loops appear after any number of rounds.

  Character buffers are lists of characters: \<open>fill buf d\<close> is the buffer after a call has stored
  the bytes \<open>d\<close> at its start, \<open>c_str buf\<close> the C string it holds.  A read beyond the end is
  undefined.
\<close>

subsection \<open>Addresses\<close>

text \<open>Byte order conversion on a little-endian host.\<close>

definition htons :: "16 word \<Rightarrow> 16 word" where
  "htons w = or (push_bit 8 w) (drop_bit 8 w)"

definition htonl :: "32 word \<Rightarrow> 32 word" where
  "htonl w = or (or (push_bit 24 w) (push_bit 16 (take_bit 8 (drop_bit 8 w))))
                (or (push_bit 8 (take_bit 8 (drop_bit 16 w))) (drop_bit 24 w))"

text \<open>\<^verbatim>\<open>sin_family\<close> is \<^verbatim>\<open>AF_INET\<close> in every program and is left out.\<close>

record sockaddr_in =
  s_addr :: "32 word"
  sin_port :: "16 word"

definition INADDR_ANY :: "32 word" where "INADDR_ANY = 0"
definition INADDR_NONE :: "32 word" where "INADDR_NONE = - 1"

definition is_digit :: "char \<Rightarrow> bool" where
  "is_digit c \<longleftrightarrow> 48 \<le> (of_char c :: nat) \<and> (of_char c :: nat) \<le> 57"

definition digit_val :: "char \<Rightarrow> nat" where
  "digit_val c = of_char c - 48"

definition dec_val :: "string \<Rightarrow> nat" where
  "dec_val cs = foldl (\<lambda>n c. n * 10 + digit_val c) 0 cs"

definition is_space :: "char \<Rightarrow> bool" where
  "is_space c \<longleftrightarrow> c = CHR '' '' \<or> 9 \<le> (of_char c :: nat) \<and> (of_char c :: nat) \<le> 13"

text \<open>\<^verbatim>\<open>atoi\<close>: leading blanks, an optional sign, then the longest run of digits.  The result of a
  number that does not fit an \<^verbatim>\<open>int\<close> is undefined in C; here it is the number itself.\<close>

definition atoi :: "string \<Rightarrow> int" where
  "atoi s = (case dropWhile is_space s of
      [] \<Rightarrow> 0
    | c # cs \<Rightarrow> if c = CHR ''-'' then - int (dec_val (takeWhile is_digit cs))
               else if c = CHR ''+'' then int (dec_val (takeWhile is_digit cs))
               else int (dec_val (takeWhile is_digit (c # cs))))"

fun split_on :: "char \<Rightarrow> string \<Rightarrow> string list" where
  "split_on c [] = [[]]"
| "split_on c (x # xs) =
     (if x = c then [] # split_on c xs
      else (case split_on c xs of [] \<Rightarrow> [[x]] | y # ys \<Rightarrow> (x # y) # ys))"

text \<open>\<^verbatim>\<open>inet_addr\<close> on four-part dotted decimal notation, the form the programs use (the shorter,
  octal and hexadecimal forms are not modelled); the result is in network byte order, so on a
  little-endian host the first number is the lowest byte.\<close>

definition inet_addr :: "string \<Rightarrow> 32 word" where
  "inet_addr s = (case split_on CHR ''.'' s of
      [a, b, c, d] \<Rightarrow>
        if \<forall>p \<in> set [a, b, c, d]. p \<noteq> [] \<and> list_all is_digit p \<and> dec_val p \<le> 255
        then of_nat (dec_val a + 256 * (dec_val b + 256 * (dec_val c + 256 * dec_val d)))
        else INADDR_NONE
    | _ \<Rightarrow> INADDR_NONE)"

definition any_addr :: "string \<Rightarrow> sockaddr_in" where
  "any_addr port = \<lparr>s_addr = htonl INADDR_ANY, sin_port = htons (of_int (atoi port))\<rparr>"

definition peer_addr :: "string \<Rightarrow> string \<Rightarrow> sockaddr_in" where
  "peer_addr ip port = \<lparr>s_addr = inet_addr ip, sin_port = htons (of_int (atoi port))\<rparr>"

subsection \<open>Calls, replies, histories\<close>

datatype parg = PI int | PS string

datatype sys =
    Socket int int int | Bind int sockaddr_in | Listen int int | Accept int
  | Connect int sockaddr_in | Read int nat | Write int string | Close int | Shutdown int int
  | Sendto int string sockaddr_in | Recvfrom int nat | Recv int nat int | Send int string int
  | Setsockopt int int int string | Getsockopt int int int
  | Printf string "parg list" | Puts string | Fputs string int | Fputc char int
  | Fgets int nat | Fgetc int | Scanf string
  | Fopen string string | Fread int nat | Fwrite int string | Fclose int | Feof int
  | Open string int | Fork | Wait | Waitpid int int | Sleep nat | Alarm nat
  | Sigaction int string | Signal int string | Pipe | Select nat "nat list" nat
  | Readv int "nat list" | Writev int "string list" | Fcntl int int int | Getpid | Getppid
  | Perror string | Access string | Execlp "string list" | Mkfifo string int | Setitimer nat nat

text \<open>A reply: the return value, the bytes stored in a buffer, the address and the descriptors stored,
  and the integer stored through a pointer argument (a status or an option value), \<open>None\<close> when the
  call stored none.\<close>

record reply =
  ret :: int
  data :: string
  peer :: sockaddr_in
  fds :: "nat list"
  outv :: "int option"

type_synonym hist = "(sys \<times> reply) list"
type_synonym os = "hist \<Rightarrow> sys \<Rightarrow> reply"

definition call :: "os \<Rightarrow> sys \<Rightarrow> hist \<Rightarrow> reply \<times> hist" where
  "call os c h = (os h c, h @ [(c, os h c)])"

definition do_call :: "os \<Rightarrow> sys \<Rightarrow> hist \<Rightarrow> hist" where
  "do_call os c h = snd (call os c h)"

datatype 'a flow = Next 'a hist | Exited int hist | Undef hist | Cut hist

fun then_do :: "'a flow \<Rightarrow> ('a \<Rightarrow> hist \<Rightarrow> 'b flow) \<Rightarrow> 'b flow" where
  "then_do (Next v h) f = f v h"
| "then_do (Exited c h) f = Exited c h"
| "then_do (Undef h) f = Undef h"
| "then_do (Cut h) f = Cut h"

fun flow_hist :: "'a flow \<Rightarrow> hist" where
  "flow_hist (Next v h) = h"
| "flow_hist (Exited c h) = h"
| "flow_hist (Undef h) = h"
| "flow_hist (Cut h) = h"

subsection \<open>Constants and buffers\<close>

definition NUL :: char where "NUL = CHR 0x00"
definition nl :: char where "nl = CHR 0x0A"

abbreviation ln :: "string \<Rightarrow> string" where "ln s \<equiv> s @ [nl]"

abbreviation PF_INET :: int where "PF_INET \<equiv> 2"
abbreviation SOCK_STREAM :: int where "SOCK_STREAM \<equiv> 1"
abbreviation SOCK_DGRAM :: int where "SOCK_DGRAM \<equiv> 2"
abbreviation IPPROTO_TCP :: int where "IPPROTO_TCP \<equiv> 6"
abbreviation SHUT_WR :: int where "SHUT_WR \<equiv> 1"
abbreviation c_stdin :: int where "c_stdin \<equiv> 0"
abbreviation c_stdout :: int where "c_stdout \<equiv> 1"
abbreviation c_stderr :: int where "c_stderr \<equiv> 2"

definition fill :: "string \<Rightarrow> string \<Rightarrow> string" where
  "fill buf d = d @ drop (length d) buf"

definition c_str :: "string \<Rightarrow> string" where
  "c_str buf = takeWhile (\<lambda>c. c \<noteq> NUL) buf"

text \<open>\<^verbatim>\<open>buf[i] = 0\<close>, undefined outside the buffer (also for a negative index).\<close>

definition put_nul :: "string \<Rightarrow> int \<Rightarrow> string option" where
  "put_nul buf i = (if 0 \<le> i \<and> nat i < length buf then Some (buf[nat i := NUL]) else None)"

subsection \<open>Routines every program repeats\<close>

text \<open>\<^verbatim>\<open>error_handling\<close>, identical in all files.\<close>

definition error_handling :: "os \<Rightarrow> string \<Rightarrow> hist \<Rightarrow> 'a flow" where
  "error_handling os message h =
     Exited 1 (do_call os (Fputc nl c_stderr) (do_call os (Fputs message c_stderr) h))"

definition usage :: "os \<Rightarrow> string \<Rightarrow> string list \<Rightarrow> hist \<Rightarrow> 'a flow" where
  "usage os fmt argv h = Exited 1 (do_call os (Printf (ln fmt) [PS (argv ! 0)]) h)"

text \<open>A call whose result -1 leads to \<^verbatim>\<open>error_handling\<close>.\<close>

definition checked :: "os \<Rightarrow> sys \<Rightarrow> string \<Rightarrow> hist \<Rightarrow> int flow" where
  "checked os c message h =
     (let (r, h1) = call os c h
      in if ret r = - 1 then error_handling os message h1 else Next (ret r) h1)"

text \<open>The server prologue: socket, bind, listen, each checked.\<close>

definition server_setup :: "os \<Rightarrow> string \<Rightarrow> hist \<Rightarrow> int flow" where
  "server_setup os port h =
     then_do (checked os (Socket PF_INET SOCK_STREAM 0) ''socket() error'' h) (\<lambda>s h.
     then_do (checked os (Bind s (any_addr port)) ''bind() error'' h) (\<lambda>_ h.
     then_do (checked os (Listen s 5) ''listen() error'' h) (\<lambda>_ h. Next s h)))"

text \<open>The client prologue: socket and connect, each checked.\<close>

definition client_setup :: "os \<Rightarrow> string \<Rightarrow> string \<Rightarrow> hist \<Rightarrow> int flow" where
  "client_setup os ip port h =
     then_do (checked os (Socket PF_INET SOCK_STREAM 0) ''sock() error'' h) (\<lambda>s h.
     then_do (checked os (Connect s (peer_addr ip port)) ''connect() error'' h) (\<lambda>_ h. Next s h))"

subsection \<open>Reading histories\<close>

text \<open>What a process has written to a descriptor, and what it has read from it.\<close>

fun written :: "int \<Rightarrow> hist \<Rightarrow> string" where
  "written fd [] = []"
| "written fd ((Write fd' d, r) # h) = (if fd' = fd then d @ written fd h else written fd h)"
| "written fd (_ # h) = written fd h"

fun received :: "int \<Rightarrow> hist \<Rightarrow> string" where
  "received fd [] = []"
| "received fd ((Read fd' n, r) # h) = (if fd' = fd then data r @ received fd h else received fd h)"
| "received fd (_ # h) = received fd h"

lemma written_append [simp]: "written fd (h @ h') = written fd h @ written fd h'"
  by (induction h rule: written.induct) auto

lemma received_append [simp]: "received fd (h @ h') = received fd h @ received fd h'"
  by (induction h rule: received.induct) auto

text \<open>\<open>read\<close> as documented: the return value is the number of bytes stored, at most the number
  asked for, or -1 with nothing stored.\<close>

definition read_ok :: "os \<Rightarrow> bool" where
  "read_ok os \<longleftrightarrow> (\<forall>h fd n.
     (ret (os h (Read fd n)) = - 1 \<and> data (os h (Read fd n)) = [])
     \<or> (ret (os h (Read fd n)) = int (length (data (os h (Read fd n))))
        \<and> length (data (os h (Read fd n))) \<le> n))"

lemma length_fill [simp]: "length d \<le> length buf \<Longrightarrow> length (fill buf d) = length buf"
  by (simp add: fill_def)

lemma take_fill [simp]: "take (length d) (fill buf d) = d"
  by (simp add: fill_def)

lemma then_do_Next: "then_do f g = Next v h \<longleftrightarrow> (\<exists>u h'. f = Next u h' \<and> g u h' = Next v h)"
  by (cases f) auto

lemma checked_Next:
  "checked os c m h = Next v h' \<longleftrightarrow> v = ret (os h c) \<and> v \<noteq> - 1 \<and> h' = h @ [(c, os h c)]"
  by (auto simp: checked_def call_def error_handling_def Let_def)

lemma do_call_eq: "do_call os c h = h @ [(c, os h c)]"
  by (simp add: do_call_def call_def)

end
