(* ===== verification/Net_Echo.thy ===== *)
theory Net_Echo
  imports Net_Os
begin

text \<open>
  The echo programs of \<^verbatim>\<open>net-program\<close>: the iterative TCP server and its clients (chapters 4, 5,
  9), the UDP pair (chapter 6), the forking server and its client (chapter 10) and the server
  that also stores what it echoes (chapter 11).  Every loop takes its bound as fuel.  Buffers
  are passed along because the programs reuse them without clearing; \<open>buf\<close> is the
  uninitialised array at the start.  \<^verbatim>\<open>fork\<close> is a call like any other: its reply decides which
  process the history belongs to.
\<close>

subsection \<open>chap4/echo\_server.c\<close>

text \<open>\<^verbatim>\<open>while ((str_len = read(...)) != 0) write(..., str_len)\<close>.  A negative length is converted to
  a huge \<^verbatim>\<open>size_t\<close> count, far more than \<open>message\<close> holds; what \<^verbatim>\<open>write\<close> does with such a count
  is not defined.\<close>

fun echo_conn :: "os \<Rightarrow> nat \<Rightarrow> nat \<Rightarrow> int \<Rightarrow> string \<Rightarrow> hist \<Rightarrow> string flow" where
  "echo_conn os 0 bsz fd buf h = Cut h"
| "echo_conn os (Suc n) bsz fd buf h =
     (let (r, h1) = call os (Read fd bsz) h;
          message = fill buf (data r);
          str_len = ret r
      in if str_len = 0 then Next message h1
         else if str_len < 0 \<or> length message < nat str_len then Undef h1
         else echo_conn os n bsz fd message
                (do_call os (Write fd (take (nat str_len) message)) h1))"

fun echo_server_loop :: "os \<Rightarrow> nat \<Rightarrow> nat \<Rightarrow> int \<Rightarrow> nat \<Rightarrow> string \<Rightarrow> hist \<Rightarrow> int flow" where
  "echo_server_loop os fuel 0 s i buf h = Cut h"
| "echo_server_loop os fuel (Suc k) s i buf h =
     (let (r, h1) = call os (Accept s) h
      in if ret r = - 1 then error_handling os ''accept() error'' h1
         else then_do
           (echo_conn os fuel 1024 (ret r) buf
             (do_call os (Printf (ln ''Connected client %d'') [PI (int i + 1)]) h1))
           (\<lambda>buf' h2. echo_server_loop os fuel k s (i + 1) buf' (do_call os (Close (ret r)) h2)))"

definition echo_server_main :: "os \<Rightarrow> nat \<Rightarrow> nat \<Rightarrow> string list \<Rightarrow> string \<Rightarrow> hist \<Rightarrow> int flow" where
  "echo_server_main os fuel rounds argv buf h =
     (if length argv \<noteq> 2 then usage os ''Usage : %s <port>'' argv h
      else then_do (server_setup os (argv ! 1) h)
             (\<lambda>s h1. echo_server_loop os fuel rounds s 0 buf h1))"

subsection \<open>chap4/echo\_client.c\<close>

text \<open>\<^verbatim>\<open>fgets\<close>: at end of file it returns \<open>NULL\<close> and leaves the buffer alone.\<close>

definition fgets_buf :: "string \<Rightarrow> reply \<Rightarrow> string" where
  "fgets_buf buf r = (if ret r = 0 then buf else fill buf (data r @ [NUL]))"

definition is_quit :: "string \<Rightarrow> bool" where
  "is_quit message \<longleftrightarrow> c_str message = ln ''q'' \<or> c_str message = ln ''Q''"

fun echo_client_loop :: "os \<Rightarrow> nat \<Rightarrow> int \<Rightarrow> string \<Rightarrow> hist \<Rightarrow> unit flow" where
  "echo_client_loop os 0 fd buf h = Cut h"
| "echo_client_loop os (Suc n) fd buf h =
     (let h1 = do_call os (Fputs ''Input message (Q to quit): '' c_stdout) h;
          (r, h2) = call os (Fgets c_stdin 1024) h1;
          message = fgets_buf buf r
      in if is_quit message then Next () h2
         else let h3 = do_call os (Write fd (c_str message)) h2;
                  (r', h4) = call os (Read fd 1023) h3
              in (case put_nul (fill message (data r')) (ret r') of
                    None \<Rightarrow> Undef h4
                  | Some message' \<Rightarrow>
                      echo_client_loop os n fd message'
                        (do_call os (Printf (ln ''Message from server: %s'') [PS (c_str message')]) h4)))"

definition echo_client_main :: "os \<Rightarrow> nat \<Rightarrow> string list \<Rightarrow> string \<Rightarrow> hist \<Rightarrow> int flow" where
  "echo_client_main os fuel argv buf h =
     (if length argv \<noteq> 3 then usage os ''Usage: %s <IP> <Port>'' argv h
      else then_do (client_setup os (argv ! 1) (argv ! 2) h) (\<lambda>s h1.
           then_do (echo_client_loop os fuel s buf (do_call os (Printf (ln ''Connected ...'') []) h1))
             (\<lambda>_ h2. Next 0 (do_call os (Close s) h2))))"

subsection \<open>chap5/echo\_client.c\<close>

text \<open>The client that reads until it has as many bytes as it sent.  Every read stores at the start
  of \<open>message\<close>.\<close>

fun receive_all :: "os \<Rightarrow> nat \<Rightarrow> int \<Rightarrow> int \<Rightarrow> int \<Rightarrow> string \<Rightarrow> hist \<Rightarrow> (int \<times> string) flow" where
  "receive_all os 0 fd str_len receive_len message h = Cut h"
| "receive_all os (Suc n) fd str_len receive_len message h =
     (if receive_len < str_len then
        let (r, h1) = call os (Read fd 1023) h
        in if ret r = - 1 then error_handling os ''read() error'' h1
           else receive_all os n fd str_len (receive_len + ret r) (fill message (data r)) h1
      else Next (receive_len, message) h)"

fun echo_client5_loop :: "os \<Rightarrow> nat \<Rightarrow> nat \<Rightarrow> int \<Rightarrow> string \<Rightarrow> hist \<Rightarrow> unit flow" where
  "echo_client5_loop os fuel 0 fd buf h = Cut h"
| "echo_client5_loop os fuel (Suc n) fd buf h =
     (let h1 = do_call os (Fputs ''Input message (Q to quit): '' c_stdout) h;
          (r, h2) = call os (Fgets c_stdin 1024) h1;
          message = fgets_buf buf r
      in if is_quit message then Next () h2
         else let (w, h3) = call os (Write fd (c_str message)) h2
              in then_do (receive_all os fuel fd (ret w) 0 message h3) (\<lambda>(receive_len, message') h4.
                   case put_nul message' receive_len of
                     None \<Rightarrow> Undef h4
                   | Some message'' \<Rightarrow>
                       echo_client5_loop os fuel n fd message''
                         (do_call os (Printf (ln ''Message from server: %s'') [PS (c_str message'')]) h4)))"

definition echo_client5_main :: "os \<Rightarrow> nat \<Rightarrow> nat \<Rightarrow> string list \<Rightarrow> string \<Rightarrow> hist \<Rightarrow> int flow" where
  "echo_client5_main os fuel rounds argv buf h =
     (if length argv \<noteq> 3 then usage os ''Usage: %s <IP> <Port>'' argv h
      else then_do (client_setup os (argv ! 1) (argv ! 2) h) (\<lambda>s h1.
           then_do (echo_client5_loop os fuel rounds s buf (do_call os (Printf (ln ''Connected ...'') []) h1))
             (\<lambda>_ h2. Next 0 (do_call os (Close s) h2))))"

subsection \<open>chap9/reuseaddr\_server.c\<close>

text \<open>\<^verbatim>\<open>while (str_len = read(...) != 0)\<close> assigns the comparison: \<open>str_len\<close> is 1 in the body, so one
  byte of every chunk is echoed (also when \<^verbatim>\<open>read\<close> fails).\<close>

fun reuseaddr_conn :: "os \<Rightarrow> nat \<Rightarrow> int \<Rightarrow> string \<Rightarrow> hist \<Rightarrow> unit flow" where
  "reuseaddr_conn os 0 fd buf h = Cut h"
| "reuseaddr_conn os (Suc n) fd buf h =
     (let (r, h1) = call os (Read fd 30) h;
          message = fill buf (data r);
          str_len = (if ret r \<noteq> 0 then 1 else 0 :: nat)
      in if str_len = 0 then Next () h1
         else reuseaddr_conn os n fd message
                (do_call os (Write 1 (take str_len message))
                  (do_call os (Write fd (take str_len message)) h1)))"

definition reuseaddr_server_main :: "os \<Rightarrow> nat \<Rightarrow> string list \<Rightarrow> string \<Rightarrow> hist \<Rightarrow> int flow" where
  "reuseaddr_server_main os fuel argv buf h =
     (if length argv \<noteq> 2 then usage os ''Usage : %s <port>'' argv h
      else then_do (checked os (Socket PF_INET SOCK_STREAM 0) ''socket() error'' h) (\<lambda>s h1.
           let h2 = do_call os (Setsockopt s 1 2 [CHR 0x01, NUL, NUL, NUL]) h1
           in then_do (checked os (Bind s (any_addr (argv ! 1))) ''bind() error'' h2) (\<lambda>_ h3.
              then_do (checked os (Listen s 5) ''listen() error'' h3) (\<lambda>_ h4.
              let (c, h5) = call os (Accept s) h4
              in then_do (reuseaddr_conn os fuel (ret c) buf h5)
                   (\<lambda>_ h6. Next 0 (do_call os (Close s) (do_call os (Close (ret c)) h6)))))))"

subsection \<open>chap6: UDP\<close>

fun uecho_server_loop :: "os \<Rightarrow> nat \<Rightarrow> int \<Rightarrow> string \<Rightarrow> hist \<Rightarrow> unit flow" where
  "uecho_server_loop os 0 s buf h = Cut h"
| "uecho_server_loop os (Suc n) s buf h =
     (let (r, h1) = call os (Recvfrom s 30) h;
          message = fill buf (data r)
      in if ret r < 0 \<or> length message < nat (ret r) then Undef h1
         else uecho_server_loop os n s message
                (do_call os (Sendto s (take (nat (ret r)) message) (peer r)) h1))"

definition uecho_server_main :: "os \<Rightarrow> nat \<Rightarrow> string list \<Rightarrow> string \<Rightarrow> hist \<Rightarrow> int flow" where
  "uecho_server_main os fuel argv buf h =
     (if length argv \<noteq> 2 then usage os ''Usage : %s <port>'' argv h
      else then_do (checked os (Socket PF_INET SOCK_DGRAM 0) ''UDP socket creation error'' h) (\<lambda>s h1.
           then_do (checked os (Bind s (any_addr (argv ! 1))) ''bind() error'' h1) (\<lambda>_ h2.
           then_do (uecho_server_loop os fuel s buf h2)
             (\<lambda>_ h3. Next 0 (do_call os (Close s) h3)))))"

fun uecho_client_loop :: "os \<Rightarrow> nat \<Rightarrow> int \<Rightarrow> sockaddr_in \<Rightarrow> string \<Rightarrow> hist \<Rightarrow> unit flow" where
  "uecho_client_loop os 0 s server buf h = Cut h"
| "uecho_client_loop os (Suc n) s server buf h =
     (let h1 = do_call os (Fputs ''Input message (Q or q to quit): '' c_stdout) h;
          (r, h2) = call os (Fgets c_stdin 30) h1;
          message = fgets_buf buf r
      in if is_quit message then Next () h2
         else let h3 = do_call os (Sendto s (c_str message) server) h2;
                  (r', h4) = call os (Recvfrom s 30) h3
              in (case put_nul (fill message (data r')) (ret r') of
                    None \<Rightarrow> Undef h4
                  | Some message' \<Rightarrow>
                      uecho_client_loop os n s server message'
                        (do_call os (Printf (ln ''Message from server: %s'') [PS (c_str message')]) h4)))"

definition uecho_client_main :: "os \<Rightarrow> nat \<Rightarrow> string list \<Rightarrow> string \<Rightarrow> hist \<Rightarrow> int flow" where
  "uecho_client_main os fuel argv buf h =
     (if length argv \<noteq> 3 then usage os ''Usage: %s <IP> <Port>'' argv h
      else then_do (checked os (Socket PF_INET SOCK_DGRAM 0) ''sock() error'' h) (\<lambda>s h1.
           then_do (uecho_client_loop os fuel s (peer_addr (argv ! 1) (argv ! 2)) buf h1)
             (\<lambda>_ h2. Next 0 (do_call os (Close s) h2))))"

fun uecho_con_client_loop :: "os \<Rightarrow> nat \<Rightarrow> int \<Rightarrow> string \<Rightarrow> hist \<Rightarrow> unit flow" where
  "uecho_con_client_loop os 0 s buf h = Cut h"
| "uecho_con_client_loop os (Suc n) s buf h =
     (let h1 = do_call os (Fputs ''Input message (Q or q to quit): '' c_stdout) h;
          (r, h2) = call os (Fgets c_stdin 30) h1;
          message = fgets_buf buf r
      in if is_quit message then Next () h2
         else let h3 = do_call os (Write s (c_str message)) h2;
                  (r', h4) = call os (Read s 29) h3
              in (case put_nul (fill message (data r')) (ret r') of
                    None \<Rightarrow> Undef h4
                  | Some message' \<Rightarrow>
                      uecho_con_client_loop os n s message'
                        (do_call os (Printf (ln ''Message from server: %s'') [PS (c_str message')]) h4)))"

definition uecho_con_client_main :: "os \<Rightarrow> nat \<Rightarrow> string list \<Rightarrow> string \<Rightarrow> hist \<Rightarrow> int flow" where
  "uecho_con_client_main os fuel argv buf h =
     (if length argv \<noteq> 3 then usage os ''Usage: %s <IP> <Port>'' argv h
      else then_do (checked os (Socket PF_INET SOCK_DGRAM 0) ''sock() error'' h) (\<lambda>s h1.
           then_do (uecho_con_client_loop os fuel s buf
                      (do_call os (Connect s (peer_addr (argv ! 1) (argv ! 2))) h1))
             (\<lambda>_ h2. Next 0 (do_call os (Close s) h2))))"

subsection \<open>chap10: one process per client\<close>

definition Fork_checked :: "os \<Rightarrow> hist \<Rightarrow> int flow" where
  "Fork_checked os h =
     (let (r, h1) = call os Fork h
      in if ret r = - 1 then Exited 1 (do_call os (Printf (ln ''fork failed'') []) h1)
         else Next (ret r) h1)"

definition mp_read_childproc :: "os \<Rightarrow> hist \<Rightarrow> hist" where
  "mp_read_childproc os h =
     (let (r, h1) = call os (Waitpid (- 1) 1) h
      in do_call os (Printf (ln ''removed child process id: %d'') [PI (ret r)]) h1)"

definition echo_mp_child :: "os \<Rightarrow> nat \<Rightarrow> int \<Rightarrow> int \<Rightarrow> string \<Rightarrow> hist \<Rightarrow> int flow" where
  "echo_mp_child os fuel serv_sock clnt_sock buf h =
     then_do (echo_conn os fuel 30 clnt_sock buf (do_call os (Close serv_sock) h))
       (\<lambda>_ h1. Next 0 (do_call os (Puts ''clint disconnected.'') (do_call os (Close clnt_sock) h1)))"

fun echo_mp_server_loop :: "os \<Rightarrow> nat \<Rightarrow> nat \<Rightarrow> int \<Rightarrow> string \<Rightarrow> hist \<Rightarrow> int flow" where
  "echo_mp_server_loop os fuel 0 serv_sock buf h = Cut h"
| "echo_mp_server_loop os fuel (Suc k) serv_sock buf h =
     (let (r, h1) = call os (Accept serv_sock) h
      in if ret r = - 1 then echo_mp_server_loop os fuel k serv_sock buf h1
         else then_do (Fork_checked os (do_call os (Puts ''new client connected ...'') h1)) (\<lambda>pid h2.
           if pid = - 1 then echo_mp_server_loop os fuel k serv_sock buf (do_call os (Close (ret r)) h2)
           else if pid = 0 then echo_mp_child os fuel serv_sock (ret r) buf h2
           else echo_mp_server_loop os fuel k serv_sock buf (do_call os (Close (ret r)) h2)))"

text \<open>The prologue of the servers that do not check \<^verbatim>\<open>socket\<close>.\<close>

definition server_setup_unchecked :: "os \<Rightarrow> string \<Rightarrow> hist \<Rightarrow> int flow" where
  "server_setup_unchecked os port h =
     (let (r, h1) = call os (Socket PF_INET SOCK_STREAM 0) h;
          s = ret r
      in then_do (checked os (Bind s (any_addr port)) ''bind() error'' h1) (\<lambda>_ h2.
         then_do (checked os (Listen s 5) ''listen() error'' h2) (\<lambda>_ h3. Next s h3)))"

definition echo_mp_server_main :: "os \<Rightarrow> nat \<Rightarrow> nat \<Rightarrow> string list \<Rightarrow> string \<Rightarrow> hist \<Rightarrow> int flow" where
  "echo_mp_server_main os fuel rounds argv buf h =
     (if length argv \<noteq> 2 then usage os ''Usage : %s <port>'' argv h
      else then_do (server_setup_unchecked os (argv ! 1) (do_call os (Sigaction 17 ''read_childproc'') h))
             (\<lambda>s h1. echo_mp_server_loop os fuel rounds s buf h1))"

fun mp_read_routine :: "os \<Rightarrow> nat \<Rightarrow> int \<Rightarrow> string \<Rightarrow> hist \<Rightarrow> unit flow" where
  "mp_read_routine os 0 sock buf h = Cut h"
| "mp_read_routine os (Suc n) sock buf h =
     (let (r, h1) = call os (Read sock 30) h
      in if ret r = 0 then Next () h1
         else (case put_nul (fill buf (data r)) (ret r) of
                 None \<Rightarrow> Undef h1
               | Some buf' \<Rightarrow>
                   mp_read_routine os n sock buf'
                     (do_call os (Printf ''Message from server: %s'' [PS (c_str buf')]) h1)))"

text \<open>\<open>write_routine\<close> has no exit: after \<^verbatim>\<open>q\<close> it shuts the write side down and writes on.\<close>

fun mp_write_routine :: "os \<Rightarrow> nat \<Rightarrow> int \<Rightarrow> string \<Rightarrow> hist \<Rightarrow> unit flow" where
  "mp_write_routine os 0 sock buf h = Cut h"
| "mp_write_routine os (Suc n) sock buf h =
     (let h1 = do_call os (Fputs ''Input message (Q to quit): '' c_stdout) h;
          (r, h2) = call os (Fgets c_stdin 30) h1;
          buf1 = fgets_buf buf r;
          h3 = (if is_quit buf1 then do_call os (Shutdown sock SHUT_WR) h2 else h2)
      in mp_write_routine os n sock buf1 (do_call os (Write sock (c_str buf1)) h3))"

definition echo_mp_client_main :: "os \<Rightarrow> nat \<Rightarrow> string list \<Rightarrow> string \<Rightarrow> hist \<Rightarrow> int flow" where
  "echo_mp_client_main os fuel argv buf h =
     (if length argv \<noteq> 3 then usage os ''Usage: %s <IP> <Port>'' argv h
      else then_do (client_setup os (argv ! 1) (argv ! 2) h) (\<lambda>s h1.
           then_do (Fork_checked os h1) (\<lambda>pid h2.
           then_do (if pid = 0 then mp_write_routine os fuel s buf h2 else mp_read_routine os fuel s buf h2)
             (\<lambda>_ h3. Next 0 (do_call os (Close s) h3)))))"

subsection \<open>chap11/echo\_store\_server.c\<close>

fun echo_store_conn :: "os \<Rightarrow> nat \<Rightarrow> int \<Rightarrow> int \<Rightarrow> string \<Rightarrow> hist \<Rightarrow> unit flow" where
  "echo_store_conn os 0 fd pipe_w buf h = Cut h"
| "echo_store_conn os (Suc n) fd pipe_w buf h =
     (let (r, h1) = call os (Read fd 30) h;
          buf' = fill buf (data r);
          str_len = ret r
      in if str_len = 0 then Next () h1
         else if str_len < 0 \<or> length buf' < nat str_len then Undef h1
         else echo_store_conn os n fd pipe_w buf'
                (do_call os (Write pipe_w (take (nat str_len) buf'))
                  (do_call os (Write fd (take (nat str_len) buf')) h1)))"

text \<open>The storing process: ten reads from the pipe into the file.  Nothing checks \<^verbatim>\<open>fopen\<close> (the
  null pointer is 0 here) or \<^verbatim>\<open>pipe\<close> (without descriptors in its reply the array is not set).\<close>

fun store_loop :: "os \<Rightarrow> nat \<Rightarrow> int \<Rightarrow> int \<Rightarrow> string \<Rightarrow> hist \<Rightarrow> unit flow" where
  "store_loop os 0 pipe_r fp buf h = Next () h"
| "store_loop os (Suc n) pipe_r fp buf h =
     (let (r, h1) = call os (Read pipe_r 30) h;
          buf' = fill buf (data r)
      in if fp = 0 \<or> ret r < 0 \<or> length buf' < nat (ret r) then Undef h1
         else store_loop os n pipe_r fp buf' (do_call os (Fwrite fp (take (nat (ret r)) buf')) h1))"

definition store_process :: "os \<Rightarrow> int \<Rightarrow> string \<Rightarrow> hist \<Rightarrow> int flow" where
  "store_process os pipe_r buf h =
     (let (f, h1) = call os (Fopen ''echo_message.txt'' ''wt'') h
      in then_do (store_loop os 10 pipe_r (ret f) buf h1)
           (\<lambda>_ h2. if ret f = 0 then Undef h2 else Next 0 (do_call os (Fclose (ret f)) h2)))"

fun echo_store_server_loop :: "os \<Rightarrow> nat \<Rightarrow> nat \<Rightarrow> int \<Rightarrow> int \<Rightarrow> string \<Rightarrow> hist \<Rightarrow> int flow" where
  "echo_store_server_loop os fuel 0 serv_sock pipe_w buf h = Cut h"
| "echo_store_server_loop os fuel (Suc k) serv_sock pipe_w buf h =
     (let (r, h1) = call os (Accept serv_sock) h
      in if ret r = - 1 then echo_store_server_loop os fuel k serv_sock pipe_w buf h1
         else then_do (Fork_checked os (do_call os (Puts ''new client connected ...'') h1)) (\<lambda>pid h2.
           if pid = - 1 then
             echo_store_server_loop os fuel k serv_sock pipe_w buf (do_call os (Close (ret r)) h2)
           else if pid = 0 then
             then_do (echo_store_conn os fuel (ret r) pipe_w buf (do_call os (Close serv_sock) h2))
               (\<lambda>_ h3. Next 0 (do_call os (Puts ''clint disconnected.'') (do_call os (Close (ret r)) h3)))
           else echo_store_server_loop os fuel k serv_sock pipe_w buf (do_call os (Close (ret r)) h2)))"

definition echo_store_server_main :: "os \<Rightarrow> nat \<Rightarrow> nat \<Rightarrow> string list \<Rightarrow> string \<Rightarrow> string \<Rightarrow> hist \<Rightarrow> int flow" where
  "echo_store_server_main os fuel rounds argv buf msg_buf h =
     (if length argv \<noteq> 2 then usage os ''Usage : %s <port>'' argv h
      else then_do (server_setup_unchecked os (argv ! 1) (do_call os (Sigaction 17 ''read_childproc'') h)) (\<lambda>s h1.
           let (p, h2) = call os Pipe h1
           in (case fds p of
                 [pipe_r, pipe_w] \<Rightarrow>
                   then_do (Fork_checked os h2) (\<lambda>pid h3.
                     if pid = 0 then store_process os (int pipe_r) msg_buf h3
                     else echo_store_server_loop os fuel rounds s (int pipe_w) buf h3)
               | _ \<Rightarrow> Undef h2)))"

end
