(* ===== verification/Net_Stream.thy ===== *)
theory Net_Stream
  imports Net_Echo
begin

text \<open>
  What the echo servers guarantee over a stream socket.

  A TCP peer that sends the bytes \<open>s\<close> and then closes its end is described by the documented
  behaviour of \<^verbatim>\<open>read\<close>: while bytes are pending it returns some non-empty prefix of them that
  fits the request, however the network cuts the stream, and 0 once they are exhausted
  (\<open>stream_read\<close>).  \<open>sessions\<close> splits the history of a server into its connections.
\<close>

subsection \<open>Streams\<close>

definition stream_read :: "nat \<Rightarrow> string \<Rightarrow> reply \<Rightarrow> bool" where
  "stream_read n rest r \<longleftrightarrow>
     (if rest = [] then ret r = 0 \<and> data r = []
      else ret r = int (length (data r)) \<and> data r \<noteq> [] \<and> length (data r) \<le> n
           \<and> data r = take (length (data r)) rest)"

definition peer_stream :: "os \<Rightarrow> int \<Rightarrow> string \<Rightarrow> bool" where
  "peer_stream os fd s \<longleftrightarrow> (\<forall>h n. 0 < n \<longrightarrow> (\<exists>rest. s = received fd h @ rest) \<longrightarrow>
     stream_read n (drop (length (received fd h)) s) (os h (Read fd n)))"

text \<open>One connection of a server: its descriptor, what was read and what was written.\<close>

record session =
  conn :: int
  inp :: string
  outp :: string

fun sess_step :: "sys \<times> reply \<Rightarrow> session list \<Rightarrow> session list" where
  "sess_step (Accept s, r) ss = ss @ [\<lparr>conn = ret r, inp = [], outp = []\<rparr>]"
| "sess_step (Read fd n, r) ss =
     (if ss \<noteq> [] \<and> conn (last ss) = fd
      then butlast ss @ [(last ss)\<lparr>inp := inp (last ss) @ data r\<rparr>] else ss)"
| "sess_step (Write fd d, r) ss =
     (if ss \<noteq> [] \<and> conn (last ss) = fd
      then butlast ss @ [(last ss)\<lparr>outp := outp (last ss) @ d\<rparr>] else ss)"
| "sess_step (_, r) ss = ss"

definition sessions :: "hist \<Rightarrow> session list" where
  "sessions h = fold sess_step h []"

lemma sessions_Nil [simp]: "sessions [] = []"
  by (simp add: sessions_def)

lemma sessions_snoc [simp]: "sessions (h @ [x]) = sess_step x (sessions h)"
  by (simp add: sessions_def)

text \<open>The clients of a server: the connections are accepted without error and the \<open>i\<close>-th client
  sends \<open>ms ! i\<close> and closes.\<close>

definition clients :: "os \<Rightarrow> int \<Rightarrow> string list \<Rightarrow> bool" where
  "clients os s ms \<longleftrightarrow>
     (\<forall>h. length (sessions h) < length ms \<longrightarrow> 0 \<le> ret (os h (Accept s))) \<and>
     (\<forall>h n. 0 < n \<longrightarrow> sessions h \<noteq> [] \<longrightarrow> length (sessions h) \<le> length ms \<longrightarrow>
        (\<exists>rest. ms ! (length (sessions h) - 1) = inp (last (sessions h)) @ rest) \<longrightarrow>
        stream_read n (drop (length (inp (last (sessions h)))) (ms ! (length (sessions h) - 1)))
          (os h (Read (conn (last (sessions h))) n)))"

lemma stream_read_end: "stream_read n [] r \<longleftrightarrow> ret r = 0 \<and> data r = []"
  by (simp add: stream_read_def)

lemma stream_read_split:
  assumes "stream_read n rest r" "rest \<noteq> []"
  shows "ret r = int (length (data r))" "data r \<noteq> []" "length (data r) \<le> n"
    "rest = data r @ drop (length (data r)) rest"
  using assms append_take_drop_id [of "length (data r)" rest]
  by (auto simp: stream_read_def)

subsection \<open>One connection\<close>

text \<open>The echo loop over any account \<open>pend\<close> of the bytes still to come: it ends, and whatever
  \<open>obs\<close> counts as written grows by exactly the pending bytes.\<close>

lemma echo_conn_pending:
  assumes rd: "\<And>h. I h \<Longrightarrow> stream_read bsz (pend h) (os h (Read fd bsz))"
    and step: "\<And>h d w. I h \<Longrightarrow> pend h \<noteq> [] \<Longrightarrow> d = data (os h (Read fd bsz)) \<Longrightarrow>
        let h' = h @ [(Read fd bsz, os h (Read fd bsz))] @ [(Write fd d, w)]
        in I h' \<and> pend h' = drop (length d) (pend h) \<and> obs h' = obs h @ d"
    and stop: "\<And>h. I h \<Longrightarrow> pend h = [] \<Longrightarrow>
        I (h @ [(Read fd bsz, os h (Read fd bsz))]) \<and>
        pend (h @ [(Read fd bsz, os h (Read fd bsz))]) = [] \<and>
        obs (h @ [(Read fd bsz, os h (Read fd bsz))]) = obs h"
    and "I h" "length (pend h) < n" "bsz \<le> length buf"
  shows "\<exists>m h'. echo_conn os n bsz fd buf h = Next m h' \<and> length m = length buf
           \<and> I h' \<and> pend h' = [] \<and> obs h' = obs h @ pend h"
  using assms(4-)
proof (induction n arbitrary: buf h)
  case 0
  then show ?case by simp
next
  case (Suc n)
  let ?r = "os h (Read fd bsz)"
  show ?case
  proof (cases "pend h = []")
    case True
    with rd [OF Suc.prems(1)] have "ret ?r = 0" "data ?r = []" by (auto simp: stream_read_end)
    with stop [OF Suc.prems(1) True] True show ?thesis
      by (simp add: call_def fill_def)
  next
    case False
    note r = stream_read_split [OF rd [OF Suc.prems(1)] False]
    let ?h1 = "h @ [(Read fd bsz, ?r)]"
    let ?h' = "h @ [(Read fd bsz, ?r)] @ [(Write fd (data ?r), os ?h1 (Write fd (data ?r)))]"
    from step [OF Suc.prems(1) False refl, of "os ?h1 (Write fd (data ?r))"]
    have h': "I ?h'" "pend ?h' = drop (length (data ?r)) (pend h)" "obs ?h' = obs h @ data ?r"
      by (simp_all add: Let_def)
    have len: "length (fill buf (data ?r)) = length buf"
      using r(3) Suc.prems(3) by simp
    have "0 < length (data ?r)" "0 < length (pend h)" using r(2) False by auto
    then have "length (pend ?h') < n" unfolding h'(2) length_drop using Suc.prems(2) by linarith
    from Suc.IH [OF h'(1) this, of "fill buf (data ?r)"] len Suc.prems(3)
    obtain m h2 where *: "echo_conn os n bsz fd (fill buf (data ?r)) ?h' = Next m h2"
      "length m = length buf" "I h2" "pend h2 = []" "obs h2 = obs ?h' @ pend ?h'"
      by auto
    have "obs h2 = obs h @ pend h"
      using * (5) h'(2,3) r(4) by simp
    moreover have "echo_conn os (Suc n) bsz fd buf h = Next m h2"
      using r(1-3) len Suc.prems(3) * (1)
      by (simp add: call_def do_call_eq not_less)
    ultimately show ?thesis using * by blast
  qed
qed

lemma peer_stream_read:
  assumes "peer_stream os fd s" "s = received fd h @ rest" "0 < n"
  shows "stream_read n rest (os h (Read fd n))"
proof -
  have "stream_read n (drop (length (received fd h)) s) (os h (Read fd n))"
    using assms unfolding peer_stream_def by blast
  then show ?thesis using assms(2) by simp
qed

subsection \<open>All clients of the iterative server\<close>

text \<open>The session being served is number \<open>k\<close> and has read a prefix of \<open>ms ! k\<close>.\<close>

definition serving :: "string list \<Rightarrow> session list \<Rightarrow> int \<Rightarrow> hist \<Rightarrow> bool" where
  "serving ms ss fd h \<longleftrightarrow> (\<exists>x. sessions h = ss @ [x] \<and> conn x = fd \<and>
     length ss < length ms \<and> (\<exists>rest. ms ! length ss = inp x @ rest))"

definition pending :: "string list \<Rightarrow> hist \<Rightarrow> string" where
  "pending ms h = drop (length (inp (last (sessions h)))) (ms ! (length (sessions h) - 1))"

lemma serving_read:
  assumes "clients os s ms" "serving ms ss fd h" "0 < n"
  shows "stream_read n (pending ms h) (os h (Read fd n))"
proof -
  from assms(2) obtain x rest where x: "sessions h = ss @ [x]" "conn x = fd"
    "length ss < length ms" "ms ! length ss = inp x @ rest" unfolding serving_def by blast
  have "stream_read n (drop (length (inp (last (sessions h)))) (ms ! (length (sessions h) - 1)))
          (os h (Read (conn (last (sessions h))) n))"
    using assms(1,3) x unfolding clients_def by (metis Suc_leI append_is_Nil_conv diff_Suc_1
      last_snoc length_append_singleton list.discI)
  then show ?thesis using x by (simp add: pending_def)
qed

lemma serving_conn:
  assumes cl: "clients os s ms" and sv: "serving ms ss fd h" and fuel: "length (pending ms h) < n"
    and "0 < bsz" "bsz \<le> length buf"
  shows "\<exists>m h'. echo_conn os n bsz fd buf h = Next m h' \<and> length m = length buf
           \<and> serving ms ss fd h' \<and> pending ms h' = []
           \<and> outp (last (sessions h')) = outp (last (sessions h)) @ pending ms h"
proof (rule echo_conn_pending [where I = "serving ms ss fd" and pend = "pending ms"
      and obs = "\<lambda>h. outp (last (sessions h))"])
  show rd: "stream_read bsz (pending ms h) (os h (Read fd bsz))" if "serving ms ss fd h" for h
    using serving_read [OF cl that \<open>0 < bsz\<close>] .
  show "let h' = h @ [(Read fd bsz, os h (Read fd bsz))] @ [(Write fd d, w)]
        in serving ms ss fd h' \<and> pending ms h' = drop (length d) (pending ms h)
           \<and> outp (last (sessions h')) = outp (last (sessions h)) @ d"
    if I: "serving ms ss fd h" and p: "pending ms h \<noteq> []" and d: "d = data (os h (Read fd bsz))"
    for h d w
  proof -
    from I obtain x rest where x: "sessions h = ss @ [x]" "conn x = fd" "length ss < length ms"
      "ms ! length ss = inp x @ rest" unfolding serving_def by blast
    have "rest = d @ drop (length d) rest"
      using stream_read_split(4) [OF rd [OF I] p] x d by (simp add: pending_def)
    then have "ms ! length ss = (inp x @ d) @ drop (length d) rest" using x(4) by simp
    moreover have "sessions (h @ [(Read fd bsz, os h (Read fd bsz))] @ [(Write fd d, w)]) =
        ss @ [x\<lparr>inp := inp x @ d, outp := outp x @ d\<rparr>]"
      using x d by (simp add: sessions_snoc [of "h @ [_]", simplified])
    ultimately show ?thesis
      using x(1-3) x(4) unfolding Let_def serving_def pending_def by auto
  qed
  show "serving ms ss fd (h @ [(Read fd bsz, os h (Read fd bsz))]) \<and>
        pending ms (h @ [(Read fd bsz, os h (Read fd bsz))]) = [] \<and>
        outp (last (sessions (h @ [(Read fd bsz, os h (Read fd bsz))]))) = outp (last (sessions h))"
    if I: "serving ms ss fd h" and p: "pending ms h = []" for h
  proof -
    have "data (os h (Read fd bsz)) = []" using rd [OF I] p by (simp add: stream_read_end)
    with I p show ?thesis by (auto simp: serving_def pending_def)
  qed
qed (use assms in auto)

lemma sessions_idle [simp]:
  "sess_step (Printf f a, r) ss = ss" "sess_step (Close c, r) ss = ss"
  by simp_all

text \<open>One round of the accept loop.\<close>

lemma echo_server_round:
  assumes cl: "clients os s ms" and fuel: "\<forall>m \<in> set ms. length m < fuel"
    and buf: "length buf = 1024" and more: "length (sessions h) < length ms"
  shows "\<exists>m h' x. length m = 1024 \<and> sessions h' = sessions h @ [x]
           \<and> inp x = ms ! length (sessions h) \<and> outp x = ms ! length (sessions h)
           \<and> (\<forall>k. echo_server_loop os fuel (Suc k) s i buf h = echo_server_loop os fuel k s (i + 1) m h')"
proof -
  let ?r = "os h (Accept s)" and ?ss = "sessions h"
  let ?h1 = "h @ [(Accept s, ?r)]"
  let ?p = "Printf (ln ''Connected client %d'') [PI (int i + 1)]"
  let ?h2 = "?h1 @ [(?p, os ?h1 ?p)]"
  have acc: "0 \<le> ret ?r" using cl more by (simp add: clients_def)
  have sv: "serving ms ?ss (ret ?r) ?h2"
    using more by (simp add: serving_def sessions_snoc [of "h @ [_]", simplified])
  have pend: "pending ms ?h2 = ms ! length ?ss"
    by (simp add: pending_def sessions_snoc [of "h @ [_]", simplified])
  have "length (pending ms ?h2) < fuel" unfolding pend using fuel more by simp
  from serving_conn [OF cl sv this, of 1024 buf] buf
  obtain m h3 where conn: "echo_conn os fuel 1024 (ret ?r) buf ?h2 = Next m h3"
    "length m = 1024" "serving ms ?ss (ret ?r) h3" "pending ms h3 = []"
    "outp (last (sessions h3)) = outp (last (sessions ?h2)) @ pending ms ?h2"
    by auto
  let ?h4 = "h3 @ [(Close (ret ?r), os h3 (Close (ret ?r)))]"
  from conn(3) obtain x where x: "sessions h3 = ?ss @ [x]" "inp x = ms ! length ?ss"
    using conn(4) unfolding serving_def pending_def by auto
  have "outp x = ms ! length ?ss"
    using conn(5) x(1) unfolding pend by (simp add: sessions_snoc [of "h @ [_]", simplified])
  moreover have "echo_server_loop os fuel (Suc k) s i buf h = echo_server_loop os fuel k s (i + 1) m ?h4"
    for k using acc conn(1) by (simp add: call_def do_call_eq)
  ultimately show ?thesis using conn(2) x by (metis sessions_idle(2) sessions_snoc)
qed


text \<open>An operating system that plays such clients, cutting the streams into pieces of at most
  \<open>chunk\<close> bytes.\<close>

definition answer :: "int \<Rightarrow> string \<Rightarrow> reply" where
  "answer v d = \<lparr>ret = v, data = d, peer = \<lparr>s_addr = 0, sin_port = 0\<rparr>,
     fds = [], outv = None\<rparr>"

definition stream_answer :: "nat \<Rightarrow> nat \<Rightarrow> string \<Rightarrow> reply" where
  "stream_answer chunk n rest = (let d = take (min chunk n) rest in answer (int (length d)) d)"

definition stream_os :: "nat \<Rightarrow> string list \<Rightarrow> os" where
  "stream_os chunk ms h c = (case c of
      Read fd n \<Rightarrow> stream_answer chunk n
        (drop (length (inp (last (sessions h)))) (ms ! (length (sessions h) - 1)))
    | _ \<Rightarrow> answer 4 [])"

lemma stream_read_answer: "0 < chunk \<Longrightarrow> 0 < n \<Longrightarrow> stream_read n rest (stream_answer chunk n rest)"
  by (auto simp: stream_read_def stream_answer_def answer_def Let_def min_def)

lemma stream_os_clients: "0 < chunk \<Longrightarrow> clients (stream_os chunk ms) s ms"
  by (auto simp: clients_def stream_os_def answer_def intro!: stream_read_answer)


subsection \<open>The storing server\<close>

lemma received_other [simp]: "received fd [(Write fd' d, r)] = []"
  by simp

lemma echo_store_conn_rest:
  assumes "peer_stream os fd s" "pipe_w \<noteq> fd"
    and "s = received fd h @ rest" "length rest < n" "length buf = 30"
  shows "\<exists>h'. echo_store_conn os n fd pipe_w buf h = Next () h'
           \<and> written fd h' = written fd h @ rest \<and> written pipe_w h' = written pipe_w h @ rest"
  using assms(3-)
proof (induction n arbitrary: rest buf h)
  case 0
  then show ?case by simp
next
  case (Suc n)
  let ?r = "os h (Read fd 30)"
  let ?d = "data ?r"
  have sr: "stream_read 30 rest ?r" using assms(1) Suc.prems(1) by (rule peer_stream_read) simp
  show ?case
  proof (cases "rest = []")
    case True
    with sr show ?thesis by (simp add: call_def stream_read_end)
  next
    case False
    note r = stream_read_split [OF sr False]
    let ?h1 = "h @ [(Read fd 30, ?r)]"
    let ?h2 = "?h1 @ [(Write fd ?d, os ?h1 (Write fd ?d))]"
    let ?h3 = "?h2 @ [(Write pipe_w ?d, os ?h2 (Write pipe_w ?d))]"
    have "s = received fd ?h3 @ drop (length ?d) rest" using Suc.prems(1) r(4) by simp
    moreover have "length (drop (length ?d) rest) < n"
      using r(2) False Suc.prems(2) by (cases ?d; cases rest) auto
    moreover have "length (fill buf ?d) = 30" using r(3) Suc.prems(3) by simp
    ultimately obtain h' where h': "echo_store_conn os n fd pipe_w (fill buf ?d) ?h3 = Next () h'"
      "written fd h' = written fd ?h3 @ drop (length ?d) rest"
      "written pipe_w h' = written pipe_w ?h3 @ drop (length ?d) rest"
      using Suc.IH by blast
    have "echo_store_conn os (Suc n) fd pipe_w buf h = Next () h'"
      using r(1-3) h'(1) Suc.prems(3) by (simp add: call_def do_call_eq not_less)
    with h'(2,3) r(4) assms(2) show ?thesis by simp
  qed
qed

text \<open>The storing echo server.  For a client that sends \<open>s\<close>, cut in any way, and closes, the
  child process returns from its loop having written exactly \<open>s\<close> both back to the client and
  into the pipe to the storing process.\<close>

theorem echo_store_conn_copies:
  assumes "peer_stream os fd s" "pipe_w \<noteq> fd" "received fd h = []"
    and "length s < fuel" "length buf = 30"
  shows "\<exists>h'. echo_store_conn os fuel fd pipe_w buf h = Next () h'
           \<and> written fd h' = written fd h @ s \<and> written pipe_w h' = written pipe_w h @ s"
  using echo_store_conn_rest [OF assms(1,2), of h s] assms(3-) by simp

definition byte_os :: "nat \<Rightarrow> int \<Rightarrow> string \<Rightarrow> os" where
  "byte_os chunk fd s h c = (case c of
      Read fd' n \<Rightarrow> if fd' = fd then stream_answer chunk n (drop (length (received fd h)) s)
                   else answer 0 []
    | _ \<Rightarrow> answer 0 [])"

lemma byte_os_stream: "0 < chunk \<Longrightarrow> peer_stream (byte_os chunk fd s) fd s"
  by (auto simp: peer_stream_def byte_os_def intro!: stream_read_answer)

theorem echo_store_conn_copies_witness:
  "\<exists>h'. echo_store_conn (byte_os 3 5 ''stored text'') 12 5 7 (replicate 30 NUL) [] = Next () h'
     \<and> written 5 h' = ''stored text'' \<and> written 7 h' = ''stored text''"
  using echo_store_conn_copies [OF byte_os_stream [of 3 5 "''stored text''"], of 7 "[]" 12 "replicate 30 NUL"]
  by simp

subsection \<open>Faults shown on concrete runs\<close>

text \<open>The chapter 5 client stores every piece of a reply at the start of its buffer: when the reply
  \<^verbatim>\<open>hello\<close> arrives as \<^verbatim>\<open>hel\<close> and \<^verbatim>\<open>lo\<close>, the text left in the buffer is \<^verbatim>\<open>lolXX\<close>.\<close>

lemma echo_client5_split_reply:
  "\<exists>h. receive_all (byte_os 3 5 ''hello'') 3 5 5 0 (replicate 1024 (CHR ''X'')) [] = Next (5, ''lolXX'' @ replicate 1019 (CHR ''X'')) h"
  by (simp add: numeral_eq_Suc call_def byte_os_def stream_answer_def answer_def fill_def)

text \<open>A read error in the echo loop leads to a write with a negative length.\<close>

lemma echo_conn_read_error:
  "ret (os h (Read fd bsz)) = - 1 \<Longrightarrow>
     \<exists>h'. echo_conn os (Suc n) bsz fd buf h = Undef h'"
  by (simp add: call_def)

text \<open>The chapter 9 server echoes one byte of every piece it reads.\<close>

lemma reuseaddr_echoes_one_byte:
  "\<exists>h. reuseaddr_conn (byte_os 30 5 ''hello'') 2 5 (replicate 30 NUL) [] = Next () h
     \<and> written 5 h = ''h''"
  by (simp add: numeral_eq_Suc call_def do_call_eq byte_os_def stream_answer_def answer_def fill_def)

text \<open>The UDP client and the forking client terminate a reply of 30 bytes outside their buffer.\<close>

definition long_reply_os :: os where
  "long_reply_os h c = (case c of
      Fgets f n \<Rightarrow> answer 1 (ln ''hi'')
    | Recvfrom s n \<Rightarrow> answer (int n) (replicate n (CHR ''x''))
    | Read s n \<Rightarrow> answer (int n) (replicate n (CHR ''x''))
    | _ \<Rightarrow> answer 0 [])"

lemma uecho_client_overflow:
  "\<exists>h. uecho_client_loop long_reply_os 1 3 a (replicate 30 NUL) [] = Undef h"
  by (simp add: call_def do_call_eq long_reply_os_def answer_def fgets_buf_def fill_def is_quit_def
      c_str_def put_nul_def NUL_def nl_def)

lemma mp_read_routine_overflow:
  "\<exists>h. mp_read_routine long_reply_os 1 3 (replicate 30 NUL) [] = Undef h"
  by (simp add: call_def long_reply_os_def answer_def fill_def put_nul_def)

end
