(* ===== verification/Net_File.thy ===== *)
theory Net_File
  imports Net_Stream
begin

text \<open>
  One-way transfers of \<^verbatim>\<open>net-program\<close>: the greeting server with the client that reads a single
  time (chapter 1) and the client that reads byte by byte (chapter 2, whose server is the same
  file as chapter 1's), and the file server and client of chapter 7.

  The theorems follow the bytes from end to end: the byte-wise client receives the greeting
  whatever the segmentation, with its off-by-precedence counter still counting bytes and its
  buffer overrun beyond 30 bytes; the file server puts the whole file on the socket, and the
  client's copy is the file.
\<close>

subsection \<open>chap1/hello\_server.c, chap2/tcp\_server.c\<close>

definition hello_message :: string where
  "hello_message = ''Hello World!'' @ [NUL]"

definition hello_server_main :: "os \<Rightarrow> string list \<Rightarrow> hist \<Rightarrow> int flow" where
  "hello_server_main os argv h =
     (if length argv \<noteq> 2 then usage os ''Usage : %s <port>'' argv h
      else then_do (server_setup os (argv ! 1) h) (\<lambda>server_socket h1.
           then_do (checked os (Accept server_socket) ''accept() error'' h1) (\<lambda>client_socket h2.
           Next 0 (do_call os (Close server_socket)
                    (do_call os (Close client_socket)
                      (do_call os (Write client_socket hello_message) h2))))))"

subsection \<open>chap1/hello\_client.c\<close>

text \<open>The argument check prints the usage and goes on: without the arguments \<^verbatim>\<open>argv[1]\<close> or
  \<^verbatim>\<open>argv[2]\<close> is no string.  The text is printed up to its first NUL, which nothing puts there.\<close>

definition hello_client_main :: "os \<Rightarrow> string list \<Rightarrow> string \<Rightarrow> hist \<Rightarrow> int flow" where
  "hello_client_main os argv buf h =
     (let h1 = (if length argv \<noteq> 3
                then do_call os (Printf (ln ''Usage: %s <IP> <port>'') [PS (argv ! 0)]) h else h)
      in then_do (checked os (Socket PF_INET SOCK_STREAM 0) ''socket() error'' h1) (\<lambda>s h2.
         if length argv < 3 then Undef h2
         else then_do (checked os (Connect s (peer_addr (argv ! 1) (argv ! 2))) ''connect() error'' h2)
           (\<lambda>_ h3. let (r, h4) = call os (Read s 29) h3;
                        message = fill buf (data r)
             in if ret r = - 1 then error_handling os ''read() error'' h4
                else if NUL \<notin> set message then Undef h4
                else Next 0 (do_call os
                       (Printf (ln ''Message from server : %s'') [PS (c_str message)]) h4))))"

subsection \<open>chap2/tcp\_client.c\<close>

text \<open>\<^verbatim>\<open>while (read_len = read(client_socket, &message[idx ++], 1) > 0)\<close>: \<open>read_len\<close> is the truth
  value of the comparison, so the error branch in the body is never taken.\<close>

fun tcp_client_loop ::
    "os \<Rightarrow> nat \<Rightarrow> int \<Rightarrow> nat \<Rightarrow> int \<Rightarrow> string \<Rightarrow> hist \<Rightarrow> (int \<times> string) flow" where
  "tcp_client_loop os 0 fd idx str_len message h = Cut h"
| "tcp_client_loop os (Suc n) fd idx str_len message h =
     (let (r, h1) = call os (Read fd 1) h
      in if data r \<noteq> [] \<and> length message \<le> idx then Undef h1
         else let message' = (if data r = [] then message else message[idx := hd (data r)]);
                  read_len = (if ret r > 0 then 1 else 0 :: int)
              in if read_len = 0 then Next (str_len, message') h1
                 else if read_len = - 1 then error_handling os ''read() error'' h1
                 else tcp_client_loop os n fd (idx + 1) (str_len + read_len) message' h1)"

definition tcp_client_main :: "os \<Rightarrow> nat \<Rightarrow> string list \<Rightarrow> string \<Rightarrow> hist \<Rightarrow> int flow" where
  "tcp_client_main os fuel argv buf h =
     (if length argv \<noteq> 3 then usage os ''Usage : %s <IP> <port>'' argv h
      else then_do (checked os (Socket PF_INET SOCK_STREAM IPPROTO_TCP) ''socket() error'' h) (\<lambda>s h1.
           then_do (checked os (Connect s (peer_addr (argv ! 1) (argv ! 2))) ''connect() error'' h1) (\<lambda>_ h2.
           then_do (tcp_client_loop os fuel s 0 0 buf h2) (\<lambda>(str_len, message) h3.
           if NUL \<notin> set message then Undef h3
           else Next 0 (do_call os (Close s)
                  (do_call os (Printf (ln ''Function read call count: %d'') [PI str_len])
                    (do_call os (Printf (ln ''Message from server: %s'') [PS (c_str message)]) h3)))))))"

subsection \<open>chap7/file\_server.c\<close>

text \<open>No call of this program is checked; \<^verbatim>\<open>fopen\<close> answers 0 for the null pointer.\<close>

fun send_file :: "os \<Rightarrow> nat \<Rightarrow> int \<Rightarrow> int \<Rightarrow> string \<Rightarrow> hist \<Rightarrow> string flow" where
  "send_file os 0 fp fd buf h = Cut h"
| "send_file os (Suc n) fp fd buf h =
     (let (r, h1) = call os (Fread fp 30) h;
          buf' = fill buf (data r);
          read_cnt = ret r
      in if read_cnt < 30
         then (if read_cnt < 0 then Undef h1
               else Next buf' (do_call os (Write fd (take (nat read_cnt) buf')) h1))
         else send_file os n fp fd buf' (do_call os (Write fd (take 30 buf')) h1))"

definition file_server_main :: "os \<Rightarrow> nat \<Rightarrow> string list \<Rightarrow> string \<Rightarrow> hist \<Rightarrow> int flow" where
  "file_server_main os fuel argv buf h =
     (if length argv \<noteq> 2 then usage os ''Usage : %s <port>'' argv h
      else let (f, h1) = call os (Fopen ''file_server.c'' ''rb'') h;
               (s, h2) = call os (Socket PF_INET SOCK_STREAM 0) h1;
               h3 = do_call os (Listen (ret s) 5) (do_call os (Bind (ret s) (any_addr (argv ! 1))) h2);
               (c, h4) = call os (Accept (ret s)) h3
           in if ret f = 0 then Undef h4
              else then_do (send_file os fuel (ret f) (ret c) buf h4) (\<lambda>buf1 h5.
                let h6 = do_call os (Shutdown (ret c) SHUT_WR) h5;
                    (r, h7) = call os (Read (ret c) 30) h6;
                    buf2 = fill buf1 (data r)
                in if NUL \<notin> set buf2 then Undef h7
                   else Next 0 (do_call os (Close (ret c)) (do_call os (Close (ret s))
                          (do_call os (Fclose (ret f))
                            (do_call os (Printf (ln ''Message from client: %s'') [PS (c_str buf2)]) h7))))))"

subsection \<open>chap7/file\_client.c\<close>

fun receive_file :: "os \<Rightarrow> nat \<Rightarrow> int \<Rightarrow> int \<Rightarrow> string \<Rightarrow> hist \<Rightarrow> unit flow" where
  "receive_file os 0 fd fp buf h = Cut h"
| "receive_file os (Suc n) fd fp buf h =
     (let (r, h1) = call os (Read fd 30) h;
          buf' = fill buf (data r);
          read_cnt = ret r
      in if read_cnt = 0 then Next () h1
         else if read_cnt < 0 \<or> length buf' < nat read_cnt \<or> fp = 0 then Undef h1
         else receive_file os n fd fp buf' (do_call os (Fwrite fp (take (nat read_cnt) buf')) h1))"

definition thank_you :: string where
  "thank_you = ''Thank you'' @ [NUL]"

definition file_client_main :: "os \<Rightarrow> nat \<Rightarrow> string list \<Rightarrow> string \<Rightarrow> hist \<Rightarrow> int flow" where
  "file_client_main os fuel argv buf h =
     (if length argv \<noteq> 3 then usage os ''Usage: %s <IP> <Port>'' argv h
      else let (f, h1) = call os (Fopen ''receive.dat'' ''wb'') h;
               (s, h2) = call os (Socket PF_INET SOCK_STREAM 0) h1;
               h3 = do_call os (Connect (ret s) (peer_addr (argv ! 1) (argv ! 2))) h2
           in then_do (receive_file os fuel (ret s) (ret f) buf h3) (\<lambda>_ h4.
                let h5 = do_call os (Write (ret s) thank_you) (do_call os (Puts ''Received file data'') h4)
                in if ret f = 0 then Undef h5
                   else Next 0 (do_call os (Close (ret s)) (do_call os (Fclose (ret f)) h5))))"

subsection \<open>Byte-wise reading\<close>

lemma tcp_client_loop_rest:
  assumes "peer_stream os fd s"
    and "s = received fd h @ rest" "length rest < n" "idx \<le> length message"
  shows "if idx + length rest \<le> length message
         then \<exists>h'. tcp_client_loop os n fd idx k message h =
                Next (k + int (length rest), take idx message @ rest @ drop (idx + length rest) message) h'
         else \<exists>h'. tcp_client_loop os n fd idx k message h = Undef h'"
  using assms(2-)
proof (induction n arbitrary: rest idx k message h)
  case 0
  then show ?case by simp
next
  case (Suc n)
  let ?r = "os h (Read fd 1)"
  have sr: "stream_read 1 rest ?r" using assms(1) Suc.prems(1) by (rule peer_stream_read) simp
  show ?case
  proof (cases rest)
    case Nil
    with sr Suc.prems show ?thesis by (simp add: call_def stream_read_end)
  next
    case (Cons c cs)
    then have r: "ret ?r = 1" "data ?r = [c]"
      using stream_read_split [OF sr] by (cases "data ?r"; simp)+
    show ?thesis
    proof (cases "idx < length message")
      case True
      have "s = received fd (h @ [(Read fd 1, ?r)]) @ cs" using Suc.prems(1) Cons r by simp
      from Suc.IH [OF this, of "idx + 1" "message[idx := c]" "k + 1"] Suc.prems Cons True r
      show ?thesis
        by (simp add: call_def take_Suc_conv_app_nth Suc_le_eq add.assoc split: if_splits)
    next
      case False
      with r Suc.prems Cons show ?thesis by (simp add: call_def)
    qed
  qed
qed

text \<open>The byte-wise client.  Against a server that sends \<open>s\<close> and closes, its loop ends with
  the count of the bytes and with \<open>s\<close> at the start of the buffer exactly when \<open>s\<close> fits the 30
  bytes; a longer text is stored beyond the end of the buffer.\<close>

theorem tcp_client_reads_bytewise:
  assumes "peer_stream os fd s" "received fd h = []" "length s < fuel" "length buf = 30"
  shows "if length s \<le> 30
         then \<exists>h'. tcp_client_loop os fuel fd 0 0 buf h = Next (int (length s), s @ drop (length s) buf) h'
         else \<exists>h'. tcp_client_loop os fuel fd 0 0 buf h = Undef h'"
  using tcp_client_loop_rest [OF assms(1), of h s fuel 0 buf 0] assms(2-)
  by (simp split: if_splits)

theorem tcp_client_reads_bytewise_witness:
  "(\<exists>h'. tcp_client_loop (byte_os 1 3 hello_message) 14 3 0 0 (replicate 30 NUL) [] =
      Next (13, hello_message @ replicate 17 NUL) h')
   \<and> (\<exists>h'. tcp_client_loop (byte_os 1 3 (replicate 31 (CHR ''x''))) 32 3 0 0 (replicate 30 NUL) [] = Undef h')"
proof
  show "\<exists>h'. tcp_client_loop (byte_os 1 3 hello_message) 14 3 0 0 (replicate 30 NUL) [] =
      Next (13, hello_message @ replicate 17 NUL) h'"
    using tcp_client_reads_bytewise [OF byte_os_stream [of 1 3 hello_message], of "[]" 14 "replicate 30 NUL"]
    by (simp add: hello_message_def)
  show "\<exists>h'. tcp_client_loop (byte_os 1 3 (replicate 31 (CHR ''x''))) 32 3 0 0 (replicate 30 NUL) [] = Undef h'"
    using tcp_client_reads_bytewise [OF byte_os_stream [of 1 3 "replicate 31 (CHR ''x'')"], of "[]" 32 "replicate 30 NUL"]
    by simp
qed

subsection \<open>The file transfer\<close>

text \<open>What a process has read from and written to a stdio file.\<close>

fun freaded :: "int \<Rightarrow> hist \<Rightarrow> string" where
  "freaded fp [] = []"
| "freaded fp ((Fread fp' n, r) # h) = (if fp' = fp then data r @ freaded fp h else freaded fp h)"
| "freaded fp (_ # h) = freaded fp h"

fun fwritten :: "int \<Rightarrow> hist \<Rightarrow> string" where
  "fwritten fp [] = []"
| "fwritten fp ((Fwrite fp' d, r) # h) = (if fp' = fp then d @ fwritten fp h else fwritten fp h)"
| "fwritten fp (_ # h) = fwritten fp h"

lemma freaded_append [simp]: "freaded fp (h @ h') = freaded fp h @ freaded fp h'"
  by (induction h rule: freaded.induct) auto

lemma fwritten_append [simp]: "fwritten fp (h @ h') = fwritten fp h @ fwritten fp h'"
  by (induction h rule: fwritten.induct) auto

text \<open>\<^verbatim>\<open>fread\<close> on a regular file with content \<open>c\<close>: full blocks until the end of the file.\<close>

definition file_holds :: "os \<Rightarrow> int \<Rightarrow> string \<Rightarrow> bool" where
  "file_holds os fp c \<longleftrightarrow> (\<forall>h n. let d = take n (drop (length (freaded fp h)) c) in
     data (os h (Fread fp n)) = d \<and> ret (os h (Fread fp n)) = int (length d))"

lemma send_file_rest:
  assumes "file_holds os fp c" and "c = freaded fp h @ rest" "length rest div 30 < n" "length buf = 30"
  shows "\<exists>buf' h'. send_file os n fp fd buf h = Next buf' h' \<and> length buf' = 30
           \<and> written fd h' = written fd h @ rest"
  using assms(2-)
proof (induction n arbitrary: rest buf h)
  case 0
  then show ?case by simp
next
  case (Suc n)
  let ?r = "os h (Fread fp 30)"
  have r: "data ?r = take 30 rest" "ret ?r = int (min 30 (length rest))"
    using assms(1) Suc.prems(1) by (auto simp: file_holds_def Let_def min_def)
  show ?case
  proof (cases "length rest < 30")
    case True
    with r Suc.prems(3) show ?thesis by (simp add: call_def do_call_eq fill_def)
  next
    case False
    let ?h1 = "h @ [(Fread fp 30, ?r)]"
    let ?h2 = "?h1 @ [(Write fd (take 30 rest), os ?h1 (Write fd (take 30 rest)))]"
    have step: "send_file os (Suc n) fp fd buf h = send_file os n fp fd (take 30 rest) ?h2"
      using False r Suc.prems(3) by (simp add: call_def do_call_eq fill_def min_def Let_def)
    have "c = freaded fp ?h2 @ drop 30 rest" using Suc.prems(1) r by simp
    moreover have "length (drop 30 rest) div 30 < n"
      using Suc.prems(2) False by (simp add: div_if [of "length rest"])
    moreover have "length (take 30 rest) = 30" using False by simp
    ultimately obtain buf' h' where "send_file os n fp fd (take 30 rest) ?h2 = Next buf' h'"
      "length buf' = 30" "written fd h' = written fd ?h2 @ drop 30 rest"
      using Suc.IH by blast
    with step show ?thesis by simp
  qed
qed

lemma receive_file_rest:
  assumes "peer_stream os fd s" "fp \<noteq> 0"
    and "s = received fd h @ rest" "length rest < n" "length buf = 30"
  shows "\<exists>h'. receive_file os n fd fp buf h = Next () h' \<and> fwritten fp h' = fwritten fp h @ rest"
  using assms(3-)
proof (induction n arbitrary: rest buf h)
  case 0
  then show ?case by simp
next
  case (Suc n)
  let ?r = "os h (Read fd 30)"
  have sr: "stream_read 30 rest ?r" using assms(1) Suc.prems(1) by (rule peer_stream_read) simp
  show ?case
  proof (cases "rest = []")
    case True
    with sr show ?thesis by (simp add: call_def stream_read_end)
  next
    case False
    note r = stream_read_split [OF sr False]
    let ?h1 = "h @ [(Read fd 30, ?r)]"
    let ?h2 = "?h1 @ [(Fwrite fp (data ?r), os ?h1 (Fwrite fp (data ?r)))]"
    have len: "length (fill buf (data ?r)) = 30" using r(3) Suc.prems(3) by simp
    have "s = received fd ?h2 @ drop (length (data ?r)) rest" using Suc.prems(1) r(4) by simp
    moreover have "length (drop (length (data ?r)) rest) < n"
      using r(2) False Suc.prems(2) by (cases "data ?r"; cases rest) auto
    ultimately obtain h' where h': "receive_file os n fd fp (fill buf (data ?r)) ?h2 = Next () h'"
      "fwritten fp h' = fwritten fp ?h2 @ drop (length (data ?r)) rest"
      using Suc.IH len by blast
    have "receive_file os (Suc n) fd fp buf h = Next () h'"
      using r(1-3) len h'(1) assms(2) by (simp add: call_def do_call_eq)
    with h'(2) r(4) show ?thesis by simp
  qed
qed

text \<open>The surroundings of the two programs: the server's file can be opened and holds \<open>c\<close>, its client
  connects on \<open>sock\<close> and answers as \<^verbatim>\<open>file_client\<close> does; the client's file can be opened and what
  arrives on its socket is the stream \<open>c\<close>.\<close>

definition file_server_env :: "os \<Rightarrow> int \<Rightarrow> int \<Rightarrow> string \<Rightarrow> bool" where
  "file_server_env os fp sock c \<longleftrightarrow> fp \<noteq> 0 \<and> file_holds os fp c \<and>
     (\<forall>h f m. ret (os h (Fopen f m)) = fp) \<and> (\<forall>h s. ret (os h (Accept s)) = sock) \<and>
     (\<forall>h. data (os h (Read sock 30)) = thank_you)"

definition file_client_env :: "os \<Rightarrow> int \<Rightarrow> int \<Rightarrow> string \<Rightarrow> bool" where
  "file_client_env os fp sock c \<longleftrightarrow> fp \<noteq> 0 \<and> peer_stream os sock c \<and>
     (\<forall>h f m. ret (os h (Fopen f m)) = fp) \<and> (\<forall>h d t p. ret (os h (Socket d t p)) = sock)"

lemma file_server_sends:
  assumes env: "file_server_env os fp sock c"
    and "length argv = 2" "length buf = 30" "length c div 30 < fuel"
  shows "\<exists>h'. file_server_main os fuel argv buf [] = Next 0 h' \<and> written sock h' = c"
proof -
  define h4 where "h4 = (let (f, h1) = call os (Fopen ''file_server.c'' ''rb'') [];
      (s, h2) = call os (Socket PF_INET SOCK_STREAM 0) h1;
      h3 = do_call os (Listen (ret s) 5) (do_call os (Bind (ret s) (any_addr (argv ! 1))) h2)
    in do_call os (Accept (ret s)) h3)"
  have "c = freaded fp h4 @ c" "written sock h4 = []"
    by (simp_all add: h4_def Let_def call_def do_call_eq)
  from send_file_rest [OF _ this(1) assms(4,3), of os sock] env this(2)
  obtain buf' h5 where *: "send_file os fuel fp sock buf h4 = Next buf' h5" "length buf' = 30"
    "written sock h5 = c" by (auto simp: file_server_env_def)
  have "NUL \<in> set (fill buf' thank_you)" by (simp add: fill_def thank_you_def)
  with env * assms(2) show ?thesis
    by (simp add: file_server_main_def file_server_env_def h4_def call_def do_call_eq Let_def)
qed

lemma file_client_receives:
  assumes env: "file_client_env os fp sock c"
    and "length argv = 3" "length buf = 30" "length c < fuel"
  shows "\<exists>h'. file_client_main os fuel argv buf [] = Next 0 h' \<and> fwritten fp h' = c"
proof -
  define h3 where "h3 = (let (f, h1) = call os (Fopen ''receive.dat'' ''wb'') [];
      (s, h2) = call os (Socket PF_INET SOCK_STREAM 0) h1
    in do_call os (Connect (ret s) (peer_addr (argv ! 1) (argv ! 2))) h2)"
  have "c = received sock h3 @ c" "fwritten fp h3 = []"
    by (simp_all add: h3_def Let_def call_def do_call_eq)
  from receive_file_rest [OF _ _ this(1) assms(4,3), of os fp] env this(2)
  obtain h4 where "receive_file os fuel sock fp buf h3 = Next () h4" "fwritten fp h4 = c"
    by (auto simp: file_client_env_def)
  with env assms(2) show ?thesis
    by (simp add: file_client_main_def file_client_env_def h3_def call_def do_call_eq Let_def)
qed


definition file_os :: "string \<Rightarrow> os" where
  "file_os c h q = (case q of
      Fread f n \<Rightarrow> (let d = take n (drop (length (freaded f h)) c) in answer (int (length d)) d)
    | Fopen f m \<Rightarrow> answer 9 []
    | Accept s \<Rightarrow> answer 4 []
    | Read f n \<Rightarrow> answer 10 thank_you
    | _ \<Rightarrow> answer 3 [])"

definition copy_os :: "nat \<Rightarrow> string \<Rightarrow> os" where
  "copy_os chunk c h q = (case q of
      Fopen f m \<Rightarrow> answer 9 []
    | Socket d t p \<Rightarrow> answer 3 []
    | _ \<Rightarrow> byte_os chunk 3 c h q)"

lemma file_os_env: "file_server_env (file_os c) 9 4 c"
  by (simp add: file_server_env_def file_holds_def file_os_def answer_def Let_def)

lemma copy_os_env: "0 < chunk \<Longrightarrow> file_client_env (copy_os chunk c) 9 3 c"
  using byte_os_stream [of chunk 3 c]
  by (simp add: file_client_env_def peer_stream_def copy_os_def answer_def)


end
