(* ===== verification/Net_Calc.thy ===== *)
theory Net_Calc
  imports Net_Stream
begin

text \<open>
  The calculator of chapter 5, \<^verbatim>\<open>op_client_bad.c\<close> and \<^verbatim>\<open>op_server_bad.c\<close>: the client sends the number
  of operands, the operands and the operator as one text, the server parses it, folds the
  operator over the operands and sends the result back as text.

  \<^verbatim>\<open>op_server.c\<close> is the start of a second version that does not compile; its function \<^verbatim>\<open>calculate\<close> is compared with the first
  version at the end.

  Signed overflow and division by zero are undefined in C; \<open>c_int\<close> is \<open>None\<close> there.  The message is
  a C string in a buffer of 1024 bytes; appending beyond it is undefined too.
\<close>

subsection \<open>C integers\<close>

definition c_int :: "int \<Rightarrow> int option" where
  "c_int x = (if - (2 ^ 31) \<le> x \<and> x < 2 ^ 31 then Some x else None)"

text \<open>Division truncates toward zero, and the remainder has the sign of the dividend.\<close>

definition c_div :: "int \<Rightarrow> int \<Rightarrow> int" where
  "c_div a b = sgn a * sgn b * (\<bar>a\<bar> div \<bar>b\<bar>)"

definition c_rem :: "int \<Rightarrow> int \<Rightarrow> int" where
  "c_rem a b = a - b * c_div a b"

text \<open>\<^verbatim>\<open>char\<close> is signed, and a conversion to it keeps the low byte.\<close>

definition schar :: "char \<Rightarrow> int" where
  "schar c = (let n = of_char c in if n < 128 then n else n - 256)"

definition to_char :: "int \<Rightarrow> char" where
  "to_char x = char_of x"

subsection \<open>op\_client\_bad.c\<close>

function digits_c :: "int \<Rightarrow> string" where
  "digits_c num = (if num \<le> 0 then [] else to_char (num mod 10 + 48) # digits_c (num div 10))"
  by pat_completeness auto
termination by (relation "measure nat") auto

declare digits_c.simps [simp del]

text \<open>The text \<open>int2string\<close> leaves in \<open>ptr\<close>.  For a positive number \<open>%\<close> and \<open>/\<close> are \<open>mod\<close> and \<open>div\<close>.\<close>

definition int2string_c :: "int \<Rightarrow> string" where
  "int2string_c num = digits_c num @ '' ''"

definition add_message :: "string \<Rightarrow> string \<Rightarrow> string option" where
  "add_message message add = (if length message + length add < 1024 then Some (message @ add) else None)"

text \<open>\<^verbatim>\<open>scanf\<close>: the return value is the number of conversions, the data the matched text.  A variable
  that was not converted is used uninitialised.\<close>

definition scan_int :: "os \<Rightarrow> hist \<Rightarrow> int flow" where
  "scan_int os h =
     (let (r, h1) = call os (Scanf ''%d'') h
      in if ret r = 1 then Next (atoi (data r)) h1 else Undef h1)"

fun read_operands :: "os \<Rightarrow> nat \<Rightarrow> string \<Rightarrow> hist \<Rightarrow> string flow" where
  "read_operands os 0 message h = Next message h"
| "read_operands os (Suc n) message h =
     then_do (scan_int os (do_call os (Printf ''Operand: '' []) h)) (\<lambda>num h1.
       let h2 = do_call os (Puts []) h1
       in case add_message message (int2string_c num) of
            None \<Rightarrow> Undef h2
          | Some message' \<Rightarrow> read_operands os n message' h2)"

definition op_client_request :: "os \<Rightarrow> hist \<Rightarrow> string flow" where
  "op_client_request os h =
     then_do (scan_int os (do_call os (Printf ''Operand count: '' []) h)) (\<lambda>cnt h1.
     then_do (read_operands os (nat cnt) (int2string_c cnt) (do_call os (Puts []) h1)) (\<lambda>message h2.
       let (r, h3) = call os (Scanf ''%s'') (do_call os (Printf ''Operator: '' []) h2)
       in if ret r \<noteq> 1 \<or> 2 \<le> length (data r) then Undef h3
          else case add_message message (data r) of
                 None \<Rightarrow> Undef h3
               | Some message' \<Rightarrow> Next message' h3))"

definition op_client_main :: "os \<Rightarrow> string list \<Rightarrow> string \<Rightarrow> hist \<Rightarrow> int flow" where
  "op_client_main os argv buf h =
     (if length argv \<noteq> 3 then usage os ''Usage: %s <IP> <Port>'' argv h
      else then_do (client_setup os (argv ! 1) (argv ! 2) h) (\<lambda>s h1.
           then_do (op_client_request os (do_call os (Printf (ln ''Connected ...'') []) h1)) (\<lambda>message h2.
           let h3 = do_call os (Printf (ln ''input message: %s'') [PS message]) h2;
               (r, h4) = call os (Read s 1023) (do_call os (Write s message) h3);
               message' = fill (fill buf (message @ [NUL])) (data r)
           in if ret r = - 1 then error_handling os ''read() error'' h4
              else if NUL \<notin> set message' then Undef h4
              else Next 0 (do_call os (Close s)
                     (do_call os (Printf (ln ''Operation result: %s'') [PS (c_str message')]) h4)))))"

subsection \<open>op\_server\_bad.c\<close>

text \<open>\<open>get_num\<close> on the bytes from \<^verbatim>\<open>*str\<close> to the end of the buffer; it returns the number and the
  bytes after the blank.\<close>

fun get_num :: "os \<Rightarrow> int \<Rightarrow> string \<Rightarrow> hist \<Rightarrow> (int \<times> string) flow" where
  "get_num os num [] h = Undef h"
| "get_num os num (c # cs) h =
     (if c = CHR '' '' then Next (num, cs) (do_call os (Printf (ln ''pointer ++!'') []) h)
      else case c_int (num * 10) of
             None \<Rightarrow> Undef h
           | Some n \<Rightarrow>
               (case c_int (n + (schar c - 48)) of
                  None \<Rightarrow> Undef h
                | Some n' \<Rightarrow> get_num os n' cs (do_call os (Printf (ln ''pointer ++!'') []) h)))"

definition calculate :: "int \<Rightarrow> int \<Rightarrow> char \<Rightarrow> int option" where
  "calculate a b p =
     (if p = CHR ''+'' then c_int (a + b)
      else if p = CHR ''-'' then c_int (a - b)
      else if p = CHR ''*'' then c_int (a * b)
      else if p = CHR 0x2F then (if b = 0 then None else c_int (c_div a b))
      else Some a)"

function digits_s :: "int \<Rightarrow> string" where
  "digits_s num = (if num = 0 then [] else to_char (c_rem num 10 + 48) # digits_s (c_div num 10))"
  by pat_completeness auto
termination
  by (relation "measure (\<lambda>num. nat \<bar>num\<bar>)")
    (auto simp: c_div_def abs_mult sgn_if nat_less_eq_zless)

declare digits_s.simps [simp del]

definition int2string_s :: "int \<Rightarrow> string" where
  "int2string_s num = digits_s num @ [NUL]"

text \<open>The loop that fills \<open>numbers\<close>; \<open>len\<close> is the length of the buffer, from which the printed
  distance is computed.\<close>

fun read_numbers ::
    "os \<Rightarrow> nat \<Rightarrow> nat \<Rightarrow> nat \<Rightarrow> int list \<Rightarrow> string \<Rightarrow> hist \<Rightarrow> (int list \<times> string) flow" where
  "read_numbers os len 0 j numbers p h = Next (numbers, p) h"
| "read_numbers os len (Suc k) j numbers p h =
     then_do (get_num os 0 p h) (\<lambda>(num, p') h1.
       let h2 = do_call os (Printf (ln ''%d th number: %d'') [PI (int j + 1), PI num]) h1
       in if length numbers \<le> j then Undef h2
          else read_numbers os len k (j + 1) (numbers[j := num]) p'
                 (do_call os (Printf (ln ''distance: %ld'') [PI (int (length p') - int len)]) h2))"

fun calc_fold :: "char \<Rightarrow> int \<Rightarrow> int list \<Rightarrow> int option" where
  "calc_fold p result [] = Some result"
| "calc_fold p result (n # ns) =
     (case calculate result n p of None \<Rightarrow> None | Some r \<Rightarrow> calc_fold p r ns)"

definition op_session :: "os \<Rightarrow> int \<Rightarrow> string \<Rightarrow> int list \<Rightarrow> hist \<Rightarrow> (string \<times> int list) flow" where
  "op_session os fd buf numbers h =
     (let (r, h1) = call os (Read fd 1024) h;
          message = fill buf (data r)
      in if NUL \<notin> set message then Undef h1
         else then_do (get_num os 0 message
                (do_call os (Printf (ln ''received message: %s'') [PS (c_str message)]) h1)) (\<lambda>(cnt, p) h2.
              then_do (read_numbers os (length message) (nat cnt) 0 numbers p
                (do_call os (Printf (ln ''distance: %ld'') [PI (int (length p) - int (length message))]) h2))
                (\<lambda>(numbers', p') h3.
              if p' = [] then Undef h3
              else let h4 = do_call os (Printf (ln ''the operator is %c'') [PS [hd p']]) h3
                   in (case calc_fold (hd p') (numbers' ! 0) (drop 1 (take (nat cnt) numbers')) of
                         None \<Rightarrow> Undef h4
                       | Some result \<Rightarrow>
                           let h5 = do_call os (Printf (ln ''calculate result: %d'') [PI result]) h4;
                               message' = fill message (int2string_s result);
                               h6 = do_call os (Write fd (c_str message')) h5
                           in Next (message', numbers') (do_call os (Close fd) h6)))))"

fun op_server_loop :: "os \<Rightarrow> nat \<Rightarrow> int \<Rightarrow> nat \<Rightarrow> string \<Rightarrow> int list \<Rightarrow> hist \<Rightarrow> int flow" where
  "op_server_loop os 0 s i buf numbers h = Cut h"
| "op_server_loop os (Suc k) s i buf numbers h =
     (let (r, h1) = call os (Accept s) h
      in if ret r = - 1 then error_handling os ''accept() error'' h1
         else then_do
           (op_session os (ret r) buf numbers
             (do_call os (Printf (ln ''Connected client %d'') [PI (int i + 1)]) h1))
           (\<lambda>(buf', numbers') h2. op_server_loop os k s (i + 1) buf' numbers' h2))"

definition op_server_main :: "os \<Rightarrow> nat \<Rightarrow> string list \<Rightarrow> string \<Rightarrow> int list \<Rightarrow> hist \<Rightarrow> int flow" where
  "op_server_main os rounds argv buf numbers h =
     (if length argv \<noteq> 2 then usage os ''Usage : %s <port>'' argv h
      else then_do (server_setup os (argv ! 1) h)
             (\<lambda>s h1. op_server_loop os rounds s 0 buf numbers h1))"

subsection \<open>Parsing what the client prints\<close>

definition text_val :: "int \<Rightarrow> string \<Rightarrow> int" where
  "text_val v ds = foldl (\<lambda>v c. v * 10 + (schar c - 48)) v ds"

text \<open>The number the server reads when the client printed \<open>n\<close>: its digits in reverse.\<close>

definition rev_num :: "int \<Rightarrow> int" where
  "rev_num n = text_val 0 (digits_c n)"

definition digit_char :: "char \<Rightarrow> bool" where
  "digit_char c \<longleftrightarrow> 48 \<le> schar c \<and> schar c \<le> 57"

lemma text_val_simps [simp]:
  "text_val v [] = v" "text_val v (c # cs) = text_val (v * 10 + (schar c - 48)) cs"
  by (simp_all add: text_val_def)

lemma text_val_ge: "0 \<le> v \<Longrightarrow> list_all digit_char ds \<Longrightarrow> v \<le> text_val v ds"
proof (induction ds arbitrary: v)
  case (Cons c cs)
  then have "0 \<le> v * 10 + (schar c - 48)" by (simp add: digit_char_def)
  from Cons.IH [OF this] Cons.prems show ?case by (simp add: digit_char_def)
qed simp

lemma schar_digit: "0 \<le> d \<Longrightarrow> d \<le> 9 \<Longrightarrow> schar (to_char (d + 48)) = d + 48"
  by (simp add: schar_def to_char_def Let_def of_char_of)

lemma digits_c_digits: "list_all digit_char (digits_c n)"
proof (induction n rule: digits_c.induct)
  case (1 n)
  have "digit_char (to_char (n mod 10 + 48))"
    using schar_digit [of "n mod 10"] pos_mod_bound [of 10 n] by (simp add: digit_char_def)
  with 1 show ?case by (subst digits_c.simps) simp
qed

text \<open>\<open>quiet h h'\<close>: nothing was written to a descriptor between the two histories.\<close>

definition quiet :: "hist \<Rightarrow> hist \<Rightarrow> bool" where
  "quiet h h' \<longleftrightarrow> (\<forall>fd. written fd h' = written fd h)"

lemma quiet_refl [simp]: "quiet h h"
  by (simp add: quiet_def)

lemma quiet_printf [simp]:
  "quiet h (do_call os (Printf f a) h') \<longleftrightarrow> quiet h h'"
  "quiet (do_call os (Printf f a) h) h' \<longleftrightarrow> quiet h h'"
  by (simp_all add: quiet_def do_call_eq)

lemma quiet_trans: "quiet h h1 \<Longrightarrow> quiet h1 h2 \<Longrightarrow> quiet h h2"
  by (simp add: quiet_def)

lemma get_num_digits:
  "0 \<le> v \<Longrightarrow> list_all digit_char ds \<Longrightarrow> text_val v ds < 2 ^ 31 \<Longrightarrow>
     \<exists>h'. get_num os v (ds @ '' '' @ cs) h = Next (text_val v ds, cs) h' \<and> quiet h h'"
proof (induction ds arbitrary: v h)
  case Nil
  then show ?case by simp
next
  case (Cons c ds)
  let ?v = "v * 10 + (schar c - 48)"
  have c: "48 \<le> schar c" "schar c \<le> 57" using Cons.prems(2) by (simp_all add: digit_char_def)
  then have "c \<noteq> CHR '' ''" by (auto simp: schar_def)
  moreover have "0 \<le> ?v" using Cons.prems(1) c by simp
  moreover from this have "?v < 2 ^ 31"
    using text_val_ge [of ?v ds] Cons.prems by simp
  ultimately have "get_num os v ((c # ds) @ '' '' @ cs) h =
      get_num os ?v (ds @ '' '' @ cs) (do_call os (Printf (ln ''pointer ++!'') []) h)"
    using Cons.prems(1) c by (simp add: c_int_def)
  with Cons.IH [OF \<open>0 \<le> ?v\<close>, of "do_call os (Printf (ln ''pointer ++!'') []) h"] Cons.prems
  show ?case by auto
qed

lemma get_num_printed:
  "rev_num n < 2 ^ 31 \<Longrightarrow>
     \<exists>h'. get_num os 0 (int2string_c n @ cs) h = Next (rev_num n, cs) h' \<and> quiet h h'"
  using get_num_digits [of 0 "digits_c n" os cs h] digits_c_digits [of n]
  by (simp add: rev_num_def int2string_c_def)

lemma rev_num_digit: "0 \<le> n \<Longrightarrow> n \<le> 9 \<Longrightarrow> rev_num n = n"
  by (cases "n = 0") (simp_all add: rev_num_def digits_c.simps [of n] digits_c.simps [of 0]
      schar_digit)

lemma read_numbers_printed:
  "\<forall>n \<in> set ns. rev_num n < 2 ^ 31 \<Longrightarrow> j + length ns \<le> length numbers \<Longrightarrow>
     \<exists>h'. read_numbers os len (length ns) j numbers (concat (map int2string_c ns) @ cs) h =
        Next (take j numbers @ map rev_num ns @ drop (j + length ns) numbers, cs) h' \<and> quiet h h'"
proof (induction ns arbitrary: j numbers h)
  case Nil
  then show ?case by simp
next
  case (Cons n ns)
  let ?rest = "concat (map int2string_c ns) @ cs"
  from get_num_printed [of n os ?rest h] Cons.prems(1) obtain h1 where
    h1: "get_num os 0 (int2string_c n @ ?rest) h = Next (rev_num n, ?rest) h1" "quiet h h1"
    by auto
  let ?h2 = "do_call os (Printf (ln ''%d th number: %d'') [PI (int j + 1), PI (rev_num n)]) h1"
  let ?h3 = "do_call os (Printf (ln ''distance: %ld'') [PI (int (length ?rest) - int len)]) ?h2"
  have j: "j < length numbers" using Cons.prems(2) by simp
  have q: "quiet h ?h3" using h1(2) by simp
  from Cons.IH [of "j + 1" "numbers[j := rev_num n]" ?h3] Cons.prems
  obtain h' where "read_numbers os len (length ns) (j + 1) (numbers[j := rev_num n]) ?rest ?h3 =
      Next (take (j + 1) (numbers[j := rev_num n]) @ map rev_num ns
            @ drop (j + 1 + length ns) (numbers[j := rev_num n]), cs) h'" "quiet ?h3 h'"
    by auto
  with h1(1) j q show ?case
    by (auto simp: take_Suc_conv_app_nth intro: quiet_trans)
qed

subsection \<open>A whole request\<close>

definition op_request :: "int list \<Rightarrow> char \<Rightarrow> string" where
  "op_request ns p = concat (map int2string_c (int (length ns) # ns)) @ [p]"

lemma to_char_nonzero: "0 < x \<Longrightarrow> x < 256 \<Longrightarrow> to_char x \<noteq> NUL"
proof
  assume "0 < x" "x < 256" "to_char x = NUL"
  then have "of_char (to_char x) = (of_char NUL :: int)" by simp
  with \<open>0 < x\<close> \<open>x < 256\<close> show False by (simp add: to_char_def NUL_def of_char_of)
qed

lemma c_rem_bound: "- 10 < c_rem a 10 \<and> c_rem a 10 < 10"
  by (auto simp: c_rem_def c_div_def sgn_if minus_mult_div_eq_mod
      minus_mod_eq_mult_div [symmetric] algebra_simps)

lemma digits_s_no_NUL: "NUL \<notin> set (digits_s n)"
proof (induction n rule: digits_s.induct)
  case (1 n)
  have "to_char (c_rem n 10 + 48) \<noteq> NUL"
    by (rule to_char_nonzero) (use c_rem_bound [of n] in auto)
  with 1 show ?case by (subst digits_s.simps) auto
qed

lemma c_str_result: "c_str (fill message (int2string_s r)) = digits_s r"
  using digits_s_no_NUL [of r]
  by (simp add: c_str_def fill_def int2string_s_def takeWhile_append takeWhile_eq_all_conv)

lemma op_session_computes:
  assumes rd: "data (os h (Read fd 1024)) = op_request ns p"
    and buf: "NUL \<in> set (drop (length (op_request ns p)) buf)"
    and ns: "ns \<noteq> []" "length ns \<le> 9" "\<forall>n \<in> set ns. rev_num n < 2 ^ 31"
    and numbers: "length numbers = 100"
    and r: "calc_fold p (rev_num (hd ns)) (map rev_num (tl ns)) = Some r"
  shows "\<exists>st h'. op_session os fd buf numbers h = Next st h' \<and> written fd h' = written fd h @ digits_s r"
proof -
  let ?h1 = "h @ [(Read fd 1024, os h (Read fd 1024))]"
  let ?m = "fill buf (op_request ns p)"
  define cs where "cs = p # drop (length (op_request ns p)) buf"
  have m: "?m = int2string_c (int (length ns)) @ concat (map int2string_c ns) @ cs"
    by (simp add: fill_def op_request_def cs_def)
  have cnt: "rev_num (int (length ns)) = int (length ns)" using ns(2) by (simp add: rev_num_digit)
  then have "rev_num (int (length ns)) < 2 ^ 31" using ns(2) by simp
  from get_num_printed [OF this, of os "concat (map int2string_c ns) @ cs"
      "do_call os (Printf (ln ''received message: %s'') [PS (c_str ?m)]) ?h1"]
  obtain h2 where h2: "get_num os 0 ?m (do_call os (Printf (ln ''received message: %s'') [PS (c_str ?m)]) ?h1) =
      Next (int (length ns), concat (map int2string_c ns) @ cs) h2" "quiet ?h1 h2"
    unfolding m cnt by auto
  let ?h3 = "do_call os (Printf (ln ''distance: %ld'')
      [PI (int (length (concat (map int2string_c ns) @ cs)) - int (length ?m))]) h2"
  from read_numbers_printed [OF ns(3), of 0 numbers os "length ?m" cs ?h3] ns(2) numbers
  obtain h4 where h4: "read_numbers os (length ?m) (length ns) 0 numbers (concat (map int2string_c ns) @ cs) ?h3 =
      Next (map rev_num ns @ drop (length ns) numbers, cs) h4" "quiet ?h3 h4" by auto
  have q: "written fd h4 = written fd h" using h2(2) h4(2) by (simp add: quiet_def do_call_eq)
  have "NUL \<in> set ?m" using buf by (simp add: fill_def)
  moreover have "(map rev_num ns @ drop (length ns) numbers) ! 0 = rev_num (hd ns)"
    "drop 1 (take (length ns) (map rev_num ns @ drop (length ns) numbers)) = map rev_num (tl ns)"
    using ns(1) by (cases ns; simp)+
  ultimately show ?thesis
    using h2(1) h4(1) r q unfolding op_session_def
    by (auto simp: call_def rd cs_def c_str_result do_call_eq Let_def)
qed

text \<open>What the user types: the \<open>k\<close>-th \<^verbatim>\<open>scanf\<close> converts the \<open>k\<close>-th text.\<close>

fun scans :: "hist \<Rightarrow> nat" where
  "scans [] = 0"
| "scans ((Scanf f, r) # h) = Suc (scans h)"
| "scans (_ # h) = scans h"

definition inputs :: "os \<Rightarrow> string list \<Rightarrow> bool" where
  "inputs os ts \<longleftrightarrow> (\<forall>h f. scans h < length ts \<longrightarrow>
     ret (os h (Scanf f)) = 1 \<and> data (os h (Scanf f)) = ts ! scans h)"

lemma scans_append [simp]: "scans (h @ h') = scans h + scans h'"
  by (induction h rule: scans.induct) auto

lemma read_operands_text:
  "inputs os (us @ ts @ vs) \<Longrightarrow> scans h = length us \<Longrightarrow>
     length m + length (concat (map (\<lambda>t. int2string_c (atoi t)) ts)) < 1024 \<Longrightarrow>
     \<exists>h'. read_operands os (length ts) m h = Next (m @ concat (map (\<lambda>t. int2string_c (atoi t)) ts)) h'
        \<and> scans h' = length (us @ ts)"
proof (induction ts arbitrary: us m h)
  case Nil
  then show ?case by simp
next
  case (Cons t ts)
  let ?h1 = "h @ [(Printf ''Operand: '' [], os h (Printf ''Operand: '' []))]"
  have sc: "ret (os ?h1 (Scanf ''%d'')) = 1" "data (os ?h1 (Scanf ''%d'')) = t"
    using Cons.prems(1,2) by (auto simp: inputs_def)
  let ?h2 = "?h1 @ [(Scanf ''%d'', os ?h1 (Scanf ''%d''))]"
  let ?h3 = "?h2 @ [(Puts [], os ?h2 (Puts []))]"
  have "inputs os ((us @ [t]) @ ts @ vs)" "scans ?h3 = length (us @ [t])"
    using Cons.prems by simp_all
  from Cons.IH [OF this, of "m @ int2string_c (atoi t)"] Cons.prems(3) obtain h' where
    "read_operands os (length ts) (m @ int2string_c (atoi t)) ?h3 =
       Next (m @ concat (map (\<lambda>t. int2string_c (atoi t)) (t # ts))) h'" "scans h' = length (us @ t # ts)"
    by auto
  moreover have "read_operands os (length (t # ts)) m h =
      read_operands os (length ts) (m @ int2string_c (atoi t)) ?h3"
    using sc Cons.prems(3) by (simp add: scan_int_def call_def do_call_eq add_message_def)
  ultimately show ?case by simp
qed

lemma op_client_request_text:
  assumes ins: "inputs os (t # ts @ [[p]])" and "scans h = 0" and cnt: "atoi t = int (length ts)"
    and len: "length (op_request (map atoi ts) p) < 1024"
  shows "\<exists>h'. op_client_request os h = Next (op_request (map atoi ts) p) h'"
proof -
  let ?h1 = "h @ [(Printf ''Operand count: '' [], os h (Printf ''Operand count: '' []))]"
  have sc: "ret (os ?h1 (Scanf ''%d'')) = 1" "data (os ?h1 (Scanf ''%d'')) = t"
    using ins assms(2) by (auto simp: inputs_def)
  let ?h2 = "?h1 @ [(Scanf ''%d'', os ?h1 (Scanf ''%d''))]"
  let ?h3 = "?h2 @ [(Puts [], os ?h2 (Puts []))]"
  let ?m = "int2string_c (int (length ts))"
  from read_operands_text [of os "[t]" ts "[[p]]" ?h3 ?m] ins assms(2) len
  obtain h4 where h4: "read_operands os (length ts) ?m ?h3 =
      Next (?m @ concat (map (\<lambda>t. int2string_c (atoi t)) ts)) h4" "scans h4 = Suc (length ts)"
    by (auto simp: op_request_def comp_def)
  let ?h5 = "h4 @ [(Printf ''Operator: '' [], os h4 (Printf ''Operator: '' []))]"
  have "scans ?h5 < length (t # ts @ [[p]])" "(t # ts @ [[p]]) ! scans ?h5 = [p]"
    using h4(2) by (simp_all add: nth_append)
  then have "ret (os ?h5 (Scanf ''%s'')) = 1" "data (os ?h5 (Scanf ''%s'')) = [p]"
    using ins unfolding inputs_def by metis+
  then show ?thesis
    using sc cnt h4(1) len unfolding op_client_request_def scan_int_def
    by (simp add: call_def do_call_eq add_message_def op_request_def comp_def)
qed


definition typed_os :: "string list \<Rightarrow> os" where
  "typed_os ts h c = (case c of Scanf f \<Rightarrow> answer 1 (ts ! scans h) | _ \<Rightarrow> answer 0 [])"

lemma typed_os_inputs: "inputs (typed_os ts) ts"
  by (simp add: inputs_def typed_os_def answer_def)

lemma digits_c_unfold [simp]: "digits_c 0 = []"
  "0 < num \<Longrightarrow> digits_c num = to_char (num mod 10 + 48) # digits_c (num div 10)"
  by (simp_all add: digits_c.simps [of num] digits_c.simps [of 0])

lemma digits_s_unfold:
  "digits_s 0 = []"
  "num \<noteq> 0 \<Longrightarrow> digits_s num = to_char (c_rem num 10 + 48) # digits_s (c_div num 10)"
  by (simp_all add: digits_s.simps [of num] digits_s.simps [of 0])


lemma op_calculator_reverses: "rev_num 12 = 21" "rev_num 10 = 1" "digits_s 123 = ''321''"
  by (simp_all add: rev_num_def digits_s_unfold to_char_def char_of_def bit_iff_odd schar_def c_rem_def c_div_def)

subsection \<open>op\_server.c\<close>

text \<open>The rest of \<^verbatim>\<open>op_server.c\<close> does not compile; its \<^verbatim>\<open>calculate\<close> works on the whole array of operands.  Each loop runs over the operands from the
  second one on; reading behind the array is undefined, and an unknown operator gives the first operand.\<close>

function op_loop :: "(int \<Rightarrow> int \<Rightarrow> int option) \<Rightarrow> nat \<Rightarrow> int \<Rightarrow> int list \<Rightarrow> int \<Rightarrow> int option" where
  "op_loop f i opnum opnds result =
     (if int i < opnum
      then if i < length opnds
           then (case f result (opnds ! i) of None \<Rightarrow> None | Some r \<Rightarrow> op_loop f (i + 1) opnum opnds r) else None
      else Some result)"
  by auto
termination by (relation "measure (\<lambda>(f, i, opnum, opnds, result). nat (opnum - int i))") auto

declare op_loop.simps [simp del]

definition op_calculate :: "int \<Rightarrow> int list \<Rightarrow> char \<Rightarrow> int option" where
  "op_calculate opnum opnds p =
     (if opnds = [] then None
      else if p = CHR ''+'' then op_loop (\<lambda>a b. c_int (a + b)) 1 opnum opnds (opnds ! 0)
      else if p = CHR ''-'' then op_loop (\<lambda>a b. c_int (a - b)) 1 opnum opnds (opnds ! 0)
      else if p = CHR ''*'' then op_loop (\<lambda>a b. c_int (a * b)) 1 opnum opnds (opnds ! 0)
      else if p = CHR 0x2F then op_loop (\<lambda>a b. if b = 0 then None else c_int (c_div a b)) 1 opnum opnds (opnds ! 0)
      else Some (opnds ! 0))"

lemma op_loop_fold:
  assumes "f = (\<lambda>a b. calculate a b p)" "opnum \<le> int (length opnds)"
  shows "op_loop f i opnum opnds result = calc_fold p result (drop i (take (nat opnum) opnds))"
  using assms
proof (induction f i opnum opnds result rule: op_loop.induct)
  case (1 f i opnum opnds result)
  show ?case
  proof (cases "int i < opnum")
    case True
    then have i: "i < length opnds" "i < length (take (nat opnum) opnds)" using "1.prems"(2) by simp_all
    then have "drop i (take (nat opnum) opnds) = opnds ! i # drop (i + 1) (take (nat opnum) opnds)"
      using Cons_nth_drop_Suc [OF i(2)] by simp
    with 1 True i(1) show ?thesis by (subst op_loop.simps) (simp split: option.split)
  next
    case False
    then show ?thesis by (subst op_loop.simps) simp
  qed
qed

lemma calc_fold_other: "p \<notin> {CHR ''+'', CHR ''-'', CHR ''*'', CHR 0x2F} \<Longrightarrow> calc_fold p a ns = Some a"
  by (induction ns) (auto simp: calculate_def)

text \<open>Both servers compute the same, also where the result is undefined, as long as the count does not pass the operands.\<close>

lemma op_calculate_fold:
  assumes "opnds \<noteq> []" "opnum \<le> int (length opnds)"
  shows "op_calculate opnum opnds p = calc_fold p (hd opnds) (drop 1 (take (nat opnum) opnds))"
proof (cases "p \<in> {CHR ''+'', CHR ''-'', CHR ''*'', CHR 0x2F}")
  case True
  then have "op_calculate opnum opnds p = op_loop (\<lambda>a b. calculate a b p) 1 opnum opnds (opnds ! 0)"
    using assms(1) by (auto simp: op_calculate_def calculate_def)
  then show ?thesis using op_loop_fold [OF refl assms(2)] assms(1) by (simp add: hd_conv_nth)
next
  case False
  then show ?thesis using assms(1) calc_fold_other [OF False] by (simp add: op_calculate_def hd_conv_nth)
qed

end
