(* ===== verification/Net_Select.thy ===== *)
theory Net_Select
  imports Net_Stream
begin

text \<open>
  The multiplexed programs of chapter 12: \<^verbatim>\<open>echo_select_server.c\<close>, one process serving every client
  with \<^verbatim>\<open>select\<close>, and the console example \<^verbatim>\<open>select.c\<close>.

  A descriptor set is the list of its members; \<^verbatim>\<open>FD_SET\<close> outside 0..1023 is undefined.  The reply
  to \<^verbatim>\<open>select\<close> carries the descriptors that are ready.
\<close>

subsection \<open>Descriptor sets\<close>

definition FD_SETSIZE :: int where "FD_SETSIZE = 1024"

definition FD_SET :: "int \<Rightarrow> nat list \<Rightarrow> nat list option" where
  "FD_SET fd s = (if 0 \<le> fd \<and> fd < FD_SETSIZE then Some (List.insert (nat fd) s) else None)"

definition FD_CLR :: "nat \<Rightarrow> nat list \<Rightarrow> nat list" where
  "FD_CLR fd s = removeAll fd s"

definition FD_ISSET :: "nat \<Rightarrow> nat list \<Rightarrow> bool" where
  "FD_ISSET fd s \<longleftrightarrow> fd \<in> set s"

subsection \<open>chap12/echo\_select\_server.c\<close>

record sel =
  reads :: "nat list"
  fd_max :: int
  sel_buf :: string

text \<open>The connection request and the message of one ready descriptor.\<close>

definition select_accept :: "os \<Rightarrow> int \<Rightarrow> sel \<Rightarrow> hist \<Rightarrow> sel flow" where
  "select_accept os serv_sock st h =
     (let (r, h1) = call os (Accept serv_sock) h;
          clnt_sock = ret r
      in case FD_SET clnt_sock (reads st) of
           None \<Rightarrow> Undef h1
         | Some rs \<Rightarrow>
             Next (st\<lparr>reads := rs,
                      fd_max := if fd_max st < clnt_sock then clnt_sock else fd_max st\<rparr>)
               (do_call os (Printf (ln ''connected client: %d'') [PI clnt_sock]) h1))"

definition select_echo :: "os \<Rightarrow> nat \<Rightarrow> sel \<Rightarrow> hist \<Rightarrow> sel flow" where
  "select_echo os i st h =
     (let (r, h1) = call os (Read (int i) 100) h;
          buf = fill (sel_buf st) (data r);
          str_len = ret r
      in if str_len = 0 then
           Next (st\<lparr>reads := FD_CLR i (reads st), sel_buf := buf\<rparr>)
             (do_call os (Printf (ln ''close client: %d'') [PI (int i)])
               (do_call os (Close (int i)) h1))
         else if str_len < 0 \<or> length buf < nat str_len then Undef h1
         else Next (st\<lparr>sel_buf := buf\<rparr>)
                (do_call os (Write (int i) (take (nat str_len) buf)) h1))"

text \<open>\<^verbatim>\<open>for (i = 0; i < fd_max + 1; ++ i)\<close> over the ready descriptors; the bound is read again in each
  round because an accepted connection may raise it.\<close>

fun select_scan :: "os \<Rightarrow> int \<Rightarrow> nat \<Rightarrow> nat \<Rightarrow> nat list \<Rightarrow> sel \<Rightarrow> hist \<Rightarrow> sel flow" where
  "select_scan os serv_sock 0 i copy_reads st h = Cut h"
| "select_scan os serv_sock (Suc n) i copy_reads st h =
     (if int i < fd_max st + 1 then
        then_do
          (if FD_ISSET i copy_reads
           then (if int i = serv_sock then select_accept os serv_sock st h
                 else select_echo os i st h)
           else Next st h)
          (\<lambda>st' h'. select_scan os serv_sock n (i + 1) copy_reads st' h')
      else Next st h)"

fun select_server_loop :: "os \<Rightarrow> int \<Rightarrow> nat \<Rightarrow> sel \<Rightarrow> hist \<Rightarrow> sel flow" where
  "select_server_loop os serv_sock 0 st h = Cut h"
| "select_server_loop os serv_sock (Suc k) st h =
     (let (r, h1) = call os (Select (nat (fd_max st + 1)) (reads st) 30) h
      in if ret r = - 1 then error_handling os ''select() error'' h1
         else if ret r = 0 then Next st h1
         else then_do (select_scan os serv_sock 1025 0 (fds r) st h1)
                (\<lambda>st' h2. select_server_loop os serv_sock k st' h2))"

definition select_server_main :: "os \<Rightarrow> nat \<Rightarrow> string list \<Rightarrow> string \<Rightarrow> hist \<Rightarrow> int flow" where
  "select_server_main os rounds argv buf h =
     (if length argv \<noteq> 2 then usage os ''Usage : %s <port>'' argv h
      else then_do (server_setup_unchecked os (argv ! 1) h) (\<lambda>serv_sock h1.
             case FD_SET serv_sock [] of
               None \<Rightarrow> Undef h1
             | Some rs \<Rightarrow>
                 then_do (select_server_loop os serv_sock rounds
                            \<lparr>reads = rs, fd_max = serv_sock, sel_buf = buf\<rparr> h1)
                   (\<lambda>_ h2. Next 0 (do_call os (Close serv_sock) h2))))"

subsection \<open>chap12/select.c\<close>

fun select_console_loop :: "os \<Rightarrow> nat \<Rightarrow> string \<Rightarrow> hist \<Rightarrow> int flow" where
  "select_console_loop os 0 buf h = Cut h"
| "select_console_loop os (Suc k) buf h =
     (let (r, h1) = call os (Select 1 [0] 5) h
      in if ret r = - 1 then Next 0 (do_call os (Puts ''select() error'') h1)
         else if ret r = 0 then
           select_console_loop os k buf (do_call os (Puts ''Time-out (no event occur)'') h1)
         else if FD_ISSET 0 (fds r) then
           let (m, h2) = call os (Read 0 30) h1
           in (case put_nul (fill buf (data m)) (ret m) of
                 None \<Rightarrow> Undef h2
               | Some buf' \<Rightarrow>
                   select_console_loop os k buf'
                     (do_call os (Printf (ln ''Message from console: %s'') [PS (c_str buf')]) h2))
         else select_console_loop os k buf h1)"

definition select_console_main :: "os \<Rightarrow> nat \<Rightarrow> string \<Rightarrow> int flow" where
  "select_console_main os rounds buf = select_console_loop os rounds buf []"

subsection \<open>What the multiplexed server keeps\<close>

text \<open>The connections a history leaves open.\<close>

fun open_step :: "sys \<times> reply \<Rightarrow> int set \<Rightarrow> int set" where
  "open_step (Accept s, r) C = insert (ret r) C"
| "open_step (Close fd, r) C = C - {fd}"
| "open_step _ C = C"

definition open_conns :: "hist \<Rightarrow> int set" where
  "open_conns h = fold open_step h {}"

lemma open_conns_Nil [simp]: "open_conns [] = {}"
  by (simp add: open_conns_def)

lemma open_conns_snoc [simp]: "open_conns (h @ [x]) = open_step x (open_conns h)"
  by (simp add: open_conns_def)

text \<open>The watched descriptors are the listening socket and the open connections, all within
  \<open>fd_max\<close>, and every client has been sent exactly what it sent.\<close>

definition echoed :: "hist \<Rightarrow> bool" where
  "echoed h \<longleftrightarrow> (\<forall>fd. written fd h = received fd h)"

definition sel_inv :: "int \<Rightarrow> sel \<Rightarrow> hist \<Rightarrow> bool" where
  "sel_inv serv_sock st h \<longleftrightarrow>
     int ` set (reads st) = insert serv_sock (open_conns h) \<and>
     (\<forall>x \<in> set (reads st). int x \<le> fd_max st) \<and> fd_max st < FD_SETSIZE \<and>
     length (sel_buf st) = 100 \<and> echoed h"

text \<open>The replies the server is written for: a connection gets a descriptor that fits the set, and
  reading a ready descriptor yields up to the requested number of bytes.\<close>

definition sel_os_ok :: "os \<Rightarrow> bool" where
  "sel_os_ok os \<longleftrightarrow>
     (\<forall>h s. 0 \<le> ret (os h (Accept s)) \<and> ret (os h (Accept s)) < FD_SETSIZE) \<and>
     (\<forall>h fd n. ret (os h (Read fd n)) = int (length (data (os h (Read fd n)))) \<and>
               length (data (os h (Read fd n))) \<le> n)"

definition flow_ok :: "('a \<Rightarrow> hist \<Rightarrow> bool) \<Rightarrow> 'a flow \<Rightarrow> bool" where
  "flow_ok P f \<longleftrightarrow> (case f of Next v h \<Rightarrow> P v h | _ \<Rightarrow> False)"

lemma flow_ok_then_do:
  "flow_ok P f \<Longrightarrow> (\<And>v h. P v h \<Longrightarrow> flow_ok Q (g v h)) \<Longrightarrow> flow_ok Q (then_do f g)"
  by (cases f) (auto simp: flow_ok_def)

lemma echoed_other:
  "echoed h \<Longrightarrow> (\<And>fd. written fd [x] = []) \<Longrightarrow> (\<And>fd. received fd [x] = []) \<Longrightarrow> echoed (h @ [x])"
  by (simp add: echoed_def)

lemma select_accept_inv:
  assumes "sel_os_ok os" "sel_inv s st h"
  shows "flow_ok (sel_inv s) (select_accept os s st h)"
proof -
  let ?r = "os h (Accept s)"
  have r: "0 \<le> ret ?r" "ret ?r < FD_SETSIZE" using assms(1) by (simp_all add: sel_os_ok_def)
  with assms(2) show ?thesis
    by (auto simp: select_accept_def FD_SET_def flow_ok_def sel_inv_def call_def do_call_eq
        echoed_def open_conns_snoc [of "h @ [_]", simplified] Let_def)
qed

lemma select_echo_inv:
  assumes "sel_os_ok os" "sel_inv s st h" "int i \<noteq> s"
  shows "flow_ok (sel_inv s) (select_echo os i st h)"
proof -
  let ?r = "os h (Read (int i) 100)"
  let ?h1 = "h @ [(Read (int i) 100, ?r)]"
  have r: "ret ?r = int (length (data ?r))" "length (data ?r) \<le> 100"
    using assms(1) by (simp_all add: sel_os_ok_def)
  have inv: "int ` set (reads st) = insert s (open_conns h)" "\<forall>x \<in> set (reads st). int x \<le> fd_max st"
    "fd_max st < FD_SETSIZE" "length (sel_buf st) = 100" "echoed h"
    using assms(2) by (simp_all add: sel_inv_def)
  show ?thesis
  proof (cases "data ?r = []")
    case True
    have "int ` set (FD_CLR i (reads st)) = insert s (open_conns h - {int i})"
      using inv(1) assms(3) by (auto simp: FD_CLR_def image_iff set_eq_iff)
    with True inv r show ?thesis
      by (simp add: select_echo_def flow_ok_def sel_inv_def call_def do_call_eq echoed_def
          open_conns_snoc [of "h @ [_]", simplified] open_conns_snoc [of "h @ [_, _]", simplified]
          FD_CLR_def fill_def)
  next
    case False
    with inv r show ?thesis
      by (simp add: select_echo_def flow_ok_def sel_inv_def call_def do_call_eq echoed_def
          open_conns_snoc [of "h @ [_]", simplified] not_less)
  qed
qed

lemma select_scan_inv:
  "sel_os_ok os \<Longrightarrow> sel_inv s st h \<Longrightarrow> 1025 \<le> n + i \<Longrightarrow> i \<le> 1024 \<Longrightarrow>
     flow_ok (sel_inv s) (select_scan os s n i copy_reads st h)"
proof (induction n arbitrary: i st h)
  case 0
  then show ?case by simp
next
  case (Suc n)
  have "fd_max st < 1024" using Suc.prems(2) by (simp add: sel_inv_def FD_SETSIZE_def)
  show ?case
  proof (cases "int i < fd_max st + 1")
    case True
    have "flow_ok (sel_inv s)
        (if FD_ISSET i copy_reads
         then (if int i = s then select_accept os s st h else select_echo os i st h)
         else Next st h)"
      using select_accept_inv [OF Suc.prems(1,2)] select_echo_inv [OF Suc.prems(1,2)] Suc.prems(2)
      by (simp add: flow_ok_def)
    then show ?thesis
      unfolding select_scan.simps if_P [OF True]
      using True \<open>fd_max st < 1024\<close> Suc.prems(1,3) by (elim flow_ok_then_do) (simp add: Suc.IH)
  next
    case False
    with Suc.prems(2) show ?thesis by (simp add: flow_ok_def)
  qed
qed


definition one_client_os :: os where
  "one_client_os h c = (case c of
      Select n rs t \<Rightarrow>
        if open_conns h = {} then (answer 1 [])\<lparr>fds := [3]\<rparr>
        else if received 4 h = [] then (answer 1 [])\<lparr>fds := [4]\<rparr>
        else answer 0 []
    | Accept s \<Rightarrow> answer 4 []
    | Read fd n \<Rightarrow> stream_answer n n ''hi''
    | _ \<Rightarrow> answer 0 [])"


text \<open>A failing \<^verbatim>\<open>accept\<close> is not checked: the descriptor -1 is put into the set.\<close>

lemma select_accept_error:
  "ret (os h (Accept s)) = - 1 \<Longrightarrow> \<exists>h'. select_accept os s st h = Undef h'"
  by (simp add: select_accept_def call_def FD_SET_def)

end
