(* ===== verification/Net_Pipe.thy ===== *)
theory Net_Pipe
  imports Net_Os
begin

text \<open>
  The pipe programs of chapter 11.  \<^verbatim>\<open>pipe3.c\<close> uses one pipe per direction; \<^verbatim>\<open>pipe2.c\<close> is the same text
  with a single pipe for both.  The model has the two processes after the \<^verbatim>\<open>fork\<close>, each with its
  program counter and its buffer, and the contents of the pipes; \<open>a\<close> is the pipe from child to
  parent, \<open>b\<close> the pipe from parent to child, so that \<^verbatim>\<open>pipe2\<close> is the case \<open>a = b\<close>.

  A process is a function from the state to its next state, \<open>None\<close> when it is blocked or has
  returned; a step of the system is a step of either process.  Both processes keep both ends of
  every pipe open, so reading an empty pipe blocks and never sees the end of the file.
\<close>

definition pipe_str1 :: string where "pipe_str1 = ''Hello World!'' @ [NUL]"
definition pipe_str2 :: string where "pipe_str2 = ''Sorry, Who are you?'' @ [NUL]"

record pipe_state =
  pipes :: "nat \<Rightarrow> string"
  child_pc :: nat
  parent_pc :: nat
  child_buf :: string
  parent_buf :: string
  printed :: "(string \<times> string) list"

text \<open>\<^verbatim>\<open>read\<close> on a pipe: up to 30 of the bytes it holds.\<close>

definition pipe_take :: "nat \<Rightarrow> pipe_state \<Rightarrow> (string \<times> pipe_state) option" where
  "pipe_take p st =
     (if pipes st p = [] then None
      else Some (take 30 (pipes st p), st\<lparr>pipes := (pipes st)(p := drop 30 (pipes st p))\<rparr>))"

definition pipe_put :: "nat \<Rightarrow> string \<Rightarrow> pipe_state \<Rightarrow> pipe_state" where
  "pipe_put p d st = st\<lparr>pipes := (pipes st)(p := pipes st p @ d)\<rparr>"

definition child_step :: "nat \<Rightarrow> nat \<Rightarrow> pipe_state \<Rightarrow> pipe_state option" where
  "child_step a b st =
     (if child_pc st = 0 then Some (pipe_put a pipe_str1 st\<lparr>child_pc := 1\<rparr>)
      else if child_pc st = 1 then
        (case pipe_take b st of
           None \<Rightarrow> None
         | Some (d, st') \<Rightarrow> Some (st'\<lparr>child_buf := fill (child_buf st) d, child_pc := 2\<rparr>))
      else if child_pc st = 2 then
        Some (st\<lparr>printed := printed st
                   @ [(''Child process, get message: %s'', c_str (child_buf st))], child_pc := 3\<rparr>)
      else None)"

definition parent_step :: "nat \<Rightarrow> nat \<Rightarrow> pipe_state \<Rightarrow> pipe_state option" where
  "parent_step a b st =
     (if parent_pc st = 0 then
        (case pipe_take a st of
           None \<Rightarrow> None
         | Some (d, st') \<Rightarrow> Some (st'\<lparr>parent_buf := fill (parent_buf st) d, parent_pc := 1\<rparr>))
      else if parent_pc st = 1 then
        Some (st\<lparr>printed := printed st
                   @ [(''Parent process, get message: %s'', c_str (parent_buf st))], parent_pc := 2\<rparr>)
      else if parent_pc st = 2 then Some (pipe_put b pipe_str2 st\<lparr>parent_pc := 3\<rparr>)
      else if parent_pc st = 3 then Some (st\<lparr>parent_pc := 4\<rparr>)
      else None)"

inductive pipe_step :: "nat \<Rightarrow> nat \<Rightarrow> pipe_state \<Rightarrow> pipe_state \<Rightarrow> bool" for a b where
  child: "child_step a b st = Some st' \<Longrightarrow> pipe_step a b st st'"
| parent: "parent_step a b st = Some st' \<Longrightarrow> pipe_step a b st st'"

inductive_simps pipe_step_iff: "pipe_step a b st st'"

definition pipe_init :: "string \<Rightarrow> pipe_state" where
  "pipe_init buf = \<lparr>pipes = (\<lambda>_. []), child_pc = 0, parent_pc = 0, child_buf = buf,
                     parent_buf = buf, printed = []\<rparr>"

definition pipe_done :: "pipe_state \<Rightarrow> bool" where
  "pipe_done st \<longleftrightarrow> child_pc st = 3 \<and> parent_pc st = 4"

inductive pipe_reach :: "nat \<Rightarrow> nat \<Rightarrow> string \<Rightarrow> pipe_state \<Rightarrow> bool" for a b buf where
  init: "pipe_reach a b buf (pipe_init buf)"
| step: "pipe_reach a b buf st \<Longrightarrow> pipe_step a b st st' \<Longrightarrow> pipe_reach a b buf st'"

subsection \<open>Two pipes\<close>

text \<open>The two lines a correct run prints, and where the two messages are, by the program counters.\<close>

definition parent_line :: "string \<times> string" where
  "parent_line = (''Parent process, get message: %s'', ''Hello World!'')"

definition child_line :: "string \<times> string" where
  "child_line = (''Child process, get message: %s'', ''Sorry, Who are you?'')"

definition pipe3_inv :: "pipe_state \<Rightarrow> bool" where
  "pipe3_inv st \<longleftrightarrow>
     child_pc st \<le> 3 \<and> parent_pc st \<le> 4 \<and>
     pipes st 0 = (if child_pc st \<noteq> 0 \<and> parent_pc st = 0 then pipe_str1 else []) \<and>
     pipes st 1 = (if 3 \<le> parent_pc st \<and> child_pc st \<le> 1 then pipe_str2 else []) \<and>
     (parent_pc st \<noteq> 0 \<longrightarrow> c_str (parent_buf st) = snd parent_line \<and> child_pc st \<noteq> 0) \<and>
     (2 \<le> child_pc st \<longrightarrow> c_str (child_buf st) = snd child_line \<and> 3 \<le> parent_pc st) \<and>
     printed st = (if 2 \<le> parent_pc st then [parent_line] else []) @
                  (if child_pc st = 3 then [child_line] else [])"

lemma pipe_str_simps [simp]:
  "pipe_str1 \<noteq> []" "pipe_str2 \<noteq> []"
  "take 30 pipe_str1 = pipe_str1" "take 30 pipe_str2 = pipe_str2"
  "drop 30 pipe_str1 = []" "drop 30 pipe_str2 = []"
  "c_str (fill buf pipe_str1) = snd parent_line" "c_str (fill buf pipe_str2) = snd child_line"
  by (simp_all add: pipe_str1_def pipe_str2_def c_str_def fill_def NUL_def parent_line_def child_line_def)

lemma line_simps [simp]:
  "c = snd parent_line \<Longrightarrow> (''Parent process, get message: %s'', c) = parent_line"
  "c = snd child_line \<Longrightarrow> (''Child process, get message: %s'', c) = child_line"
  by (simp_all add: parent_line_def child_line_def)

lemma child_step_inv:
  assumes inv: "pipe3_inv st" and step: "child_step 0 1 st = Some st'"
  shows "pipe3_inv st'"
proof -
  have "child_pc st = 0 \<or> child_pc st = 1 \<or> child_pc st = 2"
    using step by (simp add: child_step_def split: if_splits)
  then show ?thesis
  proof (elim disjE)
    assume "child_pc st = 0"
    with inv step show ?thesis by (auto simp: child_step_def pipe3_inv_def pipe_put_def)
  next
    assume "child_pc st = 1"
    with inv step show ?thesis
      by (auto simp: child_step_def pipe3_inv_def pipe_take_def split: if_splits)
  next
    assume "child_pc st = 2"
    with inv step show ?thesis by (auto simp: child_step_def pipe3_inv_def)
  qed
qed

lemma parent_step_inv:
  assumes inv: "pipe3_inv st" and step: "parent_step 0 1 st = Some st'"
  shows "pipe3_inv st'"
proof -
  have "parent_pc st = 0 \<or> parent_pc st = 1 \<or> parent_pc st = 2 \<or> parent_pc st = 3"
    using step by (simp add: parent_step_def split: if_splits)
  then show ?thesis
  proof (elim disjE)
    assume "parent_pc st = 0"
    with inv step show ?thesis
      by (auto simp: parent_step_def pipe3_inv_def pipe_take_def split: if_splits)
  next
    assume "parent_pc st = 1"
    with inv step show ?thesis by (auto simp: parent_step_def pipe3_inv_def)
  next
    assume "parent_pc st = 2"
    with inv step show ?thesis by (auto simp: parent_step_def pipe3_inv_def pipe_put_def)
  next
    assume "parent_pc st = 3"
    with inv step show ?thesis by (auto simp: parent_step_def pipe3_inv_def)
  qed
qed

lemma pipe_init_inv: "pipe3_inv (pipe_init buf)"
  by (simp add: pipe3_inv_def pipe_init_def)

lemma pipe3_reach_inv: "pipe_reach 0 1 buf st \<Longrightarrow> pipe3_inv st"
proof (induction rule: pipe_reach.induct)
  case init
  show ?case by (rule pipe_init_inv)
next
  case (step st st')
  from step(2) show ?case
    by (rule pipe_step.cases) (use step.IH child_step_inv parent_step_inv in metis)+
qed

lemma pipe3_progress:
  assumes inv: "pipe3_inv st" and "\<not> pipe_done st"
  shows "\<exists>st'. pipe_step 0 1 st st'"
proof -
  have "child_step 0 1 st \<noteq> None \<or> parent_step 0 1 st \<noteq> None"
  proof (cases "parent_pc st = 0")
    case True
    with inv show ?thesis
      by (cases "child_pc st = 0") (auto simp: pipe3_inv_def child_step_def parent_step_def pipe_take_def)
  next
    case False
    show ?thesis
    proof (cases "parent_pc st = 4")
      case True
      with inv assms(2) have "child_pc st = 1 \<and> pipes st 1 = pipe_str2 \<or> child_pc st = 2"
        by (auto simp: pipe3_inv_def pipe_done_def)
      then show ?thesis
        by (elim disjE conjE) (simp_all add: child_step_def pipe_take_def)
    next
      case neq: False
      with inv False show ?thesis by (auto simp: pipe3_inv_def parent_step_def)
    qed
  qed
  then show ?thesis by (auto simp: pipe_step_iff)
qed

lemma pipe_step_measure: "pipe_step a b st st' \<Longrightarrow>
    child_pc st' + parent_pc st' = Suc (child_pc st + parent_pc st)"
  by (auto simp: pipe_step_iff child_step_def parent_step_def pipe_take_def pipe_put_def
      split: if_splits)

text \<open>Claim C15: the exchange over two pipes.  In every state that any interleaving of the two processes
  of \<^verbatim>\<open>pipe3\<close> can reach, either both have returned and exactly the two expected lines were printed,
  parent first, or some process can go on; and every step brings the end nearer, so each run
  ends there.\<close>

theorem pipe3_delivers:
  assumes "pipe_reach 0 1 buf st"
  shows "if pipe_done st then printed st = [parent_line, child_line]
         else (\<exists>st'. pipe_step 0 1 st st') \<and>
              (\<forall>st'. pipe_step 0 1 st st' \<longrightarrow>
                 7 - (child_pc st' + parent_pc st') < 7 - (child_pc st + parent_pc st))"
proof (cases "pipe_done st")
  case True
  with pipe3_reach_inv [OF assms] show ?thesis by (simp add: pipe3_inv_def pipe_done_def)
next
  case False
  note inv = pipe3_reach_inv [OF assms]
  have "child_pc st + parent_pc st < 7"
    using inv False by (auto simp: pipe3_inv_def pipe_done_def)
  with pipe3_progress [OF inv False] False show ?thesis
    by (auto dest!: pipe_step_measure)
qed

theorem pipe3_delivers_witness:
  "\<exists>st'. pipe_step 0 1 (pipe_init (replicate 30 NUL)) st'"
  using pipe3_delivers [OF pipe_reach.init, of "replicate 30 NUL"]
  by (simp add: pipe_done_def pipe_init_def)

subsection \<open>One pipe\<close>

text \<open>With a single pipe the child can read back its own message; then the parent waits for ever.\<close>

lemma pipe_reach_child: "pipe_reach a b buf st \<Longrightarrow> child_step a b st = Some st' \<Longrightarrow> pipe_reach a b buf st'"
  by (blast intro: pipe_reach.step pipe_step.child)

text \<open>The fault of the single pipe.  \<^verbatim>\<open>pipe2\<close> reaches a state in which the child has printed its
  own greeting and returned, while the parent has read nothing and no process can ever go on.\<close>

theorem pipe2_can_hang:
  "\<exists>st. pipe_reach 0 0 buf st \<and> child_pc st = 3 \<and> parent_pc st = 0
      \<and> printed st = [(''Child process, get message: %s'', ''Hello World!'')]
      \<and> \<not> (\<exists>st'. pipe_step 0 0 st st')"
proof -
  obtain st1 where st1: "child_step 0 0 (pipe_init buf) = Some st1"
    and s1: "child_pc st1 = 1" "parent_pc st1 = 0" "pipes st1 0 = pipe_str1" "printed st1 = []"
    by (simp add: child_step_def pipe_init_def pipe_put_def)
  obtain st2 where st2: "child_step 0 0 st1 = Some st2"
    and s2: "child_pc st2 = 2" "parent_pc st2 = 0" "pipes st2 0 = []" "printed st2 = []"
      "c_str (child_buf st2) = snd parent_line"
    using s1 by (simp add: child_step_def pipe_take_def)
  define st3 where "st3 = st2\<lparr>printed := printed st2
      @ [(''Child process, get message: %s'', c_str (child_buf st2))], child_pc := 3\<rparr>"
  have st3: "child_step 0 0 st2 = Some st3"
    using s2(1) by (simp add: child_step_def st3_def)
  have s3: "child_pc st3 = 3" "parent_pc st3 = 0" "pipes st3 0 = []"
    "printed st3 = [(''Child process, get message: %s'', ''Hello World!'')]"
    using s2 by (simp_all add: st3_def parent_line_def del: line_simps)
  have "pipe_reach 0 0 buf st3"
    by (rule pipe_reach_child [OF pipe_reach_child [OF pipe_reach_child [OF pipe_reach.init st1] st2] st3])
  moreover have "child_step 0 0 st3 = None" "parent_step 0 0 st3 = None"
    using s3(1-3) by (simp_all add: child_step_def parent_step_def pipe_take_def)
  then have "\<not> (\<exists>st'. pipe_step 0 0 st3 st')" by (simp add: pipe_step_iff)
  ultimately show ?thesis using s3 by blast
qed

end
