(* ===== verification/Net_Addr.thy ===== *)
theory Net_Addr
  imports Net_Os
begin

text \<open>
  Addresses: the conversion examples of chapter 3 and the host lookups of chapter 8.

  \<^verbatim>\<open>inet_ntoa\<close> writes into one static buffer that every call overwrites; the example programs show
  this, so the buffer is part of the model.  The host database is the parameter \<open>resolve\<close>.  The
  lemmas show that the byte order conversions are involutions and that printing an address and
  parsing the text gives the address back.
\<close>

subsection \<open>Printing\<close>

fun dec_text :: "nat \<Rightarrow> string" where
  "dec_text n = (if n < 10 then [char_of (n + 48)] else dec_text (n div 10) @ [char_of (n mod 10 + 48)])"

declare dec_text.simps [simp del]

text \<open>The text of \<^verbatim>\<open>%d\<close>.\<close>

definition int_text :: "int \<Rightarrow> string" where
  "int_text i = (if i < 0 then CHR ''-'' # dec_text (nat (- i)) else dec_text (nat i))"

text \<open>The text of \<^verbatim>\<open>%0wd\<close>.\<close>

definition pad :: "nat \<Rightarrow> nat \<Rightarrow> string" where
  "pad w n = (let t = dec_text n in replicate (w - length t) CHR ''0'' @ t)"

definition addr_byte :: "nat \<Rightarrow> 32 word \<Rightarrow> nat" where
  "addr_byte i w = unat w div 256 ^ i mod 256"

text \<open>The address is in network byte order: the lowest byte is the first number.\<close>

definition inet_ntoa :: "32 word \<Rightarrow> string" where
  "inet_ntoa w = dec_text (addr_byte 0 w) @ ''.'' @ dec_text (addr_byte 1 w) @ ''.'' @
                 dec_text (addr_byte 2 w) @ ''.'' @ dec_text (addr_byte 3 w)"

definition inet_aton :: "string \<Rightarrow> 32 word option" where
  "inet_aton s = (if inet_addr s = INADDR_NONE \<and> s \<noteq> ''255.255.255.255'' then None
                  else Some (inet_addr s))"

subsection \<open>chap3\<close>

definition uarg :: "'a::len word \<Rightarrow> parg" where
  "uarg w = PI (uint w)"

definition endian_conv_main :: "os \<Rightarrow> hist \<Rightarrow> int flow" where
  "endian_conv_main os h =
     (let host_port = 0x1234 :: 16 word;
          host_addr = 0x12345678 :: 32 word;
          net_port = htons host_port;
          net_addr = htonl host_addr;
          h1 = do_call os (Printf (ln ''Host ordered port: %#x'') [uarg host_port]) h;
          h2 = do_call os (Printf (ln ''Network ordered port: %#x'') [uarg net_port]) h1;
          h3 = do_call os (Printf (ln ''Host ordered address: %#lx'') [uarg host_addr]) h2
      in Next 0 (do_call os (Printf (ln ''Network ordered address: %#lx'') [uarg net_addr]) h3))"

definition Inet_addr :: "os \<Rightarrow> string \<Rightarrow> hist \<Rightarrow> 32 word \<times> hist" where
  "Inet_addr os addr h =
     (let conv_addr = inet_addr addr
      in (conv_addr,
          if conv_addr = INADDR_NONE then do_call os (Printf (ln ''Error occurred'') []) h
          else do_call os (Printf (ln ''Network ordered integer address: %#lx'') [uarg conv_addr]) h))"

definition inet_addr_main :: "os \<Rightarrow> hist \<Rightarrow> int flow" where
  "inet_addr_main os h =
     (let (conv_addr, h1) = Inet_addr os ''1.2.3.4'' h;
          (conv_addr', h2) = Inet_addr os ''1.2.3.256'' h1
      in Next 0 h2)"

definition inet_aton_main :: "os \<Rightarrow> hist \<Rightarrow> int flow" where
  "inet_aton_main os h =
     (case inet_aton ''127.232.124.79'' of
        None \<Rightarrow> error_handling os ''inet_aton() error'' h
      | Some a \<Rightarrow> Next 0 (do_call os (Printf (ln ''Network ordered integer addr: %#x'') [uarg a]) h))"

text \<open>\<open>static_buf\<close> is the buffer behind the pointer \<^verbatim>\<open>inet_ntoa\<close> returns; \<^verbatim>\<open>str_ptr\<close> keeps pointing to it.\<close>

definition inet_ntoa_main :: "os \<Rightarrow> hist \<Rightarrow> int flow" where
  "inet_ntoa_main os h =
     (let addr1 = htonl 0x1020304;
          addr2 = htonl 0x1010101;
          static_buf = inet_ntoa addr1;
          str_arr = static_buf;
          h1 = do_call os (Printf (ln ''Dotted-Decimal notation address: %s'') [PS static_buf]) h;
          static_buf = inet_ntoa addr2;
          h2 = do_call os (Printf (ln ''Dotted-Decimal notation address: %s'') [PS static_buf]) h1
      in Next 0 (do_call os (Printf (ln ''Dotted-Decimal notation address: %s'') [PS str_arr]) h2))"

subsection \<open>chap8\<close>

record hostent =
  h_name :: string
  h_aliases :: "string list"
  h_addrtype :: int
  h_addr_list :: "32 word list"

fun print_list :: "os \<Rightarrow> string \<Rightarrow> nat \<Rightarrow> string list \<Rightarrow> hist \<Rightarrow> hist" where
  "print_list os fmt i [] h = h"
| "print_list os fmt i (x # xs) h =
     print_list os fmt (i + 1) xs (do_call os (Printf (ln fmt) [PI (int i + 1), PS x]) h)"

definition print_host :: "os \<Rightarrow> hostent \<Rightarrow> hist \<Rightarrow> hist" where
  "print_host os host h =
     (let h1 = do_call os (Printf (ln ''Official name: %s'') [PS (h_name host)]) h;
          h2 = print_list os ''Aliases %d: %s'' 0 (h_aliases host) h1;
          h3 = do_call os (Printf (ln ''Address type: %s'')
                 [PS (if h_addrtype host = PF_INET then ''IPv4'' else ''IPv6'')]) h2
      in print_list os ''IP address %d: %s'' 0 (map inet_ntoa (h_addr_list host)) h3)"

definition gethostbyname_main ::
    "os \<Rightarrow> (string \<Rightarrow> hostent option) \<Rightarrow> string list \<Rightarrow> hist \<Rightarrow> int flow" where
  "gethostbyname_main os resolve argv h =
     (if length argv \<noteq> 2 then usage os ''Usage : %s <address>'' argv h
      else case resolve (argv ! 1) of
             None \<Rightarrow> error_handling os ''gethostbyname() error'' h
           | Some host \<Rightarrow> Next 0 (print_host os host h))"

definition gethostbyaddr_main ::
    "os \<Rightarrow> (32 word \<Rightarrow> hostent option) \<Rightarrow> string list \<Rightarrow> hist \<Rightarrow> int flow" where
  "gethostbyaddr_main os resolve argv h =
     (if length argv \<noteq> 2 then usage os ''Usage : %s <IP>'' argv h
      else case resolve (inet_addr (argv ! 1)) of
             None \<Rightarrow> error_handling os ''gethostbyaddr() error'' h
           | Some host \<Rightarrow> Next 0 (print_host os host h))"

subsection \<open>Byte order\<close>

lemma htons_involution: "htons (htons w) = w"
  by (rule bit_word_eqI) (auto simp: htons_def bit_simps)

lemma bit_htonl:
  "bit (htonl w) n \<longleftrightarrow>
     (if n < 8 then bit w (n + 24) else if n < 16 then bit w (n + 8)
      else if n < 24 then bit w (n - 8) else n < 32 \<and> bit w (n - 24))"
  by (auto simp: htonl_def bit_simps add.commute dest: bit_imp_le_length)

lemma htonl_involution: "htonl (htonl w) = w"
proof (rule bit_word_eqI)
  fix n assume "n < LENGTH(32)"
  then have "n < 32" by simp
  then have "n < 8 \<or> (\<exists>m<8. n = 8 + m) \<or> (\<exists>m<8. n = 16 + m) \<or> (\<exists>m<8. n = 24 + m)"
    by presburger
  then show "bit (htonl (htonl w)) n = bit w n"
    by (elim disjE exE conjE) (simp_all add: bit_htonl add.commute)
qed

subsection \<open>Round trips of the text forms\<close>

lemma digit_of_nat:
  "d < 10 \<Longrightarrow> is_digit (char_of (d + 48))" "d < 10 \<Longrightarrow> digit_val (char_of (d + 48)) = d"
  "d < 10 \<Longrightarrow> char_of (d + 48) \<noteq> CHR ''.''"
proof -
  assume d: "d < 10"
  then have *: "of_char (char_of (d + 48)) = d + 48" by simp
  with d show "is_digit (char_of (d + 48))" "digit_val (char_of (d + 48)) = d"
    by (simp_all add: is_digit_def digit_val_def)
  show "char_of (d + 48) \<noteq> CHR ''.''"
  proof
    assume "char_of (d + 48) = CHR ''.''"
    with * show False by simp
  qed
qed

lemma dec_val_snoc [simp]: "dec_val (cs @ [c]) = dec_val cs * 10 + digit_val c"
  by (simp add: dec_val_def)

lemma dec_text_props:
  "dec_val (dec_text n) = n \<and> list_all is_digit (dec_text n) \<and> dec_text n \<noteq> [] \<and> CHR ''.'' \<notin> set (dec_text n)"
proof (induction n rule: dec_text.induct)
  case (1 n)
  show ?case
  proof (cases "n < 10")
    case True
    then show ?thesis
      using digit_of_nat [of n] by (simp add: dec_text.simps [of n] dec_val_def)
  next
    case False
    then show ?thesis
      using 1 digit_of_nat [of "n mod 10"] by (simp add: dec_text.simps [of n])
  qed
qed

lemma split_on_part: "CHR ''.'' \<notin> set p \<Longrightarrow> split_on CHR ''.'' (p @ CHR ''.'' # rest) = p # split_on CHR ''.'' rest"
  by (induction p) auto

lemma split_on_last: "CHR ''.'' \<notin> set p \<Longrightarrow> split_on CHR ''.'' p = [p]"
  by (induction p) auto

lemma base256:
  fixes u :: nat
  assumes "u < 4294967296"
  shows "u = u mod 256 + 256 * (u div 256 mod 256 + 256 * (u div 65536 mod 256 + 256 * (u div 16777216 mod 256)))"
proof -
  have "u div 65536 = u div 256 div 256" "u div 16777216 = u div 256 div 256 div 256"
    by (simp_all add: div_mult2_eq [symmetric])
  moreover have "u div 256 div 256 div 256 < 256" using assms by (simp add: div_mult2_eq [symmetric])
  ultimately show ?thesis
    using div_mult_mod_eq [of u 256] div_mult_mod_eq [of "u div 256" 256]
      div_mult_mod_eq [of "u div 256 div 256" 256] by (simp add: algebra_simps)
qed

lemma addr_bytes:
  "unat w = addr_byte 0 w + 256 * (addr_byte 1 w + 256 * (addr_byte 2 w + 256 * addr_byte 3 w))"
proof -
  have "unat w < 2 ^ LENGTH(32)" by (rule unsigned_less)
  then have lt: "unat w < 4294967296" by simp
  have "addr_byte 0 w = unat w mod 256" "addr_byte 1 w = unat w div 256 mod 256"
    "addr_byte 2 w = unat w div 65536 mod 256" "addr_byte 3 w = unat w div 16777216 mod 256"
    by (simp_all add: addr_byte_def del: mod_less)
  then show ?thesis using base256 [OF lt] by presburger
qed

text \<open>Dotted-decimal text is a faithful representation.  Printing any 32-bit address and parsing
  the text with \<^verbatim>\<open>inet_addr\<close> gives the same address, in the same (network) byte order.\<close>

theorem inet_addr_ntoa: "inet_addr (inet_ntoa w) = w"
proof -
  have le: "addr_byte i w \<le> 255" for i by (simp add: addr_byte_def less_Suc_eq_le [symmetric])
  have "inet_addr (inet_ntoa w) = of_nat (unat w)"
    unfolding inet_addr_def inet_ntoa_def addr_bytes [of w]
    using le by (simp add: split_on_part split_on_last dec_text_props)
  then show ?thesis by simp
qed

subsection \<open>What the chapter 3 programs print\<close>

fun printfs :: "hist \<Rightarrow> (string \<times> parg list) list" where
  "printfs [] = []"
| "printfs ((Printf f a, r) # h) = (f, a) # printfs h"
| "printfs (_ # h) = printfs h"

lemma printfs_append [simp]: "printfs (h @ h') = printfs h @ printfs h'"
  by (induction h rule: printfs.induct) auto

lemma htons_example: "htons 0x1234 = 0x3412"
  by (simp add: htons_def)

lemma htonl_example:
  "htonl 0x12345678 = 0x78563412" "htonl 0x1020304 = 0x4030201" "htonl 0x1010101 = 0x1010101"
  by (simp_all add: htonl_def)

lemma inet_ntoa_example:
  "inet_ntoa 0x4030201 = ''1.2.3.4''" "inet_ntoa 0x1010101 = ''1.1.1.1''"
  by (simp_all add: inet_ntoa_def addr_byte_def dec_text.simps char_of_def bit_Suc_0_iff)

lemma inet_addr_example:
  "inet_addr ''1.2.3.4'' = 0x4030201" "inet_addr ''1.2.3.256'' = INADDR_NONE"
  by (simp_all add: inet_addr_def is_digit_def dec_val_def digit_val_def INADDR_NONE_def)

text \<open>The conversion examples.  \<^verbatim>\<open>endian_conv\<close> prints the port and the address with their bytes
  swapped; \<^verbatim>\<open>inet_addr\<close> converts the first address and reports an error for the second, whose last
  number does not fit a byte; \<^verbatim>\<open>inet_ntoa\<close> prints the second address through the pointer that the
  first call returned, because both calls share one buffer, while the copy keeps the first.\<close>

theorem chap3_outputs:
  "\<exists>h1 h2 h3. endian_conv_main os [] = Next 0 h1 \<and> inet_addr_main os [] = Next 0 h2
     \<and> inet_ntoa_main os [] = Next 0 h3
     \<and> map snd (printfs h1) = [[PI 0x1234], [PI 0x3412], [PI 0x12345678], [PI 0x78563412]]
     \<and> printfs h2 = [(ln ''Network ordered integer address: %#lx'', [PI 0x4030201]),
                      (ln ''Error occurred'', [])]
     \<and> map snd (printfs h3) = [[PS ''1.2.3.4''], [PS ''1.1.1.1''], [PS ''1.2.3.4'']]"
  by (simp add: endian_conv_main_def inet_addr_main_def inet_ntoa_main_def Inet_addr_def Let_def
      do_call_eq uarg_def htons_example htonl_example inet_ntoa_example inet_addr_example
      INADDR_NONE_def)

end
