(* ===== verification/Net_Proc.thy ===== *)
theory Net_Proc
  imports Net_Stream Net_Addr
begin

text \<open>
  The remaining single-file programs of \<^verbatim>\<open>net-program\<close>: descriptors (chapter 1), datagram boundaries
  (chapter 6), socket options (chapter 9), processes and signals (chapter 10), message flags and
  vectored I/O (chapter 13) and multicast and broadcast news (chapter 14).

  A signal handler is a piece of program of its own; the history of a process records at which
  call it was interrupted only through the replies (\<^verbatim>\<open>sleep\<close> returning early, \<^verbatim>\<open>recv\<close> failing).  A
  status or an option value that a call did not store is read uninitialised, which is undefined.
\<close>

abbreviation SOL_SOCKET :: int where "SOL_SOCKET \<equiv> 1"
abbreviation SO_TYPE :: int where "SO_TYPE \<equiv> 3"
abbreviation SO_BROADCAST :: int where "SO_BROADCAST \<equiv> 6"
abbreviation SO_SNDBUF :: int where "SO_SNDBUF \<equiv> 7"
abbreviation SO_RCVBUF :: int where "SO_RCVBUF \<equiv> 8"
abbreviation IPPROTO_IP :: int where "IPPROTO_IP \<equiv> 0"
abbreviation IP_MULTICAST_TTL :: int where "IP_MULTICAST_TTL \<equiv> 33"
abbreviation IP_ADD_MEMBERSHIP :: int where "IP_ADD_MEMBERSHIP \<equiv> 35"
abbreviation MSG_OOB :: int where "MSG_OOB \<equiv> 1"
abbreviation MSG_PEEK :: int where "MSG_PEEK \<equiv> 2"
abbreviation MSG_DONTWAIT :: int where "MSG_DONTWAIT \<equiv> 64"
abbreviation SIGINT :: int where "SIGINT \<equiv> 2"
abbreviation SIGALRM :: int where "SIGALRM \<equiv> 14"
abbreviation SIGCHLD :: int where "SIGCHLD \<equiv> 17"
abbreviation SIGURG :: int where "SIGURG \<equiv> 23"
abbreviation WNOHANG :: int where "WNOHANG \<equiv> 1"
abbreviation F_SETOWN :: int where "F_SETOWN \<equiv> 8"
abbreviation O_CREAT_WRONLY :: int where "O_CREAT_WRONLY \<equiv> 65"

text \<open>The bytes of a 32-bit integer in memory.\<close>

definition int_bytes :: "int \<Rightarrow> string" where
  "int_bytes v = map (\<lambda>i. char_of (nat (v mod 2 ^ 32) div 256 ^ i mod 256)) [0, 1, 2, 3]"

subsection \<open>chap1/fd\_seri.c\<close>

definition fd_seri_main :: "os \<Rightarrow> hist \<Rightarrow> int flow" where
  "fd_seri_main os h =
     (let (r1, h1) = call os (Socket PF_INET SOCK_STREAM 0) h;
          (r2, h2) = call os (Open ''test.dat'' O_CREAT_WRONLY) h1;
          (r3, h3) = call os (Socket PF_INET SOCK_DGRAM 0) h2;
          h4 = do_call os (Printf (ln ''file descriptor 1: %d'') [PI (ret r1)]) h3;
          h5 = do_call os (Printf (ln ''file descriptor 2: %d'') [PI (ret r2)]) h4;
          h6 = do_call os (Printf (ln ''file descriptor 3: %d'') [PI (ret r3)]) h5
      in Next 0 (do_call os (Close (ret r3)) (do_call os (Close (ret r2)) (do_call os (Close (ret r1)) h6))))"

subsection \<open>chap6: datagram boundaries\<close>

definition bound_client_main :: "os \<Rightarrow> string list \<Rightarrow> hist \<Rightarrow> int flow" where
  "bound_client_main os argv h =
     (if length argv \<noteq> 3 then usage os ''Usage: %s <IP> <Port>'' argv h
      else then_do (checked os (Socket PF_INET SOCK_DGRAM 0) ''sock() error'' h) (\<lambda>s h1.
           let your_address = peer_addr (argv ! 1) (argv ! 2);
               h2 = do_call os (Sendto s (''Hi'' @ [NUL]) your_address) h1;
               h3 = do_call os (Sendto s (''I'' @ [CHR 0x27] @ ''m another UDP host'' @ [NUL]) your_address) h2;
               h4 = do_call os (Sendto s (''Nice to meet you'' @ [NUL]) your_address) h3
           in Next 0 (do_call os (Close s) h4)))"

fun bound_server_loop :: "os \<Rightarrow> nat \<Rightarrow> nat \<Rightarrow> int \<Rightarrow> string \<Rightarrow> hist \<Rightarrow> unit flow" where
  "bound_server_loop os 0 i s message h = Next () h"
| "bound_server_loop os (Suc n) i s message h =
     (let (r, h1) = call os (Recvfrom s 30) (do_call os (Sleep 5) h);
          message' = fill message (data r)
      in if NUL \<notin> set message' then Undef h1
         else bound_server_loop os n (i + 1) s message'
                (do_call os (Printf (ln ''Message: %dth %s'') [PI (int i + 1), PS (c_str message')]) h1))"

definition bound_server_main :: "os \<Rightarrow> string list \<Rightarrow> string \<Rightarrow> hist \<Rightarrow> int flow" where
  "bound_server_main os argv message h =
     (if length argv \<noteq> 2 then usage os ''Usage : %s <port>'' argv h
      else then_do (checked os (Socket PF_INET SOCK_DGRAM 0) ''socket() error'' h) (\<lambda>s h1.
           then_do (checked os (Bind s (any_addr (argv ! 1))) ''bind() error'' h1) (\<lambda>_ h2.
           then_do (bound_server_loop os 3 0 s message h2)
             (\<lambda>_ h3. Next 0 (do_call os (Close s) h3)))))"

subsection \<open>chap9: socket options\<close>

text \<open>A \<^verbatim>\<open>getsockopt\<close> or \<^verbatim>\<open>setsockopt\<close> whose non-zero result is an error.  When \<^verbatim>\<open>getsockopt\<close> succeeds it
  has stored the value; for a variable that already has one, \<open>old\<close> is kept if nothing was stored.\<close>

definition getopt_checked :: "os \<Rightarrow> int \<Rightarrow> int \<Rightarrow> int option \<Rightarrow> hist \<Rightarrow> int flow" where
  "getopt_checked os s opt old h =
     (let (r, h1) = call os (Getsockopt s SOL_SOCKET opt) h
      in if ret r \<noteq> 0 then error_handling os ''getsockopt() error'' h1
         else case (outv r, old) of
                (Some v, _) \<Rightarrow> Next v h1
              | (None, Some v) \<Rightarrow> Next v h1
              | (None, None) \<Rightarrow> Undef h1)"

definition setopt_checked :: "os \<Rightarrow> int \<Rightarrow> int \<Rightarrow> int \<Rightarrow> hist \<Rightarrow> unit flow" where
  "setopt_checked os s opt v h =
     (let (r, h1) = call os (Setsockopt s SOL_SOCKET opt (int_bytes v)) h
      in if ret r \<noteq> 0 then error_handling os ''getsockopt() error'' h1 else Next () h1)"

definition print_bufs :: "os \<Rightarrow> int \<Rightarrow> int \<Rightarrow> hist \<Rightarrow> int flow" where
  "print_bufs os rcv_buf snd_buf h =
     Next 0 (do_call os (Printf (ln ''Output buffer size: %d'') [PI snd_buf])
              (do_call os (Printf (ln ''Input buffer size: %d'') [PI rcv_buf]) h))"

definition get_buf_main :: "os \<Rightarrow> hist \<Rightarrow> int flow" where
  "get_buf_main os h =
     (let (s, h1) = call os (Socket PF_INET SOCK_STREAM 0) h
      in then_do (getopt_checked os (ret s) SO_SNDBUF None h1) (\<lambda>snd_buf h2.
         then_do (getopt_checked os (ret s) SO_RCVBUF None h2) (\<lambda>rcv_buf h3.
         print_bufs os rcv_buf snd_buf h3)))"

definition set_buf_main :: "os \<Rightarrow> hist \<Rightarrow> int flow" where
  "set_buf_main os h =
     (let (s, h1) = call os (Socket PF_INET SOCK_STREAM 0) h
      in then_do (setopt_checked os (ret s) SO_RCVBUF (1024 * 3) h1) (\<lambda>_ h2.
         then_do (setopt_checked os (ret s) SO_SNDBUF (1024 * 3) h2) (\<lambda>_ h3.
         then_do (getopt_checked os (ret s) SO_SNDBUF (Some (1024 * 3)) h3) (\<lambda>snd_buf h4.
         then_do (getopt_checked os (ret s) SO_RCVBUF (Some (1024 * 3)) h4) (\<lambda>rcv_buf h5.
         print_bufs os rcv_buf snd_buf h5)))))"

definition socket_type_main :: "os \<Rightarrow> hist \<Rightarrow> int flow" where
  "socket_type_main os h =
     (let (t, h1) = call os (Socket PF_INET SOCK_STREAM 0) h;
          (u, h2) = call os (Socket PF_INET SOCK_DGRAM 0) h1;
          h3 = do_call os (Printf (ln ''TCP SOCKET: %d'') [PI SOCK_STREAM]) h2;
          h4 = do_call os (Printf (ln ''UDP SOCKET: %d'') [PI SOCK_DGRAM]) h3
      in then_do (getopt_checked os (ret t) SO_TYPE None h4) (\<lambda>socket_type h5.
         then_do (getopt_checked os (ret u) SO_TYPE (Some socket_type)
                    (do_call os (Printf (ln ''Socket tcp type: %d'') [PI socket_type]) h5)) (\<lambda>socket_type' h6.
         Next 0 (do_call os (Printf (ln ''Socket udp type: %d'') [PI socket_type']) h6))))"

subsection \<open>chap10: processes\<close>

definition WIFEXITED :: "int \<Rightarrow> bool" where "WIFEXITED status \<longleftrightarrow> status mod 128 = 0"
definition WEXITSTATUS :: "int \<Rightarrow> int" where "WEXITSTATUS status = status div 256 mod 256"

text \<open>The variable a status is stored into, \<open>None\<close> while it is uninitialised.\<close>

definition stored :: "reply \<Rightarrow> int option \<Rightarrow> int option" where
  "stored r status = (case outv r of Some v \<Rightarrow> Some v | None \<Rightarrow> status)"

definition report_exit :: "os \<Rightarrow> string \<Rightarrow> int option \<Rightarrow> hist \<Rightarrow> unit flow" where
  "report_exit os fmt status h =
     (case status of
        None \<Rightarrow> Undef h
      | Some v \<Rightarrow> Next () (if WIFEXITED v then do_call os (Printf (ln fmt) [PI (WEXITSTATUS v)]) h else h))"

definition zombie_main :: "os \<Rightarrow> hist \<Rightarrow> int flow" where
  "zombie_main os h =
     (let (r, h1) = call os Fork h
      in if ret r = - 1 then Exited 1 (do_call os (Printf (ln ''fork failed'') []) h1)
         else let h2 = (if ret r = 0 then do_call os (Printf ''Hi, I am child process'' []) h1
                        else do_call os (Sleep 30)
                               (do_call os (Printf (ln ''Child process ID: %d'') [PI (ret r)]) h1))
              in Next 0 (if ret r = 0 then do_call os (Puts ''End child process'') h2
                         else do_call os (Puts ''End parent process'') h2))"

definition wait_main :: "os \<Rightarrow> hist \<Rightarrow> int flow" where
  "wait_main os h =
     then_do (Fork_checked os h) (\<lambda>pid h1.
     if pid = 0 then Next 3 h1
     else then_do (Fork_checked os (do_call os (Printf (ln ''Child pid: %d'') [PI pid]) h1)) (\<lambda>pid' h2.
       if pid' = 0 then Exited 7 h2
       else let (r, h3) = call os Wait (do_call os (Printf (ln ''Child pid: %d'') [PI pid']) h2);
                status = stored r None
            in then_do (report_exit os ''Child send one: %d'' status h3) (\<lambda>_ h4.
               let (r', h5) = call os Wait h4
               in then_do (report_exit os ''Child send one: %d'' (stored r' status) h5) (\<lambda>_ h6.
                  Next 0 (do_call os (Sleep 30) h6)))))"

fun waitpid_loop :: "os \<Rightarrow> nat \<Rightarrow> int option \<Rightarrow> hist \<Rightarrow> int option flow" where
  "waitpid_loop os 0 status h = Cut h"
| "waitpid_loop os (Suc n) status h =
     (let (r, h1) = call os (Waitpid (- 1) WNOHANG) h;
          status' = stored r status
      in if ret r = 0
         then waitpid_loop os n status' (do_call os (Puts ''sleep 3 sec.'') (do_call os (Sleep 3) h1))
         else Next status' h1)"

definition waitpid_main :: "os \<Rightarrow> nat \<Rightarrow> hist \<Rightarrow> int flow" where
  "waitpid_main os fuel h =
     then_do (Fork_checked os h) (\<lambda>pid h1.
     if pid = 0 then Next 24 (do_call os (Sleep 24) h1)
     else then_do (waitpid_loop os fuel None h1) (\<lambda>status h2.
          then_do (report_exit os ''Child send one: %d'' status h2) (\<lambda>_ h3. Next 0 h3)))"

text \<open>The handler of \<^verbatim>\<open>remove_zombie.c\<close>.  It looks at the status also when no child had ended.\<close>

definition rz_read_childproc :: "os \<Rightarrow> hist \<Rightarrow> unit flow" where
  "rz_read_childproc os h =
     (let (r, h1) = call os (Waitpid (- 1) WNOHANG) h
      in case outv r of
           None \<Rightarrow> Undef h1
         | Some status \<Rightarrow>
             if WIFEXITED status
             then Next () (do_call os (Printf (ln ''Child send: %d'') [PI (WEXITSTATUS status)])
                    (do_call os (Printf (ln ''Removed proc id: %d'') [PI (ret r)]) h1))
             else Next () h1)"

fun wait_puts :: "os \<Rightarrow> nat \<Rightarrow> nat \<Rightarrow> hist \<Rightarrow> hist" where
  "wait_puts os sec 0 h = h"
| "wait_puts os sec (Suc n) h = wait_puts os sec n (do_call os (Sleep sec) (do_call os (Puts ''wait ...'') h))"

definition rz_child :: "os \<Rightarrow> int \<Rightarrow> hist \<Rightarrow> int flow" where
  "rz_child os code h =
     Next code (do_call os (Sleep 10) (do_call os (Puts (''Hi I'' @ [CHR 0x27] @ ''m child process'')) h))"

definition remove_zombie_main :: "os \<Rightarrow> hist \<Rightarrow> int flow" where
  "remove_zombie_main os h =
     then_do (Fork_checked os (do_call os (Sigaction SIGCHLD ''read_childproc'') h)) (\<lambda>pid h1.
     if pid = 0 then rz_child os 12 h1
     else then_do (Fork_checked os (do_call os (Printf (ln ''Child process id: %d'') [PI pid]) h1)) (\<lambda>pid' h2.
       if pid' = 0 then rz_child os 24 h2
       else Next 0 (wait_puts os 5 5 (do_call os (Printf (ln ''Child process id: %d'') [PI pid']) h2))))"

definition timeout_handler :: "os \<Rightarrow> hist \<Rightarrow> hist" where
  "timeout_handler os h = do_call os (Alarm 2) (do_call os (Puts ''Time out!'') h)"

definition keycontrol :: "os \<Rightarrow> hist \<Rightarrow> hist" where
  "keycontrol os h = do_call os (Puts ''Ctrl + C pressed'') h"

definition sigaction_main :: "os \<Rightarrow> hist \<Rightarrow> int flow" where
  "sigaction_main os h =
     Next 0 (wait_puts os 1000 3 (do_call os (Alarm 2) (do_call os (Sigaction SIGALRM ''timeout'') h)))"

definition signal_main :: "os \<Rightarrow> hist \<Rightarrow> int flow" where
  "signal_main os h =
     Next 0 (wait_puts os 1000 3 (do_call os (Alarm 2)
       (do_call os (Signal SIGINT ''keycontrol'') (do_call os (Signal SIGALRM ''timeout'') h))))"

subsection \<open>chap13: message flags and vectored I/O\<close>

text \<open>\<^verbatim>\<open>urg_handler\<close> of both receivers: its buffer is a local array.\<close>

definition urg_handler :: "os \<Rightarrow> int \<Rightarrow> string \<Rightarrow> hist \<Rightarrow> unit flow" where
  "urg_handler os clnt_sock buf h =
     (let (r, h1) = call os (Recv clnt_sock 99 MSG_OOB) h
      in case put_nul (fill buf (data r)) (ret r) of
           None \<Rightarrow> Undef h1
         | Some buf' \<Rightarrow> Next () (do_call os (Printf (ln ''Urgent message: %s'') [PS (c_str buf')]) h1))"

text \<open>The prologue of the two receivers: only \<^verbatim>\<open>bind\<close> is checked.\<close>

definition recv_setup :: "os \<Rightarrow> string \<Rightarrow> hist \<Rightarrow> (int \<times> int) flow" where
  "recv_setup os port h =
     (let (s, h1) = call os (Socket PF_INET SOCK_STREAM 0) h
      in then_do (checked os (Bind (ret s) (any_addr port)) ''bind() error'' h1) (\<lambda>_ h2.
         let (c, h3) = call os (Accept (ret s)) (do_call os (Listen (ret s) 5) h2)
         in Next (ret s, ret c) h3))"

fun oob_recv_loop :: "os \<Rightarrow> nat \<Rightarrow> int \<Rightarrow> string \<Rightarrow> hist \<Rightarrow> unit flow" where
  "oob_recv_loop os 0 clnt_sock buf h = Cut h"
| "oob_recv_loop os (Suc n) clnt_sock buf h =
     (let (r, h1) = call os (Recv clnt_sock 99 0) h
      in if ret r = 0 then Next () h1
         else if ret r = - 1 then oob_recv_loop os n clnt_sock (fill buf (data r)) h1
         else case put_nul (fill buf (data r)) (ret r) of
                None \<Rightarrow> Undef h1
              | Some buf' \<Rightarrow> oob_recv_loop os n clnt_sock buf' (do_call os (Puts (c_str buf')) h1))"

definition oob_recv_main :: "os \<Rightarrow> nat \<Rightarrow> string list \<Rightarrow> string \<Rightarrow> hist \<Rightarrow> int flow" where
  "oob_recv_main os fuel argv buf h =
     (if length argv \<noteq> 2 then usage os ''Usage : %s <port>'' argv h
      else then_do (recv_setup os (argv ! 1) h) (\<lambda>(serv_sock, clnt_sock) h1.
           let (p, h2) = call os Getpid h1;
               h3 = do_call os (Fcntl clnt_sock F_SETOWN (ret p)) h2;
               h4 = do_call os (Sigaction SIGURG ''urg_handler'') h3
           in then_do (oob_recv_loop os fuel clnt_sock buf h4) (\<lambda>_ h5.
              Next 0 (do_call os (Close clnt_sock) (do_call os (Close serv_sock) h5)))))"

definition oob_send_main :: "os \<Rightarrow> string list \<Rightarrow> hist \<Rightarrow> int flow" where
  "oob_send_main os argv h =
     (if length argv \<noteq> 3 then usage os ''Usage: %s <IP> <Port>'' argv h
      else then_do (client_setup os (argv ! 1) (argv ! 2) h) (\<lambda>sock h1.
           let h2 = do_call os (Write sock ''123'') h1;
               h3 = do_call os (Send sock ''4'' MSG_OOB) h2;
               h4 = do_call os (Write sock ''567'') h3;
               h5 = do_call os (Send sock ''890'' MSG_OOB) h4
           in Next 0 (do_call os (Close sock) h5)))"

fun peek_loop :: "os \<Rightarrow> nat \<Rightarrow> int \<Rightarrow> string \<Rightarrow> hist \<Rightarrow> (int \<times> string) flow" where
  "peek_loop os 0 clnt_sock buf h = Cut h"
| "peek_loop os (Suc n) clnt_sock buf h =
     (let (r, h1) = call os (Recv clnt_sock 99 (MSG_PEEK + MSG_DONTWAIT)) h;
          buf' = fill buf (data r)
      in if ret r > 0 then Next (ret r, buf') h1 else peek_loop os n clnt_sock buf' h1)"

definition peek_recv_main :: "os \<Rightarrow> nat \<Rightarrow> string list \<Rightarrow> string \<Rightarrow> hist \<Rightarrow> int flow" where
  "peek_recv_main os fuel argv buf h =
     (if length argv \<noteq> 2 then usage os ''Usage : %s <port>'' argv h
      else then_do (recv_setup os (argv ! 1) h) (\<lambda>(serv_sock, clnt_sock) h1.
           then_do (peek_loop os fuel clnt_sock buf h1) (\<lambda>(str_len, buf1) h2.
           case put_nul buf1 str_len of
             None \<Rightarrow> Undef h2
           | Some buf2 \<Rightarrow>
               let h3 = do_call os (Printf (ln ''Buffering %d bytes: %s'') [PI str_len, PS (c_str buf2)]) h2;
                   (r, h4) = call os (Recv clnt_sock 99 0) h3
               in case put_nul (fill buf2 (data r)) (ret r) of
                    None \<Rightarrow> Undef h4
                  | Some buf3 \<Rightarrow>
                      Next 0 (do_call os (Close clnt_sock) (do_call os (Close serv_sock)
                        (do_call os (Printf (ln ''Read again: %s'') [PS (c_str buf3)]) h4))))))"

definition peek_send_main :: "os \<Rightarrow> string list \<Rightarrow> hist \<Rightarrow> int flow" where
  "peek_send_main os argv h =
     (if length argv \<noteq> 3 then usage os ''Usage: %s <IP> <Port>'' argv h
      else then_do (client_setup os (argv ! 1) (argv ! 2) h) (\<lambda>sock h1.
           Next 0 (do_call os (Close sock) (do_call os (Write sock ''123'') h1))))"

text \<open>\<^verbatim>\<open>readv\<close> fills the buffers one after the other; both arrays start as zeros.\<close>

definition readv_main :: "os \<Rightarrow> hist \<Rightarrow> int flow" where
  "readv_main os h =
     (let (r, h1) = call os (Readv 0 [5, 100]) h;
          buf1 = fill (replicate 100 NUL) (take 5 (data r));
          buf2 = fill (replicate 100 NUL) (drop 5 (data r));
          h2 = do_call os (Printf (ln ''Read %d bytes'') [PI (ret r)]) h1;
          h3 = do_call os (Printf (ln ''First message: %s'') [PS (c_str buf1)]) h2
      in if NUL \<notin> set buf2 then Undef h3
         else Next 0 (do_call os (Printf (ln ''Second message: %s'') [PS (c_str buf2)]) h3))"

definition writev_main :: "os \<Rightarrow> hist \<Rightarrow> int flow" where
  "writev_main os h =
     (let (r, h1) = call os (Writev 1 [''ABCD'', ''12345'']) h
      in Next 0 (do_call os (Printf (ln ''Write %d bytes'') [PI (ret r)]) (do_call os (Puts []) h1)))"

subsection \<open>Waiting for a child\<close>

fun waits :: "hist \<Rightarrow> nat" where
  "waits [] = 0"
| "waits ((Waitpid p f, r) # h) = Suc (waits h)"
| "waits (_ # h) = waits h"

lemma waits_append [simp]: "waits (h @ h') = waits h + waits h'"
  by (induction h rule: waits.induct) auto

text \<open>The child is still running for the first \<open>k\<close> polls and has then exited with \<open>code\<close>.\<close>

definition child_exits :: "os \<Rightarrow> nat \<Rightarrow> int \<Rightarrow> bool" where
  "child_exits os k code \<longleftrightarrow> (\<forall>h p.
     (waits h < k \<longrightarrow> ret (os h (Waitpid p WNOHANG)) = 0 \<and> outv (os h (Waitpid p WNOHANG)) = None) \<and>
     (waits h = k \<longrightarrow> 0 < ret (os h (Waitpid p WNOHANG))
                     \<and> outv (os h (Waitpid p WNOHANG)) = Some (256 * code)))"

lemma exit_code: "0 \<le> code \<Longrightarrow> code < 256 \<Longrightarrow> WIFEXITED (256 * code) \<and> WEXITSTATUS (256 * code) = code"
  using mod_mult_left_eq [of 256 128 code] by (simp add: WIFEXITED_def WEXITSTATUS_def)

lemma waitpid_loop_polls:
  assumes ex: "child_exits os k code" and "waits h + j = k" "j < n"
  shows "\<exists>h'. waitpid_loop os n None h = Next (Some (256 * code)) h' \<and> waits h' = Suc k
           \<and> printfs h' = printfs h"
  using assms(2,3)
proof (induction n arbitrary: j h)
  case 0
  then show ?case by simp
next
  case (Suc n)
  let ?c = "Waitpid (- 1) WNOHANG"
  let ?h1 = "h @ [(?c, os h ?c)]"
  show ?case
  proof (cases j)
    case 0
    with Suc.prems(1) ex have "0 < ret (os h ?c)" "outv (os h ?c) = Some (256 * code)"
      by (simp_all add: child_exits_def)
    with Suc.prems(1) 0 show ?thesis by (simp add: call_def stored_def)
  next
    case (Suc i)
    with Suc.prems(1) ex have r: "ret (os h ?c) = 0" "outv (os h ?c) = None"
      by (simp_all add: child_exits_def)
    let ?h2 = "?h1 @ [(Sleep 3, os ?h1 (Sleep 3))]"
    let ?h3 = "?h2 @ [(Puts ''sleep 3 sec.'', os ?h2 (Puts ''sleep 3 sec.''))]"
    have "waits ?h3 + i = k" "i < n" using Suc.prems \<open>j = Suc i\<close> by simp_all
    from Suc.IH [OF this] r show ?thesis
      by (simp add: call_def do_call_eq stored_def)
  qed
qed

text \<open>Polling for a child.  When the child is still running at the first \<open>k\<close> polls and then has
  exited, the parent of \<^verbatim>\<open>waitpid.c\<close> polls exactly \<open>k + 1\<close> times, returns, and reports the child's
  exit code.\<close>

theorem waitpid_reports:
  assumes "child_exits os k code" "0 \<le> code" "code < 256" "0 < ret (os [] Fork)" "k < fuel"
  shows "\<exists>h'. waitpid_main os fuel [] = Next 0 h' \<and> waits h' = Suc k
           \<and> printfs h' = [(ln ''Child send one: %d'', [PI code])]"
proof -
  let ?h1 = "[(Fork, os [] Fork)]"
  have "waits ?h1 + k = k" by simp
  from waitpid_loop_polls [OF assms(1) this assms(5)] obtain h' where
    "waitpid_loop os fuel None ?h1 = Next (Some (256 * code)) h'" "waits h' = Suc k" "printfs h' = []"
    by auto
  with assms(2-4) exit_code [of code] show ?thesis
    by (simp add: waitpid_main_def Fork_checked_def call_def report_exit_def do_call_eq)
qed

definition child_os :: "nat \<Rightarrow> int \<Rightarrow> os" where
  "child_os k code h c = (case c of
      Waitpid p f \<Rightarrow> if waits h < k then answer 0 [] else (answer 77 [])\<lparr>outv := Some (256 * code)\<rparr>
    | _ \<Rightarrow> answer 77 [])"

lemma child_os_exits: "child_exits (child_os k code) k code"
  by (simp add: child_exits_def child_os_def answer_def)

theorem waitpid_reports_witness:
  "\<exists>h'. waitpid_main (child_os 8 24) 10 [] = Next 0 h' \<and> waits h' = 9
     \<and> printfs h' = [(ln ''Child send one: %d'', [PI 24])]"
  using waitpid_reports [OF child_os_exits [of 8 24], of 10]
  by (simp add: child_os_def answer_def)

subsection \<open>Scattering input\<close>

text \<open>\<^verbatim>\<open>readv.c\<close>.  Input without NUL bytes is shown split after the fifth byte and nothing is
  lost, as long as the second part leaves room for the terminator; with 105 bytes the second
  text is not terminated.\<close>

theorem readv_splits:
  assumes "NUL \<notin> set (data (os [] (Readv 0 [5, 100])))"
    and "ret (os [] (Readv 0 [5, 100])) = int (length (data (os [] (Readv 0 [5, 100]))))"
  shows "let d = data (os [] (Readv 0 [5, 100])) in
     (length d < 105 \<longrightarrow> (\<exists>h'. readv_main os [] = Next 0 h' \<and>
        map snd (printfs h') = [[PI (int (length d))], [PS (take 5 d)], [PS (drop 5 d)]])) \<and>
     (length d = 105 \<longrightarrow> (\<exists>h'. readv_main os [] = Undef h'))"
proof -
  let ?d = "data (os [] (Readv 0 [5, 100]))"
  have t: "NUL \<notin> set (take 5 ?d)" "NUL \<notin> set (drop 5 ?d)"
    using assms(1) by (meson in_set_takeD in_set_dropD)+
  have c: "c_str (fill (replicate 100 NUL) x) = x" if "NUL \<notin> set x" "length x \<le> 100" for x
    using that by (simp add: c_str_def fill_def takeWhile_append drop_replicate)
  have m: "NUL \<in> set (fill (replicate 100 NUL) x) \<longleftrightarrow> length x < 100" if "NUL \<notin> set x" for x
    using that by (auto simp: fill_def drop_replicate)
  show ?thesis
    using assms(2) t c [of "take 5 ?d"] c [of "drop 5 ?d"] m [of "drop 5 ?d"]
    by (auto simp: readv_main_def call_def do_call_eq Let_def)
qed

definition readv_os :: "string \<Rightarrow> os" where
  "readv_os d h c = answer (int (length d)) d"

theorem readv_splits_witness:
  "\<exists>h'. readv_main (readv_os ''hello world'') [] = Next 0 h'
     \<and> map snd (printfs h') = [[PI 11], [PS ''hello''], [PS '' world'']]"
  using readv_splits [of "readv_os ''hello world''"]
  by (simp add: readv_os_def answer_def NUL_def Let_def)

end
