(* ===== verification/Net_News.thy ===== *)
theory Net_News
  imports Net_Proc
begin

text \<open>
  The news programs of chapter 14: a sender that reads \<^verbatim>\<open>news.txt\<close> line by line and sends every line
  as a datagram to a multicast group or to the broadcast address, and the receivers.

  The theorem shows which datagrams are sent for a given file.  The loop asks \<^verbatim>\<open>feof\<close> before it
  reads and never looks at the result of \<^verbatim>\<open>fgets\<close>, so a file whose last line is complete has that
  line sent twice, and an empty file has the uninitialised buffer sent.
\<close>

subsection \<open>Senders\<close>

fun news_send_loop :: "os \<Rightarrow> nat \<Rightarrow> int \<Rightarrow> int \<Rightarrow> sockaddr_in \<Rightarrow> string \<Rightarrow> hist \<Rightarrow> unit flow" where
  "news_send_loop os 0 send_sock fp addr buf h = Cut h"
| "news_send_loop os (Suc n) send_sock fp addr buf h =
     (let (e, h1) = call os (Feof fp) h
      in if ret e \<noteq> 0 then Next () h1
         else let (r, h2) = call os (Fgets fp 100) h1;
                  buf' = fgets_buf buf r;
                  h3 = do_call os (Sendto send_sock (c_str buf') addr) h2
              in news_send_loop os n send_sock fp addr buf' (do_call os (Sleep 2) h3))"

definition news_sender_main :: "os \<Rightarrow> nat \<Rightarrow> string list \<Rightarrow> string \<Rightarrow> hist \<Rightarrow> int flow" where
  "news_sender_main os fuel argv buf h =
     (if length argv \<noteq> 3 then usage os ''Usage: %s <IP> <Port>'' argv h
      else let (s, h1) = call os (Socket PF_INET SOCK_DGRAM 0) h;
               mul_addr = peer_addr (argv ! 1) (argv ! 2);
               h2 = do_call os (Setsockopt (ret s) IPPROTO_IP IP_MULTICAST_TTL (int_bytes 64)) h1;
               (f, h3) = call os (Fopen ''news.txt'' ''r'') h2
           in if ret f = 0 then error_handling os ''fopen() error'' h3
              else then_do (news_send_loop os fuel (ret s) (ret f) mul_addr buf h3) (\<lambda>_ h4.
                   Next 0 (do_call os (Close (ret s)) (do_call os (Fclose (ret f)) h4))))"

text \<open>The broadcast sender does not close the file.\<close>

definition news_sender_brd_main :: "os \<Rightarrow> nat \<Rightarrow> string list \<Rightarrow> string \<Rightarrow> hist \<Rightarrow> int flow" where
  "news_sender_brd_main os fuel argv buf h =
     (if length argv \<noteq> 3 then usage os ''Usage: %s <IP> <Port>'' argv h
      else let (s, h1) = call os (Socket PF_INET SOCK_DGRAM 0) h;
               broad_addr = peer_addr (argv ! 1) (argv ! 2);
               h2 = do_call os (Setsockopt (ret s) SOL_SOCKET SO_BROADCAST (int_bytes 1)) h1;
               (f, h3) = call os (Fopen ''news.txt'' ''r'') h2
           in if ret f = 0 then error_handling os ''fopen() error'' h3
              else then_do (news_send_loop os fuel (ret s) (ret f) broad_addr buf h3) (\<lambda>_ h4.
                   Next 0 (do_call os (Close (ret s)) h4)))"

subsection \<open>Receivers\<close>

text \<open>The two receivers differ in how they print a message.\<close>

fun news_recv_loop :: "os \<Rightarrow> nat \<Rightarrow> (string \<Rightarrow> sys) \<Rightarrow> int \<Rightarrow> string \<Rightarrow> hist \<Rightarrow> unit flow" where
  "news_recv_loop os 0 out recv_sock buf h = Cut h"
| "news_recv_loop os (Suc n) out recv_sock buf h =
     (let (r, h1) = call os (Recvfrom recv_sock 99) h
      in if ret r < 0 then Next () h1
         else case put_nul (fill buf (data r)) (ret r) of
                None \<Rightarrow> Undef h1
              | Some buf' \<Rightarrow>
                  news_recv_loop os n out recv_sock buf' (do_call os (out (c_str buf')) h1))"

definition addr_bytes4 :: "32 word \<Rightarrow> string" where
  "addr_bytes4 w = int_bytes (uint w)"

definition news_receiver_main :: "os \<Rightarrow> nat \<Rightarrow> string list \<Rightarrow> string \<Rightarrow> hist \<Rightarrow> int flow" where
  "news_receiver_main os fuel argv buf h =
     (if length argv \<noteq> 3 then usage os ''Usage : %s <GroupIP> <Port>'' argv h
      else let (s, h1) = call os (Socket PF_INET SOCK_DGRAM 0) h
           in then_do (checked os (Bind (ret s) (any_addr (argv ! 2))) ''bind() error'' h1) (\<lambda>_ h2.
              then_do (news_recv_loop os fuel (\<lambda>m. Printf (ln ''Received message: %s'') [PS m]) (ret s) buf
                 (do_call os (Setsockopt (ret s) IPPROTO_IP IP_ADD_MEMBERSHIP
                    (addr_bytes4 (inet_addr (argv ! 1)) @ addr_bytes4 (htonl INADDR_ANY))) h2)) (\<lambda>_ h3.
              Next 0 (do_call os (Close (ret s)) h3))))"

definition news_receiver_brd_main :: "os \<Rightarrow> nat \<Rightarrow> string list \<Rightarrow> string \<Rightarrow> hist \<Rightarrow> int flow" where
  "news_receiver_brd_main os fuel argv buf h =
     (if length argv \<noteq> 2 then usage os ''Usage : %s <Port>'' argv h
      else let (s, h1) = call os (Socket PF_INET SOCK_DGRAM 0) h
           in then_do (checked os (Bind (ret s) (any_addr (argv ! 1))) ''bind() error'' h1) (\<lambda>_ h2.
              then_do (news_recv_loop os fuel (\<lambda>m. Fputs m c_stdout) (ret s) buf h2) (\<lambda>_ h3.
              Next 0 (do_call os (Close (ret s)) h3))))"

subsection \<open>Text files\<close>

text \<open>\<^verbatim>\<open>fgets\<close> with a limit of \<open>k\<close> characters: up to and including the first newline.\<close>

fun first_line :: "nat \<Rightarrow> string \<Rightarrow> string" where
  "first_line 0 s = []"
| "first_line (Suc k) [] = []"
| "first_line (Suc k) (c # cs) = c # (if c = nl then [] else first_line k cs)"

text \<open>Whether the call that returned \<open>l\<close> stopped because of the line or the limit, and not because the
  file ended.\<close>

definition complete :: "nat \<Rightarrow> string \<Rightarrow> bool" where
  "complete k l \<longleftrightarrow> length l = k \<or> (l \<noteq> [] \<and> last l = nl)"

text \<open>The position in a file with content \<open>c\<close> after a history: what is left and the end-of-file
  indicator.\<close>

fun file_step :: "int \<Rightarrow> sys \<times> reply \<Rightarrow> string \<times> bool \<Rightarrow> string \<times> bool" where
  "file_step fp (Fgets fp' n, r) (rest, e) =
     (if fp' = fp then (drop (length (first_line (n - 1) rest)) rest,
                        e \<or> \<not> complete (n - 1) (first_line (n - 1) rest)) else (rest, e))"
| "file_step fp _ s = s"

definition file_state :: "int \<Rightarrow> string \<Rightarrow> hist \<Rightarrow> string \<times> bool" where
  "file_state fp c h = fold (file_step fp) h (c, False)"

lemma file_state_Nil [simp]: "file_state fp c [] = (c, False)"
  by (simp add: file_state_def)

lemma file_state_snoc [simp]: "file_state fp c (h @ [x]) = file_step fp x (file_state fp c h)"
  by (simp add: file_state_def)

definition text_file :: "os \<Rightarrow> int \<Rightarrow> string \<Rightarrow> bool" where
  "text_file os fp c \<longleftrightarrow>
     (\<forall>h. (ret (os h (Feof fp)) \<noteq> 0) = snd (file_state fp c h)) \<and>
     (\<forall>h n. data (os h (Fgets fp n)) = first_line (n - 1) (fst (file_state fp c h)) \<and>
            (ret (os h (Fgets fp n)) = 0) = (fst (file_state fp c h) = []))"

lemma first_line_nonempty: "0 < k \<Longrightarrow> s \<noteq> [] \<Longrightarrow> first_line k s \<noteq> []"
  by (cases k; cases s) auto

lemma first_line_prefix: "first_line k s = take (length (first_line k s)) s"
  by (induction k s rule: first_line.induct) auto

lemma first_line_length: "length (first_line k s) \<le> k"
  by (induction k s rule: first_line.induct) auto

lemma first_line_incomplete: "\<not> complete k (first_line k s) \<Longrightarrow> first_line k s = s"
proof (induction k s rule: first_line.induct)
  case (3 k c cs)
  then show ?case by (cases "c = nl") (auto simp: complete_def split: if_splits)
qed (auto simp: complete_def)

text \<open>The pieces a file is read in.\<close>

function pieces :: "nat \<Rightarrow> string \<Rightarrow> string list" where
  "pieces k s = (if s = [] \<or> k = 0 then []
                 else first_line k s # pieces k (drop (length (first_line k s)) s))"
  by pat_completeness auto
termination
  by (relation "measure (\<lambda>(k, s). length s)") (auto simp: first_line_nonempty)

declare pieces.simps [simp del]

fun sent :: "int \<Rightarrow> hist \<Rightarrow> string list" where
  "sent fd [] = []"
| "sent fd ((Sendto fd' d a, r) # h) = (if fd' = fd then d # sent fd h else sent fd h)"
| "sent fd (_ # h) = sent fd h"

lemma sent_append [simp]: "sent fd (h @ h') = sent fd h @ sent fd h'"
  by (induction h rule: sent.induct) auto

subsection \<open>What the senders send\<close>

text \<open>The datagrams for the rest of a file, when the buffer holds \<open>b\<close>.\<close>

definition datagrams :: "string \<Rightarrow> string \<Rightarrow> string list" where
  "datagrams b rest = pieces 99 rest @
     (let l = (if rest = [] then b else last (pieces 99 rest))
      in if rest = [] \<or> complete 99 l then [l] else [])"

lemma pieces_Nil [simp]: "pieces k [] = []"
  by (simp add: pieces.simps)

lemma pieces_rest: "rest \<noteq> [] \<Longrightarrow>
    pieces 99 rest = first_line 99 rest # pieces 99 (drop (length (first_line 99 rest)) rest)"
  by (subst pieces.simps) simp

lemma pieces_ne: "s \<noteq> [] \<Longrightarrow> pieces 99 s \<noteq> []"
  by (simp add: pieces_rest)

lemma datagrams_complete:
  assumes "rest \<noteq> []" "complete 99 (first_line 99 rest)"
  shows "datagrams b rest =
     first_line 99 rest # datagrams (first_line 99 rest) (drop (length (first_line 99 rest)) rest)"
  using assms pieces_ne [of "drop (length (first_line 99 rest)) rest"]
  by (auto simp: datagrams_def pieces_rest [OF assms(1)] Let_def)

lemma datagrams_incomplete:
  assumes "rest \<noteq> []" "\<not> complete 99 (first_line 99 rest)"
  shows "datagrams b rest = [first_line 99 rest]"
  using assms first_line_incomplete [OF assms(2)]
  by (simp add: datagrams_def pieces_rest Let_def)

lemma c_str_line: "NUL \<notin> set l \<Longrightarrow> c_str (fill buf (l @ [NUL])) = l"
  by (simp add: c_str_def fill_def takeWhile_append)

lemma text_file_fgets:
  assumes "text_file os fp c" "file_state fp c h = (rest, e)"
  shows "data (os h (Fgets fp 100)) = first_line 99 rest" "ret (os h (Fgets fp 100)) = 0 \<longleftrightarrow> rest = []"
    "ret (os h (Feof fp)) \<noteq> 0 \<longleftrightarrow> e"
  using assms by (simp_all add: text_file_def)

text \<open>One round of the loop before the end-of-file indicator is set.\<close>

lemma news_send_round:
  assumes tf: "text_file os fp c" and st: "file_state fp c h = (rest, False)" and "NUL \<notin> set rest"
  shows "\<exists>buf' h'. news_send_loop os (Suc n) s fp addr buf h = news_send_loop os n s fp addr buf' h'
     \<and> c_str buf' = (if rest = [] then c_str buf else first_line 99 rest)
     \<and> sent s h' = sent s h @ [c_str buf']
     \<and> file_state fp c h' =
         (drop (length (first_line 99 rest)) rest, \<not> complete 99 (first_line 99 rest))"
proof -
  let ?h1 = "h @ [(Feof fp, os h (Feof fp))]"
  let ?r = "os ?h1 (Fgets fp 100)" and ?l = "first_line 99 rest"
  let ?h2 = "?h1 @ [(Fgets fp 100, ?r)]"
  let ?buf = "fgets_buf buf ?r"
  let ?c = "Sendto s (c_str ?buf) addr"
  let ?h3 = "?h2 @ [(?c, os ?h2 ?c)]"
  let ?h4 = "?h3 @ [(Sleep 2, os ?h3 (Sleep 2))]"
  have st1: "file_state fp c ?h1 = (rest, False)" using st by simp
  note r = text_file_fgets(1,2) [OF tf st1]
  have "NUL \<notin> set ?l" using assms(3) by (metis first_line_prefix in_set_takeD)
  then have "c_str ?buf = (if rest = [] then c_str buf else ?l)"
    by (simp add: fgets_buf_def r c_str_line)
  moreover have "news_send_loop os (Suc n) s fp addr buf h = news_send_loop os n s fp addr ?buf ?h4"
    using text_file_fgets(3) [OF tf st] by (simp add: call_def do_call_eq Let_def)
  moreover have "sent s ?h4 = sent s h @ [c_str ?buf]" by simp
  moreover have "file_state fp c ?h4 = (drop (length ?l) rest, \<not> complete 99 ?l)"
  proof -
    have "file_state fp c ?h2 = (drop (length ?l) rest, \<not> complete 99 ?l)"
      by (subst file_state_snoc, subst st1) simp
    then show ?thesis by (subst file_state_snoc, subst file_state_snoc) simp
  qed
  ultimately show ?thesis by metis
qed

lemma news_send_rest:
  assumes tf: "text_file os fp c"
    and "file_state fp c h = (rest, e)" "length rest + (if e then 1 else 2) \<le> n" "NUL \<notin> set rest"
  shows "\<exists>h'. news_send_loop os n s fp addr buf h = Next () h'
           \<and> sent s h' = sent s h @ (if e then [] else datagrams (c_str buf) rest)"
  using assms(2-)
proof (induction n arbitrary: rest e buf h)
  case 0
  then show ?case by (simp split: if_splits)
next
  case (Suc n)
  show ?case
  proof (cases e)
    case True
    with text_file_fgets(3) [OF tf Suc.prems(1)] show ?thesis by (simp add: call_def)
  next
    case False
    let ?l = "first_line 99 rest"
    let ?rest = "drop (length ?l) rest"
    from news_send_round [OF tf, of h rest n s addr buf] Suc.prems(1,3) False
    obtain buf' h1 where
      step: "news_send_loop os (Suc n) s fp addr buf h = news_send_loop os n s fp addr buf' h1"
      and b: "c_str buf' = (if rest = [] then c_str buf else ?l)"
      and snt: "sent s h1 = sent s h @ [c_str buf']"
      and st: "file_state fp c h1 = (?rest, \<not> complete 99 ?l)" by auto
    have shrink: "rest \<noteq> [] \<Longrightarrow> length ?rest < length rest"
      by (simp add: first_line_nonempty)
    have none: "rest = [] \<Longrightarrow> \<not> complete 99 ?l" by (simp add: complete_def numeral_eq_Suc)
    have gone: "\<not> complete 99 ?l \<Longrightarrow> ?rest = []" using first_line_incomplete [of 99 rest] by simp
    have "length ?rest + (if \<not> complete 99 ?l then 1 else 2) \<le> n"
      using Suc.prems(2) False shrink none gone by (cases "rest = []") auto
    moreover have "NUL \<notin> set ?rest" using Suc.prems(3) by (meson in_set_dropD)
    ultimately obtain h' where "news_send_loop os n s fp addr buf' h1 = Next () h'"
      "sent s h' = sent s h1 @ (if \<not> complete 99 ?l then [] else datagrams (c_str buf') ?rest)"
      using Suc.IH [OF st] by blast
    moreover have "datagrams (c_str buf) rest =
        c_str buf' # (if \<not> complete 99 ?l then [] else datagrams (c_str buf') ?rest)"
      using b none datagrams_complete [of rest] datagrams_incomplete [of rest]
      by (cases "rest = []") (auto simp: datagrams_def [of _ "[]"])
    ultimately show ?thesis using step snt False by simp
  qed
qed

text \<open>What the news sender sends.  For a text file with content \<open>c\<close> the loop ends, and the
  datagrams are the lines of the file, long lines cut into pieces of 99 characters, followed by
  the last piece once more if it was complete; an empty file has one datagram sent, with
  whatever the buffer held.\<close>

theorem news_sender_datagrams:
  assumes "text_file os fp c" "file_state fp c h = (c, False)" "NUL \<notin> set c" "length c + 2 \<le> fuel"
  shows "\<exists>h'. news_send_loop os fuel s fp addr buf h = Next () h'
           \<and> sent s h' = sent s h @ pieces 99 c @
               (if c = [] then [c_str buf]
                else if complete 99 (last (pieces 99 c)) then [last (pieces 99 c)] else [])"
  using news_send_rest [OF assms(1,2), of fuel s addr buf] assms(3,4)
  by (auto simp: datagrams_def Let_def)

definition text_os :: "int \<Rightarrow> string \<Rightarrow> os" where
  "text_os fp c h q = (case q of
      Feof f \<Rightarrow> answer (if snd (file_state fp c h) then 1 else 0) []
    | Fgets f n \<Rightarrow> answer (if fst (file_state fp c h) = [] then 0 else 1)
                     (first_line (n - 1) (fst (file_state fp c h)))
    | _ \<Rightarrow> answer 0 [])"

lemma text_os_file: "text_file (text_os fp c) fp c"
  by (auto simp: text_file_def text_os_def answer_def)

lemma first_line_newline: "nl \<notin> set l \<Longrightarrow> length l < k \<Longrightarrow> first_line k (l @ nl # s) = l @ [nl]"
proof (induction l arbitrary: k)
  case Nil
  then show ?case by (cases k) auto
next
  case (Cons c l)
  then show ?case by (cases k) auto
qed

lemma pieces_example: "pieces 99 (ln ''ab'' @ ln ''c'') = [ln ''ab'', ln ''c'']"
  using first_line_newline [of "''ab''" 99 "ln ''c''"] first_line_newline [of "''c''" 99 "[]"]
  by (simp add: pieces_rest nl_def)

theorem news_sender_datagrams_witness:
  "\<exists>h'. news_send_loop (text_os 9 (ln ''ab'' @ ln ''c'')) 10 5 9 (any_addr ''80'') (replicate 100 NUL) [] = Next () h'
     \<and> sent 5 h' = [ln ''ab'', ln ''c'', ln ''c'']"
  using news_sender_datagrams [OF text_os_file [of 9 "ln ''ab'' @ ln ''c''"], of "[]" 10 5 "any_addr ''80''" "replicate 100 NUL"]
    pieces_example
  by (simp add: NUL_def nl_def complete_def)

end
