(* ===== verification/Web_Http.thy ===== *)
theory Web_Http
  imports Net_Addr
begin

text \<open>
  \<^verbatim>\<open>TinyWebServer/http/http_conn.cpp\<close>: one HTTP connection.  The read buffer is an array of 2048
  characters; pointers into it (\<^verbatim>\<open>m_url\<close>, \<^verbatim>\<open>m_version\<close>, \<^verbatim>\<open>m_host\<close>, \<^verbatim>\<open>m_string\<close>, and the \<^verbatim>\<open>text\<close> of the
  line being parsed) are indices, so that the code's overwriting of its own input is part of the
  model.  Reading a string that has no terminating NUL in the buffer, writing outside an array, and
  leaving a value-returning function without \<^verbatim>\<open>return\<close> are \<open>None\<close>.

  The replies of \<^verbatim>\<open>recv\<close> and \<^verbatim>\<open>writev\<close>, the file system, the user table's database and the document
  root are arguments.  The calls on the epoll descriptor and on the socket are recorded in \<open>m_events\<close>.
  The connection is modelled with logging switched off (\<^verbatim>\<open>m_close_log\<close> not 0), so the \<^verbatim>\<open>LOG_INFO\<close>
  lines have no effect.
\<close>

subsection \<open>Data\<close>

datatype http_method = GET | POST | HEAD | PUT | DELETE | TRACE | OPTIONS | CONNECT | PATH

datatype check_state = CHECK_STATE_REQUESTLINE | CHECK_STATE_HEADER | CHECK_STATE_CONTENT

datatype http_code = NO_REQUEST | GET_REQUEST | BAD_REQUEST | NO_RESOURCE | FORBIDDEN_REQUEST
  | FILE_REQUEST | INTERNAL_ERROR | CLOSED_CONNECTION

datatype line_status = LINE_OK | LINE_BAD | LINE_OPEN

text \<open>What the connection does to its descriptor: registration for input (edge-triggered or not, for one
  event or not), re-arming for output or input (edge-triggered or not), removal, closing, and a \<^verbatim>\<open>writev\<close> that sent some bytes (the number of
  entries, the two entries, the number of bytes).\<close>

datatype ep_event = Ep_add int bool bool | Ep_mod int bool bool | Ep_del int | Sock_close int
  | Writev nat "int \<times> int" "int \<times> int" int

text \<open>\<^verbatim>\<open>m_file_address\<close>: NULL, what \<^verbatim>\<open>mmap\<close> returns when it fails, or a mapped file.\<close>

datatype mapped = Unmapped | Map_failed | Mapped string

text \<open>The connection.  The static \<^verbatim>\<open>m_user_count\<close> and the global \<^verbatim>\<open>users\<close> are fields too.  The two entries of
  \<^verbatim>\<open>m_iovec\<close> are an offset (into \<open>m_write_buf\<close> or into the mapped file) and a length.\<close>

record http =
  m_sockfd :: int
  m_read_buf :: string
  m_read_idx :: int
  m_checked_idx :: nat
  m_start_line :: nat
  m_write_buf :: string
  m_write_idx :: nat
  m_check_state :: check_state
  m_method :: http_method
  m_real_file :: string
  m_url :: "nat option"
  m_version :: "nat option"
  m_host :: "nat option"
  m_content_length :: int
  m_linger :: bool
  m_cgi :: int
  m_string :: "nat option"
  m_file_address :: mapped
  m_st_size :: int
  m_iov0 :: "int \<times> int"
  m_iov1 :: "int \<times> int"
  m_iovec_count :: nat
  m_bytes_to_send :: int
  m_bytes_have_send :: int
  m_trig_mode :: int
  m_mysql :: "nat option"
  m_state :: int
  m_timer_flag :: int
  m_improv :: int
  m_user_count :: int
  users_map :: "string \<rightharpoonup> string"
  m_events :: "ep_event list"

abbreviation CR :: char where "CR \<equiv> CHR 0x0D"
abbreviation LF :: char where "LF \<equiv> CHR 0x0A"
abbreviation TAB :: char where "TAB \<equiv> CHR 0x09"
abbreviation READ_BUFFER_SIZE :: nat where "READ_BUFFER_SIZE \<equiv> 2048"
abbreviation WRITE_BUFFER_SIZE :: nat where "WRITE_BUFFER_SIZE \<equiv> 1024"
abbreviation FILENAME_LEN :: nat where "FILENAME_LEN \<equiv> 200"

subsection \<open>Strings in the buffer\<close>

text \<open>The C string at an index: it must be terminated inside the buffer.\<close>

definition str_at :: "string \<Rightarrow> nat \<Rightarrow> string option" where
  "str_at buf i = (if NUL \<in> set (drop i buf) then Some (takeWhile (\<lambda>c. c \<noteq> NUL) (drop i buf)) else None)"

text \<open>\<^verbatim>\<open>strcpy\<close> into the buffer, terminator included.\<close>

definition put_str :: "nat \<Rightarrow> string \<Rightarrow> string \<Rightarrow> string option" where
  "put_str i s buf = (if i + length s < length buf
     then Some (take i buf @ s @ [NUL] @ drop (i + length s + 1) buf) else None)"

definition is_blank :: "char \<Rightarrow> bool" where
  "is_blank c \<longleftrightarrow> c = CHR '' '' \<or> c = TAB"

definition upcase :: "char \<Rightarrow> char" where
  "upcase c = (if 97 \<le> (of_char c :: nat) \<and> (of_char c :: nat) \<le> 122 then char_of ((of_char c :: nat) - 32) else c)"

definition strcaseeq :: "string \<Rightarrow> string \<Rightarrow> bool" where
  "strcaseeq s t \<longleftrightarrow> map upcase s = map upcase t"

text \<open>\<^verbatim>\<open>strncasecmp(s, t, n) == 0\<close>: both strings agree on the first \<open>n\<close> characters, a shorter one
  counting with its terminator.\<close>

definition strncaseeq :: "string \<Rightarrow> string \<Rightarrow> nat \<Rightarrow> bool" where
  "strncaseeq s t n \<longleftrightarrow> map upcase (take n (s @ [NUL])) = map upcase (take n (t @ [NUL]))"

text \<open>\<^verbatim>\<open>strpbrk(s, " \t")\<close> and \<^verbatim>\<open>strspn(s, " \t")\<close> as offsets.\<close>

definition blank_pos :: "string \<Rightarrow> nat option" where
  "blank_pos s = (if \<exists>c \<in> set s. is_blank c then Some (length (takeWhile (\<lambda>c. \<not> is_blank c) s)) else None)"

definition blank_span :: "string \<Rightarrow> nat" where
  "blank_span s = length (takeWhile is_blank s)"

definition char_pos :: "char \<Rightarrow> string \<Rightarrow> nat option" where
  "char_pos c s = (if c \<in> set s then Some (length (takeWhile (\<lambda>d. d \<noteq> c) s)) else None)"

definition last_pos :: "char \<Rightarrow> string \<Rightarrow> nat option" where
  "last_pos c s = (if c \<in> set s then Some (length s - 1 - length (takeWhile (\<lambda>d. d \<noteq> c) (rev s))) else None)"

subsection \<open>Connection life cycle\<close>

text \<open>The private \<^verbatim>\<open>init\<close>.\<close>

definition http_reset :: "http \<Rightarrow> http" where
  "http_reset h = h\<lparr>m_mysql := None, m_bytes_to_send := 0, m_bytes_have_send := 0,
     m_check_state := CHECK_STATE_REQUESTLINE, m_linger := False, m_method := GET, m_url := None,
     m_version := None, m_content_length := 0, m_host := None, m_start_line := 0,
     m_checked_idx := 0, m_read_idx := 0, m_write_idx := 0, m_cgi := 0,
     m_state := 0, m_timer_flag := 0, m_improv := 0,
     m_read_buf := replicate READ_BUFFER_SIZE NUL, m_write_buf := replicate WRITE_BUFFER_SIZE NUL,
     m_real_file := replicate FILENAME_LEN NUL\<rparr>"

text \<open>\<^verbatim>\<open>addfd\<close>, \<^verbatim>\<open>modfd\<close> (\<open>out\<close> is \<^verbatim>\<open>EPOLLOUT\<close>, otherwise \<^verbatim>\<open>EPOLLIN\<close>) and \<^verbatim>\<open>removefd\<close> on the epoll descriptor.\<close>

definition addfd :: "int \<Rightarrow> bool \<Rightarrow> int \<Rightarrow> http \<Rightarrow> http" where
  "addfd fd one_shot trig_mode h = h\<lparr>m_events := m_events h @ [Ep_add fd (trig_mode = 1) one_shot]\<rparr>"

definition modfd :: "bool \<Rightarrow> http \<Rightarrow> http" where
  "modfd out h = h\<lparr>m_events := m_events h @ [Ep_mod (m_sockfd h) out (m_trig_mode h = 1)]\<rparr>"

definition removefd :: "int \<Rightarrow> http \<Rightarrow> http" where
  "removefd fd h = h\<lparr>m_events := m_events h @ [Ep_del fd, Sock_close fd]\<rparr>"

text \<open>The public \<^verbatim>\<open>init\<close>.  The descriptor is registered with the trigger mode of the previous connection on
  this object, because \<open>m_trig_mode\<close> is assigned afterwards.\<close>

definition http_init :: "int \<Rightarrow> int \<Rightarrow> http \<Rightarrow> http" where
  "http_init sockfd trig_mode h =
     http_reset ((addfd sockfd True (m_trig_mode h) (h\<lparr>m_sockfd := sockfd\<rparr>))\<lparr>m_trig_mode := trig_mode\<rparr>)"

definition close_conn :: "bool \<Rightarrow> http \<Rightarrow> http" where
  "close_conn real_close h =
     (if real_close \<and> m_sockfd h \<noteq> - 1
      then (removefd (m_sockfd h) h)\<lparr>m_sockfd := - 1, m_user_count := m_user_count h - 1\<rparr>
      else h)"

text \<open>An object of the array \<^verbatim>\<open>users\<close> before its first connection, with zeroes for its members.\<close>

definition zero_conn :: http where
  "zero_conn = \<lparr>m_sockfd = 0, m_read_buf = [], m_read_idx = 0, m_checked_idx = 0, m_start_line = 0,
     m_write_buf = [], m_write_idx = 0, m_check_state = CHECK_STATE_REQUESTLINE, m_method = GET,
     m_real_file = [], m_url = None, m_version = None, m_host = None, m_content_length = 0,
     m_linger = False, m_cgi = 0, m_string = None, m_file_address = Unmapped, m_st_size = 0,
     m_iov0 = (0, 0), m_iov1 = (0, 0), m_iovec_count = 0, m_bytes_to_send = 0, m_bytes_have_send = 0,
     m_trig_mode = 0, m_mysql = None, m_state = 0, m_timer_flag = 0, m_improv = 0, m_user_count = 0,
     users_map = Map.empty, m_events = []\<rparr>"

subsection \<open>Reading\<close>

datatype recv_reply = Data string | Eof | Again | Failed

definition store_read :: "string \<Rightarrow> http \<Rightarrow> http" where
  "store_read d h = h\<lparr>m_read_buf := take (nat (m_read_idx h)) (m_read_buf h) @ d
       @ drop (nat (m_read_idx h) + length d) (m_read_buf h),
     m_read_idx := m_read_idx h + int (length d)\<rparr>"

text \<open>What \<^verbatim>\<open>recv\<close> into the rest of the buffer does with a reply; no room means a request for 0 bytes,
  which returns 0.\<close>

definition recv_room :: "recv_reply \<Rightarrow> http \<Rightarrow> recv_reply" where
  "recv_room r h = (let room = nat (int READ_BUFFER_SIZE - m_read_idx h) in
     if room = 0 then Eof
     else case r of Data d \<Rightarrow> if d = [] then Eof else Data (take room d) | _ \<Rightarrow> r)"

fun read_et :: "recv_reply list \<Rightarrow> http \<Rightarrow> bool \<times> http" where
  "read_et [] h = (True, h)"
| "read_et (r # rs) h =
     (case recv_room r h of
        Data d \<Rightarrow> read_et rs (store_read d h)
      | Eof \<Rightarrow> (False, h)
      | Again \<Rightarrow> (True, h)
      | Failed \<Rightarrow> (False, h))"

text \<open>In level-triggered mode the result is added to \<open>m_read_idx\<close> before it is tested.  The list of
  replies ends with the first one that says that nothing is available.  A negative \<open>m_read_idx\<close> would
  be read to before the buffer.\<close>

definition read_once :: "recv_reply list \<Rightarrow> http \<Rightarrow> (bool \<times> http) option" where
  "read_once rs h =
     (if m_read_idx h \<ge> int READ_BUFFER_SIZE then Some (False, h)
      else if m_read_idx h < 0 then None
      else if m_trig_mode h = 0 then
        (case recv_room (case rs of [] \<Rightarrow> Again | r # _ \<Rightarrow> r) h of
           Data d \<Rightarrow> Some (True, store_read d h)
         | Eof \<Rightarrow> Some (False, h)
         | _ \<Rightarrow> Some (False, h\<lparr>m_read_idx := m_read_idx h - 1\<rparr>))
      else Some (read_et rs h))"

subsection \<open>The line scanner\<close>

definition set_char :: "nat \<Rightarrow> char \<Rightarrow> http \<Rightarrow> http" where
  "set_char i c h = h\<lparr>m_read_buf := (m_read_buf h)[i := c]\<rparr>"

function parse_line :: "http \<Rightarrow> line_status \<times> http" where
  "parse_line h =
     (let i = m_checked_idx h in
      if int i < m_read_idx h then
        let temp = m_read_buf h ! i in
        if temp = CR then
          (if int (i + 1) = m_read_idx h then (LINE_OPEN, h)
           else if m_read_buf h ! (i + 1) = LF then
             (LINE_OK, (set_char (i + 1) NUL (set_char i NUL h))\<lparr>m_checked_idx := i + 2\<rparr>)
           else (LINE_BAD, h))
        else if temp = LF then
          (if i > 1 \<and> m_read_buf h ! (i - 1) = CR then
             (LINE_OK, (set_char i NUL (set_char (i - 1) NUL h))\<lparr>m_checked_idx := i + 1\<rparr>)
           else (LINE_BAD, h))
        else parse_line (h\<lparr>m_checked_idx := i + 1\<rparr>)
      else (LINE_OPEN, h))"
  by pat_completeness auto
termination
  by (relation "measure (\<lambda>h. nat (m_read_idx h - int (m_checked_idx h)))") (auto simp: Let_def)

declare parse_line.simps [simp del]


text \<open>A client of the scanner: data arrives in pieces, and the line is scanned after each of them until it
  is complete or wrong.\<close>

fun feed :: "string list \<Rightarrow> http \<Rightarrow> line_status \<times> http" where
  "feed [] h = (LINE_OPEN, h)"
| "feed (d # ds) h =
     (case parse_line (store_read d h) of
        (LINE_OPEN, h') \<Rightarrow> feed ds h'
      | r \<Rightarrow> r)"

subsection \<open>The scanner resumes where it stopped\<close>

named_theorems http_simps \<open>how the fields read back after an update of the connection\<close>

lemma http_init_fields [http_simps]:
  "m_sockfd (http_init fd t h) = fd"
  "m_check_state (http_init fd t h) = CHECK_STATE_REQUESTLINE"
  "m_method (http_init fd t h) = GET"
  "m_content_length (http_init fd t h) = 0"
  "m_linger (http_init fd t h) = False"
  "m_cgi (http_init fd t h) = 0"
  "m_start_line (http_init fd t h) = 0"
  "m_checked_idx (http_init fd t h) = 0"
  "m_read_idx (http_init fd t h) = 0"
  "m_write_idx (http_init fd t h) = 0"
  "m_trig_mode (http_init fd t h) = t"
  "m_read_buf (http_init fd t h) = replicate READ_BUFFER_SIZE NUL"
  "m_write_buf (http_init fd t h) = replicate WRITE_BUFFER_SIZE NUL"
  "m_real_file (http_init fd t h) = replicate FILENAME_LEN NUL"
  by (simp_all add: http_init_def http_reset_def addfd_def)

lemma store_read_fields [http_simps]:
  "m_checked_idx (store_read d h) = m_checked_idx h"
  "m_read_idx (store_read d h) = m_read_idx h + int (length d)"
  "store_read d (h\<lparr>m_checked_idx := k\<rparr>) = (store_read d h)\<lparr>m_checked_idx := k\<rparr>"
  by (simp_all add: store_read_def)

lemma store_read_old:
  "0 \<le> m_read_idx h \<Longrightarrow> m_read_idx h \<le> int (length (m_read_buf h)) \<Longrightarrow> int i < m_read_idx h \<Longrightarrow>
     m_read_buf (store_read d h) ! i = m_read_buf h ! i"
  by (auto simp: store_read_def nth_append zless_nat_eq_int_zless)

lemma store_read_length:
  "0 \<le> m_read_idx h \<Longrightarrow> m_read_idx h + int (length d) \<le> int (length (m_read_buf h)) \<Longrightarrow>
     length (m_read_buf (store_read d h)) = length (m_read_buf h)"
  by (simp add: store_read_def)

lemma store_read_append:
  assumes "0 \<le> m_read_idx h" "m_read_idx h + int (length d) \<le> int (length (m_read_buf h))"
  shows "store_read e (store_read d h) = store_read (d @ e) h"
proof -
  obtain n where n: "m_read_idx h = int n" using assms(1) by (metis nonneg_int_cases)
  have "nat (int n + int (length d)) = n + length d" by (simp add: nat_add_distrib)
  moreover have "take n (m_read_buf h) @ d = take (n + length d) (take n (m_read_buf h) @ d @ drop (n + length d) (m_read_buf h))"
    using assms n by simp
  ultimately show ?thesis using assms n by (simp add: store_read_def ac_simps)
qed

lemma parse_line_open:
  "parse_line h = (LINE_OPEN, h') \<Longrightarrow> \<exists>k. h' = h\<lparr>m_checked_idx := k\<rparr>"
proof (induction h rule: parse_line.induct)
  case (1 h)
  show ?case
  proof (cases "int (m_checked_idx h) < m_read_idx h \<and> m_read_buf h ! m_checked_idx h \<notin> {CR, LF}")
    case True
    then have "parse_line (h\<lparr>m_checked_idx := m_checked_idx h + 1\<rparr>) = (LINE_OPEN, h')"
      using 1(2) by (subst (asm) parse_line.simps) (simp add: Let_def)
    with 1(1) [OF refl _ refl] True show ?thesis by auto
  next
    case False
    with 1(2) have "h' = h\<lparr>m_checked_idx := m_checked_idx h\<rparr>"
      by (subst (asm) parse_line.simps) (auto simp: Let_def split: if_splits)
    then show ?thesis by blast
  qed
qed

lemma parse_line_resume:
  assumes "parse_line h = (LINE_OPEN, h')" "0 \<le> m_read_idx h"
    "m_read_idx h \<le> int (length (m_read_buf h))"
  shows "parse_line (store_read d h') = parse_line (store_read d h)"
  using assms
proof (induction h rule: parse_line.induct)
  case (1 h)
  show ?case
  proof (cases "int (m_checked_idx h) < m_read_idx h \<and> m_read_buf h ! m_checked_idx h \<notin> {CR, LF}")
    case True
    let ?h = "h\<lparr>m_checked_idx := m_checked_idx h + 1\<rparr>"
    have "parse_line ?h = (LINE_OPEN, h')"
      using True 1(2) by (subst (asm) parse_line.simps) (simp add: Let_def)
    with 1(1) [OF refl _ refl] True 1(3,4) have "parse_line (store_read d h') = parse_line (store_read d ?h)"
      by auto
    also have "\<dots> = parse_line (store_read d h)"
      using True 1(3,4) store_read_old [of h "m_checked_idx h" d]
      by (subst (2) parse_line.simps) (auto simp: Let_def http_simps)
    finally show ?thesis .
  next
    case False
    with 1(2) have "h' = h"
      by (subst (asm) parse_line.simps) (auto simp: Let_def split: if_splits)
    then show ?thesis by simp
  qed
qed

text \<open>\<open>holds h i s\<close>: the characters \<open>s\<close> stand in the buffer from index \<open>i\<close>.\<close>

definition holds :: "http \<Rightarrow> nat \<Rightarrow> string \<Rightarrow> bool" where
  "holds h i s \<longleftrightarrow> i + length s \<le> length (m_read_buf h) \<and> (\<forall>j < length s. m_read_buf h ! (i + j) = s ! j)"

lemma holds_Cons:
  "holds h i (c # s) \<longleftrightarrow> i < length (m_read_buf h) \<and> m_read_buf h ! i = c \<and> holds h (Suc i) s"
  by (auto simp: holds_def All_less_Suc2)

lemma holds_append: "holds h i (s @ t) \<longleftrightarrow> holds h i s \<and> holds h (i + length s) t"
  by (induction s arbitrary: i) (auto simp: holds_Cons, auto simp: holds_def)

lemma holds_checked [http_simps]: "holds (h\<lparr>m_checked_idx := k\<rparr>) i s = holds h i s"
  by (simp add: holds_def)

lemma parse_line_skip:
  "holds h (m_checked_idx h) s \<Longrightarrow> CR \<notin> set s \<Longrightarrow> LF \<notin> set s \<Longrightarrow>
     int (m_checked_idx h + length s) \<le> m_read_idx h \<Longrightarrow>
     parse_line h = parse_line (h\<lparr>m_checked_idx := m_checked_idx h + length s\<rparr>)"
proof (induction s arbitrary: h)
  case (Cons c s)
  let ?h = "h\<lparr>m_checked_idx := m_checked_idx h + 1\<rparr>"
  have "parse_line h = parse_line ?h"
    using Cons.prems by (subst parse_line.simps) (auto simp: Let_def holds_Cons)
  also have "\<dots> = parse_line (h\<lparr>m_checked_idx := m_checked_idx h + length (c # s)\<rparr>)"
    using Cons.IH [of ?h] Cons.prems by (auto simp: holds_Cons http_simps)
  finally show ?case .
qed simp

lemma store_read_holds:
  "0 \<le> m_read_idx h \<Longrightarrow> m_read_idx h + int (length d) \<le> int (length (m_read_buf h)) \<Longrightarrow>
     holds (store_read d h) (nat (m_read_idx h)) d"
  by (auto simp: holds_def store_read_def nth_append)

text \<open>The line \<open>l\<close> with its end, stored where the scanner stands.\<close>

lemma parse_line_prefix_open:
  assumes "m_read_idx h = int (m_checked_idx h)" "m_checked_idx h + length p \<le> length (m_read_buf h)"
    "CR \<notin> set l" "LF \<notin> set l" "p @ q = l @ [CR, LF]" "q \<noteq> []"
  shows "fst (parse_line (store_read p h)) = LINE_OPEN"
proof -
  let ?h = "store_read p h"
  have idx: "m_checked_idx ?h = m_checked_idx h" "m_read_idx ?h = int (m_checked_idx h + length p)"
    using assms(1) by (simp_all add: http_simps)
  have hold: "holds ?h (m_checked_idx h) p"
    using store_read_holds [of h p] assms(1,2) by simp
  obtain q' where "p @ q' = l @ [CR]"
    using assms(5,6) by (cases q rule: rev_cases) auto
  then consider (inside) "set p \<subseteq> set l" | (cr) "p = l @ [CR]"
    by (cases q' rule: rev_cases) auto
  then show ?thesis
  proof cases
    case inside
    with assms(3,4) parse_line_skip [of ?h p] hold idx
    have "parse_line ?h = parse_line (?h\<lparr>m_checked_idx := m_checked_idx h + length p\<rparr>)" by auto
    also have "\<dots> = (LINE_OPEN, ?h\<lparr>m_checked_idx := m_checked_idx h + length p\<rparr>)"
      using idx by (subst parse_line.simps) simp
    finally show ?thesis by simp
  next
    case cr
    with assms(3,4) parse_line_skip [of ?h l] hold idx
    have "parse_line ?h = parse_line (?h\<lparr>m_checked_idx := m_checked_idx h + length l\<rparr>)"
      by (auto simp: holds_append)
    also have "\<dots> = (LINE_OPEN, ?h\<lparr>m_checked_idx := m_checked_idx h + length l\<rparr>)"
      using idx cr hold by (subst parse_line.simps) (simp add: Let_def holds_append holds_Cons)
    finally show ?thesis by simp
  qed
qed

lemma parse_line_complete:
  assumes "m_read_idx h = int (m_checked_idx h)"
    "m_checked_idx h + length l + 2 + length r \<le> length (m_read_buf h)" "CR \<notin> set l" "LF \<notin> set l"
  defines "i \<equiv> m_checked_idx h + length l" and "g \<equiv> store_read (l @ [CR, LF] @ r) h"
  shows "parse_line g = (LINE_OK, (set_char (i + 1) NUL (set_char i NUL g))\<lparr>m_checked_idx := i + 2\<rparr>)"
proof -
  have idx: "m_checked_idx g = m_checked_idx h" "m_read_idx g = int (i + 2 + length r)"
    using assms(1) by (simp_all add: g_def i_def http_simps)
  have hold: "holds g (m_checked_idx h) (l @ [CR, LF] @ r)"
    using store_read_holds [of h "l @ [CR, LF] @ r"] assms(1,2) by (simp add: g_def)
  have "parse_line g = parse_line (g\<lparr>m_checked_idx := i\<rparr>)"
    using parse_line_skip [of g l] hold idx assms(3,4) by (simp add: i_def holds_append)
  also have "\<dots> = (LINE_OK, (set_char (i + 1) NUL (set_char i NUL g))\<lparr>m_checked_idx := i + 2\<rparr>)"
    using hold idx by (subst parse_line.simps) (simp add: Let_def i_def holds_append holds_Cons set_char_def)
  finally show ?thesis .
qed

lemma feed_concat:
  assumes "\<And>p q. p @ q = concat ds \<Longrightarrow> q \<noteq> [] \<Longrightarrow> fst (parse_line (store_read p h)) = LINE_OPEN"
    "ds \<noteq> []" "0 \<le> m_read_idx h" "m_read_idx h + int (length (concat ds)) \<le> int (length (m_read_buf h))"
  shows "feed ds h = parse_line (store_read (concat ds) h)"
  using assms
proof (induction ds arbitrary: h)
  case (Cons d ds)
  obtain st h' where d: "parse_line (store_read d h) = (st, h')" by force
  show ?case
  proof (cases "st = LINE_OPEN")
    case True
    from parse_line_open [of "store_read d h" h'] d True obtain k where
      h': "h' = (store_read d h)\<lparr>m_checked_idx := k\<rparr>" by auto
    have room: "m_read_idx h + int (length d) \<le> int (length (m_read_buf h))" using Cons.prems(4) by simp
    have resume: "parse_line (store_read e h') = parse_line (store_read (d @ e) h)" for e
      using parse_line_resume [of "store_read d h" h' e] store_read_append [of h d e]
        store_read_length [of h d] room d True Cons.prems(3) by (simp add: http_simps)
    show ?thesis
    proof (cases "ds = []")
      case False
      have "feed ds h' = parse_line (store_read (concat ds) h')"
      proof (rule Cons.IH)
        fix p q assume "p @ q = concat ds" "q \<noteq> []"
        then show "fst (parse_line (store_read p h')) = LINE_OPEN"
          using Cons.prems(1) [of "d @ p" q] resume by simp
      qed (use False Cons.prems room h' store_read_length [of h d] in \<open>auto simp: http_simps\<close>)
      then show ?thesis using d True resume by simp
    qed (use d True in simp)
  next
    case False
    with Cons.prems(1) [of d "concat ds"] d have "concat ds = []" by auto
    then have "concat (d # ds) = d" by (metis append_Nil2 concat.simps(2))
    then show ?thesis using d False by (cases st) (simp_all del: concat.simps)
  qed
qed simp

lemma takeWhile_until [simp]: "x \<notin> set s \<Longrightarrow> takeWhile (\<lambda>c. c \<noteq> x) (s @ x # r) = s"
  by (induction s) auto

lemma str_at_holds:
  assumes "holds h i (s @ [NUL])" "NUL \<notin> set s"
  shows "str_at (m_read_buf h) i = Some s"
proof -
  let ?t = "drop i (m_read_buf h)"
  have len: "length s < length ?t" and nth: "\<And>j. j \<le> length s \<Longrightarrow> ?t ! j = (s @ [NUL]) ! j"
    using assms(1) by (auto simp: holds_def)
  have "take (length s) ?t = s"
    using len nth by (intro nth_equalityI) (auto simp: nth_append)
  moreover have "?t ! length s = NUL" using nth [of "length s"] by simp
  ultimately have "?t = s @ NUL # drop (Suc (length s)) ?t"
    using id_take_nth_drop [OF len] by simp
  then obtain r where "?t = s @ NUL # r" by blast
  with assms(2) show ?thesis by (auto simp: str_at_def)
qed

text \<open>Claim C19: the line scanner does not depend on how the bytes arrive.  A line without CR and LF that
  reaches a scanner standing at the end of the data, cut into pieces in any way (also between the
  CR and the LF), is reported once, as complete, exactly as if it had arrived at once, with the
  scanner behind it and the text of the line terminated where it starts.\<close>

theorem parse_line_any_chunks:
  assumes "concat ds = l @ [CR, LF]" "CR \<notin> set l" "LF \<notin> set l" "NUL \<notin> set l"
    "m_read_idx h = int (m_checked_idx h)" "m_checked_idx h + length l + 2 \<le> length (m_read_buf h)"
  shows "feed ds h = parse_line (store_read (l @ [CR, LF]) h)
    \<and> (\<exists>h'. feed ds h = (LINE_OK, h') \<and> m_checked_idx h' = m_checked_idx h + length l + 2
         \<and> str_at (m_read_buf h') (m_checked_idx h) = Some l)"
proof -
  let ?i = "m_checked_idx h + length l" and ?g = "store_read (l @ [CR, LF]) h"
  let ?h' = "(set_char (?i + 1) NUL (set_char ?i NUL ?g))\<lparr>m_checked_idx := ?i + 2\<rparr>"
  have "feed ds h = parse_line (store_read (concat ds) h)"
  proof (rule feed_concat)
    fix p q assume pq: "p @ q = concat ds" "q \<noteq> []"
    then have "length p + length q = length l + 2"
      using assms(1) by (metis One_nat_def Suc_1 add_Suc_right length_Cons length_append list.size(3) add_0_right)
    with pq assms show "fst (parse_line (store_read p h)) = LINE_OPEN"
      by (intro parse_line_prefix_open [of h p l q]) auto
  qed (use assms in auto)
  with assms(1) have feed: "feed ds h = parse_line ?g" by simp
  also have "\<dots> = (LINE_OK, ?h')"
    using parse_line_complete [of h l "[]"] assms by simp
  finally have ok: "feed ds h = (LINE_OK, ?h')" .
  have "holds ?g (m_checked_idx h) (l @ [CR, LF])"
    using store_read_holds [of h "l @ [CR, LF]"] assms(5,6) by simp
  then have "holds ?h' (m_checked_idx h) (l @ [NUL])"
    by (auto simp: holds_def set_char_def nth_append nth_list_update)
  from str_at_holds [OF this assms(4)] ok feed show ?thesis by simp
qed

theorem parse_line_any_chunks_witness:
  "\<exists>h'. feed [''GET /'', ''a HTTP/1.1'' @ [CR], [LF]] (http_init 5 1 zero_conn) = (LINE_OK, h')
     \<and> m_checked_idx h' = 17 \<and> str_at (m_read_buf h') 0 = Some ''GET /a HTTP/1.1''"
proof -
  let ?ds = "[''GET /'', ''a HTTP/1.1'' @ [CR], [LF]]" and ?l = "''GET /a HTTP/1.1''" and ?h = "http_init 5 1 zero_conn"
  have "\<exists>h'. feed ?ds ?h = (LINE_OK, h') \<and> m_checked_idx h' = m_checked_idx ?h + length ?l + 2
         \<and> str_at (m_read_buf h') (m_checked_idx ?h) = Some ?l"
    by (rule conjunct2 [OF parse_line_any_chunks]) (simp_all add: http_simps NUL_def)
  then show ?thesis by (simp add: http_simps eval_nat_numeral del: feed.simps)
qed

end
