(* ===== verification/Web_Request.thy ===== *)
theory Web_Request
  imports Web_Http
begin

text \<open>
  \<^verbatim>\<open>TinyWebServer/http/http_conn.cpp\<close>: parsing a request and finding the file it names.  The parsers of
  the request line, the headers and the body work on the C string at an index of the read buffer;
  \<open>process_read\<close> is the loop that runs them with the scanner of \<open>Web_Http\<close>, and \<open>do_request\<close> maps the
  URL to a file, with the login and registration of the user table on the way.

  The file system, \<^verbatim>\<open>mmap\<close>, the database and the document root form the record \<open>http_env\<close>.  In a
  parser \<open>None\<close> is undefined behaviour.  \<open>process_read\<close> is a partial function: \<open>None\<close> is a loop that
  does not end, \<open>Undefined\<close> is undefined behaviour.
\<close>

subsection \<open>The request line\<close>

text \<open>\<^verbatim>\<open>strncasecmp(m_url, s, n)\<close>, and if it matches, \<^verbatim>\<open>m_url = strchr(m_url + n, '/')\<close>.  The URL is given as
  index and text; \<open>Some None\<close> is a null \<^verbatim>\<open>m_url\<close>.\<close>

definition strip_scheme :: "string \<Rightarrow> nat \<Rightarrow> (nat \<times> string) \<Rightarrow> (nat \<times> string) option" where
  "strip_scheme sch n u =
     (if strncaseeq (snd u) sch n then
        (case char_pos CHR ''/'' (drop n (snd u)) of
           None \<Rightarrow> None
         | Some k \<Rightarrow> Some (fst u + n + k, drop (n + k) (snd u)))
      else Some u)"

definition url_end :: "(nat \<times> string) option \<Rightarrow> http \<Rightarrow> (http_code \<times> http) option" where
  "url_end u h =
     (case u of
        None \<Rightarrow> Some (BAD_REQUEST, h\<lparr>m_url := None\<rparr>)
      | Some (i, s) \<Rightarrow>
          (if s = [] \<or> hd s \<noteq> CHR ''/'' then Some (BAD_REQUEST, h\<lparr>m_url := Some i\<rparr>)
           else if length s = 1 then
             (case put_str (i + 1) ''judge.html'' (m_read_buf h) of
                None \<Rightarrow> None
              | Some buf \<Rightarrow> Some (NO_REQUEST, h\<lparr>m_url := Some i, m_read_buf := buf,
                  m_check_state := CHECK_STATE_HEADER\<rparr>))
           else Some (NO_REQUEST, h\<lparr>m_url := Some i, m_check_state := CHECK_STATE_HEADER\<rparr>)))"

text \<open>From the version on: \<open>i\<close> and \<open>s\<close> are the URL with the rest of the line.  The text of the second
  scheme test is read through \<^verbatim>\<open>m_url\<close>, which the first one may have made null.\<close>

definition parse_version :: "nat \<Rightarrow> string \<Rightarrow> http \<Rightarrow> (http_code \<times> http) option" where
  "parse_version i s h =
     (case blank_pos s of
        None \<Rightarrow> Some (BAD_REQUEST, h\<lparr>m_url := Some i, m_version := None\<rparr>)
      | Some k \<Rightarrow>
          (let v = drop (k + 1) s; j = blank_span v;
               h1 = (set_char (i + k) NUL h)\<lparr>m_url := Some i, m_version := Some (i + k + 1 + j)\<rparr> in
           if \<not> strcaseeq (drop j v) ''HTTP/1.1'' then Some (BAD_REQUEST, h1)
           else
             (case strip_scheme ''http:://'' 7 (i, take k s) of
                None \<Rightarrow> None
              | Some u \<Rightarrow> url_end (strip_scheme ''https:://'' 8 u) h1)))"

definition parse_request_line :: "nat \<Rightarrow> http \<Rightarrow> (http_code \<times> http) option" where
  "parse_request_line text_i h =
     (case str_at (m_read_buf h) text_i of
        None \<Rightarrow> None
      | Some s \<Rightarrow>
          (case blank_pos s of
             None \<Rightarrow> Some (BAD_REQUEST, h\<lparr>m_url := None\<rparr>)
           | Some k \<Rightarrow>
               (let meth = take k s; r = drop (k + 1) s; j = blank_span r; i = text_i + k + 1;
                    h1 = (set_char (text_i + k) NUL h)\<lparr>m_url := Some i\<rparr> in
                if strcaseeq meth ''GET'' then
                  parse_version (i + j) (drop j r) (h1\<lparr>m_method := GET\<rparr>)
                else if strcaseeq meth ''POSE'' then
                  parse_version (i + j) (drop j r) (h1\<lparr>m_method := POST, m_cgi := 1\<rparr>)
                else Some (BAD_REQUEST, h1))))"

subsection \<open>Headers and body\<close>

text \<open>\<^verbatim>\<open>atol\<close>, with the value of the library's conversion for numbers that do not fit a \<^verbatim>\<open>long\<close>.\<close>

definition atol :: "string \<Rightarrow> int" where
  "atol s = max (- (2 ^ 63)) (min (2 ^ 63 - 1) (atoi s))"

definition parse_headers :: "nat \<Rightarrow> http \<Rightarrow> (http_code \<times> http) option" where
  "parse_headers text_i h =
     (case str_at (m_read_buf h) text_i of
        None \<Rightarrow> None
      | Some s \<Rightarrow>
          if s = [] then
            (if m_content_length h \<noteq> 0
             then Some (NO_REQUEST, h\<lparr>m_check_state := CHECK_STATE_CONTENT\<rparr>)
             else Some (GET_REQUEST, h))
          else if strncaseeq s ''Connection'' 11 then
            (case str_at (m_read_buf h) (text_i + 11) of
               None \<Rightarrow> None
             | Some v \<Rightarrow> if strcaseeq (drop (blank_span v) v) ''keep-alive''
                 then Some (NO_REQUEST, h\<lparr>m_linger := True\<rparr>) else Some (NO_REQUEST, h))
          else if strncaseeq s ''Content-length:'' 15 then
            (let v = drop 15 s in
             Some (NO_REQUEST, h\<lparr>m_content_length := atol (drop (blank_span v) v)\<rparr>))
          else if strncaseeq s ''Host:'' 5 then
            Some (NO_REQUEST, h\<lparr>m_host := Some (text_i + 5 + blank_span (drop 5 s))\<rparr>)
          else Some (NO_REQUEST, h))"

text \<open>The sum is a \<^verbatim>\<open>long\<close>; the terminator must fall inside the buffer.\<close>

definition parse_content :: "nat \<Rightarrow> http \<Rightarrow> (http_code \<times> http) option" where
  "parse_content text_i h =
     (let e = m_content_length h + int (m_checked_idx h); p = int text_i + m_content_length h in
      if e > 2 ^ 63 - 1 then None
      else if m_read_idx h \<ge> e then
        (if 0 \<le> p \<and> p < int (length (m_read_buf h))
         then Some (GET_REQUEST, (set_char (nat p) NUL h)\<lparr>m_string := Some text_i\<rparr>)
         else None)
      else Some (NO_REQUEST, h))"

subsection \<open>From the URL to the file\<close>

datatype fstat = Fstat (s_iroth: bool) (s_isdir: bool) (st_size: int)

record http_env =
  doc_root :: string
  file_stat :: "string \<Rightarrow> fstat option"
  file_map :: "string \<Rightarrow> string option"
  mysql_query :: "nat option \<Rightarrow> string \<Rightarrow> int"

text \<open>Writing a block of characters into an array; outside it is undefined.\<close>

definition poke :: "nat \<Rightarrow> string \<Rightarrow> string \<Rightarrow> string option" where
  "poke i s buf = (if i + length s \<le> length buf
     then Some (take i buf @ s @ drop (i + length s) buf) else None)"

definition strncpy_text :: "string \<Rightarrow> nat \<Rightarrow> string" where
  "strncpy_text s n = take n (s @ replicate n NUL)"

text \<open>The user name runs from the sixth character of the body to the first \<^verbatim>\<open>&\<close>, wherever in the buffer
  that is; the password starts ten characters later and ends with the string.  Both go to arrays
  of 100 characters.\<close>

definition form_fields :: "string \<Rightarrow> nat \<Rightarrow> (string \<times> string) option" where
  "form_fields buf i =
     (let b = drop (i + 5) buf in
      if CHR ''&'' \<notin> set b then None
      else let raw = takeWhile (\<lambda>c. c \<noteq> CHR ''&'') b in
        if length raw > 99 then None
        else (case str_at buf (i + 5 + length raw + 10) of
                None \<Rightarrow> None
              | Some pw \<Rightarrow> if length pw > 99 then None
                  else Some (takeWhile (\<lambda>c. c \<noteq> NUL) raw, pw)))"

definition sql_insert :: "string \<Rightarrow> string \<Rightarrow> string" where
  "sql_insert name pw = ''INSERT INTO user(username, password) VALUES('' @ [CHR 0x27] @ name
     @ [CHR 0x27] @ '', '' @ [CHR 0x27] @ pw @ [CHR 0x27] @ '')''"

definition set_url :: "nat \<Rightarrow> string \<Rightarrow> http \<Rightarrow> http option" where
  "set_url u s h = (case put_str u s (m_read_buf h) of
     None \<Rightarrow> None | Some buf \<Rightarrow> Some (h\<lparr>m_read_buf := buf\<rparr>))"

text \<open>Registration and login; \<open>c\<close> is the character after the last slash, \<^verbatim>\<open>'3'\<close> to register and \<^verbatim>\<open>'2'\<close> to
  log in.  The user is entered into the table whether or not the database took the record.\<close>

definition cgi_check :: "http_env \<Rightarrow> char \<Rightarrow> nat \<Rightarrow> string \<Rightarrow> string \<Rightarrow> http \<Rightarrow> http option" where
  "cgi_check env c u name pw h =
     (if c = CHR ''3'' then
        (if length (sql_insert name pw) > 199 then None
         else if users_map h name = None then
           (let res = mysql_query env (m_mysql h) (sql_insert name pw);
                h1 = h\<lparr>users_map := (users_map h)(name \<mapsto> pw)\<rparr> in
            set_url u (if res = 0 then ''/log.html'' else ''/registerError.html'') h1)
         else set_url u ''/registerError.html'' h)
      else if users_map h name = Some pw then set_url u ''/welcome.html'' h
      else set_url u ''/logError.html'' h)"

definition do_cgi :: "http_env \<Rightarrow> char \<Rightarrow> nat \<Rightarrow> string \<Rightarrow> http \<Rightarrow> http option" where
  "do_cgi env c u url h =
     (let len = length (doc_root env); real = CHR ''/'' # drop 2 url in
      if length real > 199 then None
      else (case poke len (strncpy_text real (FILENAME_LEN - len - 1)) (m_real_file h) of
         None \<Rightarrow> None
       | Some rf \<Rightarrow>
           (case m_string h of
              None \<Rightarrow> None
            | Some i \<Rightarrow>
                (case form_fields (m_read_buf h) i of
                   None \<Rightarrow> None
                 | Some (name, pw) \<Rightarrow> cgi_check env c u name pw (h\<lparr>m_real_file := rf\<rparr>)))))"

definition page_for :: "char \<Rightarrow> string option" where
  "page_for c =
     (if c = CHR ''0'' then Some ''/register.html''
      else if c = CHR ''1'' then Some ''/log.html''
      else if c = CHR ''5'' then Some ''/picture.html''
      else if c = CHR ''6'' then Some ''/video.html''
      else if c = CHR ''7'' then Some ''/fans.html''
      else None)"

text \<open>The page of the digit after the last slash, or the URL as a path, appended to the document
  root in \<^verbatim>\<open>m_real_file\<close>.  A page name is copied without a terminator.\<close>

definition real_path :: "http_env \<Rightarrow> char \<Rightarrow> nat \<Rightarrow> http \<Rightarrow> http option" where
  "real_path env c u h =
     (let len = length (doc_root env) in
      case (case page_for c of
              Some page \<Rightarrow> Some page
            | None \<Rightarrow> (case str_at (m_read_buf h) u of
                None \<Rightarrow> None
              | Some url \<Rightarrow> Some (strncpy_text url (FILENAME_LEN - len - 1)))) of
        None \<Rightarrow> None
      | Some t \<Rightarrow> (case poke len t (m_real_file h) of
            None \<Rightarrow> None | Some rf \<Rightarrow> Some (h\<lparr>m_real_file := rf\<rparr>)))"

definition open_file :: "http_env \<Rightarrow> http \<Rightarrow> (http_code \<times> http) option" where
  "open_file env h =
     (case str_at (m_real_file h) 0 of
        None \<Rightarrow> None
      | Some f \<Rightarrow>
          (case file_stat env f of
             None \<Rightarrow> Some (NO_RESOURCE, h)
           | Some st \<Rightarrow>
               (let h1 = h\<lparr>m_st_size := st_size st\<rparr> in
                if \<not> s_iroth st then Some (FORBIDDEN_REQUEST, h1)
                else if s_isdir st then Some (BAD_REQUEST, h1)
                else Some (FILE_REQUEST, h1\<lparr>m_file_address :=
                  (case file_map env f of None \<Rightarrow> Map_failed | Some d \<Rightarrow> Mapped d)\<rparr>))))"

definition do_request :: "http_env \<Rightarrow> http \<Rightarrow> (http_code \<times> http) option" where
  "do_request env h =
     (case poke 0 (doc_root env @ [NUL]) (m_real_file h) of
        None \<Rightarrow> None
      | Some rf \<Rightarrow>
          (case m_url h of
             None \<Rightarrow> None
           | Some u \<Rightarrow>
               (case str_at (m_read_buf h) u of
                  None \<Rightarrow> None
                | Some url \<Rightarrow>
                    (case last_pos CHR ''/'' url of
                       None \<Rightarrow> None
                     | Some k \<Rightarrow>
                         (let c = m_read_buf h ! (u + k + 1); h1 = h\<lparr>m_real_file := rf\<rparr> in
                          case (if m_cgi h = 1 \<and> (c = CHR ''2'' \<or> c = CHR ''3'')
                                then do_cgi env c u url h1 else Some h1) of
                            None \<Rightarrow> None
                          | Some h2 \<Rightarrow>
                              (case real_path env (m_read_buf h2 ! (u + k + 1)) u h2 of
                                 None \<Rightarrow> None
                               | Some h3 \<Rightarrow> open_file env h3))))))"

subsection \<open>The main state machine\<close>

datatype 'a run = Done 'a | Undefined

definition undef_none :: "'a option \<Rightarrow> 'a run" where
  "undef_none x = (case x of None \<Rightarrow> Undefined | Some y \<Rightarrow> Done y)"

text \<open>The loop condition.  \<^verbatim>\<open>(line_status == parse_line()) == LINE_OK\<close> compares the truth value of the
  comparison with 0: it holds when the scanner's result is \<^emph>\<open>not\<close> \<open>line_status\<close>.\<close>

definition loop_cond :: "line_status \<Rightarrow> http \<Rightarrow> bool \<times> http" where
  "loop_cond ls h =
     (if m_check_state h = CHECK_STATE_CONTENT \<and> ls = LINE_OK then (True, h)
      else case parse_line h of (st, h') \<Rightarrow> (ls \<noteq> st, h'))"

text \<open>One round of the loop: it ends the function with a result or goes on.  When the condition fails the
  function reaches its end without a \<^verbatim>\<open>return\<close>.\<close>

datatype round = Return "(http_code \<times> http) run" | Again_with line_status http

definition read_round :: "http_env \<Rightarrow> line_status \<Rightarrow> http \<Rightarrow> round" where
  "read_round env ls h0 =
     (case loop_cond ls h0 of (go, h1) \<Rightarrow>
      if \<not> go then Return Undefined
      else
        (let text_i = m_start_line h1; h = h1\<lparr>m_start_line := m_checked_idx h1\<rparr> in
         case m_check_state h of
           CHECK_STATE_REQUESTLINE \<Rightarrow>
             (case parse_request_line text_i h of
                None \<Rightarrow> Return Undefined
              | Some (rc, h') \<Rightarrow> if rc = BAD_REQUEST then Return (Done (BAD_REQUEST, h'))
                  else Again_with ls h')
         | CHECK_STATE_HEADER \<Rightarrow>
             (case parse_headers text_i h of
                None \<Rightarrow> Return Undefined
              | Some (rc, h') \<Rightarrow> if rc = BAD_REQUEST then Return (Done (BAD_REQUEST, h'))
                  else if rc = GET_REQUEST then Return (undef_none (do_request env h'))
                  else Again_with ls h')
         | CHECK_STATE_CONTENT \<Rightarrow>
             (case parse_content text_i h of
                None \<Rightarrow> Return Undefined
              | Some (rc, h') \<Rightarrow> if rc = GET_REQUEST then Return (undef_none (do_request env h'))
                  else Again_with LINE_OPEN h')))"

partial_function (option) process_read_loop ::
  "http_env \<Rightarrow> line_status \<Rightarrow> http \<Rightarrow> (http_code \<times> http) run option" where
  "process_read_loop env ls h =
     (case read_round env ls h of
        Return r \<Rightarrow> Some r
      | Again_with ls' h' \<Rightarrow> process_read_loop env ls' h')"

definition process_read :: "http_env \<Rightarrow> http \<Rightarrow> (http_code \<times> http) run option" where
  "process_read env h = process_read_loop env LINE_OK h"


subsection \<open>Strings in the buffer\<close>

lemma str_at_Some:
  "str_at buf i = Some s \<longleftrightarrow> (\<exists>r. drop i buf = s @ NUL # r) \<and> NUL \<notin> set s"
proof
  assume "str_at buf i = Some s"
  then have s: "s = takeWhile (\<lambda>c. c \<noteq> NUL) (drop i buf)" and n: "NUL \<in> set (drop i buf)"
    by (auto simp: str_at_def split: if_splits)
  from n obtain us vs where "drop i buf = us @ NUL # vs" "NUL \<notin> set us" by (meson split_list_first)
  with s show "(\<exists>r. drop i buf = s @ NUL # r) \<and> NUL \<notin> set s" by auto
qed (auto simp: str_at_def)

lemma str_at_index: "str_at buf i = Some s \<Longrightarrow> i + length s < length buf"
proof -
  assume "str_at buf i = Some s"
  then obtain r where "drop i buf = s @ NUL # r" by (auto simp: str_at_Some)
  then have "length (drop i buf) = length s + 1 + length r" by simp
  then show ?thesis by simp
qed

lemma str_at_suffix: "str_at buf i = Some (s @ t) \<Longrightarrow> str_at buf (i + length s) = Some t"
proof -
  assume "str_at buf i = Some (s @ t)"
  then obtain r where "drop i buf = s @ t @ NUL # r" "NUL \<notin> set t" by (auto simp: str_at_Some)
  moreover have "drop (i + length s) buf = drop (length s) (drop i buf)" by (simp add: add.commute)
  ultimately show ?thesis by (auto simp: str_at_Some)
qed

lemma str_at_nth: "str_at buf i = Some s \<Longrightarrow> k \<le> length s \<Longrightarrow> buf ! (i + k) = (s @ [NUL]) ! k"
proof -
  assume s: "str_at buf i = Some s" "k \<le> length s"
  then obtain r where "drop i buf = s @ NUL # r" by (auto simp: str_at_Some)
  moreover have "buf ! (i + k) = drop i buf ! k" using str_at_index [OF s(1)] by simp
  ultimately show ?thesis using s(2) by (simp add: nth_append nth_Cons')
qed

text \<open>Cutting the string at \<open>k\<close> with a terminator.\<close>

lemma str_at_cut:
  assumes "str_at buf i = Some (s @ c # t)"
  shows "str_at (buf[i + length s := NUL]) i = Some s"
    and "str_at (buf[i + length s := NUL]) (i + length s + 1) = Some t"
proof -
  from assms obtain r where d: "drop i buf = s @ c # t @ NUL # r" "NUL \<notin> set s" "NUL \<notin> set t"
    by (auto simp: str_at_Some)
  have "drop i (buf[i + length s := NUL]) = (drop i buf)[length s := NUL]"
    by (simp add: drop_update_swap)
  with d have e: "drop i (buf[i + length s := NUL]) = s @ NUL # t @ NUL # r" by simp
  then show "str_at (buf[i + length s := NUL]) i = Some s" using d by (auto simp: str_at_Some)
  have "drop (i + length s + 1) (buf[i + length s := NUL]) = drop (length s + 1) (drop i (buf[i + length s := NUL]))"
    by (simp add: ac_simps)
  also have "\<dots> = t @ NUL # r" by (simp only: e) simp
  finally show "str_at (buf[i + length s := NUL]) (i + length s + 1) = Some t"
    using d by (auto simp: str_at_Some)
qed

lemma put_str_Some:
  "put_str i s buf = Some buf' \<Longrightarrow> NUL \<notin> set s \<Longrightarrow> str_at buf' i = Some s \<and> length buf' = length buf"
  by (auto simp: put_str_def str_at_Some split: if_splits)

lemma put_str_ok: "i + length s < length buf \<Longrightarrow> \<exists>buf'. put_str i s buf = Some buf'"
  by (simp add: put_str_def)

lemma str_at_extend:
  assumes "str_at buf i = Some s" "put_str (i + length s) t buf = Some buf'" "NUL \<notin> set t"
  shows "str_at buf' i = Some (s @ t)"
proof -
  from assms(1) obtain r where d: "drop i buf = s @ NUL # r" "NUL \<notin> set s" by (auto simp: str_at_Some)
  have "i \<le> length buf" using str_at_index [OF assms(1)] by simp
  moreover have "take (i + length s) buf = take i buf @ s"
    using d by (metis append_eq_conv_conj take_add)
  ultimately have "drop i buf' = s @ t @ NUL # drop (i + length s + length t + 1) buf"
    using assms(2) by (auto simp: put_str_def split: if_splits)
  then show ?thesis using d(2) assms(3) by (auto simp: str_at_Some)
qed

subsection \<open>Blanks and methods\<close>

lemma blank_pos_append:
  "\<forall>c \<in> set s. \<not> is_blank c \<Longrightarrow> is_blank b \<Longrightarrow> blank_pos (s @ b # t) = Some (length s)"
  by (simp add: blank_pos_def takeWhile_append2 [of s])

lemma blank_span_append:
  "\<forall>c \<in> set b. is_blank c \<Longrightarrow> t = [] \<or> \<not> is_blank (hd t) \<Longrightarrow> blank_span (b @ t) = length b"
  by (cases t) (auto simp: blank_span_def takeWhile_append2 [of b] takeWhile_eq_all_conv [THEN iffD2])

lemma slash_no_blank [simp]: "\<not> is_blank CHR ''/''"
  by (simp add: is_blank_def)

lemma upcase_blank: "is_blank c \<Longrightarrow> upcase c = c"
  by (auto simp: is_blank_def upcase_def)

lemma strcaseeq_no_blank:
  assumes "strcaseeq s t" "\<forall>c \<in> set t. \<not> is_blank (upcase c)" "c \<in> set s"
  shows "\<not> is_blank c"
proof
  assume b: "is_blank c"
  from assms(1,3) have "upcase c \<in> upcase ` set t" by (metis image_eqI list.set_map strcaseeq_def)
  with b assms(2) show False by (auto simp: upcase_blank)
qed

lemma strcaseeq_GET_no_blank: "strcaseeq m ''GET'' \<Longrightarrow> c \<in> set m \<Longrightarrow> \<not> is_blank c"
  by (rule strcaseeq_no_blank [of m "''GET''"]) (auto simp: upcase_def is_blank_def)

lemma strcaseeq_version_hd: "strcaseeq v ''HTTP/1.1'' \<Longrightarrow> v \<noteq> [] \<and> \<not> is_blank (hd v)"
  using strcaseeq_no_blank [of v "''HTTP/1.1''" "hd v"]
  by (cases v) (auto simp: upcase_def is_blank_def strcaseeq_def)

lemma strip_scheme_slash:
  "s \<noteq> [] \<Longrightarrow> hd s = CHR ''/'' \<Longrightarrow> hd sch = CHR ''h'' \<Longrightarrow> sch \<noteq> [] \<Longrightarrow> 0 < n \<Longrightarrow> strip_scheme sch n (i, s) = Some (i, s)"
proof -
  assume a: "s \<noteq> []" "hd s = CHR ''/''" "hd sch = CHR ''h''" "sch \<noteq> []" "0 < n"
  have "upcase CHR ''/'' \<noteq> upcase CHR ''h''" by code_simp
  with a have "\<not> strncaseeq s sch n" by (cases s; cases n; cases sch) (auto simp: strncaseeq_def)
  then show ?thesis by (simp add: strip_scheme_def)
qed

subsection \<open>The request line\<close>

text \<open>\<open>get_line m b1 url b2 v\<close>: a request line of the method GET in any case, with blanks \<open>b1\<close> and \<open>b2\<close> around an
  absolute path and the version in any case.\<close>

definition get_line :: "string \<Rightarrow> string \<Rightarrow> string \<Rightarrow> string \<Rightarrow> string \<Rightarrow> bool" where
  "get_line m b1 url b2 v \<longleftrightarrow> strcaseeq m ''GET'' \<and> strcaseeq v ''HTTP/1.1''
     \<and> b1 \<noteq> [] \<and> (\<forall>c \<in> set b1. is_blank c) \<and> b2 \<noteq> [] \<and> (\<forall>c \<in> set b2. is_blank c)
     \<and> url \<noteq> [] \<and> hd url = CHR ''/'' \<and> (\<forall>c \<in> set url. \<not> is_blank c)"

lemma parse_version_ok:
  assumes "get_line m b1 url b2 v"
  shows "parse_version i (url @ b2 @ v) h = url_end (Some (i, url))
     ((set_char (i + length url) NUL h)\<lparr>m_url := Some i, m_version := Some (i + length url + length b2)\<rparr>)"
proof -
  obtain b bs where b2: "b2 = b # bs" using assms by (cases b2) (auto simp: get_line_def)
  have pos: "blank_pos (url @ b2 @ v) = Some (length url)"
    using assms b2 by (simp add: get_line_def blank_pos_append)
  have span: "blank_span (bs @ v) = length bs"
    using assms b2 strcaseeq_version_hd by (intro blank_span_append) (auto simp: get_line_def)
  have "strip_scheme ''http:://'' 7 (i, url) = Some (i, url)" "strip_scheme ''https:://'' 8 (i, url) = Some (i, url)"
    using assms by (auto simp: get_line_def intro!: strip_scheme_slash)
  then show ?thesis
    using assms pos span b2 by (simp add: parse_version_def get_line_def Let_def)
qed

text \<open>The line after the two cuts.\<close>

definition cut_line :: "nat \<Rightarrow> string \<Rightarrow> string \<Rightarrow> string \<Rightarrow> string \<Rightarrow> http \<Rightarrow> http" where
  "cut_line i m b1 url b2 h =
     (let u = i + length m + length b1 in
      (set_char (u + length url) NUL (set_char (i + length m) NUL (h\<lparr>m_method := GET\<rparr>)))
        \<lparr>m_url := Some u, m_version := Some (u + length url + length b2)\<rparr>)"

lemma cut_line_fields [http_simps]:
  "m_method (cut_line i m b1 url b2 h) = GET"
  "m_cgi (cut_line i m b1 url b2 h) = m_cgi h"
  "m_checked_idx (cut_line i m b1 url b2 h) = m_checked_idx h"
  "m_read_idx (cut_line i m b1 url b2 h) = m_read_idx h"
  "m_content_length (cut_line i m b1 url b2 h) = m_content_length h"
  "m_real_file (cut_line i m b1 url b2 h) = m_real_file h"
  "m_start_line (cut_line i m b1 url b2 h) = m_start_line h"
  "m_url (cut_line i m b1 url b2 h) = Some (i + length m + length b1)"
  "length (m_read_buf (cut_line i m b1 url b2 h)) = length (m_read_buf h)"
  by (simp_all add: cut_line_def set_char_def Let_def)

lemma parse_request_line_get:
  assumes "get_line m b1 url b2 v" "str_at (m_read_buf h) i = Some (m @ b1 @ url @ b2 @ v)"
  shows "parse_request_line i h = url_end (Some (i + length m + length b1, url)) (cut_line i m b1 url b2 h)"
proof -
  obtain b bs where b1: "b1 = b # bs" using assms by (cases b1) (auto simp: get_line_def)
  have pos: "blank_pos (m @ b1 @ url @ b2 @ v) = Some (length m)"
    using assms(1) b1 strcaseeq_GET_no_blank by (auto simp: get_line_def intro!: blank_pos_append)
  have span: "blank_span (bs @ url @ b2 @ v) = length bs"
    using assms(1) b1 by (intro blank_span_append) (auto simp: get_line_def)
  show ?thesis
    using assms pos span b1 parse_version_ok [OF assms(1)]
    by (simp add: parse_request_line_def get_line_def Let_def cut_line_def set_char_def ac_simps)
qed

lemma cut_line_url:
  assumes "get_line m b1 url b2 v" "str_at (m_read_buf h) i = Some (m @ b1 @ url @ b2 @ v)"
  shows "str_at (m_read_buf (cut_line i m b1 url b2 h)) (i + length m + length b1) = Some url"
proof -
  let ?b = "m_read_buf h" and ?i = "i + length m"
  obtain b bs where b1: "b1 = b # bs" using assms by (cases b1) (auto simp: get_line_def)
  obtain c cs where b2: "b2 = c # cs" using assms by (cases b2) (auto simp: get_line_def)
  have "str_at (?b[?i := NUL]) (?i + 1) = Some (bs @ url @ b2 @ v)"
    using str_at_cut(2) [of ?b i m b "bs @ url @ b2 @ v"] assms(2) b1 by simp
  from str_at_suffix [OF this] have "str_at (?b[?i := NUL]) (?i + length b1) = Some (url @ c # cs @ v)"
    using b1 b2 by simp
  from str_at_cut(1) [OF this] show ?thesis by (simp add: cut_line_def set_char_def Let_def ac_simps)
qed

text \<open>The request line.  A line \<^verbatim>\<open>GET path HTTP/1.1\<close>, with any case of the two words and any
  blanks, is accepted: the machine goes on to the headers with the method GET and \<^verbatim>\<open>m_url\<close> pointing to
  a terminated copy of the path in the buffer, \<^verbatim>\<open>/judge.html\<close> for the path \<^verbatim>\<open>/\<close>.\<close>

theorem parse_request_line_accepts:
  assumes "get_line m b1 url b2 v" "str_at (m_read_buf h) i = Some (m @ b1 @ url @ b2 @ v)"
    "i + length m + length b1 + 11 < length (m_read_buf h)"
  shows "\<exists>h' u. parse_request_line i h = Some (NO_REQUEST, h') \<and> m_method h' = GET
    \<and> m_check_state h' = CHECK_STATE_HEADER \<and> m_url h' = Some u
    \<and> str_at (m_read_buf h') u = Some (if url = ''/'' then ''/judge.html'' else url)"
proof -
  let ?u = "i + length m + length b1" and ?h = "cut_line i m b1 url b2 h"
  note parse = parse_request_line_get [OF assms(1,2)] and url = cut_line_url [OF assms(1,2)]
  have len: "length (m_read_buf ?h) = length (m_read_buf h)" by (simp add: http_simps)
  show ?thesis
  proof (cases "url = ''/''")
    case True
    from put_str_ok [of "?u + 1" "''judge.html''" "m_read_buf ?h"] assms(3) len obtain buf where
      buf: "put_str (?u + 1) ''judge.html'' (m_read_buf ?h) = Some buf" by auto
    have "str_at buf ?u = Some ''/judge.html''"
      using str_at_extend [OF url, of "''judge.html''" buf] buf True by (simp add: NUL_def)
    then show ?thesis using parse buf True by (simp add: url_end_def http_simps)
  next
    case False
    then have "length url \<noteq> 1" using assms(1) by (cases url) (auto simp: get_line_def)
    then show ?thesis using parse url False assms(1)
      by (simp add: url_end_def get_line_def http_simps)
  qed
qed

theorem parse_request_line_accepts_witness:
  "\<exists>h' u. parse_request_line 0 (store_read ''get  / HTTP/1.1'' (http_init 5 1 zero_conn)) = Some (NO_REQUEST, h')
    \<and> m_url h' = Some u \<and> str_at (m_read_buf h') u = Some ''/judge.html''"
proof -
  let ?l = "''get  / HTTP/1.1''"
  let ?h = "store_read ?l (http_init 5 1 zero_conn)"
  have "get_line ''get'' ''  '' ''/'' '' '' ''HTTP/1.1''" by code_simp
  moreover have "str_at (m_read_buf ?h) 0 = Some (''get'' @ ''  '' @ ''/'' @ '' '' @ ''HTTP/1.1'')"
    by (simp add: str_at_def store_read_def http_simps NUL_def)
  moreover have "0 + length ''get'' + length ''  '' + 11 < length (m_read_buf ?h)"
    by (simp add: store_read_def http_simps)
  ultimately show ?thesis using parse_request_line_accepts [of "''get''" "''  ''" "''/''" "'' ''" "''HTTP/1.1''" ?h 0] by auto
qed

text \<open>Only GET.  A request line whose first word is neither GET nor the word POSE, which the code
  has in place of POST, in any case, is a bad request; in particular every POST request.\<close>

theorem parse_request_line_rejects:
  assumes "str_at (m_read_buf h) i = Some (m @ b # r)" "is_blank b" "\<forall>c \<in> set m. \<not> is_blank c"
    "\<not> strcaseeq m ''GET''" "\<not> strcaseeq m ''POSE''"
  shows "\<exists>h'. parse_request_line i h = Some (BAD_REQUEST, h') \<and> m_check_state h' = m_check_state h"
  using assms by (simp add: parse_request_line_def blank_pos_append Let_def set_char_def)

theorem parse_request_line_rejects_witness:
  "\<exists>h'. parse_request_line 0 (store_read ''POST /3 HTTP/1.1'' (http_init 5 1 zero_conn)) = Some (BAD_REQUEST, h')"
proof -
  let ?h = "store_read ''POST /3 HTTP/1.1'' (http_init 5 1 zero_conn)"
  have "str_at (m_read_buf ?h) 0 = Some (''POST'' @ CHR '' '' # ''/3 HTTP/1.1'')"
    by (simp add: str_at_def store_read_def http_simps NUL_def)
  moreover have "is_blank CHR '' ''" "\<forall>c \<in> set ''POST''. \<not> is_blank c"
    "\<not> strcaseeq ''POST'' ''GET''" "\<not> strcaseeq ''POST'' ''POSE''" by code_simp+
  ultimately show ?thesis using parse_request_line_rejects by blast
qed

subsection \<open>From the URL to the file\<close>

lemma poke_root:
  "length root < n \<Longrightarrow> poke 0 (root @ [NUL]) (replicate n NUL) = Some (root @ replicate (n - length root) NUL)"
  by (simp add: poke_def replicate_append_same flip: replicate_Suc)

lemma poke_path:
  "length root + length t + k \<le> n \<Longrightarrow>
     poke (length root) (t @ replicate k NUL) (root @ replicate (n - length root) NUL)
       = Some (root @ t @ replicate (n - length root - length t) NUL)"
  by (simp add: poke_def replicate_add [symmetric])

lemma strncpy_text_short:
  "length s \<le> n \<Longrightarrow> strncpy_text s n = s @ replicate (n - length s) NUL"
  by (simp add: strncpy_text_def)

lemma last_pos_split: "c \<notin> set f \<Longrightarrow> last_pos c (d @ c # f) = Some (length d)"
  by (simp add: last_pos_def takeWhile_append2 [of "rev f"])

text \<open>The path that a URL with the directory \<open>d\<close> and the name \<open>f\<close> stands for.\<close>

definition route :: "string \<Rightarrow> string \<Rightarrow> string" where
  "route d f = (case page_for (hd (f @ [NUL])) of Some page \<Rightarrow> page | None \<Rightarrow> d @ CHR ''/'' # f)"

definition file_code :: "fstat option \<Rightarrow> http_code" where
  "file_code st = (case st of None \<Rightarrow> NO_RESOURCE
     | Some s \<Rightarrow> if \<not> s_iroth s then FORBIDDEN_REQUEST else if s_isdir s then BAD_REQUEST else FILE_REQUEST)"

text \<open>What parsing a request and finding its file leaves alone; the size of the file is noted when
  there is one.\<close>

definition keeps :: "http \<Rightarrow> http \<Rightarrow> bool" where
  "keeps h h' \<longleftrightarrow> m_write_buf h' = m_write_buf h \<and> m_write_idx h' = m_write_idx h \<and> m_linger h' = m_linger h
     \<and> m_sockfd h' = m_sockfd h \<and> m_events h' = m_events h \<and> m_bytes_have_send h' = m_bytes_have_send h
     \<and> m_trig_mode h' = m_trig_mode h"

lemma keeps_trans: "keeps h g \<Longrightarrow> keeps g k \<Longrightarrow> keeps h k"
  by (simp add: keeps_def)

lemma open_file_code:
  assumes "str_at (m_real_file h) 0 = Some f"
  shows "\<exists>h'. open_file env h = Some (file_code (file_stat env f), h') \<and> keeps h h'
     \<and> (\<forall>st. file_stat env f = Some st \<longrightarrow> m_st_size h' = st_size st)"
  using assms by (auto simp: open_file_def file_code_def keeps_def Let_def split: option.splits)

lemma page_for_page: "page_for c = Some pg \<Longrightarrow> NUL \<notin> set pg \<and> length pg \<le> 14"
  by (auto simp: page_for_def NUL_def split: if_splits)

lemma do_request_static:
  assumes "m_cgi h \<noteq> 1" "m_url h = Some u" "str_at (m_read_buf h) u = Some (d @ CHR ''/'' # f)"
    "CHR ''/'' \<notin> set f" "m_real_file h = replicate FILENAME_LEN NUL" "NUL \<notin> set (doc_root env)"
    "length (doc_root env) + length (d @ CHR ''/'' # f) < FILENAME_LEN" "length (doc_root env) < 185"
  defines "st \<equiv> file_stat env (doc_root env @ route d f)"
  shows "\<exists>h'. do_request env h = Some (file_code st, h') \<and> keeps h h' \<and> (\<forall>s. st = Some s \<longrightarrow> m_st_size h' = st_size s)"
proof -
  let ?root = "doc_root env" and ?url = "d @ CHR ''/'' # f"
  define rf where "rf = ?root @ replicate (FILENAME_LEN - length ?root) NUL"
  define t where "t = route d f"
  define k where "k = (if page_for (hd (f @ [NUL])) = None then FILENAME_LEN - length ?root - 1 - length ?url else 0)"
  have c: "m_read_buf h ! (u + length d + 1) = hd (f @ [NUL])"
    using str_at_nth [OF assms(3), of "length d + 1"] by (cases f) (auto simp: nth_append)
  have poke0: "poke 0 (?root @ [NUL]) (m_real_file h) = Some rf"
    using poke_root [of ?root FILENAME_LEN] assms(5,8) by (simp add: rf_def)
  have t: "NUL \<notin> set t" "length ?root + length t + k \<le> FILENAME_LEN" "length ?root + length t < FILENAME_LEN"
    using assms(3,7,8) page_for_page [of "hd (f @ [NUL])"]
    by (auto simp: t_def route_def k_def str_at_Some split: option.splits)
  have path: "real_path env (hd (f @ [NUL])) u (h\<lparr>m_real_file := rf\<rparr>) =
      Some (h\<lparr>m_real_file := ?root @ t @ replicate (FILENAME_LEN - length ?root - length t) NUL\<rparr>)"
    using poke_path [of ?root t k FILENAME_LEN] t(2) assms(3,7) strncpy_text_short [of ?url "FILENAME_LEN - length ?root - 1"]
    by (auto simp: real_path_def t_def route_def k_def rf_def Let_def split: option.splits)
  have "str_at (?root @ t @ replicate (FILENAME_LEN - length ?root - length t) NUL) 0 = Some (?root @ t)"
    using t assms(6) by (auto simp: str_at_Some intro!: exI [of _ "replicate (FILENAME_LEN - length ?root - length t - 1) NUL"]
        simp flip: replicate_Suc)
  then have "\<exists>h'. do_request env h = Some (file_code st, h')
      \<and> keeps (h\<lparr>m_real_file := ?root @ t @ replicate (FILENAME_LEN - length ?root - length t) NUL\<rparr>) h'
      \<and> (\<forall>s. st = Some s \<longrightarrow> m_st_size h' = st_size s)"
    using assms(1-3) poke0 c path last_pos_split [OF assms(4)] open_file_code [of _ "?root @ t" env] unfolding t_def st_def
    by (simp add: do_request_def Let_def)
  then show ?thesis by (simp add: keeps_def)
qed

subsection \<open>Registration and login\<close>

lemma form_fields_body:
  assumes "str_at buf i = Some (''user='' @ n @ ''&password='' @ p)" "CHR ''&'' \<notin> set n"
    "length n \<le> 99" "length p \<le> 99"
  shows "form_fields buf i = Some (n, p)"
proof -
  have "str_at buf (i + 5) = Some (n @ ''&password='' @ p)"
    using str_at_suffix [of buf i "''user=''" "n @ ''&password='' @ p"] assms(1) by (simp add: eval_nat_numeral)
  then obtain r where r: "drop (i + 5) buf = n @ ''&password='' @ p @ NUL # r" "NUL \<notin> set n"
    by (auto simp: str_at_Some)
  have "str_at buf (i + 5 + length n + 10) = Some p"
    using str_at_suffix [of buf i "''user='' @ n @ ''&password=''" p] assms(1) by (simp add: eval_nat_numeral)
  moreover have "takeWhile (\<lambda>c. c \<noteq> CHR ''&'') (drop (i + 5) buf) = n"
    using r assms(2) takeWhile_until [of "CHR ''&''" n] by simp
  moreover have "takeWhile (\<lambda>c. c \<noteq> NUL) n = n" using r(2) by (auto simp: takeWhile_eq_all_conv)
  ultimately show ?thesis using assms(3,4) r(1) by (simp add: form_fields_def Let_def ac_simps)
qed

lemma set_url_ok:
  "u + length s < length (m_read_buf h) \<Longrightarrow> NUL \<notin> set s \<Longrightarrow>
     \<exists>h'. set_url u s h = Some h' \<and> str_at (m_read_buf h') u = Some s
        \<and> length (m_read_buf h') = length (m_read_buf h) \<and> users_map h' = users_map h"
  using put_str_ok [of u s "m_read_buf h"] put_str_Some [of u s "m_read_buf h"]
  by (auto simp: set_url_def)

lemma cgi_login:
  assumes "u + 19 < length (m_read_buf h)"
  shows "\<exists>h'. cgi_check env CHR ''2'' u n p h = Some h'
     \<and> str_at (m_read_buf h') u = Some (if users_map h n = Some p then ''/welcome.html'' else ''/logError.html'')"
  using assms set_url_ok [of u "''/welcome.html''" h] set_url_ok [of u "''/logError.html''" h]
  by (auto simp: cgi_check_def NUL_def)

lemma cgi_register:
  assumes "u + 19 < length (m_read_buf h)" "users_map h n = None" "length n + length p \<le> 148"
  shows "\<exists>h'. cgi_check env CHR ''3'' u n p h = Some h' \<and> users_map h' = (users_map h)(n \<mapsto> p)
     \<and> length (m_read_buf h') = length (m_read_buf h)
     \<and> str_at (m_read_buf h') u = Some (if mysql_query env (m_mysql h) (sql_insert n p) = 0
         then ''/log.html'' else ''/registerError.html'')"
  using assms set_url_ok [of u "''/log.html''" "h\<lparr>users_map := (users_map h)(n \<mapsto> p)\<rparr>"]
    set_url_ok [of u "''/registerError.html''" "h\<lparr>users_map := (users_map h)(n \<mapsto> p)\<rparr>"]
  by (auto simp: cgi_check_def NUL_def sql_insert_def Let_def)


text \<open>A server with one file, without a working database, for the examples.\<close>

definition one_file :: http_env where
  "one_file = \<lparr>doc_root = ''/www'', file_stat = (\<lambda>f. if f = ''/www/a'' then Some (Fstat True False 5) else None),
     file_map = (\<lambda>f. if f = ''/www/a'' then Some ''hello'' else None), mysql_query = (\<lambda>_ _. 1)\<rparr>"


subsection \<open>The main state machine\<close>

lemmas process_read_loop_unfold = process_read_loop.simps [of env LINE_OK for env]

text \<open>A complete line is never parsed.  The comparison in the loop condition is inverted, so when
  the first line of a new connection has arrived with its end, whatever it is and whatever follows
  it, \<^verbatim>\<open>process_read\<close> leaves the loop and reaches the end of the function without a result, which is
  undefined.\<close>

theorem process_read_complete_line:
  assumes "CR \<notin> set l" "LF \<notin> set l" "length l + 2 + length r \<le> READ_BUFFER_SIZE"
  shows "process_read env (store_read (l @ [CR, LF] @ r) (http_init fd t h)) = Some Undefined"
proof -
  let ?h = "store_read (l @ [CR, LF] @ r) (http_init fd t h)"
  have "fst (parse_line ?h) = LINE_OK"
    using parse_line_complete [of "http_init fd t h" l r] assms by (simp add: http_simps)
  moreover have "m_check_state ?h = CHECK_STATE_REQUESTLINE"
    by (simp add: store_read_def http_simps)
  ultimately have "loop_cond LINE_OK ?h = (False, snd (parse_line ?h))"
    by (cases "parse_line ?h") (simp add: loop_cond_def)
  then show ?thesis
    by (simp add: process_read_def process_read_loop_unfold read_round_def)
qed

theorem process_read_complete_line_witness:
  "process_read one_file (store_read (''GET /a HTTP/1.1'' @ [CR, LF] @ []) (http_init 5 1 zero_conn)) = Some Undefined"
  by (rule process_read_complete_line) simp_all

lemma nth_update_same_value: "k < length xs \<Longrightarrow> xs ! k = c \<Longrightarrow> xs[i := c] ! k = c"
  by (cases "i = k") auto

lemma parse_line_no_end:
  assumes "m_read_idx h = int (m_checked_idx h)" "m_checked_idx h + length l \<le> length (m_read_buf h)"
    "CR \<notin> set l" "LF \<notin> set l"
  shows "parse_line (store_read l h) = (LINE_OPEN, (store_read l h)\<lparr>m_checked_idx := m_checked_idx h + length l\<rparr>)"
proof -
  have "parse_line (store_read l h) = parse_line ((store_read l h)\<lparr>m_checked_idx := m_checked_idx h + length l\<rparr>)"
    using parse_line_skip [of "store_read l h" l] store_read_holds [of h l] assms by (simp add: http_simps)
  also have "\<dots> = (LINE_OPEN, (store_read l h)\<lparr>m_checked_idx := m_checked_idx h + length l\<rparr>)"
    using assms(1) by (subst parse_line.simps) (simp add: http_simps)
  finally show ?thesis .
qed

lemma parse_line_end: "m_read_idx h = int (m_checked_idx h) \<Longrightarrow> parse_line h = (LINE_OPEN, h)"
  by (subst parse_line.simps) simp

text \<open>The step of the loop on an unfinished request line, and on the empty rest that it takes for the end
  of the headers.\<close>

lemma process_read_request_step:
  assumes "loop_cond LINE_OK h = (True, h1)" "m_check_state h1 = CHECK_STATE_REQUESTLINE"
    "parse_request_line (m_start_line h1) (h1\<lparr>m_start_line := m_checked_idx h1\<rparr>) = Some (NO_REQUEST, h2)"
  shows "process_read_loop env LINE_OK h = process_read_loop env LINE_OK h2"
  using assms by (subst process_read_loop.simps) (simp add: read_round_def)

lemma process_read_header_end:
  assumes "m_check_state h = CHECK_STATE_HEADER" "m_read_idx h = int (m_checked_idx h)"
    "m_content_length h = 0" "str_at (m_read_buf h) (m_start_line h) = Some []"
  shows "process_read_loop env LINE_OK h =
     Some (undef_none (do_request env (h\<lparr>m_start_line := m_checked_idx h\<rparr>)))"
proof -
  have "loop_cond LINE_OK h = (True, h)"
    using assms(1,2) by (simp add: loop_cond_def parse_line_end)
  then show ?thesis
    using assms by (subst process_read_loop.simps) (simp add: read_round_def parse_headers_def)
qed

lemma process_read_open_line:
  assumes line: "get_line m b1 url b2 v" "l = m @ b1 @ url @ b2 @ v" "length l < READ_BUFFER_SIZE"
    and chars: "CR \<notin> set l" "LF \<notin> set l" "NUL \<notin> set l"
    and url: "url = d @ CHR ''/'' # f" "CHR ''/'' \<notin> set f" "1 < length url"
    and root: "NUL \<notin> set (doc_root env)" "length (doc_root env) + length url < FILENAME_LEN"
      "length (doc_root env) < 185"
  defines "st \<equiv> file_stat env (doc_root env @ route d f)"
  shows "\<exists>h'. process_read env (store_read l (http_init fd t h)) = Some (Done (file_code st, h'))
     \<and> keeps (http_init fd t h) h' \<and> (\<forall>s. st = Some s \<longrightarrow> m_st_size h' = st_size s)"
proof -
  let ?g = "http_init fd t h" and ?n = "length l" and ?u = "length m + length b1"
  define h0 where "h0 = store_read l ?g"
  define h1 where "h1 = h0\<lparr>m_checked_idx := ?n, m_start_line := ?n\<rparr>"
  define h2 where "h2 = (cut_line 0 m b1 url b2 h1)\<lparr>m_url := Some ?u, m_check_state := CHECK_STATE_HEADER\<rparr>"
  have buf0: "m_read_buf h0 = l @ replicate (READ_BUFFER_SIZE - ?n) NUL"
    using line(3) by (simp add: h0_def store_read_def http_simps)
  have fields: "m_check_state h0 = CHECK_STATE_REQUESTLINE" "m_start_line h0 = 0" "m_content_length h0 = 0"
    "m_cgi h0 = 0" "m_real_file h0 = replicate FILENAME_LEN NUL" "m_read_idx h0 = int ?n"
    by (simp_all add: h0_def store_read_def http_simps)
  have "parse_line h0 = (LINE_OPEN, h0\<lparr>m_checked_idx := ?n\<rparr>)"
    using parse_line_no_end [of ?g l] line(3) chars by (simp add: h0_def http_simps)
  then have cond: "loop_cond LINE_OK h0 = (True, h0\<lparr>m_checked_idx := ?n\<rparr>)"
    using fields by (simp add: loop_cond_def)
  have "replicate (READ_BUFFER_SIZE - ?n) NUL = NUL # replicate (READ_BUFFER_SIZE - ?n - 1) NUL"
    using line(3) by (simp flip: replicate_Suc)
  then have l0: "str_at (m_read_buf h1) 0 = Some (m @ b1 @ url @ b2 @ v)"
    using buf0 chars(3) line(2) by (auto simp: h1_def str_at_Some)
  have "parse_request_line 0 h1 = Some (NO_REQUEST, h2)"
    using parse_request_line_get [OF line(1) l0] line(1) url(3)
    by (simp add: url_end_def get_line_def h2_def)
  then have "process_read_loop env LINE_OK h0 = process_read_loop env LINE_OK h2"
    using process_read_request_step [OF cond] fields by (simp add: h1_def)
  also have "\<dots> = Some (undef_none (do_request env (h2\<lparr>m_start_line := m_checked_idx h2\<rparr>)))"
  proof (rule process_read_header_end)
    have "m_read_buf h2 ! ?n = NUL"
      using buf0 line(3)
      by (simp add: h2_def h1_def cut_line_def set_char_def Let_def nth_update_same_value nth_append)
    moreover have "?n < length (m_read_buf h2)" using buf0 line(3) by (simp add: h2_def h1_def http_simps)
    ultimately show "str_at (m_read_buf h2) (m_start_line h2) = Some []"
      by (simp add: str_at_Some Cons_nth_drop_Suc [symmetric] h2_def h1_def http_simps)
  qed (simp_all add: h2_def h1_def fields http_simps)
  finally have loop: "process_read_loop env LINE_OK h0 =
      Some (undef_none (do_request env (h2\<lparr>m_start_line := m_checked_idx h2\<rparr>)))" .
  let ?h3 = "h2\<lparr>m_start_line := m_checked_idx h2\<rparr>"
  have "\<exists>h'. do_request env ?h3 = Some (file_code st, h') \<and> keeps ?h3 h'
      \<and> (\<forall>s. st = Some s \<longrightarrow> m_st_size h' = st_size s)"
    unfolding st_def
    by (rule do_request_static [of _ ?u])
      (use root url cut_line_url [OF line(1) l0] in \<open>simp_all add: h2_def h1_def fields http_simps\<close>)
  moreover have "keeps ?g ?h3"
    by (simp add: keeps_def h2_def h1_def h0_def cut_line_def set_char_def store_read_def Let_def)
  ultimately show ?thesis using loop by (auto simp: process_read_def h0_def undef_none_def intro: keeps_trans)
qed

text \<open>What is served.  A request line \<^verbatim>\<open>GET path HTTP/1.1\<close> that has arrived without its end, on a
  new connection, is answered at once: the result is that of the file which the document root and
  the route of the path name.  A path whose last component starts with 0, 1, 5, 6 or 7 is the page of
  that digit.\<close>

theorem process_read_serves:
  assumes "get_line m b1 url b2 v" "l = m @ b1 @ url @ b2 @ v" "length l < READ_BUFFER_SIZE"
    "CR \<notin> set l" "LF \<notin> set l" "NUL \<notin> set l"
    "url = d @ CHR ''/'' # f" "CHR ''/'' \<notin> set f" "1 < length url"
    "NUL \<notin> set (doc_root env)" "length (doc_root env) + length url < FILENAME_LEN" "length (doc_root env) < 185"
  shows "\<exists>h'. process_read env (store_read l (http_init fd t h)) =
     Some (Done (file_code (file_stat env (doc_root env @ route d f)), h'))"
  using process_read_open_line [OF assms, of fd t h] by blast

theorem process_read_serves_witness:
  "\<exists>h'. process_read one_file (store_read ''GET /a HTTP/1.1'' (http_init 5 1 zero_conn)) = Some (Done (FILE_REQUEST, h'))"
proof -
  have line: "get_line ''GET'' '' '' ''/a'' '' '' ''HTTP/1.1''" by code_simp
  have "file_code (file_stat one_file (doc_root one_file @ route [] ''a'')) = FILE_REQUEST" by code_simp
  then show ?thesis
    using process_read_serves [OF line, of "''GET /a HTTP/1.1''" "[]" "''a''" one_file 5 1 zero_conn]
    by (simp add: NUL_def one_file_def)
qed

subsection \<open>A request that keeps a worker busy for ever\<close>

text \<open>Once the machine waits for headers with a header it does not know before it and no more data, every
  round of the loop sees the same header again.\<close>

definition stuck :: "http \<Rightarrow> bool" where
  "stuck h \<longleftrightarrow> m_check_state h = CHECK_STATE_HEADER \<and> m_read_idx h = int (m_checked_idx h)
     \<and> m_start_line h = m_checked_idx h \<and> parse_headers (m_checked_idx h) h = Some (NO_REQUEST, h)"

lemma stuck_step: "stuck h \<Longrightarrow> read_round env LINE_OK h = Again_with LINE_OK h"
proof -
  assume st: "stuck h"
  then have same: "h\<lparr>m_start_line := m_checked_idx h\<rparr> = h" by (simp add: stuck_def)
  from st show ?thesis by (simp add: stuck_def read_round_def loop_cond_def parse_line_end Let_def same)
qed

lemma stuck_loops_aux:
  assumes "process_read_loop env ls h = Some r"
  shows "stuck h \<longrightarrow> ls \<noteq> LINE_OK"
  by (rule process_read_loop.raw_induct [OF _ assms, where P = "\<lambda>_ ls h _. stuck h \<longrightarrow> ls \<noteq> LINE_OK"])
    (auto simp: stuck_step, blast)

lemma stuck_loops: "stuck h \<Longrightarrow> process_read_loop env LINE_OK h = None"
  using stuck_loops_aux by (cases "process_read_loop env LINE_OK h") auto

text \<open>The request line \<^verbatim>\<open>GET / HTTP/1.1\<close> without its end does this: the text \<^verbatim>\<open>judge.html\<close>, copied behind the
  path, reaches just beyond the line, and its last letter is taken for a header again and again.\<close>

lemma process_read_root_hangs:
  "process_read env (store_read ''GET / HTTP/1.1'' (http_init fd t h)) = None"
proof -
  let ?l = "''GET / HTTP/1.1''"
  define h0 where "h0 = store_read ?l (http_init fd t h)"
  define h1 where "h1 = h0\<lparr>m_checked_idx := 14, m_start_line := 14\<rparr>"
  define buf where "buf = ''GET'' @ [NUL] @ ''/judge.html'' @ replicate 2033 NUL"
  define h2 where "h2 = (cut_line 0 ''GET'' '' '' ''/'' '' '' h1)\<lparr>m_url := Some 4, m_read_buf := buf,
     m_check_state := CHECK_STATE_HEADER\<rparr>"
  have buf0: "m_read_buf h0 = ?l @ replicate 2034 NUL"
    by (simp add: h0_def store_read_def http_simps)
  have fields: "m_check_state h0 = CHECK_STATE_REQUESTLINE" "m_start_line h0 = 0" "m_read_idx h0 = 14"
    by (simp_all add: h0_def store_read_def http_simps)
  have "parse_line h0 = (LINE_OPEN, h0\<lparr>m_checked_idx := 14\<rparr>)"
    using parse_line_no_end [of "http_init fd t h" ?l] by (simp add: h0_def http_simps)
  then have cond: "loop_cond LINE_OK h0 = (True, h0\<lparr>m_checked_idx := 14\<rparr>)"
    using fields by (simp add: loop_cond_def)
  have line: "get_line ''GET'' '' '' ''/'' '' '' ''HTTP/1.1''" by code_simp
  have "parse_request_line 0 h1 = Some (NO_REQUEST, h2)"
  proof -
    have "str_at (m_read_buf h1) 0 = Some (''GET'' @ '' '' @ ''/'' @ '' '' @ ''HTTP/1.1'')"
      using buf0 by (simp add: h1_def str_at_def NUL_def)
    from parse_request_line_get [OF line this] show ?thesis
      using buf0 by (simp add: url_end_def put_str_def h2_def h1_def buf_def cut_line_def set_char_def Let_def
        numeral_eq_Suc)
  qed
  then have "process_read_loop env LINE_OK h0 = process_read_loop env LINE_OK h2"
    using process_read_request_step [OF cond] fields by (simp add: h1_def)
  moreover have "stuck h2"
  proof -
    have "str_at buf 14 = Some ''l''" by (simp add: str_at_def buf_def NUL_def)
    moreover have "\<not> strncaseeq ''l'' ''Connection'' 11" "\<not> strncaseeq ''l'' ''Content-length:'' 15"
      "\<not> strncaseeq ''l'' ''Host:'' 5" by code_simp+
    ultimately show ?thesis
      using fields by (simp add: stuck_def h2_def h1_def parse_headers_def http_simps)
  qed
  ultimately show ?thesis using stuck_loops by (simp add: process_read_def h0_def)
qed

end
