(* ===== verification/Web_Response.thy ===== *)
theory Web_Response
  imports Web_Request
begin

text \<open>
  \<^verbatim>\<open>TinyWebServer/http/http_conn.cpp\<close>: building and sending a response.  \<open>add_response\<close> appends text to
  the write buffer of 1024 characters, \<open>process_write\<close> composes a response for each result of
  \<open>process_read\<close>, \<open>http_write\<close> sends it with \<^verbatim>\<open>writev\<close>, and \<open>process\<close> is the task a worker thread runs.
\<close>

subsection \<open>Appending to the write buffer\<close>

text \<open>\<^verbatim>\<open>vsnprintf\<close> with room for \<open>n\<close> characters stores at most \<open>n - 1\<close> of them and a terminator (nothing
  when \<open>n\<close> is 0) and returns the length of the whole text.  \<open>n\<close> is a \<^verbatim>\<open>size_t\<close>, so the room
  \<^verbatim>\<open>WRITE_BUFFER_SIZE - m_write_idx - 1\<close> of a full buffer is never negative here: \<open>m_write_idx\<close> is below
  the size.\<close>

definition vsnprintf_at :: "nat \<Rightarrow> nat \<Rightarrow> string \<Rightarrow> string \<Rightarrow> string" where
  "vsnprintf_at i n s buf =
     (if n = 0 then buf
      else let t = take (n - 1) s @ [NUL] in take i buf @ t @ drop (i + length t) buf)"

definition add_response :: "string \<Rightarrow> http \<Rightarrow> bool \<times> http" where
  "add_response s h =
     (if m_write_idx h \<ge> WRITE_BUFFER_SIZE then (False, h)
      else
        let room = WRITE_BUFFER_SIZE - m_write_idx h - 1;
            h1 = h\<lparr>m_write_buf := vsnprintf_at (m_write_idx h) room s (m_write_buf h)\<rparr> in
        if length s \<ge> room then (False, h1)
        else (True, h1\<lparr>m_write_idx := m_write_idx h + length s\<rparr>))"

definition crlf :: string where "crlf = [CR, LF]"

text \<open>Conversion of a \<^verbatim>\<open>long\<close> to \<^verbatim>\<open>int\<close>.\<close>

definition to_int32 :: "int \<Rightarrow> int" where
  "to_int32 x = (x + 2 ^ 31) mod 2 ^ 32 - 2 ^ 31"

definition add_status_line :: "int \<Rightarrow> string \<Rightarrow> http \<Rightarrow> bool \<times> http" where
  "add_status_line status title h =
     add_response (''HTTP/1.1'' @ '' '' @ int_text status @ '' '' @ title @ crlf) h"

definition add_content_length :: "int \<Rightarrow> http \<Rightarrow> bool \<times> http" where
  "add_content_length content_len h = add_response (''Content-Length:'' @ int_text content_len @ crlf) h"

definition add_linger :: "http \<Rightarrow> bool \<times> http" where
  "add_linger h = add_response (''Connection:'' @ (if m_linger h then ''keep-alive'' else ''close'') @ crlf) h"

definition add_blank_line :: "http \<Rightarrow> bool \<times> http" where
  "add_blank_line h = add_response crlf h"

definition add_content_type :: "http \<Rightarrow> bool \<times> http" where
  "add_content_type h = add_response (''Content-Type:'' @ ''text/html'' @ crlf) h"

definition add_content :: "string \<Rightarrow> http \<Rightarrow> bool \<times> http" where
  "add_content content h = add_response content h"

text \<open>\<^verbatim>\<open>&&\<close> on operations that may fail.\<close>

definition and_then :: "(http \<Rightarrow> bool \<times> http) \<Rightarrow> (http \<Rightarrow> bool \<times> http) \<Rightarrow> http \<Rightarrow> bool \<times> http" where
  "and_then f g h = (case f h of (b, h1) \<Rightarrow> if b then g h1 else (False, h1))"

definition add_headers :: "int \<Rightarrow> http \<Rightarrow> bool \<times> http" where
  "add_headers content_len = and_then (and_then (add_content_length content_len) add_linger) add_blank_line"

subsection \<open>Composing the response\<close>

definition error_403_form :: string where
  "error_403_form = ''You do not have permission to get file form this server.'' @ [LF]"

definition error_404_form :: string where
  "error_404_form = ''The requested file was not found on this server.'' @ [LF]"

definition error_500_form :: string where
  "error_500_form = ''There was an unusual problem serving the request file.'' @ [LF]"

definition ok_string :: string where
  "ok_string = ''<html><body></body></html>''"

text \<open>Status line, headers and body of a page; the results of the first two are ignored.\<close>

definition add_page :: "int \<Rightarrow> string \<Rightarrow> string \<Rightarrow> http \<Rightarrow> bool \<times> http" where
  "add_page status title form h =
     (let h1 = snd (add_status_line status title h); h2 = snd (add_headers (int (length form)) h1) in
      add_content form h2)"

definition page_iovec :: "bool \<times> http \<Rightarrow> bool \<times> http" where
  "page_iovec r = (case r of (b, h) \<Rightarrow>
     if b then (True, h\<lparr>m_iov0 := (0, int (m_write_idx h)), m_iovec_count := 1,
                       m_bytes_to_send := int (m_write_idx h)\<rparr>)
     else (False, h))"

text \<open>A file of size 0 gets a page of its own, but the case then runs into \<^verbatim>\<open>default\<close> and fails.\<close>

definition process_write :: "http_code \<Rightarrow> http \<Rightarrow> bool \<times> http" where
  "process_write code h =
     (case code of
        INTERNAL_ERROR \<Rightarrow> page_iovec (add_page 500 ''Internal Error'' error_500_form h)
      | BAD_REQUEST \<Rightarrow> page_iovec (add_page 404 ''Not Found'' error_404_form h)
      | FORBIDDEN_REQUEST \<Rightarrow> page_iovec (add_page 403 ''Forbidden'' error_403_form h)
      | FILE_REQUEST \<Rightarrow>
          (let h1 = snd (add_status_line 200 ''OK'' h) in
           if m_st_size h \<noteq> 0 then
             (let h2 = snd (add_headers (to_int32 (m_st_size h)) h1) in
              (True, h2\<lparr>m_iov0 := (0, int (m_write_idx h2)), m_iov1 := (0, m_st_size h2),
                       m_bytes_to_send := to_int32 (int (m_write_idx h2) + m_st_size h2)\<rparr>))
           else
             (let h2 = snd (add_headers (int (length ok_string)) h1) in
              (False, snd (add_content ok_string h2))))
      | _ \<Rightarrow> (False, h))"

subsection \<open>Sending\<close>

definition unmap :: "http \<Rightarrow> http" where
  "unmap h = h\<lparr>m_file_address := Unmapped\<rparr>"

datatype writev_reply = Wrote nat | W_again | W_failed

text \<open>After \<open>n\<close> bytes went out.  The lengths are \<^verbatim>\<open>size_t\<close>, and so is the comparison with the signed
  \<^verbatim>\<open>m_bytes_to_send\<close>.\<close>

definition write_advance :: "nat \<Rightarrow> http \<Rightarrow> http" where
  "write_advance n h0 =
     (let h = h0\<lparr>m_bytes_have_send := m_bytes_have_send h0 + int n, m_bytes_to_send := m_bytes_to_send h0 - int n,
          m_events := m_events h0 @ [Writev (m_iovec_count h0) (m_iov0 h0) (m_iov1 h0) (int n)]\<rparr> in
      if m_bytes_to_send h mod 2 ^ 64 \<ge> snd (m_iov0 h)
      then h\<lparr>m_iov0 := (fst (m_iov0 h), 0),
             m_iov1 := (m_bytes_have_send h - int (m_write_idx h), m_bytes_have_send h mod 2 ^ 64)\<rparr>
      else h\<lparr>m_iov0 := (m_bytes_have_send h, (snd (m_iov0 h) - m_bytes_have_send h) mod 2 ^ 64)\<rparr>)"

text \<open>The loop of \<^verbatim>\<open>write\<close> on the replies of \<^verbatim>\<open>writev\<close>; \<open>None\<close> when the replies run out before it ends.\<close>

fun write_loop :: "writev_reply list \<Rightarrow> http \<Rightarrow> (bool \<times> http) option" where
  "write_loop [] h = None"
| "write_loop (W_again # rs) h = Some (True, modfd True h)"
| "write_loop (W_failed # rs) h = Some (False, unmap h)"
| "write_loop (Wrote n # rs) h =
     (let h1 = write_advance n h in
      if m_bytes_to_send h1 \<le> 0 then
        (let h2 = modfd False (unmap h1) in
         if m_linger h2 then Some (True, http_reset h2) else Some (False, h2))
      else write_loop rs h1)"

definition http_write :: "writev_reply list \<Rightarrow> http \<Rightarrow> (bool \<times> http) option" where
  "http_write rs h =
     (if m_bytes_to_send h = 0 then Some (True, http_reset (modfd False h)) else write_loop rs h)"

subsection \<open>The task of a worker thread\<close>

definition process :: "http_env \<Rightarrow> http \<Rightarrow> http run option" where
  "process env h =
     (case process_read env h of
        None \<Rightarrow> None
      | Some Undefined \<Rightarrow> Some Undefined
      | Some (Done (code, h1)) \<Rightarrow>
          if code = NO_REQUEST then Some (Done (modfd False h1))
          else (case process_write code h1 of (ok, h2) \<Rightarrow>
                  Some (Done (modfd True (if ok then h2 else close_conn True h2)))))"


subsection \<open>The write buffer holds the response\<close>

text \<open>The response so far.\<close>

definition resp :: "http \<Rightarrow> string" where
  "resp h = take (m_write_idx h) (m_write_buf h)"

definition write_ok :: "http \<Rightarrow> bool" where
  "write_ok h \<longleftrightarrow> length (m_write_buf h) = WRITE_BUFFER_SIZE \<and> m_write_idx h < WRITE_BUFFER_SIZE - 1"

text \<open>What an append leaves alone.\<close>

definition same_but_write :: "http \<Rightarrow> http \<Rightarrow> bool" where
  "same_but_write h h' \<longleftrightarrow> (\<exists>b i. h' = h\<lparr>m_write_buf := b, m_write_idx := i\<rparr>)"

lemma same_but_write_upd [simp]:
  "same_but_write h (h\<lparr>m_write_buf := b, m_write_idx := i\<rparr>)"
  "same_but_write h (h\<lparr>m_write_buf := b\<rparr>)"
proof -
  have "h\<lparr>m_write_buf := b\<rparr> = h\<lparr>m_write_buf := b, m_write_idx := m_write_idx h\<rparr>" by simp
  then show "same_but_write h (h\<lparr>m_write_buf := b\<rparr>)" unfolding same_but_write_def by blast
qed (auto simp: same_but_write_def)

lemma same_but_write_trans: "same_but_write h g \<Longrightarrow> same_but_write g k \<Longrightarrow> same_but_write h k"
  by (auto simp: same_but_write_def) blast

lemma same_but_write_fields [http_simps]:
  "same_but_write h h' \<Longrightarrow> m_linger h' = m_linger h"
  "same_but_write h h' \<Longrightarrow> m_st_size h' = m_st_size h"
  "same_but_write h h' \<Longrightarrow> m_sockfd h' = m_sockfd h"
  "same_but_write h h' \<Longrightarrow> m_events h' = m_events h"
  "same_but_write h h' \<Longrightarrow> m_bytes_have_send h' = m_bytes_have_send h"
  "same_but_write h h' \<Longrightarrow> m_trig_mode h' = m_trig_mode h"
  by (auto simp: same_but_write_def)

text \<open>Whether or not the text fits, the buffer keeps its size and the index stays inside; a text that fits
  is appended, one that does not leaves the response as it was.\<close>

lemma add_response_spec:
  assumes "write_ok h"
  shows "\<exists>h'. add_response s h = (length (resp h @ s) < WRITE_BUFFER_SIZE - 1, h') \<and> write_ok h' \<and> same_but_write h h'
     \<and> resp h' = (if length (resp h @ s) < WRITE_BUFFER_SIZE - 1 then resp h @ s else resp h)"
proof -
  let ?i = "m_write_idx h" and ?b = "m_write_buf h"
  define room where "room = WRITE_BUFFER_SIZE - ?i - 1"
  define t where "t = take (room - 1) s @ [NUL]"
  have len: "length ?b = WRITE_BUFFER_SIZE" and i: "?i < WRITE_BUFFER_SIZE - 1"
    using assms by (simp_all add: write_ok_def)
  then have t: "length t \<le> room" "?i + room + 1 = WRITE_BUFFER_SIZE" "room \<noteq> 0" by (auto simp: room_def t_def)
  define b where "b = take ?i ?b @ t @ drop (?i + length t) ?b"
  have b: "vsnprintf_at ?i room s ?b = b" using t(3) by (simp add: vsnprintf_at_def b_def t_def)
  have lb: "length b = WRITE_BUFFER_SIZE" "take ?i b = take ?i ?b" using len t by (auto simp: b_def)
  have lr: "length (resp h) = ?i" using len i by (simp add: resp_def)
  show ?thesis
  proof (cases "length s < room")
    case True
    then have "take (?i + length s) b = take ?i ?b @ s" using len i by (simp add: b_def t_def)
    then show ?thesis using True b lb i lr t(2)
      by (auto simp: add_response_def room_def Let_def write_ok_def resp_def)
  next
    case False
    then show ?thesis using b lb i lr t(2)
      by (auto simp: add_response_def room_def Let_def write_ok_def resp_def)
  qed
qed

lemma add_response_fits:
  assumes "write_ok h" "length (resp h) + length s < WRITE_BUFFER_SIZE - 1"
  shows "\<exists>h'. add_response s h = (True, h') \<and> write_ok h' \<and> same_but_write h h' \<and> resp h' = resp h @ s"
  using add_response_spec [OF assms(1), of s] assms(2) by auto

definition headers_text :: "int \<Rightarrow> bool \<Rightarrow> string" where
  "headers_text n linger = ''Content-Length:'' @ int_text n @ crlf
     @ ''Connection:'' @ (if linger then ''keep-alive'' else ''close'') @ crlf @ crlf"

lemma add_headers_fits:
  assumes "write_ok h" "length (resp h) + length (headers_text n (m_linger h)) < WRITE_BUFFER_SIZE - 1"
  shows "\<exists>h'. add_headers n h = (True, h') \<and> write_ok h' \<and> same_but_write h h'
     \<and> resp h' = resp h @ headers_text n (m_linger h)"
proof -
  let ?a = "''Content-Length:'' @ int_text n @ crlf"
  let ?c = "''Connection:'' @ (if m_linger h then ''keep-alive'' else ''close'') @ crlf"
  have len: "length (resp h) + length ?a + length ?c + length crlf < WRITE_BUFFER_SIZE - 1"
    using assms(2) by (simp add: headers_text_def)
  from add_response_fits [OF assms(1), of ?a] len obtain h1 where
    h1: "add_content_length n h = (True, h1)" "write_ok h1" "same_but_write h h1" "resp h1 = resp h @ ?a"
    by (auto simp: add_content_length_def)
  from add_response_fits [OF h1(2), of ?c] h1 len obtain h2 where
    h2: "add_linger h1 = (True, h2)" "write_ok h2" "same_but_write h1 h2" "resp h2 = resp h1 @ ?c"
    by (auto simp: add_linger_def http_simps)
  from add_response_fits [OF h2(2), of crlf] h1 h2 len obtain h3 where
    h3: "add_blank_line h2 = (True, h3)" "write_ok h3" "same_but_write h2 h3" "resp h3 = resp h2 @ crlf"
    by (auto simp: add_blank_line_def)
  from h1 h2 h3 show ?thesis
    by (auto simp: add_headers_def and_then_def headers_text_def intro: same_but_write_trans)
qed

definition status_text :: "int \<Rightarrow> string \<Rightarrow> string" where
  "status_text status title = ''HTTP/1.1'' @ '' '' @ int_text status @ '' '' @ title @ crlf"

lemma add_status_headers_fits:
  assumes "write_ok h" "resp h = []"
    "length (status_text status title @ headers_text n (m_linger h)) < WRITE_BUFFER_SIZE - 1"
  shows "\<exists>h'. snd (add_headers n (snd (add_status_line status title h))) = h' \<and> write_ok h' \<and> same_but_write h h'
     \<and> resp h' = status_text status title @ headers_text n (m_linger h)"
proof -
  from add_response_fits [OF assms(1), of "status_text status title"] assms(2,3) obtain h1 where
    h1: "add_status_line status title h = (True, h1)" "write_ok h1" "same_but_write h h1"
      "resp h1 = status_text status title"
    by (auto simp: add_status_line_def status_text_def)
  from add_headers_fits [OF h1(2), of n] h1 assms(3) show ?thesis
    by (auto simp: http_simps intro: same_but_write_trans)
qed

definition page_text :: "int \<Rightarrow> string \<Rightarrow> string \<Rightarrow> bool \<Rightarrow> string" where
  "page_text status title form linger =
     status_text status title @ headers_text (int (length form)) linger @ form"

lemma add_page_fits:
  assumes "write_ok h" "resp h = []" "length (page_text status title form (m_linger h)) < WRITE_BUFFER_SIZE - 1"
  shows "\<exists>h'. add_page status title form h = (True, h') \<and> write_ok h' \<and> same_but_write h h'
     \<and> resp h' = page_text status title form (m_linger h)"
proof -
  from add_status_headers_fits [OF assms(1,2), of status title "int (length form)"] assms(3)
  obtain h1 where h1: "snd (add_headers (int (length form)) (snd (add_status_line status title h))) = h1"
    "write_ok h1" "same_but_write h h1"
    "resp h1 = status_text status title @ headers_text (int (length form)) (m_linger h)"
    by (auto simp: page_text_def)
  from add_response_fits [OF h1(2), of form] h1 assms(3) show ?thesis
    by (auto simp: add_page_def add_content_def page_text_def Let_def intro: same_but_write_trans)
qed

subsection \<open>Responses\<close>

text \<open>The pages for the results that have one.\<close>

definition page_of :: "http_code \<Rightarrow> (int \<times> string \<times> string) option" where
  "page_of code = (case code of
      INTERNAL_ERROR \<Rightarrow> Some (500, ''Internal Error'', error_500_form)
    | BAD_REQUEST \<Rightarrow> Some (404, ''Not Found'', error_404_form)
    | FORBIDDEN_REQUEST \<Rightarrow> Some (403, ''Forbidden'', error_403_form)
    | _ \<Rightarrow> None)"

lemma page_fits:
  "page_of code = Some (st, ti, fo) \<Longrightarrow> length (page_text st ti fo linger) < WRITE_BUFFER_SIZE - 1"
proof -
  have "length (page_text 500 ''Internal Error'' error_500_form linger) < 1023"
    "length (page_text 404 ''Not Found'' error_404_form linger) < 1023"
    "length (page_text 403 ''Forbidden'' error_403_form linger) < 1023"
    by (simp_all add: page_text_def status_text_def headers_text_def crlf_def int_text_def dec_text.simps
        error_500_form_def error_404_form_def error_403_form_def)
  then show "page_of code = Some (st, ti, fo) \<Longrightarrow> length (page_text st ti fo linger) < WRITE_BUFFER_SIZE - 1"
    by (auto simp: page_of_def split: http_code.splits)
qed

lemma process_write_page:
  assumes "write_ok h" "m_write_idx h = 0" "page_of code = Some (st, ti, fo)"
  defines "n \<equiv> int (length (page_text st ti fo (m_linger h)))"
  shows "\<exists>h'. process_write code h = (True, h') \<and> resp h' = page_text st ti fo (m_linger h)
    \<and> m_iov0 h' = (0, n) \<and> m_iovec_count h' = 1 \<and> m_bytes_to_send h' = n \<and> int (m_write_idx h') = n
    \<and> m_linger h' = m_linger h \<and> m_sockfd h' = m_sockfd h \<and> m_events h' = m_events h
    \<and> m_bytes_have_send h' = m_bytes_have_send h \<and> m_trig_mode h' = m_trig_mode h"
proof -
  have "resp h = []" using assms(2) by (simp add: resp_def)
  from add_page_fits [OF assms(1) this page_fits [OF assms(3)]] obtain h1 where
    h1: "add_page st ti fo h = (True, h1)" "write_ok h1" "same_but_write h h1"
      "resp h1 = page_text st ti fo (m_linger h)" by blast
  have n: "int (m_write_idx h1) = n"
    using h1(2,4) by (simp add: n_def resp_def write_ok_def flip: h1(4))
  have "process_write code h = page_iovec (add_page st ti fo h)"
    using assms(3) by (auto simp: page_of_def process_write_def split: http_code.splits)
  with h1 n show ?thesis by (simp add: page_iovec_def http_simps) (simp add: resp_def)
qed

text \<open>The bytes of the write buffer that a \<^verbatim>\<open>writev\<close> with one entry put on the connection.\<close>

fun sent_page :: "string \<Rightarrow> ep_event list \<Rightarrow> string" where
  "sent_page buf [] = []"
| "sent_page buf (Writev c i0 i1 n # evs) =
     take (nat (min n (snd i0))) (drop (nat (fst i0)) buf) @ sent_page buf evs"
| "sent_page buf (_ # evs) = sent_page buf evs"

text \<open>Claim C21: error pages.  For an internal error, a bad request (answered with 404) and a forbidden
  file the response on a new connection is exactly the status line, the length of the page, the
  connection header, a blank line and the page; and when the socket takes it in one or in two parts,
  \<^verbatim>\<open>write\<close> puts exactly these bytes on the connection and then waits for the next request or asks for
  the connection to be closed, as the headers say.\<close>

theorem error_page_sent:
  assumes "write_ok h" "m_write_idx h = 0" "m_bytes_have_send h = 0" "page_of code = Some (st, ti, fo)"
    "p = page_text st ti fo (m_linger h)" "0 < a" "a \<le> length p"
  shows "\<exists>h' h''. process_write code h = (True, h') \<and> resp h' = p
    \<and> http_write (if a = length p then [Wrote a] else [Wrote a, Wrote (length p - a)]) h' = Some (m_linger h, h'')
    \<and> (\<exists>evs. m_events h'' = m_events h @ evs @ [Ep_mod (m_sockfd h) False (m_trig_mode h = 1)] \<and> sent_page (m_write_buf h') evs = p)"
proof -
  let ?n = "int (length p)"
  from process_write_page [OF assms(1,2,4)] assms(5) obtain h' where
    w: "process_write code h = (True, h')" "resp h' = p" "m_iov0 h' = (0, ?n)" "m_iovec_count h' = 1"
      "m_bytes_to_send h' = ?n" "int (m_write_idx h') = ?n" "m_linger h' = m_linger h" "m_sockfd h' = m_sockfd h"
      "m_events h' = m_events h" "m_bytes_have_send h' = 0" "m_trig_mode h' = m_trig_mode h"
    using assms(3) by auto
  have p: "length p < WRITE_BUFFER_SIZE - 1" using page_fits [OF assms(4)] assms(5) by simp
  have "take (length p) (m_write_buf h') = p" using w(2,6) by (simp add: resp_def)
  then have cut: "take a (m_write_buf h') @ take (length p - a) (drop a (m_write_buf h')) = p"
    using assms(7) by (metis le_add_diff_inverse take_add)
  show ?thesis
  proof (cases "a = length p")
    case True
    then have "\<exists>h''. http_write [Wrote a] h' = Some (m_linger h, h'')
      \<and> m_events h'' = m_events h @ [Writev 1 (0, ?n) (m_iov1 h') (int a)] @ [Ep_mod (m_sockfd h) False (m_trig_mode h = 1)]"
      using w assms(6)
      by (auto simp: http_write_def write_advance_def Let_def modfd_def unmap_def http_reset_def)
    then show ?thesis using w True cut by fastforce
  next
    case False
    then have "\<exists>h''. http_write [Wrote a, Wrote (length p - a)] h' = Some (m_linger h, h'')
      \<and> m_events h'' = m_events h @ [Writev 1 (0, ?n) (m_iov1 h') (int a),
          Writev 1 (int a, ?n - int a) (m_iov1 h') (?n - int a)] @ [Ep_mod (m_sockfd h) False (m_trig_mode h = 1)]"
      using w assms(6,7) p
      by (auto simp: http_write_def write_advance_def Let_def modfd_def unmap_def http_reset_def)
    moreover have "nat (?n - int a) = length p - a" by (simp add: nat_diff_distrib)
    ultimately show ?thesis using w False cut assms(7) by fastforce
  qed
qed

lemma write_ok_init [simp]: "write_ok (http_init fd t h)"
  by (simp add: write_ok_def http_simps)

theorem error_page_sent_witness:
  "\<exists>p h' h''. p = page_text 403 ''Forbidden'' error_403_form False
    \<and> process_write FORBIDDEN_REQUEST (http_init 5 1 zero_conn) = (True, h')
    \<and> http_write [Wrote 10, Wrote (length p - 10)] h' = Some (False, h'')
    \<and> (\<exists>evs. m_events h'' = [Ep_add 5 False True] @ evs @ [Ep_mod 5 False True] \<and> sent_page (m_write_buf h') evs = p)"
proof -
  let ?h = "http_init 5 1 zero_conn" and ?p = "page_text 403 ''Forbidden'' error_403_form False"
  have "10 < length ?p"
    by (simp add: page_text_def status_text_def headers_text_def crlf_def int_text_def dec_text.simps error_403_form_def)
  moreover have "m_events ?h = [Ep_add 5 False True]" "m_bytes_have_send ?h = 0"
    by (simp_all add: http_init_def http_reset_def addfd_def zero_conn_def)
  ultimately show ?thesis
    using error_page_sent [of ?h FORBIDDEN_REQUEST 403 "''Forbidden''" error_403_form ?p 10]
    by (auto simp: http_simps page_of_def)
qed

lemma process_write_file:
  assumes "write_ok h" "m_write_idx h = 0" "m_st_size h \<noteq> 0" "p = status_text 200 ''OK'' @ headers_text (m_st_size h) (m_linger h)"
    "length p < WRITE_BUFFER_SIZE - 1" "- (2 ^ 31) \<le> m_st_size h" "m_st_size h < 2 ^ 31"
  shows "\<exists>h'. process_write FILE_REQUEST h = (True, h') \<and> resp h' = p \<and> m_iov0 h' = (0, int (length p))
    \<and> m_iov1 h' = (0, m_st_size h) \<and> m_bytes_to_send h' = to_int32 (int (length p) + m_st_size h)
    \<and> m_sockfd h' = m_sockfd h \<and> m_events h' = m_events h \<and> m_trig_mode h' = m_trig_mode h"
proof -
  have "resp h = []" using assms(2) by (simp add: resp_def)
  moreover have "to_int32 (m_st_size h) = m_st_size h" using assms(6,7) by (simp add: to_int32_def)
  ultimately obtain h2 where
    h2: "snd (add_headers (to_int32 (m_st_size h)) (snd (add_status_line 200 ''OK'' h))) = h2"
      "write_ok h2" "same_but_write h h2" "resp h2 = p"
    using add_status_headers_fits [OF assms(1), of 200 "''OK''" "m_st_size h"] assms(4,5) by auto
  have "m_write_idx h2 = length p" using h2(2,4) by (auto simp: resp_def write_ok_def)
  then show ?thesis using h2 assms(3)
    by (auto simp: process_write_def Let_def http_simps resp_def)
qed

subsection \<open>A request from arrival to response\<close>

text \<open>What the worker leaves behind for each result: a page, the header of a file with the file in the
  second entry, or, for a file that does not exist, nothing but a closed connection.\<close>

definition answered :: "fstat option \<Rightarrow> int \<Rightarrow> bool \<Rightarrow> ep_event list \<Rightarrow> http \<Rightarrow> bool" where
  "answered st fd et evs h \<longleftrightarrow>
     (case st of
        None \<Rightarrow> m_sockfd h = - 1 \<and> m_events h = evs @ [Ep_del fd, Sock_close fd, Ep_mod (- 1) True et]
      | Some s \<Rightarrow> m_events h = evs @ [Ep_mod fd True et] \<and>
          (if \<not> s_iroth s then resp h = page_text 403 ''Forbidden'' error_403_form False
           else if s_isdir s then resp h = page_text 404 ''Not Found'' error_404_form False
           else resp h = status_text 200 ''OK'' @ headers_text (st_size s) False
             \<and> m_iov0 h = (0, int (length (resp h))) \<and> m_iov1 h = (0, st_size s)
             \<and> m_bytes_to_send h = int (length (resp h)) + st_size s))"

lemma dec_text_length: "n < 10 ^ k \<Longrightarrow> 0 < k \<Longrightarrow> length (dec_text n) \<le> k"
proof (induction n arbitrary: k rule: dec_text.induct)
  case (1 n)
  show ?case
  proof (cases "n < 10")
    case True
    then show ?thesis using 1(3) by (simp add: dec_text.simps)
  next
    case False
    with 1(2) obtain k' where k: "k = Suc k'" "0 < k'" by (cases k; cases "k - 1") auto
    with 1(2) have "n div 10 < 10 ^ k'" by (simp add: less_mult_imp_div_less ac_simps)
    with 1(1) [OF False _ k(2)] False k show ?thesis by (simp add: dec_text.simps [of n])
  qed
qed

lemma file_header_fits:
  assumes "0 \<le> n" "n < 10 ^ 10"
  shows "length (status_text 200 ''OK'' @ headers_text n linger) < 100"
proof -
  have "length (dec_text (nat n)) \<le> 10" using assms by (intro dec_text_length) (auto simp: nat_less_iff)
  then show ?thesis using assms(1)
    by (simp add: status_text_def headers_text_def crlf_def int_text_def dec_text.simps [of 200] dec_text.simps [of 20]
        dec_text.simps [of 2])
qed



subsection \<open>The buffers keep their sizes\<close>

definition http_wf :: "http \<Rightarrow> bool" where
  "http_wf h \<longleftrightarrow> length (m_read_buf h) = READ_BUFFER_SIZE \<and> - 1 \<le> m_read_idx h \<and> m_read_idx h \<le> int READ_BUFFER_SIZE
     \<and> write_ok h \<and> length (m_real_file h) = FILENAME_LEN"

lemma http_wf_init [simp]: "http_wf (http_init fd t h)"
  by (simp add: http_wf_def http_simps)

lemma http_wf_reset [simp]: "http_wf (http_reset h)"
  by (simp add: http_wf_def http_reset_def write_ok_def)

lemma http_wf_upd [simp]:
  "http_wf (h\<lparr>m_checked_idx := k\<rparr>) = http_wf h" "http_wf (h\<lparr>m_start_line := k\<rparr>) = http_wf h"
  "http_wf (h\<lparr>m_url := u\<rparr>) = http_wf h" "http_wf (h\<lparr>m_version := u\<rparr>) = http_wf h"
  "http_wf (h\<lparr>m_host := u\<rparr>) = http_wf h" "http_wf (h\<lparr>m_method := me\<rparr>) = http_wf h"
  "http_wf (h\<lparr>m_cgi := c\<rparr>) = http_wf h" "http_wf (h\<lparr>m_check_state := cs\<rparr>) = http_wf h"
  "http_wf (h\<lparr>m_linger := li\<rparr>) = http_wf h" "http_wf (h\<lparr>m_content_length := cl\<rparr>) = http_wf h"
  "http_wf (h\<lparr>m_string := u\<rparr>) = http_wf h" "http_wf (h\<lparr>m_st_size := cl\<rparr>) = http_wf h"
  "http_wf (h\<lparr>m_file_address := fa\<rparr>) = http_wf h" "http_wf (h\<lparr>users_map := us\<rparr>) = http_wf h"
  "http_wf (h\<lparr>m_events := ev\<rparr>) = http_wf h" "http_wf (h\<lparr>m_sockfd := fd\<rparr>) = http_wf h"
  "http_wf (h\<lparr>m_user_count := uc\<rparr>) = http_wf h" "http_wf (h\<lparr>m_iov0 := i0\<rparr>) = http_wf h"
  "http_wf (h\<lparr>m_iov1 := i1\<rparr>) = http_wf h" "http_wf (h\<lparr>m_iovec_count := ic\<rparr>) = http_wf h"
  "http_wf (h\<lparr>m_bytes_to_send := bt\<rparr>) = http_wf h" "http_wf (h\<lparr>m_bytes_have_send := bt\<rparr>) = http_wf h"
  "http_wf (set_char i ch h) = http_wf h"
  by (simp_all add: http_wf_def write_ok_def set_char_def)

lemma http_wf_buf: "http_wf h \<Longrightarrow> length buf = READ_BUFFER_SIZE \<Longrightarrow> http_wf (h\<lparr>m_read_buf := buf\<rparr>)"
  by (simp add: http_wf_def write_ok_def)

lemma http_wf_file: "http_wf h \<Longrightarrow> length f = FILENAME_LEN \<Longrightarrow> http_wf (h\<lparr>m_real_file := f\<rparr>)"
  by (simp add: http_wf_def write_ok_def)

lemma put_str_length: "put_str i s buf = Some buf' \<Longrightarrow> length buf' = length buf"
  by (auto simp: put_str_def split: if_splits)

lemma poke_length: "poke i s buf = Some buf' \<Longrightarrow> length buf' = length buf"
  by (auto simp: poke_def split: if_splits)

lemma parse_line_wf: "http_wf h \<Longrightarrow> http_wf (snd (parse_line h))"
proof (induction h rule: parse_line.induct)
  case (1 h)
  show ?case
  proof (cases "int (m_checked_idx h) < m_read_idx h \<and> m_read_buf h ! m_checked_idx h \<notin> {CR, LF}")
    case True
    then have "parse_line h = parse_line (h\<lparr>m_checked_idx := m_checked_idx h + 1\<rparr>)"
      by (subst parse_line.simps) (simp add: Let_def)
    with 1(1) [OF refl _ refl] True 1(2) show ?thesis by auto
  next
    case False
    with 1(2) show ?thesis by (subst parse_line.simps) (auto simp: Let_def)
  qed
qed

lemma loop_cond_wf: "loop_cond ls h = (go, h') \<Longrightarrow> http_wf h \<Longrightarrow> http_wf h'"
  using parse_line_wf [of h] by (auto simp: loop_cond_def split: if_splits prod.splits)

lemma url_end_wf: "url_end u h = Some (rc, h') \<Longrightarrow> http_wf h \<Longrightarrow> http_wf h'"
  by (auto simp: url_end_def http_wf_def write_ok_def dest!: put_str_length split: option.splits if_splits)

lemma parse_version_wf: "parse_version i s h = Some (rc, h') \<Longrightarrow> http_wf h \<Longrightarrow> http_wf h'"
  by (auto simp: parse_version_def Let_def split: option.splits if_splits dest!: url_end_wf)

lemma parse_request_line_wf: "parse_request_line i h = Some (rc, h') \<Longrightarrow> http_wf h \<Longrightarrow> http_wf h'"
  by (auto simp: parse_request_line_def Let_def split: option.splits if_splits dest!: parse_version_wf)

lemma parse_headers_wf: "parse_headers i h = Some (rc, h') \<Longrightarrow> http_wf h \<Longrightarrow> http_wf h'"
  by (auto simp: parse_headers_def Let_def split: option.splits if_splits)

lemma parse_content_wf: "parse_content i h = Some (rc, h') \<Longrightarrow> http_wf h \<Longrightarrow> http_wf h'"
  by (auto simp: parse_content_def Let_def split: if_splits)

lemma set_url_wf: "set_url u s h = Some h' \<Longrightarrow> http_wf h \<Longrightarrow> http_wf h'"
  by (auto simp: set_url_def http_wf_def write_ok_def dest: put_str_length split: option.splits)

lemma do_cgi_wf: "do_cgi env c u url h = Some h' \<Longrightarrow> http_wf h \<Longrightarrow> http_wf h'"
  by (auto simp: do_cgi_def cgi_check_def Let_def http_wf_def [of h] split: option.splits if_splits
      dest!: set_url_wf poke_length intro!: http_wf_file)

lemma real_path_wf: "real_path env c u h = Some h' \<Longrightarrow> http_wf h \<Longrightarrow> http_wf h'"
  by (auto simp: real_path_def Let_def http_wf_def write_ok_def split: option.splits dest!: poke_length)

lemma open_file_wf: "open_file env h = Some (rc, h') \<Longrightarrow> http_wf h \<Longrightarrow> http_wf h'"
  by (auto simp: open_file_def Let_def split: option.splits if_splits)

lemma do_request_wf: "do_request env h = Some (rc, h') \<Longrightarrow> http_wf h \<Longrightarrow> http_wf h'"
  by (auto simp: do_request_def Let_def http_wf_def [of h] split: option.splits if_splits
      dest!: open_file_wf real_path_wf do_cgi_wf poke_length) (simp_all add: http_wf_def write_ok_def)

lemma read_round_wf:
  assumes "http_wf h"
  shows "case read_round env ls h of
      Return r \<Rightarrow> (\<forall>code h'. r = Done (code, h') \<longrightarrow> http_wf h') | Again_with ls' h' \<Rightarrow> http_wf h'"
proof -
  obtain go h1 where c: "loop_cond ls h = (go, h1)" by force
  let ?g = "h1\<lparr>m_start_line := m_checked_idx h1\<rparr>"
  have g: "http_wf ?g" using loop_cond_wf [OF c assms] by simp
  have "http_wf h' \<Longrightarrow> undef_none (do_request env h') = Done (code, h'') \<Longrightarrow> http_wf h''" for h' code h''
    by (auto simp: undef_none_def split: option.splits dest: do_request_wf)
  then show ?thesis
    using c parse_request_line_wf [OF _ g] parse_headers_wf [OF _ g] parse_content_wf [OF _ g]
    by (cases "m_check_state ?g") (auto simp: read_round_def Let_def split: option.splits, blast+)
qed

lemma process_read_wf:
  assumes "process_read env h = Some (Done (code, h'))" "http_wf h"
  shows "http_wf h'"
proof -
  have "process_read_loop env LINE_OK h = Some (Done (code, h'))" using assms(1) by (simp add: process_read_def)
  then have "http_wf h \<longrightarrow> (\<forall>c g. Done (code, h') = Done (c, g) \<longrightarrow> http_wf g)"
  proof (rule process_read_loop.raw_induct [rotated,
        where P = "\<lambda>_ _ h r. http_wf h \<longrightarrow> (\<forall>c g. r = Done (c, g) \<longrightarrow> http_wf g)"])
    fix self :: "http_env \<Rightarrow> line_status \<Rightarrow> http \<Rightarrow> (http_code \<times> http) run option" and env ls h r
    assume IH: "\<And>env ls h r. self env ls h = Some r \<Longrightarrow> http_wf h \<longrightarrow> (\<forall>c g. r = Done (c, g) \<longrightarrow> http_wf g)"
      and body: "(case read_round env ls h of Return r \<Rightarrow> Some r | Again_with ls' h' \<Rightarrow> self env ls' h') = Some r"
    show "http_wf h \<longrightarrow> (\<forall>c g. r = Done (c, g) \<longrightarrow> http_wf g)"
    proof (cases "read_round env ls h")
      case (Return x)
      then show ?thesis using read_round_wf [of h env ls] body by simp
    next
      case (Again_with ls' h')
      then have "self env ls' h' = Some r" using body by simp
      moreover have "http_wf h \<Longrightarrow> http_wf h'" using Again_with read_round_wf [of h env ls] by simp
      ultimately show ?thesis using IH by blast
    qed
  qed
  with assms(2) show ?thesis by simp
qed

lemma store_read_wf:
  "http_wf h \<Longrightarrow> 0 \<le> m_read_idx h \<Longrightarrow> recv_room r h = Data d \<Longrightarrow> http_wf (store_read d h)"
  by (auto simp: recv_room_def http_wf_def store_read_def write_ok_def Let_def split: if_splits recv_reply.splits)

lemma read_et_wf: "http_wf h \<Longrightarrow> 0 \<le> m_read_idx h \<Longrightarrow> http_wf (snd (read_et rs h))"
proof (induction rs h rule: read_et.induct)
  case (2 r rs h)
  then show ?case
    using store_read_wf [of h r] by (cases "recv_room r h") (simp_all add: http_simps)
qed simp

lemma read_once_wf: "read_once rs h = Some (b, h') \<Longrightarrow> http_wf h \<Longrightarrow> http_wf h'"
  using read_et_wf [of h rs] store_read_wf [of h]
  by (auto simp: read_once_def split: if_splits recv_reply.splits list.splits)
    (auto simp: http_wf_def write_ok_def)

lemma same_but_write_wf: "same_but_write h h' \<Longrightarrow> write_ok h' \<Longrightarrow> http_wf h \<Longrightarrow> http_wf h'"
  by (auto simp: same_but_write_def http_wf_def)

lemma add_response_wf: "http_wf h \<Longrightarrow> http_wf (snd (add_response s h))"
  using add_response_spec [of h s] same_but_write_wf [of h] by (force simp: http_wf_def [of h])

lemma add_headers_wf: "http_wf h \<Longrightarrow> http_wf (snd (add_headers n h))"
  using add_response_wf
  by (auto simp: add_headers_def and_then_def add_content_length_def add_linger_def add_blank_line_def
      split: prod.split) (metis snd_conv)+

lemma add_page_wf: "http_wf h \<Longrightarrow> http_wf (snd (add_page st ti fo h))"
  by (simp add: add_page_def add_content_def add_status_line_def Let_def add_response_wf add_headers_wf)

lemma page_iovec_wf: "http_wf (snd r) \<Longrightarrow> http_wf (snd (page_iovec r))"
  by (cases r) (simp add: page_iovec_def)

lemma process_write_wf: "http_wf h \<Longrightarrow> http_wf (snd (process_write code h))"
  by (cases code) (simp_all add: process_write_def page_iovec_wf add_page_wf Let_def add_content_def
      add_status_line_def add_response_wf add_headers_wf)

lemma write_loop_wf: "write_loop rs h = Some (b, h') \<Longrightarrow> http_wf h \<Longrightarrow> http_wf h'"
proof (induction rs h rule: write_loop.induct)
  case (4 n rs h)
  have "http_wf (write_advance n h)" using 4(3) by (simp add: write_advance_def Let_def)
  with 4(1) [OF refl] 4(2) show ?case
    by (auto simp: Let_def modfd_def unmap_def split: if_splits)
qed (auto simp: modfd_def unmap_def)

lemma http_write_wf: "http_write rs h = Some (b, h') \<Longrightarrow> http_wf h \<Longrightarrow> http_wf h'"
  by (auto simp: http_write_def split: if_splits dest: write_loop_wf)

lemma process_wf: "process env h = Some (Done h') \<Longrightarrow> http_wf h \<Longrightarrow> http_wf h'"
  using process_read_wf [of env h] process_write_wf
  by (auto simp: process_def modfd_def removefd_def close_conn_def split: option.splits run.splits if_splits prod.splits)
    (metis snd_conv)+



subsection \<open>Where sending goes wrong\<close>

text \<open>After a second partial write the rest of the first entry is computed from the length that was
  already reduced: of a page of 100 bytes sent as 40 and 10, only 10 of the remaining 50 are offered.\<close>

lemma second_partial_write_loses:
  "m_bytes_to_send h = 100 \<Longrightarrow> m_bytes_have_send h = 0 \<Longrightarrow> m_iov0 h = (0, 100) \<Longrightarrow>
     m_iov0 (write_advance 10 (write_advance 40 h)) = (50, 10)
     \<and> m_bytes_to_send (write_advance 10 (write_advance 40 h)) = 50"
  by (simp add: write_advance_def Let_def)

text \<open>After a partial write into the file part, the length of the rest is set to what has been sent
  instead of what is left.\<close>

lemma file_partial_write_overruns:
  "m_bytes_to_send h = 1100 \<Longrightarrow> m_bytes_have_send h = 0 \<Longrightarrow> m_iov0 h = (0, 100) \<Longrightarrow> m_write_idx h = 100 \<Longrightarrow>
     m_iov1 (write_advance 800 h) = (700, 800) \<and> m_bytes_to_send (write_advance 800 h) = 300"
  by (simp add: write_advance_def Let_def)

text \<open>For a file the number of entries is never set: a connection that sent an error page before
  sends the header without the file.\<close>

lemma file_response_keeps_count: "m_iovec_count (snd (process_write FILE_REQUEST h)) = m_iovec_count h"
proof -
  have r: "m_iovec_count (snd (add_response s h)) = m_iovec_count h" for s h
    by (simp add: add_response_def Let_def)
  then have "m_iovec_count (snd (add_headers n h)) = m_iovec_count h" for n h
    by (auto simp: add_headers_def and_then_def add_content_length_def add_linger_def add_blank_line_def
        split: prod.split) (metis snd_conv)+
  with r show ?thesis
    by (simp add: process_write_def Let_def add_status_line_def add_content_def)
qed

text \<open>The header \<^verbatim>\<open>Connection: keep-alive\<close> is not recognised, because eleven characters of the ten-character name
  are compared: the connection is always closed after the response.\<close>

lemma keep_alive_ignored:
  "str_at (m_read_buf h) i = Some ''Connection: keep-alive'' \<Longrightarrow> parse_headers i h = Some (NO_REQUEST, h)"
proof -
  have "\<not> strncaseeq ''Connection: keep-alive'' ''Connection'' 11"
    "\<not> strncaseeq ''Connection: keep-alive'' ''Content-length:'' 15"
    "\<not> strncaseeq ''Connection: keep-alive'' ''Host:'' 5" by code_simp+
  then show "str_at (m_read_buf h) i = Some ''Connection: keep-alive'' \<Longrightarrow> parse_headers i h = Some (NO_REQUEST, h)"
    by (simp add: parse_headers_def)
qed

text \<open>Absolute URLs are refused, because the schemes are written with two colons.\<close>

lemma absolute_url_refused:
  "parse_version 4 ''http://h/a HTTP/1.1'' h = Some (BAD_REQUEST, (set_char 14 NUL h)\<lparr>m_url := Some 4, m_version := Some 15\<rparr>)"
proof -
  have "blank_pos ''http://h/a HTTP/1.1'' = Some 10" "blank_span ''HTTP/1.1'' = 0" "strcaseeq ''HTTP/1.1'' ''HTTP/1.1''"
    "strip_scheme ''http:://'' 7 (4, ''http://h/a'') = Some (4, ''http://h/a'')"
    "strip_scheme ''https:://'' 8 (4, ''http://h/a'') = Some (4, ''http://h/a'')" by code_simp+
  then show ?thesis by (simp add: parse_version_def url_end_def Let_def)
qed

end
