(* ===== verification/Sem_Threads.thy ===== *)
theory Sem_Threads
  imports Main
begin

text \<open>
  What the thread pool (\<^verbatim>\<open>TinyWebServer/threadpool/threadpool.h\<close>) and the database connection pool
  (\<^verbatim>\<open>TinyWebServer/CGImysql/sql_connection_pool.cpp\<close>) have in common: a list guarded by a mutex and a
  semaphore that counts its elements.  A consumer first waits on the semaphore and then, in a second
  step, takes an element under the mutex; a producer adds an element under the mutex and then, in a
  second step, posts.  The locale \<open>sem_store\<close> is the contract of the list; the step relation lets the
  steps of any number of threads interleave.
\<close>

record ('a, 's) ssys =
  guarded :: 's
  sem :: nat
  granted :: "nat set"
  owed :: nat
  held :: "nat \<rightharpoonup> 'a"
  put_log :: "'a list"
  take_log :: "'a list"

text \<open>\<open>granted\<close> are the threads that have passed the semaphore and not yet taken an element, \<open>owed\<close> is the
  number of elements added whose post is still to come, \<open>held\<close> what each thread has taken and not yet
  given back or finished with.\<close>

datatype 'a sem_label = L_wait nat | L_take nat | L_put 'a | L_return nat | L_done nat | L_post

inductive sem_step :: "('a \<Rightarrow> 's \<Rightarrow> 's option) \<Rightarrow> ('s \<Rightarrow> ('a \<times> 's) option)
    \<Rightarrow> ('a, 's) ssys \<Rightarrow> 'a sem_label \<Rightarrow> ('a, 's) ssys \<Rightarrow> bool" for put tak where
  wait: "sem s = Suc n \<Longrightarrow> t \<notin> granted s \<Longrightarrow> held s t = None \<Longrightarrow>
     sem_step put tak s (L_wait t) (s\<lparr>sem := n, granted := insert t (granted s)\<rparr>)"
| take: "t \<in> granted s \<Longrightarrow> tak (guarded s) = Some (x, g) \<Longrightarrow>
     sem_step put tak s (L_take t)
       (s\<lparr>guarded := g, granted := granted s - {t}, held := (held s)(t \<mapsto> x), take_log := take_log s @ [x]\<rparr>)"
| put: "put x (guarded s) = Some g \<Longrightarrow>
     sem_step put tak s (L_put x) (s\<lparr>guarded := g, owed := Suc (owed s), put_log := put_log s @ [x]\<rparr>)"
| give_back: "held s t = Some x \<Longrightarrow> put x (guarded s) = Some g \<Longrightarrow>
     sem_step put tak s (L_return t)
       (s\<lparr>guarded := g, owed := Suc (owed s), held := (held s)(t := None), put_log := put_log s @ [x]\<rparr>)"
| finish: "held s t = Some x \<Longrightarrow> sem_step put tak s (L_done t) (s\<lparr>held := (held s)(t := None)\<rparr>)"
| post: "owed s = Suc n \<Longrightarrow> sem_step put tak s L_post (s\<lparr>owed := n, sem := Suc (sem s)\<rparr>)"

inductive_cases sem_step_elims:
  "sem_step put tak s (L_wait t) s'" "sem_step put tak s (L_take t) s'" "sem_step put tak s (L_put x) s'"
  "sem_step put tak s (L_return t) s'" "sem_step put tak s (L_done t) s'" "sem_step put tak s L_post s'"

inductive sem_run :: "('a \<Rightarrow> 's \<Rightarrow> 's option) \<Rightarrow> ('s \<Rightarrow> ('a \<times> 's) option)
    \<Rightarrow> ('a, 's) ssys \<Rightarrow> 'a sem_label list \<Rightarrow> ('a, 's) ssys \<Rightarrow> bool" for put tak where
  none: "sem_run put tak s [] s"
| more: "sem_step put tak s l s' \<Longrightarrow> sem_run put tak s' ls s'' \<Longrightarrow> sem_run put tak s (l # ls) s''"

text \<open>The state in which the list has elements, all of them counted by the semaphore, and no thread has
  done anything.\<close>

definition sem_start :: "'s \<Rightarrow> 'a list \<Rightarrow> ('a, 's) ssys" where
  "sem_start g xs = \<lparr>guarded = g, sem = length xs, granted = {}, owed = 0, held = Map.empty,
     put_log = xs, take_log = []\<rparr>"

text \<open>The steps as a function, to run a given interleaving.\<close>

fun sem_exec :: "('a \<Rightarrow> 's \<Rightarrow> 's option) \<Rightarrow> ('s \<Rightarrow> ('a \<times> 's) option) \<Rightarrow> 'a sem_label
    \<Rightarrow> ('a, 's) ssys \<Rightarrow> ('a, 's) ssys option" where
  "sem_exec put tak (L_wait t) s =
     (if 0 < sem s \<and> t \<notin> granted s \<and> held s t = None
      then Some (s\<lparr>sem := sem s - 1, granted := insert t (granted s)\<rparr>) else None)"
| "sem_exec put tak (L_take t) s =
     (if t \<in> granted s then
        (case tak (guarded s) of None \<Rightarrow> None
         | Some (x, g) \<Rightarrow> Some (s\<lparr>guarded := g, granted := granted s - {t}, held := (held s)(t \<mapsto> x),
             take_log := take_log s @ [x]\<rparr>)) else None)"
| "sem_exec put tak (L_put x) s =
     (case put x (guarded s) of None \<Rightarrow> None
      | Some g \<Rightarrow> Some (s\<lparr>guarded := g, owed := Suc (owed s), put_log := put_log s @ [x]\<rparr>))"
| "sem_exec put tak (L_return t) s =
     (case held s t of None \<Rightarrow> None
      | Some x \<Rightarrow> (case put x (guarded s) of None \<Rightarrow> None
          | Some g \<Rightarrow> Some (s\<lparr>guarded := g, owed := Suc (owed s), held := (held s)(t := None), put_log := put_log s @ [x]\<rparr>)))"
| "sem_exec put tak (L_done t) s =
     (case held s t of None \<Rightarrow> None | Some x \<Rightarrow> Some (s\<lparr>held := (held s)(t := None)\<rparr>))"
| "sem_exec put tak L_post s =
     (if 0 < owed s then Some (s\<lparr>owed := owed s - 1, sem := Suc (sem s)\<rparr>) else None)"

fun sem_execs :: "('a \<Rightarrow> 's \<Rightarrow> 's option) \<Rightarrow> ('s \<Rightarrow> ('a \<times> 's) option) \<Rightarrow> 'a sem_label list
    \<Rightarrow> ('a, 's) ssys \<Rightarrow> ('a, 's) ssys option" where
  "sem_execs put tak [] s = Some s"
| "sem_execs put tak (l # ls) s =
     (case sem_exec put tak l s of None \<Rightarrow> None | Some s' \<Rightarrow> sem_execs put tak ls s')"

lemma sem_exec_step: "sem_exec put tak l s = Some s' \<longleftrightarrow> sem_step put tak s l s'"
proof
  show "sem_exec put tak l s = Some s' \<Longrightarrow> sem_step put tak s l s'"
  proof (cases l)
    case (L_wait t)
    then show "sem_exec put tak l s = Some s' \<Longrightarrow> sem_step put tak s l s'"
      by (cases "sem s") (auto split: if_splits intro: sem_step.wait)
  next
    case L_post
    then show "sem_exec put tak l s = Some s' \<Longrightarrow> sem_step put tak s l s'"
      using sem_step.post [of s "owed s - 1"] by (cases "owed s") auto
  qed (auto split: if_splits option.splits intro: sem_step.intros)
qed (auto elim: sem_step.cases)

lemma sem_execs_run: "sem_execs put tak ls s = Some s' \<Longrightarrow> sem_run put tak s ls s'"
  by (induction ls arbitrary: s) (auto simp: sem_exec_step split: option.splits intro: sem_run.intros)

locale sem_store =
  fixes inv :: "'s \<Rightarrow> bool"
    and items :: "'s \<Rightarrow> 'a list"
    and put :: "'a \<Rightarrow> 's \<Rightarrow> 's option"
    and tak :: "'s \<Rightarrow> ('a \<times> 's) option"
  assumes put_law: "inv g \<Longrightarrow> put x g = Some g' \<Longrightarrow> inv g' \<and> items g' = items g @ [x]"
    and tak_law: "inv g \<Longrightarrow> items g = x # xs \<Longrightarrow> \<exists>g'. tak g = Some (x, g') \<and> inv g' \<and> items g' = xs"
    and tak_empty: "inv g \<Longrightarrow> items g = [] \<Longrightarrow> tak g = None"
begin

lemma tak_Some: "inv g \<Longrightarrow> tak g = Some (x, g') \<Longrightarrow> inv g' \<and> items g = x # items g'"
  using tak_law tak_empty by (cases "items g") fastforce+

definition s_ok :: "('a, 's) ssys \<Rightarrow> bool" where
  "s_ok s \<longleftrightarrow> inv (guarded s) \<and> finite (granted s) \<and> granted s \<inter> dom (held s) = {}
     \<and> length (items (guarded s)) = sem s + card (granted s) + owed s
     \<and> put_log s = take_log s @ items (guarded s)"

lemma s_ok_start: "inv g \<Longrightarrow> s_ok (sem_start g (items g))"
  by (simp add: s_ok_def sem_start_def)

lemma s_ok_step: "sem_step put tak s l s' \<Longrightarrow> s_ok s \<Longrightarrow> s_ok s'"
proof (induction rule: sem_step.induct)
  case (take t s x g)
  then have "inv g" "items (guarded s) = x # items g" using tak_Some by (auto simp: s_ok_def)
  moreover have "card (granted s) = Suc (card (granted s - {t}))"
    using take card.remove [of "granted s" t] by (simp add: s_ok_def)
  ultimately show ?case using take by (auto simp: s_ok_def)
next
  case (put x s g)
  then show ?case using put_law by (auto simp: s_ok_def)
next
  case (give_back s t x g)
  then show ?case using put_law by (auto simp: s_ok_def)
qed (auto simp: s_ok_def)

lemma s_ok_run: "sem_run put tak s ls s' \<Longrightarrow> s_ok s \<Longrightarrow> s_ok s'"
  by (induction rule: sem_run.induct) (auto dest: s_ok_step)

text \<open>A thread that was let in always finds an element, elements come out in the order in which they went
  in, and while the list is not empty somebody is on the way to it or can be.\<close>

lemma run_granted:
  assumes "inv g" "sem_run put tak (sem_start g (items g)) ls s"
  shows "put_log s = take_log s @ items (guarded s)
    \<and> (\<forall>t \<in> granted s. \<exists>x g'. tak (guarded s) = Some (x, g'))
    \<and> (items (guarded s) \<noteq> [] \<longrightarrow> 0 < sem s \<or> granted s \<noteq> {} \<or> 0 < owed s)"
proof -
  have ok: "s_ok s" using s_ok_run [OF assms(2)] s_ok_start [OF assms(1)] by simp
  have "\<exists>x g'. tak (guarded s) = Some (x, g')" if "t \<in> granted s" for t
  proof -
    have "0 < card (granted s)" using that ok by (auto simp: s_ok_def card_gt_0_iff)
    then have "items (guarded s) \<noteq> []" using ok by (auto simp: s_ok_def)
    then obtain x xs where "items (guarded s) = x # xs" by (cases "items (guarded s)") auto
    then show ?thesis using tak_law ok by (fastforce simp: s_ok_def)
  qed
  then show ?thesis using ok by (auto simp: s_ok_def)
qed

text \<open>When elements are only taken and given back, each is in one place.\<close>

definition apart :: "'a list \<Rightarrow> ('a, 's) ssys \<Rightarrow> bool" where
  "apart xs s \<longleftrightarrow> distinct (items (guarded s)) \<and> inj_on (held s) (dom (held s))
     \<and> ran (held s) \<inter> set (items (guarded s)) = {} \<and> ran (held s) \<union> set (items (guarded s)) = set xs"

lemma apart_step:
  assumes "sem_step put tak s l s'" "s_ok s" "apart xs s" "\<forall>x. l \<noteq> L_put x" "\<forall>t. l \<noteq> L_done t"
  shows "apart xs s'"
  using assms
proof (induction rule: sem_step.induct)
  case (take t s x g)
  then have g: "items (guarded s) = x # items g" using tak_Some by (auto simp: s_ok_def)
  have t: "held s t = None" using take by (auto simp: s_ok_def)
  then have "ran ((held s)(t \<mapsto> x)) = insert x (ran (held s))" by (rule ran_map_upd)
  moreover have "inj_on ((held s)(t \<mapsto> x)) (dom ((held s)(t \<mapsto> x)))"
    using take t g by (fastforce simp: apart_def inj_on_def ran_def)
  ultimately show ?case using take g by (auto simp: apart_def)
next
  case (give_back s t x g)
  have g: "items g = items (guarded s) @ [x]" using give_back put_law by (auto simp: s_ok_def)
  have ran: "ran (held s) = insert x (ran ((held s)(t := None)))"
    using give_back(1) by (auto simp: ran_def) (metis option.inject)
  have "a = t" if "held s a = Some x" for a
    using that give_back(1,4) inj_onD [of "held s" "dom (held s)" a t] by (auto simp: apart_def)
  then have "x \<notin> ran ((held s)(t := None))" by (auto simp: ran_def split: if_splits)
  moreover have "inj_on ((held s)(t := None)) (dom ((held s)(t := None)))"
    using give_back(4) by (auto simp: apart_def inj_on_def)
  ultimately show ?case using give_back g ran by (auto simp: apart_def)
qed (auto simp: apart_def)

lemma run_apart:
  assumes "inv g" "distinct (items g)" "sem_run put tak (sem_start g (items g)) ls s"
    "\<forall>x. L_put x \<notin> set ls" "\<forall>t. L_done t \<notin> set ls"
  shows "apart (items g) s"
proof -
  have "sem_run put tak s0 ls s \<Longrightarrow> s_ok s0 \<Longrightarrow> apart (items g) s0 \<Longrightarrow> \<forall>x. L_put x \<notin> set ls \<Longrightarrow>
      \<forall>t. L_done t \<notin> set ls \<Longrightarrow> apart (items g) s" for s0
    by (induction rule: sem_run.induct) (auto dest: s_ok_step apart_step)
  moreover have "apart (items g) (sem_start g (items g))" using assms(2) by (simp add: apart_def sem_start_def)
  ultimately show ?thesis using assms s_ok_start by blast
qed

end

end
