(* ===== verification/Web_Pool.thy ===== *)
theory Web_Pool
  imports Web_Response Sem_Threads Clang_Prelude
begin

text \<open>
  \<^verbatim>\<open>TinyWebServer/CGImysql/sql_connection_pool.cpp\<close> and \<^verbatim>\<open>TinyWebServer/threadpool/threadpool.h\<close>, with the
  wrappers of \<^verbatim>\<open>TinyWebServer/lock/locker.h\<close> they use.  Both pools are lists guarded by a mutex and a
  semaphore, and are instances of the contract \<open>sem_store\<close>: the connections are taken and given back,
  the requests are added by the main thread and taken by the workers.  \<open>handle_request\<close> is what a worker
  does with a connection it has taken from the queue.
\<close>

subsection \<open>Mutex and semaphore\<close>

text \<open>\<open>None\<close> of \<open>lk_lock\<close> is a thread that blocks; unlocking a mutex that is not locked is undefined.
  \<open>None\<close> of \<open>sem_wait\<close> is a thread that blocks.\<close>

definition lk_lock :: "bool \<Rightarrow> bool option" where
  "lk_lock l = (if l then None else Some True)"

definition lk_unlock :: "bool \<Rightarrow> bool option" where
  "lk_unlock l = (if l then Some False else None)"

definition sem_wait :: "nat \<Rightarrow> nat option" where
  "sem_wait n = (if n = 0 then None else Some (n - 1))"

definition sem_post :: "nat \<Rightarrow> nat" where
  "sem_post n = n + 1"

subsection \<open>Database connections\<close>

record cpool =
  m_max_conn :: int
  m_cur_conn :: int
  m_free_conn :: int
  cp_lock :: bool
  conn_list :: "nat list"
  reserve :: nat
  cp_url :: string
  cp_port :: string
  cp_user :: string
  cp_password :: string
  cp_database_name :: string
  cp_close_log :: int

text \<open>The constructor; the members it does not set are indeterminate, here zero.\<close>

definition cp_new :: cpool where
  "cp_new = \<lparr>m_max_conn = 0, m_cur_conn = 0, m_free_conn = 0, cp_lock = False, conn_list = [], reserve = 0,
     cp_url = [], cp_port = [], cp_user = [], cp_password = [], cp_database_name = [], cp_close_log = 0\<rparr>"

text \<open>\<open>connect i\<close> is the result of the \<open>i\<close>-th \<^verbatim>\<open>mysql_init\<close> and \<^verbatim>\<open>mysql_real_connect\<close>; the process exits (\<open>None\<close>)
  at the first that fails.  The member \<^verbatim>\<open>m_port\<close> is a string, so assigning the number stores one
  character.\<close>

definition cp_init :: "(nat \<Rightarrow> nat option) \<Rightarrow> string \<Rightarrow> string \<Rightarrow> string \<Rightarrow> string \<Rightarrow> int \<Rightarrow> int \<Rightarrow> int \<Rightarrow> cpool \<Rightarrow> cpool option" where
  "cp_init connect url user password database_name port max_conn close_log p =
     (case those (map connect [0..<nat max_conn]) of
        None \<Rightarrow> None
      | Some cs \<Rightarrow>
          let n = m_free_conn p + int (length cs) in
          Some (p\<lparr>cp_url := url, cp_port := [char_of (nat (port mod 256))], cp_user := user, cp_password := password,
            cp_database_name := database_name, cp_close_log := close_log, conn_list := conn_list p @ cs,
            m_free_conn := n, reserve := nat n, m_max_conn := n\<rparr>))"

text \<open>The part of \<^verbatim>\<open>GetConnection\<close> under the mutex, and that of \<^verbatim>\<open>ReleaseConnection\<close>.  The front of an empty
  list is undefined.\<close>

definition cp_take :: "cpool \<Rightarrow> (nat \<times> cpool) option" where
  "cp_take p = (case conn_list p of
      [] \<Rightarrow> None
    | c # cs \<Rightarrow> Some (c, p\<lparr>conn_list := cs, m_free_conn := m_free_conn p - 1, m_cur_conn := m_cur_conn p + 1\<rparr>))"

definition cp_put :: "nat \<Rightarrow> cpool \<Rightarrow> cpool" where
  "cp_put c p = p\<lparr>conn_list := conn_list p @ [c], m_free_conn := m_free_conn p + 1, m_cur_conn := m_cur_conn p - 1\<rparr>"

text \<open>The whole operations, for a thread that is not interrupted: no connection at all gives NULL at once,
  \<open>None\<close> is a thread that blocks on the semaphore.\<close>

definition GetConnection :: "cpool \<Rightarrow> (nat option \<times> cpool) option" where
  "GetConnection p =
     (if length (conn_list p) = 0 then Some (None, p)
      else (case sem_wait (reserve p) of
         None \<Rightarrow> None
       | Some r \<Rightarrow> (case cp_take (p\<lparr>reserve := r\<rparr>) of
            None \<Rightarrow> None
          | Some (c, p') \<Rightarrow> Some (Some c, p'))))"

definition ReleaseConnection :: "nat option \<Rightarrow> cpool \<Rightarrow> bool \<times> cpool" where
  "ReleaseConnection conn p =
     (case conn of
        None \<Rightarrow> (False, p)
      | Some c \<Rightarrow> (let p' = cp_put c p in (True, p'\<lparr>reserve := sem_post (reserve p')\<rparr>)))"

definition GetFreeConn :: "cpool \<Rightarrow> int" where
  "GetFreeConn p = m_free_conn p"

text \<open>\<^verbatim>\<open>DestroyPool\<close> with the connections it closes.  The mutex is unlocked inside the \<^verbatim>\<open>if\<close> and again after it.\<close>

definition DestroyPool :: "cpool \<Rightarrow> (nat list \<times> cpool) option" where
  "DestroyPool p =
     (case lk_lock (cp_lock p) of
        None \<Rightarrow> None
      | Some l \<Rightarrow>
          (case (if length (conn_list p) > 0
                 then (case lk_unlock l of None \<Rightarrow> None
                       | Some l1 \<Rightarrow> Some (l1, conn_list p, p\<lparr>m_cur_conn := 0, m_free_conn := 0, conn_list := []\<rparr>))
                 else Some (l, [], p)) of
             None \<Rightarrow> None
           | Some (l2, closed, p2) \<Rightarrow>
               (case lk_unlock l2 of None \<Rightarrow> None | Some l3 \<Rightarrow> Some (closed, p2\<lparr>cp_lock := l3\<rparr>))))"

text \<open>\<^verbatim>\<open>init_mysql_result\<close>: the rows of the user table go into the map; a failed query ends the process.\<close>

definition init_mysql_result :: "(string \<times> string) list option \<Rightarrow> http \<Rightarrow> http option" where
  "init_mysql_result rows h =
     (case rows of
        None \<Rightarrow> None
      | Some rs \<Rightarrow> Some (h\<lparr>users_map := fold (\<lambda>(name, passwd) m. m(name \<mapsto> passwd)) rs (users_map h)\<rparr>))"

subsection \<open>Threads\<close>

text \<open>Requests are pointers to connections, here their indices.\<close>

record tpool =
  m_thread_number :: int
  m_max_requests :: int
  m_work_queue :: "ptr list"
  tp_actor_mode :: int

text \<open>The constructor throws (\<open>None\<close>) on bad arguments and when a thread cannot be created or detached.\<close>

definition tp_new :: "(nat \<Rightarrow> bool) \<Rightarrow> int \<Rightarrow> int \<Rightarrow> int \<Rightarrow> tpool option" where
  "tp_new created actor_mode thread_number max_requests =
     (if thread_number < 0 \<or> max_requests \<le> 0 then None
      else if list_all created [0..<nat thread_number]
        then Some \<lparr>m_thread_number = thread_number, m_max_requests = max_requests, m_work_queue = [], tp_actor_mode = actor_mode\<rparr>
      else None)"

text \<open>The parts of the operations under the mutex.  \<open>None\<close> of \<open>tp_put\<close> is a full queue.\<close>

definition tp_put :: "ptr \<Rightarrow> tpool \<Rightarrow> tpool option" where
  "tp_put r p = (if int (length (m_work_queue p)) \<ge> m_max_requests p then None
     else Some (p\<lparr>m_work_queue := m_work_queue p @ [r]\<rparr>))"

definition tp_take :: "tpool \<Rightarrow> (ptr \<times> tpool) option" where
  "tp_take p = (case m_work_queue p of [] \<Rightarrow> None | r # rs \<Rightarrow> Some (r, p\<lparr>m_work_queue := rs\<rparr>))"

definition append_p :: "ptr \<Rightarrow> tpool \<times> nat \<Rightarrow> bool \<times> tpool \<times> nat" where
  "append_p r pq = (case tp_put r (fst pq) of
      None \<Rightarrow> (False, pq) | Some p' \<Rightarrow> (True, p', sem_post (snd pq)))"

text \<open>\<^verbatim>\<open>append\<close> also notes the kind of event in the connection.  When it accepts the request it reaches its end
  without a \<^verbatim>\<open>return\<close>: the result is \<open>None\<close>, no value.\<close>

definition append_req :: "nat \<Rightarrow> int \<Rightarrow> (nat \<Rightarrow> http) \<Rightarrow> tpool \<times> nat \<Rightarrow> bool option \<times> (nat \<Rightarrow> http) \<times> tpool \<times> nat" where
  "append_req i state us pq = (case tp_put (Some i) (fst pq) of
      None \<Rightarrow> (Some False, us, pq)
    | Some p' \<Rightarrow> (None, us(i := (us i)\<lparr>m_state := state\<rparr>), p', sem_post (snd pq)))"

text \<open>What a worker does with a request it has taken: \<open>conn\<close> is the database connection that the
  \<^verbatim>\<open>ConnectionRAII\<close> object gets, \<open>rs\<close> and \<open>ws\<close> the replies of \<^verbatim>\<open>recv\<close> and \<^verbatim>\<open>writev\<close>.  In proactor mode only the
  request is processed, in reactor mode the worker also reads or writes.\<close>

definition handle_request :: "int \<Rightarrow> http_env \<Rightarrow> nat option \<Rightarrow> recv_reply list \<Rightarrow> writev_reply list \<Rightarrow> http \<Rightarrow> http run option" where
  "handle_request actor_mode env conn rs ws h =
     (if actor_mode = 1 then
        (if m_state h = 0 then
           (case read_once rs h of
              None \<Rightarrow> Some Undefined
            | Some (True, h1) \<Rightarrow> process env (h1\<lparr>m_improv := 1, m_mysql := conn\<rparr>)
            | Some (False, h1) \<Rightarrow> Some (Done (h1\<lparr>m_improv := 1, m_timer_flag := 1\<rparr>)))
         else
           (case http_write ws h of
              None \<Rightarrow> None
            | Some (True, h1) \<Rightarrow> Some (Done (h1\<lparr>m_improv := 1\<rparr>))
            | Some (False, h1) \<Rightarrow> Some (Done (h1\<lparr>m_improv := 1, m_timer_flag := 1\<rparr>))))
      else process env (h\<lparr>m_mysql := conn\<rparr>))"

subsection \<open>The connection pool among threads\<close>

definition cp_inv :: "int \<Rightarrow> cpool \<Rightarrow> bool" where
  "cp_inv n p \<longleftrightarrow> m_free_conn p = int (length (conn_list p)) \<and> m_free_conn p + m_cur_conn p = n"

interpretation conns: sem_store "cp_inv n" conn_list "\<lambda>c p. Some (cp_put c p)" cp_take for n
  by unfold_locales (auto simp: cp_inv_def cp_put_def cp_take_def)

lemma cp_init_inv:
  assumes "cp_init connect url user pw db port n lg cp_new = Some p"
  shows "cp_inv (int (nat n)) p" "reserve p = length (conn_list p)" "length (conn_list p) = nat n"
proof -
  obtain cs where cs: "those (map connect [0..<nat n]) = Some cs"
    using assms by (auto simp: cp_init_def split: option.splits)
  have "length cs = length xs" if "those xs = Some cs" for xs :: "nat option list"
    using that by (induction xs arbitrary: cs) (auto split: option.splits)
  with cs have "length cs = nat n" by fastforce
  with cs assms show "cp_inv (int (nat n)) p" "reserve p = length (conn_list p)" "length (conn_list p) = nat n"
    by (auto simp: cp_init_def cp_new_def cp_inv_def Let_def)
qed

text \<open>The connection pool.  After \<open>init\<close> with distinct connections, under every interleaving of the
  two steps of \<^verbatim>\<open>GetConnection\<close> and the two steps of \<^verbatim>\<open>ReleaseConnection\<close> of any number of threads: a thread
  that has passed the semaphore always finds a connection, no connection is with two threads or with a
  thread and in the pool, none is lost, and the counters of free and used connections add up to the
  number of connections.\<close>

theorem connection_pool_threads:
  assumes "cp_init connect url user pw db port n lg cp_new = Some p" "distinct (conn_list p)"
    "sem_run (\<lambda>c p. Some (cp_put c p)) cp_take (sem_start p (conn_list p)) ls s"
    "\<forall>x. L_put x \<notin> set ls" "\<forall>t. L_done t \<notin> set ls"
  shows "(\<forall>t \<in> granted s. \<exists>c p'. cp_take (guarded s) = Some (c, p'))
    \<and> inj_on (held s) (dom (held s)) \<and> ran (held s) \<inter> set (conn_list (guarded s)) = {}
    \<and> ran (held s) \<union> set (conn_list (guarded s)) = set (conn_list p)
    \<and> m_free_conn (guarded s) = int (length (conn_list (guarded s)))
    \<and> m_free_conn (guarded s) + m_cur_conn (guarded s) = int (nat n)"
proof -
  note inv = cp_init_inv [OF assms(1)]
  have "conns.apart (conn_list p) s" by (rule conns.run_apart [OF inv(1) assms(2-5)])
  moreover note conns.run_granted [OF inv(1) assms(3)]
  moreover have "conns.s_ok (int (nat n)) s"
    using conns.s_ok_run [OF assms(3)] conns.s_ok_start [OF inv(1)] by simp
  ultimately show ?thesis by (auto simp: conns.apart_def conns.s_ok_def cp_inv_def)
qed

theorem connection_pool_threads_witness:
  "\<exists>p s. cp_init (\<lambda>i. Some (i + 100)) [] [] [] [] 3306 2 0 cp_new = Some p
    \<and> sem_run (\<lambda>c p. Some (cp_put c p)) cp_take (sem_start p (conn_list p)) [L_wait 1, L_wait 2, L_take 2, L_take 1, L_return 2] s
    \<and> ran (held s) \<inter> set (conn_list (guarded s)) = {} \<and> held s 1 = Some 101"
proof -
  let ?put = "\<lambda>c p. Some (cp_put c p)" and ?ls = "[L_wait 1, L_wait 2, L_take 2, L_take 1, L_return 2]"
  define p where "p = the (cp_init (\<lambda>i. Some (i + 100)) [] [] [] [] 3306 2 0 cp_new)"
  have p: "cp_init (\<lambda>i. Some (i + 100)) [] [] [] [] 3306 2 0 cp_new = Some p" "conn_list p = [100, 101]"
    by (simp_all add: p_def cp_init_def cp_new_def Let_def numeral_2_eq_2)
  have "\<exists>s. sem_execs ?put cp_take ?ls (sem_start p (conn_list p)) = Some s \<and> held s 1 = Some 101"
    by (simp add: sem_start_def p(2) cp_take_def cp_put_def)
  then obtain s where s: "sem_run ?put cp_take (sem_start p (conn_list p)) ?ls s" "held s 1 = Some 101"
    using sem_execs_run by blast
  have "ran (held s) \<inter> set (conn_list (guarded s)) = {}"
    using connection_pool_threads [OF p(1) _ s(1)] p(2) by simp
  with p(1) s show ?thesis by blast
qed

text \<open>\<^verbatim>\<open>DestroyPool\<close> unlocks twice whenever there is a connection.\<close>

lemma destroy_pool_unlocks_twice: "conn_list p \<noteq> [] \<Longrightarrow> DestroyPool p = None"
  by (cases "cp_lock p") (simp_all add: DestroyPool_def lk_lock_def lk_unlock_def)

subsection \<open>The thread pool\<close>

definition tp_inv :: "int \<Rightarrow> tpool \<Rightarrow> bool" where
  "tp_inv n p \<longleftrightarrow> m_max_requests p = n \<and> int (length (m_work_queue p)) \<le> n"

interpretation reqs: sem_store "tp_inv n" m_work_queue tp_put tp_take for n
  by unfold_locales (auto simp: tp_inv_def tp_put_def tp_take_def split: if_splits)

text \<open>The request queue.  Under every interleaving of the main thread's appends with the steps of
  any number of workers, on a new pool: the workers get the accepted requests in the order in which
  they were accepted, the rest being in the queue, which never exceeds its bound; a worker that has
  passed the semaphore always finds a request; and as long as a request is queued, a post is due, a
  worker has been let in, or the semaphore lets the next one in.\<close>

theorem thread_pool_fifo:
  assumes "tp_new created actor threads n = Some p"
    "sem_run tp_put tp_take (sem_start p []) ls s"
  shows "put_log s = take_log s @ m_work_queue (guarded s) \<and> int (length (m_work_queue (guarded s))) \<le> n
    \<and> (\<forall>t \<in> granted s. \<exists>r p'. tp_take (guarded s) = Some (r, p'))
    \<and> (m_work_queue (guarded s) \<noteq> [] \<longrightarrow> 0 < sem s \<or> granted s \<noteq> {} \<or> 0 < owed s)"
proof -
  have p: "tp_inv n p" "m_work_queue p = []"
    using assms(1) by (auto simp: tp_new_def tp_inv_def split: if_splits)
  note run = reqs.run_granted [OF p(1), unfolded p(2), OF assms(2)]
  have "reqs.s_ok n s"
    using reqs.s_ok_run [OF assms(2)] reqs.s_ok_start [OF p(1)] p(2) by simp
  with run show ?thesis by (simp add: reqs.s_ok_def tp_inv_def)
qed

theorem thread_pool_fifo_witness:
  "\<exists>p s. tp_new (\<lambda>_. True) 0 2 1 = Some p
    \<and> sem_run tp_put tp_take (sem_start p []) [L_put (Some 7), L_post, L_wait 1, L_take 1, L_put (Some 8), L_done 1] s
    \<and> put_log s = take_log s @ m_work_queue (guarded s) \<and> take_log s = [Some 7]"
proof -
  let ?ls = "[L_put (Some 7), L_post, L_wait 1, L_take 1, L_put (Some 8), L_done 1]"
  define p where "p = \<lparr>m_thread_number = 2, m_max_requests = 1, m_work_queue = [], tp_actor_mode = 0\<rparr>"
  have p: "tp_new (\<lambda>_. True) 0 2 1 = Some p" by (simp add: tp_new_def p_def list_all_iff)
  have "\<exists>s. sem_execs tp_put tp_take ?ls (sem_start p []) = Some s \<and> take_log s = [Some 7]"
    by (simp add: sem_start_def p_def tp_put_def tp_take_def)
  then obtain s where "sem_run tp_put tp_take (sem_start p []) ?ls s" "take_log s = [Some 7]"
    using sem_execs_run by blast
  with thread_pool_fifo [OF p] p show ?thesis by blast
qed

end
