(* ===== verification/Web_Timer.thy ===== *)
theory Web_Timer
  imports Clang_Prelude
begin

text \<open>
  \<^verbatim>\<open>TinyWebServer/timer/lst_timer.cpp\<close>: the list of connection timers, doubly linked and meant to be
  sorted by expiry.  Timers are objects in a heap; \<open>t_live\<close> are the ones not yet deleted, and
  following a null pointer or a pointer to a deleted timer is \<open>None\<close>.  \<open>t_calls\<close> records the timers
  whose callback has run.

  Two assignments of the private \<^verbatim>\<open>add_timer\<close> are wrong: a timer inserted between two others gets
  itself as successor, and one appended at the end gets itself as predecessor.  The theorems show
  what is right nevertheless, adding at either end, adjusting and deleting at the head, and
  \<^verbatim>\<open>tick\<close>, none of which follows a \<open>prev\<close> link, and the lemmas at the end show what goes wrong.
\<close>

record tlist =
  t_head :: ptr
  t_tail :: ptr
  t_next :: "addr \<Rightarrow> ptr"
  t_prev :: "addr \<Rightarrow> ptr"
  t_expire :: "addr \<Rightarrow> int"
  t_live :: "addr set"
  t_calls :: "addr list"

definition timer_init :: "(addr \<Rightarrow> int) \<Rightarrow> addr set \<Rightarrow> tlist" where
  "timer_init expire live = \<lparr>t_head = None, t_tail = None, t_next = (\<lambda>_. None), t_prev = (\<lambda>_. None),
     t_expire = expire, t_live = live, t_calls = []\<rparr>"

definition obj :: "ptr \<Rightarrow> tlist \<Rightarrow> addr option" where
  "obj p s = (case p of Some a \<Rightarrow> if a \<in> t_live s then Some a else None | None \<Rightarrow> None)"

definition upd_next :: "addr \<Rightarrow> ptr \<Rightarrow> tlist \<Rightarrow> tlist" where
  "upd_next a p s = s\<lparr>t_next := (t_next s)(a := p)\<rparr>"

definition upd_prev :: "addr \<Rightarrow> ptr \<Rightarrow> tlist \<Rightarrow> tlist" where
  "upd_prev a p s = s\<lparr>t_prev := (t_prev s)(a := p)\<rparr>"

definition delete_timer :: "addr \<Rightarrow> tlist \<Rightarrow> tlist" where
  "delete_timer a s = s\<lparr>t_live := t_live s - {a}\<rparr>"

text \<open>The private \<^verbatim>\<open>add_timer\<close>: its loop, which returns whether it found a place, and the rest.\<close>

partial_function (option) add_walk :: "addr \<Rightarrow> addr \<Rightarrow> ptr \<Rightarrow> tlist \<Rightarrow> (bool \<times> tlist) option" where
  "add_walk timer prev tmp s =
     (case tmp of
        None \<Rightarrow> Some (False, s)
      | Some m \<Rightarrow> do {
          m \<leftarrow> obj (Some m) s;
          if t_expire s timer < t_expire s m
          then Some (True, upd_next timer (Some timer) (upd_prev m (Some timer)
                 (upd_prev timer (Some prev) (upd_next prev (Some timer) s))))
          else add_walk timer m (t_next s m) s })"

declare add_walk.simps [code]

definition add_timer_after :: "addr \<Rightarrow> ptr \<Rightarrow> tlist \<Rightarrow> tlist option" where
  "add_timer_after timer lst_head s = do {
     prev \<leftarrow> obj lst_head s;
     timer \<leftarrow> obj (Some timer) s;
     (found, s1) \<leftarrow> add_walk timer prev (t_next s prev) s;
     if found then Some s1
     else do {
       tl \<leftarrow> obj (t_tail s1) s1;
       Some ((upd_next timer None (upd_prev timer (Some timer) (upd_next tl (Some timer) s1)))
               \<lparr>t_tail := Some timer\<rparr>) } }"

definition add_timer :: "ptr \<Rightarrow> tlist \<Rightarrow> tlist option" where
  "add_timer timer s =
     (case timer of
        None \<Rightarrow> Some s
      | Some t \<Rightarrow>
          (case t_head s of
             None \<Rightarrow> Some (s\<lparr>t_head := Some t, t_tail := Some t\<rparr>)
           | Some h \<Rightarrow> do {
               t \<leftarrow> obj (Some t) s;
               h \<leftarrow> obj (Some h) s;
               if t_expire s t < t_expire s h
               then Some ((upd_next t (Some h) (upd_prev h (Some t) s))\<lparr>t_head := Some t\<rparr>)
               else add_timer_after t (t_head s) s }))"

definition adjust_timer :: "ptr \<Rightarrow> tlist \<Rightarrow> tlist option" where
  "adjust_timer timer s =
     (case timer of
        None \<Rightarrow> Some s
      | Some t \<Rightarrow>
          if t_head s = Some t \<and> t_tail s = Some t then Some s
          else do {
            t \<leftarrow> obj (Some t) s;
            case t_next s t of
              None \<Rightarrow> Some s
            | Some tmp \<Rightarrow> do {
                tmp \<leftarrow> obj (Some tmp) s;
                if t_expire s t < t_expire s tmp then Some s
                else if t_head s = Some t then
                  add_timer_after t (Some tmp)
                    (upd_next t None (upd_prev tmp None (s\<lparr>t_head := Some tmp\<rparr>)))
                else do {
                  p \<leftarrow> obj (t_prev s t) s;
                  let s1 = upd_next p (t_next s t) s;
                  n \<leftarrow> obj (t_next s1 t) s1;
                  let s2 = upd_prev n (t_prev s1 t) s1;
                  add_timer_after t (t_head s2) s2 } } })"

definition del_timer :: "ptr \<Rightarrow> tlist \<Rightarrow> tlist option" where
  "del_timer timer s =
     (case timer of
        None \<Rightarrow> Some s
      | Some t \<Rightarrow>
          if t_head s = Some t \<or> t_head s = t_tail s then
            (if t_head s = t_tail s then do {
               t \<leftarrow> obj (Some t) s;
               Some ((delete_timer t s)\<lparr>t_head := None, t_tail := None\<rparr>) }
             else if t_head s = Some t then do {
               h \<leftarrow> obj (t_head s) s;
               let s1 = s\<lparr>t_head := t_next s h\<rparr>;
               h' \<leftarrow> obj (t_head s1) s1;
               Some (delete_timer t (upd_prev h' None s1)) }
             else do {
               tl \<leftarrow> obj (t_tail s) s;
               let s1 = s\<lparr>t_tail := t_prev s tl\<rparr>;
               tl' \<leftarrow> obj (t_tail s1) s1;
               Some (delete_timer t (upd_next tl' None s1)) })
          else do {
            t \<leftarrow> obj (Some t) s;
            p \<leftarrow> obj (t_prev s t) s;
            let s1 = upd_next p (t_next s t) s;
            n \<leftarrow> obj (t_next s1 t) s1;
            let s2 = upd_prev n (t_prev s1 t) s1;
            Some (delete_timer t s2) })"

text \<open>\<^verbatim>\<open>tick\<close> at the time \<open>cur\<close>.\<close>

partial_function (option) tick_loop :: "int \<Rightarrow> ptr \<Rightarrow> tlist \<Rightarrow> tlist option" where
  "tick_loop cur tmp s =
     (case tmp of
        None \<Rightarrow> Some s
      | Some m \<Rightarrow> do {
          m \<leftarrow> obj (Some m) s;
          if t_expire s m > cur then Some s
          else do {
            let s1 = s\<lparr>t_head := t_next s m, t_calls := t_calls s @ [m]\<rparr>;
            s2 \<leftarrow> (case t_head s1 of
                      None \<Rightarrow> Some s1
                    | Some h \<Rightarrow> do { h \<leftarrow> obj (Some h) s1; Some (upd_prev h None s1) });
            let s3 = delete_timer m s2;
            tick_loop cur (t_head s3) s3 } })"

declare tick_loop.simps [code]

definition tick :: "int \<Rightarrow> tlist \<Rightarrow> tlist option" where
  "tick cur s = (case t_head s of None \<Rightarrow> Some s | Some h \<Rightarrow> tick_loop cur (Some h) s)"

text \<open>The destructor deletes every timer.\<close>

partial_function (option) timer_destroy_loop :: "ptr \<Rightarrow> tlist \<Rightarrow> tlist option" where
  "timer_destroy_loop tmp s =
     (case tmp of
        None \<Rightarrow> Some s
      | Some m \<Rightarrow> do {
          m \<leftarrow> obj (Some m) s;
          let s1 = delete_timer m (s\<lparr>t_head := t_next s m\<rparr>);
          timer_destroy_loop (t_head s1) s1 })"

declare timer_destroy_loop.simps [code]

definition timer_destroy :: "tlist \<Rightarrow> tlist option" where
  "timer_destroy s = timer_destroy_loop (t_head s) s"

subsection \<open>The forward list\<close>

definition fwd :: "tlist \<Rightarrow> addr list \<Rightarrow> bool" where
  "fwd s xs \<longleftrightarrow> chain (t_next s) (t_head s) xs None \<and> set xs \<subseteq> t_live s \<and> distinct xs \<and>
     (xs \<noteq> [] \<longrightarrow> t_tail s = Some (last xs)) \<and> sorted (map (t_expire s) xs)"

lemma obj_Some [simp]: "obj (Some a) s = (if a \<in> t_live s then Some a else None)"
  by (simp add: obj_def)

lemma obj_None [simp]: "obj None s = None"
  by (simp add: obj_def)

lemma upd_simps [simp]:
  "t_head (upd_next a p s) = t_head s" "t_tail (upd_next a p s) = t_tail s"
  "t_next (upd_next a p s) = (t_next s)(a := p)" "t_prev (upd_next a p s) = t_prev s"
  "t_expire (upd_next a p s) = t_expire s" "t_live (upd_next a p s) = t_live s"
  "t_calls (upd_next a p s) = t_calls s"
  "t_head (upd_prev a p s) = t_head s" "t_tail (upd_prev a p s) = t_tail s"
  "t_next (upd_prev a p s) = t_next s" "t_prev (upd_prev a p s) = (t_prev s)(a := p)"
  "t_expire (upd_prev a p s) = t_expire s" "t_live (upd_prev a p s) = t_live s"
  "t_calls (upd_prev a p s) = t_calls s"
  "t_head (delete_timer a s) = t_head s" "t_tail (delete_timer a s) = t_tail s"
  "t_next (delete_timer a s) = t_next s" "t_expire (delete_timer a s) = t_expire s"
  "t_live (delete_timer a s) = t_live s - {a}" "t_calls (delete_timer a s) = t_calls s"
  by (simp_all add: upd_next_def upd_prev_def delete_timer_def)

lemma add_walk_None [simp]: "add_walk t prev None s = Some (False, s)"
  by (subst add_walk.simps) simp

lemma add_walk_Some:
  "add_walk t prev (Some m) s = do {
     m \<leftarrow> obj (Some m) s;
     if t_expire s t < t_expire s m
     then Some (True, upd_next t (Some t) (upd_prev m (Some t)
            (upd_prev t (Some prev) (upd_next prev (Some t) s))))
     else add_walk t m (t_next s m) s }"
  by (subst add_walk.simps) simp

text \<open>The walk finds no place exactly when no remaining timer expires later; otherwise it makes the
  timer its own successor.\<close>

lemma add_walk_chain:
  "chain (t_next s) tmp xs None \<Longrightarrow> set xs \<subseteq> t_live s \<Longrightarrow>
     if \<forall>x \<in> set xs. t_expire s x \<le> t_expire s t
     then add_walk t prev tmp s = Some (False, s)
     else \<exists>s'. add_walk t prev tmp s = Some (True, s') \<and> t_next s' t = Some t"
proof (induction xs arbitrary: prev tmp)
  case (Cons x xs)
  then show ?case by (auto simp: add_walk_Some not_less)
qed simp

lemma chain_snoc:
  assumes "chain nx p xs None" "xs \<noteq> []" "t \<notin> set xs"
  shows "chain (nx(last xs := Some t, t := None)) p (xs @ [t]) None"
proof -
  obtain ys z where xs: "xs = ys @ [z]" using assms(2) by (metis append_butlast_last_id)
  have z: "z \<notin> set ys" using chain_NULL_distinct [OF assms(1)] xs by simp
  have "t \<notin> set ys" "t \<noteq> z" using assms(3) xs by auto
  with assms(1) xs z show ?thesis by (auto simp: chain_append)
qed

lemma add_timer_after_end:
  assumes f: "fwd s xs" and "xs \<noteq> []" "t \<notin> set xs" "t \<in> t_live s"
    and late: "\<forall>x \<in> set xs. t_expire s x \<le> t_expire s t"
  shows "\<exists>s'. add_timer_after t (t_head s) s = Some s' \<and> fwd s' (xs @ [t])
           \<and> t_calls s' = t_calls s \<and> t_live s' = t_live s \<and> t_expire s' = t_expire s"
proof -
  obtain h ys where xs: "xs = h # ys" using assms(2) by (cases xs) auto
  have hd: "t_head s = Some h" "h \<in> t_live s" and ys: "chain (t_next s) (t_next s h) ys None" "set ys \<subseteq> t_live s"
    using f xs by (auto simp: fwd_def)
  have walk: "add_walk t h (t_next s h) s = Some (False, s)"
    using add_walk_chain [OF ys, of t h] late xs by simp
  let ?s' = "(upd_next t None (upd_prev t (Some t) (upd_next (last xs) (Some t) s)))\<lparr>t_tail := Some t\<rparr>"
  have "add_timer_after t (t_head s) s = Some ?s'"
    using hd walk assms(2,4) f by (auto simp: add_timer_after_def fwd_def)
  moreover have "fwd ?s' (xs @ [t])"
    using f chain_snoc [of "t_next s" "t_head s" xs t] assms(2-) late
    by (auto simp: fwd_def sorted_append)
  ultimately show ?thesis by simp
qed

text \<open>Adding a timer at either end is right; between two others it makes the timer its own successor.\<close>

lemma add_timer_cases:
  assumes f: "fwd s xs" and "t \<notin> set xs" "t \<in> t_live s" and fresh: "t_next s t = None"
  shows "\<exists>s'. add_timer (Some t) s = Some s' \<and>
     (if xs = [] \<or> t_expire s t < t_expire s (hd xs) then fwd s' (t # xs) \<and> t_calls s' = t_calls s
        \<and> t_live s' = t_live s \<and> t_expire s' = t_expire s
      else if \<forall>x \<in> set xs. t_expire s x \<le> t_expire s t then fwd s' (xs @ [t]) \<and> t_calls s' = t_calls s
        \<and> t_live s' = t_live s \<and> t_expire s' = t_expire s
      else t_next s' t = Some t)"
proof (cases xs)
  case Nil
  with assms show ?thesis by (simp add: add_timer_def fwd_def)
next
  case (Cons h ys)
  have hd: "t_head s = Some h" "h \<in> t_live s" and ys: "chain (t_next s) (t_next s h) ys None" "set ys \<subseteq> t_live s"
    using f Cons by (auto simp: fwd_def)
  show ?thesis
  proof (cases "t_expire s t < t_expire s h")
    case True
    have "sorted (map (t_expire s) (t # xs))" using f True Cons by (fastforce simp: fwd_def)
    with True hd f assms Cons show ?thesis
      by (auto simp: add_timer_def fwd_def)
  next
    case False
    show ?thesis
    proof (cases "\<forall>x \<in> set xs. t_expire s x \<le> t_expire s t")
      case True
      with add_timer_after_end [OF f _ assms(2,3) True] hd False assms Cons show ?thesis
        by (auto simp: add_timer_def)
    next
      case mid: False
      then have "\<not> (\<forall>x \<in> set ys. t_expire s x \<le> t_expire s t)" using False Cons by auto
      with add_walk_chain [OF ys, of t h] obtain s' where
        "add_walk t h (t_next s h) s = Some (True, s')" "t_next s' t = Some t" by (auto split: if_splits)
      with mid False hd assms Cons show ?thesis
        by (auto simp: add_timer_def add_timer_after_def)
    qed
  qed
qed

lemma tick_loop_None [simp]: "tick_loop cur None s = Some s"
  by (subst tick_loop.simps) simp

lemma tick_loop_fwd:
  assumes "fwd s xs"
  shows "\<exists>s'. tick_loop cur (t_head s) s = Some s'
     \<and> fwd s' (dropWhile (\<lambda>x. t_expire s x \<le> cur) xs) \<and> t_expire s' = t_expire s
     \<and> t_calls s' = t_calls s @ takeWhile (\<lambda>x. t_expire s x \<le> cur) xs"
  using assms
proof (induction xs arbitrary: s)
  case Nil
  then show ?case by (auto simp: fwd_def)
next
  case (Cons x xs)
  then have x: "t_head s = Some x" "x \<in> t_live s" "chain (t_next s) (t_next s x) xs None"
    "set xs \<subseteq> t_live s" "x \<notin> set xs" "distinct xs" "sorted (map (t_expire s) xs)"
    by (auto simp: fwd_def)
  show ?case
  proof (cases "cur < t_expire s x")
    case True
    with x Cons.prems show ?thesis by (subst tick_loop.simps) simp
  next
    case False
    define s1 where "s1 = s\<lparr>t_head := t_next s x, t_calls := t_calls s @ [x]\<rparr>"
    define s2 where "s2 = (case t_next s x of None \<Rightarrow> s1 | Some h \<Rightarrow> upd_prev h None s1)"
    define s3 where "s3 = delete_timer x s2"
    have s3: "t_head s3 = t_next s x" "t_next s3 = t_next s" "t_expire s3 = t_expire s"
      "t_live s3 = t_live s - {x}" "t_calls s3 = t_calls s @ [x]" "t_tail s3 = t_tail s"
      by (simp_all add: s3_def s2_def s1_def split: option.splits)
    have f3: "fwd s3 xs"
      unfolding fwd_def s3 using x Cons.prems by (auto simp: fwd_def)
    have "t_next s x = Some h \<Longrightarrow> h \<in> t_live s" for h using x(3,4) by (cases xs) auto
    then have "tick_loop cur (t_head s) s = tick_loop cur (t_head s3) s3"
      using False x(1,2)
      by (subst tick_loop.simps) (auto simp: s1_def s2_def s3_def Let_def split: option.splits)
    with Cons.IH [OF f3] False show ?thesis by (auto simp: s3)
  qed
qed

subsection \<open>Sequences of operations\<close>

text \<open>The operations a server performs on the list: a new timer, a timer at the head whose time was
  moved, removal of the head, and the periodic tick.\<close>

datatype timer_op = T_add addr int | T_adjust int | T_del | T_tick int

definition new_timer :: "addr \<Rightarrow> int \<Rightarrow> tlist \<Rightarrow> tlist" where
  "new_timer t e s = s\<lparr>t_live := insert t (t_live s), t_next := (t_next s)(t := None),
     t_prev := (t_prev s)(t := None), t_expire := (t_expire s)(t := e)\<rparr>"

definition timer_do :: "timer_op \<Rightarrow> tlist \<Rightarrow> tlist option" where
  "timer_do c s = (case c of
      T_add t e \<Rightarrow> add_timer (Some t) (new_timer t e s)
    | T_adjust e \<Rightarrow> (case t_head s of
        None \<Rightarrow> None
      | Some h \<Rightarrow> adjust_timer (Some h) (s\<lparr>t_expire := (t_expire s)(h := e)\<rparr>))
    | T_del \<Rightarrow> del_timer (t_head s) s
    | T_tick cur \<Rightarrow> tick cur s)"

type_synonym agenda = "(addr \<times> int) list \<times> addr list"

definition at_end :: "int \<Rightarrow> (addr \<times> int) list \<Rightarrow> bool" where
  "at_end e xs \<longleftrightarrow> (\<forall>x \<in> set xs. snd x \<le> e)"

definition agenda_do :: "timer_op \<Rightarrow> agenda \<Rightarrow> agenda" where
  "agenda_do c a = (case a of (xs, calls) \<Rightarrow> (case c of
      T_add t e \<Rightarrow> (if xs = [] \<or> e < snd (hd xs) then (t, e) # xs else xs @ [(t, e)], calls)
    | T_adjust e \<Rightarrow> (case xs of
        [] \<Rightarrow> (xs, calls)
      | x # ys \<Rightarrow> (if ys = [] \<or> e < snd (hd ys) then (fst x, e) # ys else ys @ [(fst x, e)], calls))
    | T_del \<Rightarrow> (tl xs, calls)
    | T_tick cur \<Rightarrow> (dropWhile (\<lambda>x. snd x \<le> cur) xs,
                     calls @ map fst (takeWhile (\<lambda>x. snd x \<le> cur) xs))))"

definition timer_legal :: "timer_op \<Rightarrow> agenda \<Rightarrow> bool" where
  "timer_legal c a = (case a of (xs, calls) \<Rightarrow> (case c of
      T_add t e \<Rightarrow> t \<notin> fst ` set xs \<and> (xs = [] \<or> e < snd (hd xs) \<or> at_end e xs)
    | T_adjust e \<Rightarrow> (case xs of [] \<Rightarrow> False | x # ys \<Rightarrow> ys = [] \<or> e < snd (hd ys) \<or> at_end e ys)
    | T_del \<Rightarrow> xs \<noteq> []
    | T_tick cur \<Rightarrow> True))"

definition timer_rel :: "tlist \<Rightarrow> agenda \<Rightarrow> bool" where
  "timer_rel s a \<longleftrightarrow> fwd s (map fst (fst a)) \<and> map (t_expire s \<circ> fst) (fst a) = map snd (fst a)
     \<and> t_calls s = snd a"

lemma new_timer_simps [simp]:
  "t_head (new_timer t e s) = t_head s" "t_tail (new_timer t e s) = t_tail s"
  "t_next (new_timer t e s) = (t_next s)(t := None)"
  "t_expire (new_timer t e s) = (t_expire s)(t := e)" "t_calls (new_timer t e s) = t_calls s"
  "t_live (new_timer t e s) = insert t (t_live s)"
  by (simp_all add: new_timer_def)

lemma timer_rel_expire: "timer_rel s (xs, calls) \<Longrightarrow> x \<in> set xs \<Longrightarrow> t_expire s (fst x) = snd x"
  by (auto simp: timer_rel_def)

lemma fwd_new_timer: "fwd s xs \<Longrightarrow> t \<notin> set xs \<Longrightarrow> fwd (new_timer t e s) xs"
  by (auto simp: fwd_def)

lemma fwd_tail_ne:
  assumes "fwd s (h # y # zs)"
  shows "t_tail s \<noteq> Some h" "t_tail s = Some (last (y # zs))"
proof -
  have "last (y # zs) \<in> set (y # zs)" "h \<notin> set (y # zs)" using assms by (auto simp: fwd_def)
  with assms show "t_tail s \<noteq> Some h" "t_tail s = Some (last (y # zs))" by (auto simp: fwd_def)
qed

lemma timer_add_sim:
  assumes rel: "timer_rel s (xs, calls)" and ok: "timer_legal (T_add t e) (xs, calls)"
  shows "\<exists>s'. timer_do (T_add t e) s = Some s' \<and> timer_rel s' (agenda_do (T_add t e) (xs, calls))"
proof -
  define ys where "ys = map fst xs"
  define s1 where "s1 = new_timer t e s"
  have t: "t \<notin> set ys" using ok by (simp add: timer_legal_def ys_def)
  have f: "fwd s1 ys" using rel t by (simp add: timer_rel_def fwd_new_timer s1_def ys_def)
  have s1: "t \<in> t_live s1" "t_next s1 t = None" "t_calls s1 = calls" "t_expire s1 t = e"
    using rel by (simp_all add: s1_def timer_rel_def)
  have ex: "x \<in> set xs \<Longrightarrow> t_expire s1 (fst x) = snd x" for x
    using timer_rel_expire [OF rel] t by (auto simp: image_iff s1_def ys_def)
  have C: "ys = [] \<or> t_expire s1 t < t_expire s1 (hd ys) \<longleftrightarrow> xs = [] \<or> e < snd (hd xs)"
    using ex [of "hd xs"] s1(4) by (cases xs) (auto simp: ys_def)
  have D: "(\<forall>x \<in> set ys. t_expire s1 x \<le> t_expire s1 t) \<longleftrightarrow> at_end e xs"
    using ex s1(4) by (auto simp: at_end_def ys_def)
  have legal: "xs = [] \<or> e < snd (hd xs) \<or> at_end e xs" using ok by (simp add: timer_legal_def)
  obtain s' where s': "add_timer (Some t) s1 = Some s'" "t_calls s' = calls" "t_expire s' = t_expire s1"
    "fwd s' (if xs = [] \<or> e < snd (hd xs) then t # ys else ys @ [t])"
    using add_timer_cases [OF f t s1(1,2)] legal unfolding C D s1(3) by (auto split: if_splits)
  have "map (t_expire s1 \<circ> fst) xs = map snd xs" using ex by simp
  with s' s1(4) show ?thesis
    by (auto simp: timer_do_def agenda_do_def timer_rel_def s1_def [symmetric] ys_def)
qed

lemma timer_adjust_sim:
  assumes rel: "timer_rel s (xs, calls)" and ok: "timer_legal (T_adjust e) (xs, calls)"
  shows "\<exists>s'. timer_do (T_adjust e) s = Some s' \<and> timer_rel s' (agenda_do (T_adjust e) (xs, calls))"
proof -
  obtain h d ys where xs: "xs = (h, d) # ys" using ok by (cases xs) (auto simp: timer_legal_def)
  let ?s = "s\<lparr>t_expire := (t_expire s)(h := e)\<rparr>"
  have f: "fwd s (h # map fst ys)" using rel xs by (simp add: timer_rel_def)
  then have h: "t_head s = Some h" "h \<in> t_live s" "h \<notin> set (map fst ys)"
    and ch: "chain (t_next s) (t_next s h) (map fst ys) None" by (auto simp: fwd_def)
  have ex: "x \<in> set ys \<Longrightarrow> t_expire ?s (fst x) = snd x" for x
    using timer_rel_expire [OF rel] h(3) xs by (auto simp: image_iff)
  then have exs: "map (t_expire ?s \<circ> fst) ys = map snd ys" by simp
  show ?thesis
  proof (cases ys)
    case Nil
    with f h rel xs show ?thesis
      by (auto simp: timer_do_def adjust_timer_def agenda_do_def timer_rel_def fwd_def)
  next
    case (Cons y zs)
    then have nx: "t_next s h = Some (fst y)" "fst y \<in> t_live s" using f by (auto simp: fwd_def)
    have ne: "t_tail s \<noteq> Some h" using fwd_tail_ne(1) [of s h "fst y" "map fst zs"] f Cons by simp
    have ey: "t_expire s (fst y) = snd y" "fst y \<noteq> h"
      using timer_rel_expire [OF rel] xs Cons h(3) by auto
    show ?thesis
    proof (cases "e < snd y")
      case True
      have srt: "sorted (map (t_expire s) (map fst ys))" using f by (simp add: fwd_def del: map_map)
      then have "\<forall>x \<in> set (map fst ys). e \<le> t_expire s x" using True Cons ey(1) by auto
      with srt have "sorted (e # map (t_expire s) (map fst ys))" by (auto simp del: map_map)
      moreover have "map (t_expire ?s) (h # map fst ys) = e # map (t_expire s) (map fst ys)"
        using h(3) by auto
      ultimately have "sorted (map (t_expire ?s) (h # map fst ys))" by metis
      then have "fwd ?s (h # map fst ys)" using f by (simp add: fwd_def)
      with True nx ne h ey exs Cons xs rel show ?thesis
        by (auto simp: timer_do_def adjust_timer_def agenda_do_def timer_rel_def)
    next
      case False
      let ?s1 = "upd_next h None (upd_prev (fst y) None (?s\<lparr>t_head := Some (fst y)\<rparr>))"
      have "map (t_expire ?s1) (map fst ys) = map (t_expire s) (map fst ys)" using h(3) by auto
      moreover have "sorted (map (t_expire s) (map fst ys))" using f by (simp add: fwd_def del: map_map)
      ultimately have "sorted (map (t_expire ?s1) (map fst ys))" by metis
      then have f1: "fwd ?s1 (map fst ys)"
        using f h(3) Cons by (auto simp: fwd_def)
      have "\<forall>x \<in> set (map fst ys). t_expire ?s1 x \<le> t_expire ?s1 h"
        using ok False Cons xs ex by (auto simp: timer_legal_def at_end_def)
      with add_timer_after_end [OF f1 _ h(3), simplified] h(2) Cons obtain s' where
        "add_timer_after h (Some (fst y)) ?s1 = Some s'" "fwd s' (map fst ys @ [h])"
        "t_calls s' = t_calls s" "t_expire s' = t_expire ?s" by auto
      with False nx ne h ey exs Cons xs rel show ?thesis
        by (auto simp: timer_do_def adjust_timer_def agenda_do_def timer_rel_def)
    qed
  qed
qed

lemma timer_del_sim:
  assumes rel: "timer_rel s (xs, calls)" and ok: "timer_legal T_del (xs, calls)"
  shows "\<exists>s'. timer_do T_del s = Some s' \<and> timer_rel s' (agenda_do T_del (xs, calls))"
proof -
  obtain h ys where xs: "xs = h # ys" using ok by (cases xs) (auto simp: timer_legal_def)
  then have f: "fwd s (fst h # map fst ys)" using rel by (simp add: timer_rel_def)
  show ?thesis
  proof (cases ys)
    case Nil
    with f rel xs show ?thesis
      by (auto simp: timer_do_def del_timer_def agenda_do_def timer_rel_def fwd_def)
  next
    case (Cons y zs)
    let ?s1 = "upd_prev (fst y) None (s\<lparr>t_head := t_next s (fst h)\<rparr>)"
    have h: "t_head s = Some (fst h)" "fst h \<in> t_live s" "t_next s (fst h) = Some (fst y)"
      "fst y \<in> t_live s" "fst h \<notin> set (map fst ys)" using f Cons by (auto simp: fwd_def)
    have ne: "t_head s \<noteq> t_tail s"
      using fwd_tail_ne(1) [of s "fst h" "fst y" "map fst zs"] f Cons h(1) by simp
    have "del_timer (t_head s) s = Some (delete_timer (fst h) ?s1)"
      using h ne by (simp add: del_timer_def)
    moreover have "fwd (delete_timer (fst h) ?s1) (map fst ys)"
      using f h Cons unfolding fwd_def by (auto simp: image_iff)
    ultimately show ?thesis
      using rel xs by (simp add: timer_do_def agenda_do_def timer_rel_def)
  qed
qed

lemma timer_tick_sim:
  assumes rel: "timer_rel s (xs, calls)"
  shows "\<exists>s'. timer_do (T_tick cur) s = Some s' \<and> timer_rel s' (agenda_do (T_tick cur) (xs, calls))"
proof -
  let ?P = "\<lambda>x. t_expire s x \<le> cur"
  have f: "fwd s (map fst xs)" using rel by (simp add: timer_rel_def)
  have "tick cur s = tick_loop cur (t_head s) s" by (simp add: tick_def split: option.splits)
  with tick_loop_fwd [OF f, of cur] obtain s' where s': "tick cur s = Some s'"
    "fwd s' (dropWhile ?P (map fst xs))" "t_expire s' = t_expire s"
    "t_calls s' = t_calls s @ takeWhile ?P (map fst xs)" by auto
  have "dropWhile ?P (map fst xs) = map fst (dropWhile (\<lambda>x. snd x \<le> cur) xs)"
    "takeWhile ?P (map fst xs) = map fst (takeWhile (\<lambda>x. snd x \<le> cur) xs)"
    using timer_rel_expire [OF rel]
    by (auto simp: dropWhile_map takeWhile_map intro!: arg_cong [where f = "map fst"] dropWhile_cong takeWhile_cong)
  moreover have "map (t_expire s \<circ> fst) (dropWhile (\<lambda>x. snd x \<le> cur) xs) =
      map snd (dropWhile (\<lambda>x. snd x \<le> cur) xs)"
    using timer_rel_expire [OF rel] by (auto dest: set_dropWhileD)
  ultimately show ?thesis
    using s' rel by (auto simp: timer_do_def agenda_do_def timer_rel_def)
qed

interpretation timers: simulation timer_rel timer_do agenda_do timer_legal
proof
  fix s a c
  assume "timer_rel s a" "timer_legal c a"
  then show "\<exists>s'. timer_do c s = Some s' \<and> timer_rel s' (agenda_do c a)"
    using timer_add_sim timer_adjust_sim timer_del_sim timer_tick_sim
    by (cases a; cases c) auto
qed

text \<open>Claim C18: the timer list.  For every sequence of new timers that expire before the first or not
  before the last one, adjustments of the head to such a time, removals of the head and ticks,
  no operation follows a null or dangling pointer, the list stays sorted by expiry, and each
  tick runs the callbacks of exactly the timers that have expired, earliest first.\<close>

theorem timer_list_refines_agenda:
  assumes "ops_ok timer_legal agenda_do cs ([], [])"
  shows "\<exists>s'. run_ops timer_do cs (timer_init ex {}) = Some s'
           \<and> timer_rel s' (fold agenda_do cs ([], []))
           \<and> t_calls s' = snd (fold agenda_do cs ([], []))"
proof -
  have "timer_rel (timer_init ex {}) ([], [])" by (simp add: timer_rel_def timer_init_def fwd_def)
  from timers.run_sim [OF this assms] show ?thesis by (auto simp: timer_rel_def)
qed

theorem timer_list_refines_agenda_witness:
  "\<exists>s'. run_ops timer_do [T_add 1 15, T_add 2 20, T_add 3 20, T_adjust 40, T_tick 20, T_add 4 5]
       (timer_init (\<lambda>_. 0) {}) = Some s' \<and> t_calls s' = [2, 3] \<and> fwd s' [4, 1]"
  using timer_list_refines_agenda [of "[T_add 1 15, T_add 2 20, T_add 3 20, T_adjust 40, T_tick 20, T_add 4 5]" "\<lambda>_. 0"]
  by (auto simp: timer_legal_def agenda_do_def at_end_def timer_rel_def)

subsection \<open>What the wrong links break\<close>

text \<open>A timer between two others becomes its own successor, and the next tick that reaches it uses it
  after it was deleted; deleting the last timer follows a null pointer; deleting one in the middle
  leaves its predecessor pointing to the deleted timer, which the next tick follows.\<close>

lemmas timer_eval = timer_do_def add_timer_def add_timer_after_def add_walk_Some del_timer_def
  tick_def timer_init_def new_timer_def delete_timer_def upd_next_def upd_prev_def

lemma tick_loop_Some:
  "tick_loop cur (Some m) s = do {
     m \<leftarrow> obj (Some m) s;
     if t_expire s m > cur then Some s
     else do {
       let s1 = s\<lparr>t_head := t_next s m, t_calls := t_calls s @ [m]\<rparr>;
       s2 \<leftarrow> (case t_head s1 of
                 None \<Rightarrow> Some s1
               | Some h \<Rightarrow> do { h \<leftarrow> obj (Some h) s1; Some (upd_prev h None s1) });
       let s3 = delete_timer m s2;
       tick_loop cur (t_head s3) s3 } }"
  by (subst tick_loop.simps) simp

lemma insert_between_breaks:
  "run_ops timer_do [T_add 1 10, T_add 2 30, T_add 3 20, T_tick 20] (timer_init (\<lambda>_. 0) {}) = None"
  by (simp add: timer_eval tick_loop_Some)

lemma delete_last_breaks:
  "Option.bind (run_ops timer_do [T_add 1 10, T_add 2 20] (timer_init (\<lambda>_. 0) {})) (del_timer (Some 2)) = None"
  by (simp add: timer_eval)

lemma delete_middle_breaks:
  "\<exists>s. Option.bind (run_ops timer_do [T_add 1 10, T_add 2 20, T_add 3 30] (timer_init (\<lambda>_. 0) {}))
      (del_timer (Some 2)) = Some s \<and> tick 50 s = None"
  by (simp add: timer_eval tick_loop_Some)

end
