(* ===== verification/Queue_Threads.thy ===== *)
theory Queue_Threads
  imports Main
begin

text \<open>
  What the two blocking queues of the repository (\<^verbatim>\<open>TinyWebServer/log/block_queue.h\<close> and
  \<^verbatim>\<open>videoedit/src/xexec/block_queue.h\<close>) have in common: the contract of a queue guarded by one mutex,
  as the locale \<open>fifo_queue\<close>, and a system of threads that use it.

  A thread in a blocking \<^verbatim>\<open>pop\<close> that finds the queue empty sleeps on the condition variable
  (\<open>sleepers\<close>); when it has been woken, by a notification or spuriously, it is in \<open>woken\<close> until it
  has the mutex again and repeats its test.  \<open>Put x ts\<close> is a push that wakes the threads \<open>ts\<close>: all
  sleepers for \<^verbatim>\<open>broadcast\<close>, at least one (if there is one) for \<^verbatim>\<open>notify_one\<close>.
\<close>

record ('a, 'q) qsys =
  que :: 'q
  sleepers :: "nat set"
  woken :: "nat set"
  accepted :: "'a list"
  got :: "(nat \<times> 'a) list"

datatype 'a q_action = Put 'a "nat set" | Get nat | Wake nat | Give_up nat

definition q_put :: "('a \<Rightarrow> 'q \<Rightarrow> bool \<times> 'q) \<Rightarrow> 'a \<Rightarrow> nat set \<Rightarrow> ('a, 'q) qsys \<Rightarrow> ('a, 'q) qsys option" where
  "q_put push x ts s =
     (if ts \<subseteq> sleepers s \<and> (sleepers s \<noteq> {} \<longrightarrow> ts \<noteq> {}) then
        (case push x (que s) of (b, q') \<Rightarrow>
           Some (s\<lparr>que := q', sleepers := sleepers s - ts, woken := woken s \<union> ts,
                   accepted := accepted s @ (if b then [x] else [])\<rparr>))
      else None)"

text \<open>A thread passes the test of \<^verbatim>\<open>pop\<close>, at its call or after it was woken.\<close>

definition q_get :: "('q \<Rightarrow> ('a \<times> 'q) option) \<Rightarrow> nat \<Rightarrow> ('a, 'q) qsys \<Rightarrow> ('a, 'q) qsys option" where
  "q_get pop t s =
     (if t \<in> sleepers s then None
      else (case pop (que s) of
              None \<Rightarrow> Some (s\<lparr>sleepers := insert t (sleepers s), woken := woken s - {t}\<rparr>)
            | Some (x, q') \<Rightarrow> Some (s\<lparr>que := q', woken := woken s - {t}, got := got s @ [(t, x)]\<rparr>)))"

fun q_exec :: "('a \<Rightarrow> 'q \<Rightarrow> bool \<times> 'q) \<Rightarrow> ('q \<Rightarrow> ('a \<times> 'q) option) \<Rightarrow> 'a q_action
    \<Rightarrow> ('a, 'q) qsys \<Rightarrow> ('a, 'q) qsys option" where
  "q_exec push pop (Put x ts) s = q_put push x ts s"
| "q_exec push pop (Get t) s = q_get pop t s"
| "q_exec push pop (Wake t) s =
     (if t \<in> sleepers s
      then Some (s\<lparr>sleepers := sleepers s - {t}, woken := insert t (woken s)\<rparr>) else None)"
| "q_exec push pop (Give_up t) s =
     (if t \<in> sleepers s then Some (s\<lparr>sleepers := sleepers s - {t}\<rparr>) else None)"

fun q_run :: "('a \<Rightarrow> 'q \<Rightarrow> bool \<times> 'q) \<Rightarrow> ('q \<Rightarrow> ('a \<times> 'q) option) \<Rightarrow> 'a q_action list
    \<Rightarrow> ('a, 'q) qsys \<Rightarrow> ('a, 'q) qsys option" where
  "q_run push pop [] s = Some s"
| "q_run push pop (a # as) s =
     (case q_exec push pop a s of None \<Rightarrow> None | Some s' \<Rightarrow> q_run push pop as s')"

definition q_start :: "'q \<Rightarrow> ('a, 'q) qsys" where
  "q_start q = \<lparr>que = q, sleepers = {}, woken = {}, accepted = [], got = []\<rparr>"

text \<open>The contract: \<open>abs\<close> is the content, a push appends or is refused, a pop takes the head or finds
  the queue empty.\<close>

locale fifo_queue =
  fixes inv :: "'q \<Rightarrow> bool"
    and abs :: "'q \<Rightarrow> 'a list"
    and push :: "'a \<Rightarrow> 'q \<Rightarrow> bool \<times> 'q"
    and pop :: "'q \<Rightarrow> ('a \<times> 'q) option"
  assumes push_law: "inv q \<Longrightarrow> push x q = (b, q') \<Longrightarrow>
      inv q' \<and> abs q' = abs q @ (if b then [x] else [])"
    and pop_None: "inv q \<Longrightarrow> pop q = None \<Longrightarrow> abs q = []"
    and pop_Some: "inv q \<Longrightarrow> pop q = Some (x, q') \<Longrightarrow> inv q' \<and> abs q = x # abs q'"
begin

definition q_ok :: "('a, 'q) qsys \<Rightarrow> bool" where
  "q_ok s \<longleftrightarrow> inv (que s) \<and> finite (sleepers s) \<and> finite (woken s) \<and>
     accepted s = map snd (got s) @ abs (que s) \<and>
     (sleepers s \<noteq> {} \<longrightarrow> length (abs (que s)) \<le> card (woken s))"

lemma q_ok_start: "inv q \<Longrightarrow> abs q = [] \<Longrightarrow> q_ok (q_start q)"
  by (simp add: q_ok_def q_start_def)

lemma q_put_ok:
  assumes ok: "q_ok s" and disj: "sleepers s \<inter> woken s = {}" and ex: "q_put push x ts s = Some s'"
  shows "q_ok s'"
proof -
  obtain b q' where p: "push x (que s) = (b, q')" by fastforce
  from ex have ts: "ts \<subseteq> sleepers s" "sleepers s \<noteq> {} \<longrightarrow> ts \<noteq> {}"
    and s': "s' = s\<lparr>que := q', sleepers := sleepers s - ts, woken := woken s \<union> ts,
                     accepted := accepted s @ (if b then [x] else [])\<rparr>"
    by (auto simp: q_put_def p split: if_splits)
  note law = push_law [OF _ p]
  have fin: "finite ts" using ts(1) ok by (auto simp: q_ok_def intro: finite_subset)
  have "card (woken s \<union> ts) = card (woken s) + card ts"
    using disj ts(1) fin ok by (intro card_Un_disjoint) (auto simp: q_ok_def)
  moreover have "sleepers s \<noteq> {} \<Longrightarrow> 1 \<le> card ts"
    using ts(2) fin by (simp add: Suc_le_eq card_gt_0_iff)
  ultimately show ?thesis
    using ok law fin unfolding s' q_ok_def by (cases "sleepers s = {}") (auto split: if_splits)
qed

lemma q_get_ok:
  assumes ok: "q_ok s" and ex: "q_get pop t s = Some s'"
  shows "q_ok s'"
proof (cases "pop (que s)")
  case None
  with ex have "s' = s\<lparr>sleepers := insert t (sleepers s), woken := woken s - {t}\<rparr>"
    by (auto simp: q_get_def split: if_splits)
  with ok pop_None [OF _ None] show ?thesis by (simp add: q_ok_def)
next
  case (Some p)
  obtain x q' where p: "p = (x, q')" by fastforce
  with Some ex have s': "s' = s\<lparr>que := q', woken := woken s - {t}, got := got s @ [(t, x)]\<rparr>"
    by (auto simp: q_get_def split: if_splits)
  have "card (woken s) \<le> Suc (card (woken s - {t}))"
    using ok by (metis card_Diff1_le card_Suc_Diff1 Diff_empty Diff_insert0 finite_Diff le_SucI
        order_refl q_ok_def)
  with ok pop_Some [OF _ Some [unfolded p]] show ?thesis
    unfolding s' q_ok_def by auto
qed

lemma q_exec_ok:
  assumes "q_ok s" "sleepers s \<inter> woken s = {}" "q_exec push pop a s = Some s'"
  shows "q_ok s' \<and> sleepers s' \<inter> woken s' = {}"
proof (cases a)
  case (Put x ts)
  then have "sleepers s' \<inter> woken s' = {}"
    using assms by (auto simp: q_put_def split: if_splits prod.splits)
  with Put assms q_put_ok show ?thesis by simp
next
  case (Get t)
  then have "sleepers s' \<inter> woken s' = {}"
    using assms by (auto simp: q_get_def split: if_splits option.splits)
  with Get assms q_get_ok show ?thesis by simp
next
  case (Wake t)
  with assms show ?thesis
    by (auto simp: q_ok_def card_insert_if split: if_splits)
next
  case (Give_up t)
  with assms show ?thesis by (auto simp: q_ok_def split: if_splits)
qed

text \<open>Under any interleaving, what the consumers got is a prefix, in order, of what was accepted, the
  queue holds the rest, and while it holds something a sleeper is accompanied by a woken thread.\<close>

lemma q_run_ok:
  "q_run push pop as s = Some s' \<Longrightarrow> q_ok s \<Longrightarrow> sleepers s \<inter> woken s = {} \<Longrightarrow>
     q_ok s' \<and> sleepers s' \<inter> woken s' = {}"
proof (induction as arbitrary: s)
  case (Cons a as)
  then obtain s1 where "q_exec push pop a s = Some s1" "q_run push pop as s1 = Some s'"
    by (auto split: option.splits)
  with Cons q_exec_ok show ?case by metis
qed simp

lemma run_fifo:
  assumes "q_run push pop as (q_start q) = Some s" "inv q" "abs q = []"
  shows "accepted s = map snd (got s) @ abs (que s)
     \<and> (sleepers s \<noteq> {} \<and> abs (que s) \<noteq> [] \<longrightarrow> woken s \<noteq> {})"
proof -
  have "q_ok s" using q_run_ok [OF assms(1)] q_ok_start [OF assms(2,3)] by (simp add: q_start_def)
  then show ?thesis by (auto simp: q_ok_def)
qed

end

end
