(* ===== verification/Web_Queue.thy ===== *)
theory Web_Queue
  imports Queue_Threads
begin

text \<open>
  \<^verbatim>\<open>TinyWebServer/log/block_queue.h\<close>: the bounded blocking queue between the request threads and
  the logging thread, a ring buffer guarded by one mutex and one condition variable.

  Every method holds the mutex from its first to its last statement, so a method body is one
  atomic step; only \<^verbatim>\<open>pop\<close> gives the mutex up, inside \<^verbatim>\<open>m_cond.wait\<close>, and its body is therefore cut
  there.  The indices are C integers that start at -1.  An access outside the array is \<open>None\<close>.

  The first part shows that the ring buffer refines a bounded list under any sequence of method
  calls.  The second part has any number of threads: elements leave in the order in which they
  were accepted, and no thread sleeps while the queue holds an element.
\<close>

subsection \<open>The ring buffer\<close>

record 'a bq =
  m_array :: "'a list"
  m_size :: int
  m_max_size :: int
  m_front :: int
  m_back :: int

text \<open>The constructor exits for a capacity that is not positive; \<open>junk\<close> is what \<^verbatim>\<open>new T[max_size]\<close>
  holds.\<close>

definition bq_new :: "'a \<Rightarrow> int \<Rightarrow> 'a bq option" where
  "bq_new junk max_size =
     (if max_size \<le> 0 then None
      else Some \<lparr>m_array = replicate (nat max_size) junk, m_size = 0, m_max_size = max_size,
                  m_front = - 1, m_back = - 1\<rparr>)"

definition bq_clear :: "'a bq \<Rightarrow> 'a bq" where
  "bq_clear q = q\<lparr>m_size := 0, m_front := - 1, m_back := - 1\<rparr>"

definition bq_full :: "'a bq \<Rightarrow> bool" where
  "bq_full q \<longleftrightarrow> m_size q \<ge> m_max_size q"

definition bq_empty :: "'a bq \<Rightarrow> bool" where
  "bq_empty q \<longleftrightarrow> m_size q \<le> 0"

definition array_get :: "'a list \<Rightarrow> int \<Rightarrow> 'a option" where
  "array_get xs i = (if 0 \<le> i \<and> nat i < length xs then Some (xs ! nat i) else None)"

text \<open>\<^verbatim>\<open>front\<close> and \<^verbatim>\<open>back\<close>: the outer option is the undefined access, the inner one the result (\<open>None\<close>
  for \<^verbatim>\<open>false\<close>).\<close>

definition bq_front :: "'a bq \<Rightarrow> 'a option option" where
  "bq_front q = (if m_size q \<le> 0 then Some None else map_option Some (array_get (m_array q) (m_front q)))"

definition bq_back :: "'a bq \<Rightarrow> 'a option option" where
  "bq_back q = (if m_size q \<le> 0 then Some None else map_option Some (array_get (m_array q) (m_back q)))"

definition bq_push :: "'a \<Rightarrow> 'a bq \<Rightarrow> bool \<times> 'a bq" where
  "bq_push item q =
     (if m_size q \<ge> m_max_size q then (False, q)
      else let back = (m_back q + 1) mod m_max_size q
           in (True, q\<lparr>m_back := back, m_array := (m_array q)[nat back := item],
                        m_size := m_size q + 1\<rparr>))"

text \<open>The end of both \<^verbatim>\<open>pop\<close>s, after the checks.\<close>

definition bq_take :: "'a bq \<Rightarrow> 'a \<times> 'a bq" where
  "bq_take q =
     (let front = (m_front q + 1) mod m_max_size q
      in (m_array q ! nat front, q\<lparr>m_front := front, m_size := m_size q - 1\<rparr>))"

text \<open>One passage through \<^verbatim>\<open>pop\<close> from the acquisition of the mutex, at its start or when
  \<^verbatim>\<open>m_cond.wait\<close> returns, to the point where it waits (again), \<open>None\<close>, or returns the element.\<close>

definition bq_pop :: "'a bq \<Rightarrow> ('a \<times> 'a bq) option" where
  "bq_pop q = (if m_size q \<le> 0 then None else Some (bq_take q))"

text \<open>\<^verbatim>\<open>pop\<close> with a timeout: \<open>timed_out\<close> is the result of the wait when the queue was empty, and \<open>q'\<close> the
  queue when the mutex is held again.\<close>

definition bq_pop_timeout :: "bool \<Rightarrow> 'a bq \<Rightarrow> 'a bq \<Rightarrow> 'a option \<times> 'a bq" where
  "bq_pop_timeout timed_out q q' =
     (if m_size q \<le> 0
      then (if timed_out \<or> m_size q' \<le> 0 then (None, q')
            else (case bq_take q' of (x, q'') \<Rightarrow> (Some x, q'')))
      else (case bq_take q of (x, q'') \<Rightarrow> (Some x, q'')))"

text \<open>The deadline \<^verbatim>\<open>pop\<close> computes from the current seconds: seconds and nanoseconds.\<close>

definition bq_deadline :: "int \<Rightarrow> int \<Rightarrow> int \<times> int" where
  "bq_deadline now_sec ms_timeout = (now_sec + ms_timeout div 1000, (ms_timeout mod 1000) * 1000)"

subsection \<open>Refinement of a bounded list\<close>

definition bq_inv :: "'a bq \<Rightarrow> bool" where
  "bq_inv q \<longleftrightarrow> 0 < m_max_size q \<and> length (m_array q) = nat (m_max_size q) \<and>
     0 \<le> m_size q \<and> m_size q \<le> m_max_size q \<and>
     - 1 \<le> m_front q \<and> m_front q < m_max_size q \<and> - 1 \<le> m_back q \<and> m_back q < m_max_size q \<and>
     m_back q mod m_max_size q = (m_front q + m_size q) mod m_max_size q \<and>
     (0 < m_size q \<longrightarrow> 0 \<le> m_back q)"

definition bq_slot :: "'a bq \<Rightarrow> nat \<Rightarrow> nat" where
  "bq_slot q i = nat ((m_front q + 1 + int i) mod m_max_size q)"

definition bq_abs :: "'a bq \<Rightarrow> 'a list" where
  "bq_abs q = map (\<lambda>i. m_array q ! bq_slot q i) [0..<nat (m_size q)]"

lemma bq_new_inv: "bq_new junk n = Some q \<Longrightarrow> bq_inv q \<and> bq_abs q = [] \<and> m_max_size q = n"
  by (auto simp: bq_new_def bq_inv_def bq_abs_def split: if_splits)

lemma bq_clear_inv: "bq_inv q \<Longrightarrow> bq_inv (bq_clear q) \<and> bq_abs (bq_clear q) = []"
  by (simp add: bq_clear_def bq_inv_def bq_abs_def)

lemma length_bq_abs [simp]: "length (bq_abs q) = nat (m_size q)"
  by (simp add: bq_abs_def)

text \<open>The slots in use are distinct, and the one after them is where the next element goes.\<close>

lemma mod_shift_inj:
  fixes a m :: int
  assumes "(a + int i) mod m = (a + int j) mod m" "int i < m" "int j < m"
  shows "i = j"
proof (rule ccontr)
  assume "i \<noteq> j"
  have "m dvd (a + int i) - (a + int j)" using assms(1) by (simp add: mod_eq_dvd_iff)
  then have "m dvd int i - int j" by simp
  then have "\<bar>m\<bar> \<le> \<bar>int i - int j\<bar>" using \<open>i \<noteq> j\<close> dvd_imp_le_int [of "int i - int j" m] by simp
  with assms(2,3) show False by linarith
qed

lemma mod_range: "0 < (m :: int) \<Longrightarrow> - 1 \<le> a mod m \<and> 0 \<le> a mod m \<and> a mod m < m"
  using pos_mod_sign [of m a] pos_mod_bound [of m a] by linarith

lemma bq_slot_inj:
  "bq_inv q \<Longrightarrow> int i < m_max_size q \<Longrightarrow> int j < m_max_size q \<Longrightarrow> bq_slot q i = bq_slot q j \<longleftrightarrow> i = j"
  using mod_shift_inj [of "m_front q + 1" i "m_max_size q" j]
  by (auto simp: bq_slot_def bq_inv_def nat_eq_iff)

lemma bq_back_slot:
  "bq_inv q \<Longrightarrow> nat ((m_back q + 1) mod m_max_size q) = bq_slot q (nat (m_size q))"
  unfolding bq_slot_def bq_inv_def
  by (metis (no_types, opaque_lifting) add.assoc add.commute int_nat_eq mod_add_left_eq)

lemma bq_slot_less: "bq_inv q \<Longrightarrow> bq_slot q i < length (m_array q)"
  by (simp add: bq_slot_def bq_inv_def nat_less_iff)

lemma bq_push_refines:
  assumes inv: "bq_inv q"
  shows "if bq_full q then bq_push x q = (False, q) \<and> length (bq_abs q) = nat (m_max_size q)
         else \<exists>q'. bq_push x q = (True, q') \<and> bq_inv q' \<and> bq_abs q' = bq_abs q @ [x]
                \<and> m_max_size q' = m_max_size q"
proof (cases "bq_full q")
  case True
  with inv show ?thesis by (simp add: bq_full_def bq_push_def bq_inv_def)
next
  case False
  let ?n = "nat (m_size q)" and ?m = "m_max_size q"
  let ?bpos = "(m_back q + 1) mod ?m"
  define q' where "q' = q\<lparr>m_back := ?bpos, m_array := (m_array q)[nat ?bpos := x], m_size := m_size q + 1\<rparr>"
  have n: "m_size q = int ?n" "int ?n < ?m" using inv False by (auto simp: bq_inv_def bq_full_def)
  have slot: "bq_slot q' = bq_slot q" by (rule ext) (simp add: bq_slot_def q'_def)
  have bk: "nat ?bpos = bq_slot q ?n" by (rule bq_back_slot [OF inv])
  have kept: "m_array q' ! bq_slot q i = m_array q ! bq_slot q i" if "i < ?n" for i
    using that n bq_slot_inj [OF inv, of i ?n] by (simp add: q'_def bk)
  have added: "m_array q' ! bq_slot q ?n = x"
    using bq_slot_less [OF inv] by (simp add: q'_def bk)
  have "nat (m_size q') = Suc ?n" using n(1) by (simp add: q'_def nat_add_distrib split: if_splits)
  then have "bq_abs q' = bq_abs q @ [x]"
    using kept added by (simp add: bq_abs_def slot)
  moreover have "0 < ?m" "0 \<le> m_size q" "m_size q < ?m"
    using inv False by (simp_all add: bq_inv_def bq_full_def)
  then have "bq_inv q'"
    using inv mod_add_left_eq [of "m_back q" ?m 1] mod_add_left_eq [of "m_front q + m_size q" ?m 1]
      mod_range [of ?m "m_back q + 1"]
    unfolding bq_inv_def q'_def by (simp add: add.assoc)
  ultimately show ?thesis
    using False by (simp add: bq_push_def bq_full_def q'_def Let_def)
qed

lemma bq_take_refines:
  assumes inv: "bq_inv q" and ne: "0 < m_size q"
  shows "\<exists>x q'. bq_take q = (x, q') \<and> bq_inv q' \<and> bq_abs q = x # bq_abs q'
           \<and> m_max_size q' = m_max_size q"
proof -
  let ?m = "m_max_size q" and ?front = "(m_front q + 1) mod m_max_size q"
  define q' where "q' = q\<lparr>m_front := ?front, m_size := m_size q - 1\<rparr>"
  obtain n where n: "nat (m_size q) = Suc n" "nat (m_size q') = n"
    using ne by (cases "nat (m_size q)") (auto simp: q'_def)
  have slot: "bq_slot q' i = bq_slot q (Suc i)" for i
    using mod_add_left_eq [of "m_front q + 1" ?m "1 + int i"]
    by (simp add: bq_slot_def q'_def algebra_simps)
  have "bq_abs q = m_array q ! bq_slot q 0 # bq_abs q'"
    unfolding bq_abs_def n slot by (simp add: q'_def upt_conv_Cons map_Suc_upt [symmetric] del: upt_Suc)
  moreover have "bq_slot q 0 = nat ?front" by (simp add: bq_slot_def)
  moreover have "bq_inv q'"
    using inv ne mod_add_left_eq [of "m_front q + 1" ?m "m_size q - 1"] mod_range [of ?m "m_front q + 1"]
    unfolding bq_inv_def q'_def by simp
  ultimately show ?thesis by (auto simp: bq_take_def q'_def Let_def)
qed

interpretation bqq: fifo_queue bq_inv bq_abs bq_push bq_pop
proof
  fix q x b q'
  assume "bq_inv q" "bq_push x q = (b, q')"
  then show "bq_inv q' \<and> bq_abs q' = bq_abs q @ (if b then [x] else [])"
    using bq_push_refines [of q x] by (auto split: if_splits)
next
  fix q
  assume "bq_inv q" "bq_pop q = None"
  then show "bq_abs q = []" by (simp add: bq_pop_def bq_abs_def split: if_splits)
next
  fix q x q'
  assume "bq_inv q" "bq_pop q = Some (x, q')"
  then show "bq_inv q' \<and> bq_abs q = x # bq_abs q'"
    using bq_take_refines [of q] by (auto simp: bq_pop_def split: if_splits)
qed

subsection \<open>Method calls against the bounded list\<close>

datatype 'a bq_op = Op_push 'a | Op_pop | Op_clear | Op_back | Op_full | Op_empty | Op_size

datatype 'a bq_reply = R_bool bool | R_item "'a option" | R_int int | R_unit

definition bq_call :: "'a bq_op \<Rightarrow> 'a bq \<Rightarrow> ('a bq_reply \<times> 'a bq) option" where
  "bq_call c q = (case c of
      Op_push x \<Rightarrow> (case bq_push x q of (b, q') \<Rightarrow> Some (R_bool b, q'))
    | Op_pop \<Rightarrow> (case bq_pop q of None \<Rightarrow> Some (R_item None, q) | Some (x, q') \<Rightarrow> Some (R_item (Some x), q'))
    | Op_clear \<Rightarrow> Some (R_unit, bq_clear q)
    | Op_back \<Rightarrow> (case bq_back q of None \<Rightarrow> None | Some r \<Rightarrow> Some (R_item r, q))
    | Op_full \<Rightarrow> Some (R_bool (bq_full q), q)
    | Op_empty \<Rightarrow> Some (R_bool (bq_empty q), q)
    | Op_size \<Rightarrow> Some (R_int (m_size q), q))"

text \<open>The specification: a list of at most \<open>n\<close> elements.\<close>

definition blist_call :: "nat \<Rightarrow> 'a bq_op \<Rightarrow> 'a list \<Rightarrow> 'a bq_reply \<times> 'a list" where
  "blist_call n c xs = (case c of
      Op_push x \<Rightarrow> if length xs < n then (R_bool True, xs @ [x]) else (R_bool False, xs)
    | Op_pop \<Rightarrow> (case xs of [] \<Rightarrow> (R_item None, xs) | y # ys \<Rightarrow> (R_item (Some y), ys))
    | Op_clear \<Rightarrow> (R_unit, [])
    | Op_back \<Rightarrow> (R_item (if xs = [] then None else Some (last xs)), xs)
    | Op_full \<Rightarrow> (R_bool (length xs = n), xs)
    | Op_empty \<Rightarrow> (R_bool (xs = []), xs)
    | Op_size \<Rightarrow> (R_int (int (length xs)), xs))"

fun bq_calls :: "'a bq_op list \<Rightarrow> 'a bq \<Rightarrow> ('a bq_reply list \<times> 'a bq) option" where
  "bq_calls [] q = Some ([], q)"
| "bq_calls (c # cs) q = (case bq_call c q of
      None \<Rightarrow> None
    | Some (r, q') \<Rightarrow> (case bq_calls cs q' of None \<Rightarrow> None | Some (rs, q'') \<Rightarrow> Some (r # rs, q'')))"

fun blist_calls :: "nat \<Rightarrow> 'a bq_op list \<Rightarrow> 'a list \<Rightarrow> 'a bq_reply list \<times> 'a list" where
  "blist_calls n [] xs = ([], xs)"
| "blist_calls n (c # cs) xs =
     (let (r, ys) = blist_call n c xs; (rs, zs) = blist_calls n cs ys in (r # rs, zs))"

lemma bq_abs_empty: "bq_inv q \<Longrightarrow> bq_abs q = [] \<longleftrightarrow> m_size q \<le> 0"
  by (simp add: bq_abs_def bq_inv_def)

text \<open>The last element stands where \<open>m_back\<close> points.\<close>

lemma bq_back_last:
  assumes inv: "bq_inv q" and ne: "0 < m_size q"
  shows "bq_back q = Some (Some (last (bq_abs q)))"
proof -
  have n: "nat (m_size q) = Suc (nat (m_size q) - 1)" using ne by simp
  have m: "0 < m_max_size q" "m_back q mod m_max_size q = (m_front q + m_size q) mod m_max_size q"
    using inv by (simp_all add: bq_inv_def)
  have slot: "bq_slot q (nat (m_size q) - 1) = nat (m_back q mod m_max_size q)"
    using ne m(2) by (simp add: bq_slot_def of_nat_diff)
  have "last (bq_abs q) = m_array q ! nat (m_back q mod m_max_size q)"
    unfolding bq_abs_def slot [symmetric] by (subst n) simp
  moreover have "0 \<le> m_back q" "m_back q < m_max_size q" using inv ne by (simp_all add: bq_inv_def)
  moreover from this have "m_back q mod m_max_size q = m_back q" by simp
  ultimately show ?thesis
    using inv ne by (simp add: bq_back_def array_get_def bq_inv_def nat_less_iff)
qed

lemma bq_call_refines:
  assumes inv: "bq_inv q" and n: "m_max_size q = int n"
  shows "\<exists>r q'. bq_call c q = Some (r, q') \<and> bq_inv q' \<and> m_max_size q' = int n
           \<and> blist_call n c (bq_abs q) = (r, bq_abs q')"
proof (cases c)
  case (Op_push x)
  with bq_push_refines [OF inv, of x] n inv show ?thesis
    by (auto simp: bq_call_def blist_call_def bq_full_def bq_inv_def nat_less_iff split: if_splits)
next
  case Op_pop
  show ?thesis
  proof (cases "0 < m_size q")
    case True
    with bq_take_refines [OF inv True] n Op_pop show ?thesis
      by (auto simp: bq_call_def bq_pop_def blist_call_def)
  next
    case False
    with bq_abs_empty [OF inv] inv n Op_pop show ?thesis
      by (auto simp: bq_call_def bq_pop_def blist_call_def)
  qed
next
  case Op_clear
  with bq_clear_inv [OF inv] n show ?thesis
    by (auto simp: bq_call_def blist_call_def bq_clear_def)
next
  case Op_back
  with bq_back_last [OF inv] bq_abs_empty [OF inv] inv n show ?thesis
    by (cases "0 < m_size q") (auto simp: bq_call_def blist_call_def bq_back_def [of q])
next
  case Op_full
  have "m_size q \<ge> m_max_size q \<longleftrightarrow> nat (m_size q) = n"
    using inv n unfolding bq_inv_def by linarith
  with Op_full inv n show ?thesis by (simp add: bq_call_def blist_call_def bq_full_def)
next
  case Op_empty
  with bq_abs_empty [OF inv] inv n show ?thesis
    by (auto simp: bq_call_def blist_call_def bq_empty_def)
next
  case Op_size
  with inv n show ?thesis by (auto simp: bq_call_def blist_call_def bq_inv_def)
qed

lemma bq_calls_refine:
  "bq_inv q \<Longrightarrow> m_max_size q = int n \<Longrightarrow>
     \<exists>rs q'. bq_calls cs q = Some (rs, q') \<and> bq_inv q' \<and> blist_calls n cs (bq_abs q) = (rs, bq_abs q')"
proof (induction cs arbitrary: q)
  case (Cons c cs)
  from bq_call_refines [OF Cons.prems, of c] obtain r q' where
    c: "bq_call c q = Some (r, q')" "bq_inv q'" "m_max_size q' = int n"
      "blist_call n c (bq_abs q) = (r, bq_abs q')" by blast
  with Cons.IH [OF c(2,3)] show ?case by auto
qed simp



subsection \<open>Threads\<close>

text \<open>The blocking queue among threads.  Under every interleaving of pushes (which wake all
  sleepers), pops, spurious wake-ups and failing waits of any number of threads, the consumers
  together receive the accepted elements in order and without loss or duplication, the rest being
  in the queue, and no thread is left asleep on a queue that holds an element without another one
  having been woken for it.\<close>

theorem block_queue_threads:
  assumes "bq_new junk n = Some q" "q_run bq_push bq_pop as (q_start q) = Some s"
  shows "accepted s = map snd (got s) @ bq_abs (que s)
     \<and> (sleepers s \<noteq> {} \<and> bq_abs (que s) \<noteq> [] \<longrightarrow> woken s \<noteq> {})"
  using bqq.run_fifo [OF assms(2)] bq_new_inv [OF assms(1)] by simp

theorem block_queue_threads_witness:
  "\<exists>q s. bq_new (0 :: nat) 1 = Some q
     \<and> q_run bq_push bq_pop [Get 1, Get 2, Put 7 {1, 2}, Get 2, Get 1] (q_start q) = Some s
     \<and> accepted s = map snd (got s) @ bq_abs (que s) \<and> got s = [(2, 7)] \<and> sleepers s = {1}"
proof -
  obtain q where q: "bq_new (0 :: nat) 1 = Some q" by (simp add: bq_new_def)
  define as where "as = [Get 1, Get 2, Put (7 :: nat) {1, 2}, Get 2, Get 1]"
  obtain s where s: "q_run bq_push bq_pop as (q_start q) = Some s" "got s = [(2, 7)]" "sleepers s = {1}"
    using q by (auto simp: as_def bq_new_def q_get_def q_put_def q_start_def bq_push_def bq_pop_def
        bq_take_def Let_def)
  with block_queue_threads [OF q s(1)] q show ?thesis unfolding as_def by blast
qed

text \<open>Faults of \<^verbatim>\<open>front\<close> and of the deadline: \<open>m_front\<close> is the slot before the head, so \<^verbatim>\<open>front\<close> reads
  outside the array on a queue nothing was popped from, and otherwise returns an element that has
  left; a timeout of 999 milliseconds is less than one millisecond of nanoseconds.\<close>

lemma front_out_of_bounds:
  "bq_new junk n = Some q \<Longrightarrow> bq_front (snd (bq_push x q)) = None"
  by (auto simp: bq_new_def bq_push_def bq_front_def array_get_def Let_def split: if_splits)

lemma deadline_too_short: "bq_deadline 0 999 = (0, 999000)"
  by (simp add: bq_deadline_def)

text \<open>Two writers that both saw the queue not full: the second push is refused and its line lost.\<close>

lemma full_then_push_race:
  "\<exists>q q1. bq_new x 1 = Some q \<and> \<not> bq_full q \<and> bq_push x q = (True, q1) \<and> bq_push y q1 = (False, q1)"
  by (simp add: bq_new_def bq_full_def bq_push_def)

end
