(* ===== verification/Web_Log.thy ===== *)
theory Web_Log
  imports Web_Queue Web_Response Net_Calc
begin

text \<open>
  \<^verbatim>\<open>TinyWebServer/log/log.cpp\<close> and \<open>log.h\<close>: the log with its files split by day and by number of lines.
  The state holds the open file and the content of all files; the time and the success of \<^verbatim>\<open>fopen\<close> are
  arguments.  The formatted text of a line is an argument too; what is modelled is the line that is
  built from it in the buffer, the choice of the file, and the two ways to write: at once, or through
  the block queue and the writer thread.  \<open>None\<close> is undefined behaviour: a line that does not fit the buffer, a
  file that could not be opened, a name that does not fit its array.
\<close>

subsection \<open>Data\<close>

record tm =
  tm_year :: nat
  tm_mon :: nat
  tm_mday :: nat
  tm_hour :: nat
  tm_min :: nat
  tm_sec :: nat
  tv_usec :: nat

text \<open>The single instance is a static object, so the members that the constructor does not set start as
  zeroes.\<close>

record wlog =
  dir_name :: string
  log_name :: string
  m_split_lines :: int
  m_log_buf_size :: nat
  m_count :: int
  m_today :: nat
  m_fp :: "string option"
  m_log_queue :: "string bq option"
  m_is_async :: bool
  files :: "string \<Rightarrow> string"

definition log_new :: wlog where
  "log_new = \<lparr>dir_name = [], log_name = [], m_split_lines = 0, m_log_buf_size = 0, m_count = 0, m_today = 0,
     m_fp = None, m_log_queue = None, m_is_async = False, files = (\<lambda>_. [])\<rparr>"

text \<open>The prefix of the file names and of the lines.  The month of a \<^verbatim>\<open>struct tm\<close> counts from 0, the year from
  1900.\<close>

definition date_text :: "tm \<Rightarrow> string" where
  "date_text t = dec_text (tm_year t + 1900) @ ''_'' @ pad 2 (tm_mon t + 1) @ ''_'' @ pad 2 (tm_mday t) @ ''_''"

definition level_text :: "int \<Rightarrow> string" where
  "level_text level = (if level = 0 then ''[debug]:'' else if level = 1 then ''[info]:''
     else if level = 2 then ''[warn]:'' else if level = 3 then ''[erro]:'' else ''[info]:'')"

definition head_text :: "tm \<Rightarrow> int \<Rightarrow> string" where
  "head_text t level = dec_text (tm_year t + 1900) @ ''-'' @ pad 2 (tm_mon t + 1) @ ''-'' @ pad 2 (tm_mday t) @ '' ''
     @ pad 2 (tm_hour t) @ '':'' @ pad 2 (tm_min t) @ '':'' @ pad 2 (tm_sec t) @ ''.'' @ pad 6 (tv_usec t) @ '' ''
     @ level_text level @ '' ''"

subsection \<open>Operations\<close>

definition log_fopen :: "(string \<Rightarrow> bool) \<Rightarrow> string \<Rightarrow> wlog \<Rightarrow> wlog" where
  "log_fopen can f l = l\<lparr>m_fp := (if can f then Some f else None)\<rparr>"

text \<open>\<^verbatim>\<open>init\<close>.  Without a slash in the name, directory and log name are not set.  The buffer and the queue are
  allocated; the queue's constructor exits (\<open>None\<close>) on a bad size.\<close>

definition log_init :: "(string \<Rightarrow> bool) \<Rightarrow> tm \<Rightarrow> string \<Rightarrow> nat \<Rightarrow> int \<Rightarrow> int \<Rightarrow> wlog \<Rightarrow> (bool \<times> wlog) option" where
  "log_init can t file_name buf_size split_lines max_queue_size l0 =
     (let l = (if max_queue_size > 0 then l0\<lparr>m_is_async := True, m_log_queue := bq_new [] max_queue_size\<rparr> else l0)
              \<lparr>m_log_buf_size := buf_size, m_split_lines := split_lines\<rparr> in
      case (case last_pos CHR ''/'' file_name of
              None \<Rightarrow> Some (take 254 (date_text t @ file_name), l)
            | Some p \<Rightarrow>
                if length (drop (p + 1) file_name) > 127 \<or> p + 1 > 127 then None
                else let l1 = l\<lparr>log_name := drop (p + 1) file_name, dir_name := take (p + 1) file_name\<rparr> in
                  Some (take 254 (dir_name l1 @ date_text t @ log_name l1), l1)) of
        None \<Rightarrow> None
      | Some (full, l2) \<Rightarrow>
          let l3 = log_fopen can full (l2\<lparr>m_today := tm_mday t\<rparr>) in
          Some (m_fp l3 \<noteq> None, l3))"

text \<open>The first critical section of \<^verbatim>\<open>write_log\<close>: the line is counted and, on a new day or after
  \<^verbatim>\<open>m_split_lines\<close> lines, another file is opened.  Closing the old file that was never opened is
  undefined, and so is a remainder by zero.\<close>

definition log_rotate :: "(string \<Rightarrow> bool) \<Rightarrow> tm \<Rightarrow> wlog \<Rightarrow> wlog option" where
  "log_rotate can t l0 =
     (let l = l0\<lparr>m_count := m_count l0 + 1\<rparr> in
      if m_today l = tm_mday t \<and> m_split_lines l = 0 then None
      else if m_today l \<noteq> tm_mday t \<or> c_rem (m_count l) (m_split_lines l) = 0 then
        (if m_fp l = None then None
         else if m_today l \<noteq> tm_mday t then
           Some (log_fopen can (take 254 (dir_name l @ take 15 (date_text t) @ log_name l)) (l\<lparr>m_today := tm_mday t, m_count := 0\<rparr>))
         else
           Some (log_fopen can (take 254 (dir_name l @ take 15 (date_text t) @ log_name l @ ''.''
             @ int_text (c_div (m_count l) (m_split_lines l)))) l))
      else Some l)"

text \<open>The second critical section: the line in the buffer, which must hold it with the newline and the
  terminator.\<close>

definition log_line :: "tm \<Rightarrow> int \<Rightarrow> string \<Rightarrow> wlog \<Rightarrow> string option" where
  "log_line t level s l =
     (let h = take 47 (head_text t level) in
      if length h + length s + 2 \<le> m_log_buf_size l then Some (h @ s @ [LF]) else None)"

definition log_fputs :: "string \<Rightarrow> wlog \<Rightarrow> wlog option" where
  "log_fputs s l = (case m_fp l of None \<Rightarrow> None | Some f \<Rightarrow> Some (l\<lparr>files := (files l)(f := files l f @ s)\<rparr>))"

definition write_log :: "(string \<Rightarrow> bool) \<Rightarrow> tm \<Rightarrow> int \<Rightarrow> string \<Rightarrow> wlog \<Rightarrow> wlog option" where
  "write_log can t level s l0 =
     (case log_rotate can t l0 of
        None \<Rightarrow> None
      | Some l \<Rightarrow>
          (case log_line t level s l of
             None \<Rightarrow> None
           | Some line \<Rightarrow>
               (case (if m_is_async l then m_log_queue l else None) of
                  None \<Rightarrow> if m_is_async l then None else log_fputs line l
                | Some q \<Rightarrow> if bq_full q then log_fputs line l
                    else Some (l\<lparr>m_log_queue := Some (snd (bq_push line q))\<rparr>))))"

text \<open>One round of the writer thread: a line from the queue goes to the file that is open now; \<open>None\<close> also when the
  thread waits for a line.\<close>

definition async_write_log :: "wlog \<Rightarrow> wlog option" where
  "async_write_log l =
     (case m_log_queue l of
        None \<Rightarrow> None
      | Some q \<Rightarrow> (case bq_pop q of None \<Rightarrow> None | Some (s, q') \<Rightarrow> log_fputs s (l\<lparr>m_log_queue := Some q'\<rparr>)))"

subsection \<open>Which line goes to which file\<close>

text \<open>The lines of one day, written one after the other.\<close>

fun log_all :: "(string \<Rightarrow> bool) \<Rightarrow> (tm \<times> int \<times> string) list \<Rightarrow> wlog \<Rightarrow> wlog option" where
  "log_all can [] l = Some l"
| "log_all can ((t, level, s) # ls) l =
     (case write_log can t level s l of None \<Rightarrow> None | Some l' \<Rightarrow> log_all can ls l')"

text \<open>The name of the file for line number \<open>k\<close> of the day with prefix \<open>d\<close>, with \<open>n\<close> lines to a file.\<close>

definition file_for :: "string \<Rightarrow> string \<Rightarrow> string \<Rightarrow> nat \<Rightarrow> nat \<Rightarrow> string" where
  "file_for dir d f n k = dir @ d @ f @ (if k div n = 0 then [] else ''.'' @ dec_text (k div n))"

text \<open>What a file receives from the lines after the first \<open>k\<close>.\<close>

fun lines_for :: "(nat \<Rightarrow> string) \<Rightarrow> nat \<Rightarrow> string \<Rightarrow> (tm \<times> int \<times> string) list \<Rightarrow> string" where
  "lines_for name k g [] = []"
| "lines_for name k g ((t, level, s) # ls) =
     (if name (k + 1) = g then head_text t level @ s @ [LF] else []) @ lines_for name (k + 1) g ls"

definition log_at :: "string \<Rightarrow> string \<Rightarrow> string \<Rightarrow> nat \<Rightarrow> nat \<Rightarrow> nat \<Rightarrow> wlog \<Rightarrow> bool" where
  "log_at dir d f n day k l \<longleftrightarrow> dir_name l = dir \<and> log_name l = f \<and> m_split_lines l = int n \<and> m_today l = day
     \<and> m_count l = int k \<and> m_fp l = Some (file_for dir d f n k) \<and> \<not> m_is_async l"

lemma c_rem_div_nat: "0 < n \<Longrightarrow> c_rem (int k) (int n) = int (k mod n)" "0 < n \<Longrightarrow> c_div (int k) (int n) = int (k div n)"
proof -
  show div: "0 < n \<Longrightarrow> c_div (int k) (int n) = int (k div n)"
    by (cases "k = 0") (simp_all add: c_div_def zdiv_int)
  then show "0 < n \<Longrightarrow> c_rem (int k) (int n) = int (k mod n)"
    by (simp add: c_rem_def minus_mult_div_eq_mod [symmetric] flip: of_nat_mult)
qed

lemma div_Suc_rotate:
  fixes k n :: nat
  assumes "0 < n"
  shows "Suc k mod n \<noteq> 0 \<Longrightarrow> Suc k div n = k div n" "Suc k mod n = 0 \<Longrightarrow> Suc k div n \<noteq> 0"
  using assms by (auto simp: div_Suc mod_Suc split: if_splits)

lemma log_rotate_at:
  assumes "log_at dir d f n (tm_mday t) k l" "0 < n" "date_text t = d" "length d \<le> 15"
    "length (file_for dir d f n (k + 1)) \<le> 254"
  shows "\<exists>l'. log_rotate (\<lambda>_. True) t l = Some l' \<and> log_at dir d f n (tm_mday t) (k + 1) l'
     \<and> files l' = files l \<and> m_log_buf_size l' = m_log_buf_size l"
proof -
  have arith: "c_rem (int k + 1) (int n) = int (Suc k mod n)" "c_div (int k + 1) (int n) = int (Suc k div n)"
    using c_rem_div_nat [OF assms(2), of "Suc k"] by (simp_all add: add.commute)
  have txt_j: "int_text (int (Suc k div n)) = dec_text (Suc k div n)" by (simp add: int_text_def)
  show ?thesis
    using assms arith txt_j div_Suc_rotate [OF assms(2), of k]
    by (cases "Suc k mod n = 0") (auto simp: log_rotate_def log_at_def log_fopen_def file_for_def Let_def)
qed

lemma write_log_at:
  assumes "log_at dir d f n (tm_mday t) k l" "0 < n" "date_text t = d" "length d \<le> 15"
    "length (file_for dir d f n (k + 1)) \<le> 254"
    "length (head_text t level) \<le> 47" "length (head_text t level) + length s + 2 \<le> m_log_buf_size l"
  shows "\<exists>l'. write_log (\<lambda>_. True) t level s l = Some l' \<and> log_at dir d f n (tm_mday t) (k + 1) l'
     \<and> (\<forall>g. files l' g = files l g @ (if file_for dir d f n (k + 1) = g then head_text t level @ s @ [LF] else []))
     \<and> m_log_buf_size l' = m_log_buf_size l"
proof -
  from log_rotate_at [OF assms(1-5)] obtain l1 where
    l1: "log_rotate (\<lambda>_. True) t l = Some l1" "log_at dir d f n (tm_mday t) (k + 1) l1" "files l1 = files l"
      "m_log_buf_size l1 = m_log_buf_size l" by blast
  then show ?thesis using assms(6,7)
    by (auto simp: write_log_def log_line_def log_fputs_def log_at_def Let_def)
qed

text \<open>The lines of one day, each with the date \<open>d\<close>, that fit a buffer of \<open>b\<close> characters.\<close>

definition fit :: "string \<Rightarrow> nat \<Rightarrow> nat \<Rightarrow> (tm \<times> int \<times> string) list \<Rightarrow> bool" where
  "fit d day b ls \<longleftrightarrow> (\<forall>(t, level, s) \<in> set ls. tm_mday t = day \<and> date_text t = d
     \<and> length (head_text t level) \<le> 47 \<and> length (head_text t level) + length s + 2 \<le> b)"

lemma log_all_at:
  assumes "log_at dir d f n day k l" "0 < n" "length d \<le> 15" "fit d day (m_log_buf_size l) ls"
    "\<And>j. j \<le> k + length ls \<Longrightarrow> length (file_for dir d f n j) \<le> 254"
  shows "\<exists>l'. log_all (\<lambda>_. True) ls l = Some l' \<and> log_at dir d f n day (k + length ls) l'
     \<and> (\<forall>g. files l' g = files l g @ lines_for (file_for dir d f n) k g ls)"
  using assms
proof (induction ls arbitrary: k l)
  case (Cons x ls)
  obtain t level s where x: "x = (t, level, s)" by (cases x)
  from Cons.prems(4) x have fit: "tm_mday t = day" "date_text t = d" "length (head_text t level) \<le> 47"
    "length (head_text t level) + length s + 2 \<le> m_log_buf_size l" "fit d day (m_log_buf_size l) ls"
    by (auto simp: fit_def)
  from write_log_at [of dir d f n t k l level s] Cons.prems fit obtain l1 where
    l1: "write_log (\<lambda>_. True) t level s l = Some l1" "log_at dir d f n day (k + 1) l1"
      "\<forall>g. files l1 g = files l g @ (if file_for dir d f n (k + 1) = g then head_text t level @ s @ [LF] else [])"
      "m_log_buf_size l1 = m_log_buf_size l" by auto
  from Cons.IH [OF l1(2) Cons.prems(2,3)] fit(5) l1(4) Cons.prems(5) obtain l2 where
    "log_all (\<lambda>_. True) ls l1 = Some l2" "log_at dir d f n day (k + 1 + length ls) l2"
    "\<forall>g. files l2 g = files l1 g @ lines_for (file_for dir d f n) (k + 1) g ls" by auto
  with l1 x show ?case by auto
qed simp


definition new_year :: tm where
  "new_year = \<lparr>tm_year = 125, tm_mon = 0, tm_mday = 1, tm_hour = 10, tm_min = 5, tm_sec = 9, tv_usec = 42\<rparr>"

lemma new_year_texts:
  "date_text new_year = ''2025_01_01_''" "head_text new_year 1 = ''2025-01-01 10:05:09.000042 [info]: ''"
  by code_simp+


text \<open>A line that the buffer does not hold: \<^verbatim>\<open>vsnprintf\<close> returns the length it would have needed, and the newline
  is stored there, behind the buffer.\<close>

lemma long_line_overruns:
  "m_log_buf_size l < length (take 47 (head_text t level)) + length s + 2 \<Longrightarrow> log_line t level s l = None"
  by (simp add: log_line_def Let_def)

text \<open>Without a slash in the configured name the log name is not stored, and the file of the second part has
  only the date for its name.\<close>

lemma name_lost_on_split:
  assumes "log_init (\<lambda>_. True) new_year ''S'' 100 1 0 log_new = Some (True, l)"
  shows "\<exists>l'. m_fp l = Some ''2025_01_01_S'' \<and> log_rotate (\<lambda>_. True) new_year l = Some l' \<and> m_fp l' = Some ''2025_01_01_.1''"
proof -
  have one: "int_text 1 = ''1''" by code_simp
  from assms show ?thesis
    by (auto simp: log_init_def log_fopen_def last_pos_def Let_def new_year_texts log_new_def log_rotate_def
        c_rem_def c_div_def one)
qed

end
