(* ===== verification/Web_Server.thy ===== *)
theory Web_Server
  imports Web_Pool Web_Timer Web_Log
begin

text \<open>
  \<^verbatim>\<open>TinyWebServer/webserver.cpp\<close>, the class \<^verbatim>\<open>Utils\<close> and \<^verbatim>\<open>cb_func\<close> of \<^verbatim>\<open>timer/lst_timer.cpp\<close>, \<^verbatim>\<open>config.cpp\<close>: the main
  thread, which puts the other components together.  The server state holds the connections by
  descriptor, the timer list, the request queue with its semaphore, and what was done to
  descriptors.  Events, the time, the replies of system calls and the address that \<^verbatim>\<open>new UtilTimer\<close> returns are arguments.

  The result of a handler is an \<open>option\<close> of a \<open>run\<close>: \<open>None\<close> is a main thread that spins for ever,
  \<open>Undefined\<close> is undefined behaviour.
\<close>

subsection \<open>Configuration\<close>

record config =
  c_port :: int
  c_log_write :: int
  c_trig_mode :: int
  c_listen_trig_mode :: int
  c_conn_trig_mode :: int
  c_opt_linger :: int
  c_sql_num :: int
  c_thread_num :: int
  c_close_log :: int
  c_actor_mode :: int

definition config_new :: config where
  "config_new = \<lparr>c_port = 9006, c_log_write = 0, c_trig_mode = 0, c_listen_trig_mode = 0, c_conn_trig_mode = 0,
     c_opt_linger = 0, c_sql_num = 8, c_thread_num = 8, c_close_log = 0, c_actor_mode = 0\<rparr>"

text \<open>The options as \<^verbatim>\<open>getopt\<close> returns them, each with its argument; unknown ones are ignored.\<close>

definition parse_opt :: "char \<times> string \<Rightarrow> config \<Rightarrow> config" where
  "parse_opt oa c = (let v = atoi (snd oa) in
     if fst oa = CHR ''p'' then c\<lparr>c_port := v\<rparr>
     else if fst oa = CHR ''l'' then c\<lparr>c_log_write := v\<rparr>
     else if fst oa = CHR ''m'' then c\<lparr>c_trig_mode := v\<rparr>
     else if fst oa = CHR ''o'' then c\<lparr>c_opt_linger := v\<rparr>
     else if fst oa = CHR ''s'' then c\<lparr>c_sql_num := v\<rparr>
     else if fst oa = CHR ''t'' then c\<lparr>c_thread_num := v\<rparr>
     else if fst oa = CHR ''c'' then c\<lparr>c_close_log := v\<rparr>
     else if fst oa = CHR ''a'' then c\<lparr>c_actor_mode := v\<rparr>
     else c)"

definition parse_arg :: "(char \<times> string) list \<Rightarrow> config \<Rightarrow> config" where
  "parse_arg opts c = fold parse_opt opts c"

subsection \<open>The server\<close>

datatype srv_event = Fd ep_event | Send_text int string | Alarm int | Set_linger int int | Sig_install int bool | Bound int int

record server =
  s_port :: int
  s_root :: string
  s_log_write :: int
  s_close_log :: int
  s_actor_mode :: int
  s_opt_linger :: int
  s_trig_mode :: int
  s_listen_trig_mode :: int
  s_conn_trig_mode :: int
  s_sql_num :: int
  s_thread_num :: int
  s_pipe_fd :: "int \<times> int"
  s_epoll_fd :: int
  s_listen_fd :: int
  s_users :: "nat \<Rightarrow> http"
  s_timer_of :: "nat \<Rightarrow> ptr"
  s_user_of :: "addr \<Rightarrow> int"
  s_timers :: tlist
  s_pool :: "tpool \<times> nat"
  s_user_count :: int
  s_out :: "srv_event list"

abbreviation MAX_FD :: int where "MAX_FD \<equiv> 65536"
abbreviation TIMESLOT :: int where "TIMESLOT \<equiv> 5"
abbreviation SIGALRM :: int where "SIGALRM \<equiv> 14"
abbreviation SIGTERM :: int where "SIGTERM \<equiv> 15"
abbreviation SIGPIPE :: int where "SIGPIPE \<equiv> 13"

definition emit :: "srv_event list \<Rightarrow> server \<Rightarrow> server" where
  "emit es s = s\<lparr>s_out := s_out s @ es\<rparr>"

text \<open>The constructor, on the working directory, with no connection and no timer.\<close>

definition server_new :: "string \<Rightarrow> server" where
  "server_new cwd = \<lparr>s_port = 0, s_root = cwd @ ''/root'', s_log_write = 0, s_close_log = 0, s_actor_mode = 0,
     s_opt_linger = 0, s_trig_mode = 0, s_listen_trig_mode = 0, s_conn_trig_mode = 0, s_sql_num = 0, s_thread_num = 0,
     s_pipe_fd = (0, 0), s_epoll_fd = 0, s_listen_fd = 0, s_users = (\<lambda>_. zero_conn), s_timer_of = (\<lambda>_. None),
     s_user_of = (\<lambda>_. 0), s_timers = timer_init (\<lambda>_. 0) {},
     s_pool = (\<lparr>m_thread_number = 0, m_max_requests = 0, m_work_queue = [], tp_actor_mode = 0\<rparr>, 0),
     s_user_count = 0, s_out = []\<rparr>"

definition server_init :: "config \<Rightarrow> server \<Rightarrow> server" where
  "server_init c s = s\<lparr>s_port := c_port c, s_opt_linger := c_opt_linger c, s_trig_mode := c_trig_mode c,
     s_actor_mode := c_actor_mode c, s_sql_num := c_sql_num c, s_thread_num := c_thread_num c,
     s_log_write := c_log_write c, s_close_log := c_close_log c\<rparr>"

definition trig_mode :: "server \<Rightarrow> server" where
  "trig_mode s = s\<lparr>s_listen_trig_mode := c_div (s_trig_mode s) 2, s_conn_trig_mode := c_rem (s_trig_mode s) 2\<rparr>"

definition srv_log_write :: "(string \<Rightarrow> bool) \<Rightarrow> tm \<Rightarrow> server \<Rightarrow> wlog \<Rightarrow> wlog option" where
  "srv_log_write can t s l =
     (if s_close_log s = 0
      then map_option snd (log_init can t ''./ServerLog'' 2000 800000 (if s_log_write s = 1 then 800 else 0) l)
      else Some l)"

definition sql_pool :: "(nat \<Rightarrow> nat option) \<Rightarrow> (string \<times> string) list option \<Rightarrow> string \<Rightarrow> string \<Rightarrow> string
    \<Rightarrow> server \<Rightarrow> cpool \<Rightarrow> (server \<times> cpool) option" where
  "sql_pool connect rows user password db s p =
     (case cp_init connect ''localhost'' user password db 3306 (s_sql_num s) (s_close_log s) p of
        None \<Rightarrow> None
      | Some p1 \<Rightarrow>
          (case init_mysql_result rows (s_users s 0) of
             None \<Rightarrow> None
           | Some h \<Rightarrow> Some (s\<lparr>s_users := (s_users s)(0 := h)\<rparr>, p1)))"

definition thread_pool :: "(nat \<Rightarrow> bool) \<Rightarrow> server \<Rightarrow> server option" where
  "thread_pool created s =
     (case tp_new created (s_actor_mode s) (s_thread_num s) 10 of
        None \<Rightarrow> None | Some p \<Rightarrow> Some (s\<lparr>s_pool := (p, 0)\<rparr>))"

text \<open>\<^verbatim>\<open>Utils::addfd\<close> and \<^verbatim>\<open>Utils::addsig\<close>; the replies to the calls that are asserted are the record \<open>listen_env\<close>.\<close>

definition utils_addfd :: "int \<Rightarrow> bool \<Rightarrow> int \<Rightarrow> server \<Rightarrow> server" where
  "utils_addfd fd one_shot trig s = emit [Fd (Ep_add fd (trig = 1) one_shot)] s"

record listen_env =
  r_socket :: int
  r_bind :: int
  r_listen :: int
  r_epoll :: int
  r_pair :: "(int \<times> int) option"
  r_sigaction :: "int \<Rightarrow> bool"

definition addsig :: "listen_env \<Rightarrow> int \<Rightarrow> bool \<Rightarrow> server \<Rightarrow> server option" where
  "addsig r sig ignored s = (if r_sigaction r sig then Some (emit [Sig_install sig ignored] s) else None)"

definition event_listen :: "listen_env \<Rightarrow> server \<Rightarrow> server option" where
  "event_listen r s0 =
     (if r_socket r < 0 then None
      else
        let fd = r_socket r; s1 = s0\<lparr>s_listen_fd := fd\<rparr>;
            s2 = (if s_opt_linger s1 = 0 then emit [Set_linger 0 1] s1
                  else if s_opt_linger s1 = 1 then emit [Set_linger 1 1] s1 else s1);
            s3 = emit [Bound fd (s_port s2)] s2 in
        if r_bind r < 0 \<or> r_listen r < 0 \<or> r_epoll r = - 1 then None
        else
          let s4 = utils_addfd fd False (s_listen_trig_mode s3) (s3\<lparr>s_epoll_fd := r_epoll r\<rparr>) in
          case r_pair r of
            None \<Rightarrow> None
          | Some p \<Rightarrow> do {
              let s5 = utils_addfd (fst p) False 0 (s4\<lparr>s_pipe_fd := p\<rparr>);
              s6 \<leftarrow> addsig r SIGPIPE True s5;
              s7 \<leftarrow> addsig r SIGALRM False s6;
              s8 \<leftarrow> addsig r SIGTERM False s7;
              Some (emit [Alarm TIMESLOT] s8) })"

subsection \<open>Timers of connections\<close>

text \<open>\<^verbatim>\<open>timer\<close>: the connection object and a new timer at address \<open>a\<close>.\<close>

definition srv_timer :: "nat \<Rightarrow> int \<Rightarrow> addr \<Rightarrow> server \<Rightarrow> server option" where
  "srv_timer fd cur a s =
     (case add_timer (Some a) (new_timer a (cur + 3 * TIMESLOT) (s_timers s)) of
        None \<Rightarrow> None
      | Some ts \<Rightarrow> Some (s\<lparr>s_users := (s_users s)(fd := http_init (int fd) (s_conn_trig_mode s) (s_users s fd)),
          s_user_of := (s_user_of s)(a := int fd), s_timer_of := (s_timer_of s)(fd := Some a), s_timers := ts\<rparr>))"

text \<open>\<^verbatim>\<open>cb_func\<close> on the client data of a descriptor.\<close>

definition cb_func :: "int \<Rightarrow> server \<Rightarrow> server" where
  "cb_func fd s = (emit [Fd (Ep_del fd), Fd (Sock_close fd)] s)\<lparr>s_user_count := s_user_count s - 1\<rparr>"

definition srv_adjust_timer :: "addr \<Rightarrow> int \<Rightarrow> server \<Rightarrow> server option" where
  "srv_adjust_timer a cur s = do {
     a \<leftarrow> obj (Some a) (s_timers s);
     ts \<leftarrow> adjust_timer (Some a) ((s_timers s)\<lparr>t_expire := (t_expire (s_timers s))(a := cur + 3 * TIMESLOT)\<rparr>);
     Some (s\<lparr>s_timers := ts\<rparr>) }"

text \<open>\<^verbatim>\<open>del_timer\<close>: the callback of the timer is read before the pointer is tested, and after the list has
  removed and deleted the timer it is deleted once more.\<close>

definition srv_del_timer :: "ptr \<Rightarrow> nat \<Rightarrow> server \<Rightarrow> server option" where
  "srv_del_timer timer sockfd s = do {
     a \<leftarrow> obj timer (s_timers s);
     let s1 = cb_func (int sockfd) s;
     ts \<leftarrow> del_timer (Some a) (s_timers s1);
     a \<leftarrow> obj (Some a) ts;
     Some (s1\<lparr>s_timers := delete_timer a ts\<rparr>) }"

text \<open>\<^verbatim>\<open>Utils::time_handler\<close>: a tick, whose callbacks close the connections of the timers that expired, and the
  next alarm.\<close>

definition time_handler :: "int \<Rightarrow> server \<Rightarrow> server option" where
  "time_handler cur s = do {
     ts \<leftarrow> tick cur (s_timers s);
     let s1 = fold (\<lambda>a. cb_func (s_user_of s a)) (drop (length (t_calls (s_timers s))) (t_calls ts)) s;
     Some (emit [Alarm TIMESLOT] (s1\<lparr>s_timers := ts\<rparr>)) }"

subsection \<open>Handlers\<close>

text \<open>A reply of \<^verbatim>\<open>accept\<close>: a descriptor with the address of the timer that will be allocated, no further
  connection, or an error.\<close>

datatype accept_reply = Conn nat addr | Acc_again | Acc_error

definition show_error :: "nat \<Rightarrow> string \<Rightarrow> server \<Rightarrow> server" where
  "show_error fd info s = emit [Send_text (int fd) info, Fd (Sock_close (int fd))] s"

fun accept_all :: "int \<Rightarrow> accept_reply list \<Rightarrow> server \<Rightarrow> (bool \<times> server) option" where
  "accept_all cur [] s = Some (False, s)"
| "accept_all cur (Acc_again # rs) s = Some (False, s)"
| "accept_all cur (Acc_error # rs) s = Some (False, s)"
| "accept_all cur (Conn fd a # rs) s =
     (if s_user_count s \<ge> MAX_FD then Some (False, show_error fd ''Internal server busy'' s)
      else case srv_timer fd cur a s of None \<Rightarrow> None | Some s' \<Rightarrow> accept_all cur rs s')"

text \<open>The list of replies ends with the one that says that there is no further connection.\<close>

definition deal_client_data :: "int \<Rightarrow> accept_reply list \<Rightarrow> server \<Rightarrow> (bool \<times> server) option" where
  "deal_client_data cur rs s =
     (if s_listen_trig_mode s = 0 then
        (case rs of
           Conn fd a # _ \<Rightarrow>
             (if s_user_count s \<ge> MAX_FD then Some (False, show_error fd ''Internal server busy'' s)
              else case srv_timer fd cur a s of None \<Rightarrow> None | Some s' \<Rightarrow> Some (True, s'))
         | _ \<Rightarrow> Some (False, s))
      else accept_all cur rs s)"

text \<open>The bytes read from the signal pipe; \<open>None\<close> is an error or the end.\<close>

definition deal_with_signal :: "int list option \<Rightarrow> bool \<Rightarrow> bool \<Rightarrow> bool \<times> bool \<times> bool" where
  "deal_with_signal signals timeout stop_server =
     (case signals of
        None \<Rightarrow> (False, timeout, stop_server)
      | Some sigs \<Rightarrow> if sigs = [] then (False, timeout, stop_server)
          else (case fold (\<lambda>sig (t, st). if sig = SIGALRM then (True, st) else if sig = SIGTERM then (t, True) else (t, st))
                  sigs (timeout, stop_server) of (t, st) \<Rightarrow> (True, t, st)))"

definition set_conn :: "nat \<Rightarrow> http \<Rightarrow> server \<Rightarrow> server" where
  "set_conn fd h s = s\<lparr>s_users := (s_users s)(fd := h)\<rparr>"

definition adjust_if :: "ptr \<Rightarrow> int \<Rightarrow> server \<Rightarrow> server option" where
  "adjust_if timer cur s = (case timer of None \<Rightarrow> Some s | Some a \<Rightarrow> srv_adjust_timer a cur s)"

definition lift_undef :: "server option \<Rightarrow> server run option" where
  "lift_undef x = Some (undef_none x)"

text \<open>Reactor mode: the main thread queues the request and spins until the worker, whose effect on the
  connection is \<open>work\<close>, has set \<^verbatim>\<open>m_improv\<close>.  A request that the full queue refuses is never worked on.\<close>

definition reactor_wait :: "(http \<Rightarrow> http run option) \<Rightarrow> int \<Rightarrow> int \<Rightarrow> nat \<Rightarrow> server \<Rightarrow> server run option" where
  "reactor_wait work cur state fd s =
     (case adjust_if (s_timer_of s fd) cur s of
        None \<Rightarrow> Some Undefined
      | Some s1 \<Rightarrow>
          (case append_req fd state (s_users s1) (s_pool s1) of (b, us, pq) \<Rightarrow>
             if b = Some False then None
             else
               (case work (us fd) of
                  None \<Rightarrow> None
                | Some Undefined \<Rightarrow> Some Undefined
                | Some (Done h) \<Rightarrow>
                    if m_improv h \<noteq> 1 then None
                    else
                      (let s2 = s1\<lparr>s_users := us(fd := h), s_pool := pq\<rparr> in
                       case (if m_timer_flag h = 1 then srv_del_timer (s_timer_of s fd) fd s2 else Some s2) of
                         None \<Rightarrow> Some Undefined
                       | Some s3 \<Rightarrow> Some (Done (set_conn fd (h\<lparr>m_timer_flag := 0, m_improv := 0\<rparr>) s3))))))"

definition deal_with_read :: "(http \<Rightarrow> http run option) \<Rightarrow> recv_reply list \<Rightarrow> int \<Rightarrow> nat \<Rightarrow> server \<Rightarrow> server run option" where
  "deal_with_read work rs cur fd s =
     (if s_actor_mode s = 1 then reactor_wait work cur 0 fd s
      else
        (case read_once rs (s_users s fd) of
           None \<Rightarrow> Some Undefined
         | Some (True, h) \<Rightarrow>
             (let s1 = set_conn fd h s in
              lift_undef (adjust_if (s_timer_of s fd) cur (s1\<lparr>s_pool := snd (append_p (Some fd) (s_pool s1))\<rparr>)))
         | Some (False, h) \<Rightarrow> lift_undef (srv_del_timer (s_timer_of s fd) fd (set_conn fd h s))))"

definition write_now :: "writev_reply list \<Rightarrow> int \<Rightarrow> nat \<Rightarrow> server \<Rightarrow> server run option" where
  "write_now ws cur fd s =
     (case http_write ws (s_users s fd) of
        None \<Rightarrow> None
      | Some (True, h) \<Rightarrow> lift_undef (adjust_if (s_timer_of s fd) cur (set_conn fd h s))
      | Some (False, h) \<Rightarrow> lift_undef (srv_del_timer (s_timer_of s fd) fd (set_conn fd h s)))"

text \<open>There is no \<^verbatim>\<open>else\<close> between the two modes: in reactor mode the main thread writes again after the worker.\<close>

definition deal_with_write :: "(http \<Rightarrow> http run option) \<Rightarrow> writev_reply list \<Rightarrow> int \<Rightarrow> nat \<Rightarrow> server \<Rightarrow> server run option" where
  "deal_with_write work ws cur fd s =
     (case (if s_actor_mode s = 1 then reactor_wait work cur 1 fd s else Some (Done s)) of
        None \<Rightarrow> None
      | Some Undefined \<Rightarrow> Some Undefined
      | Some (Done s1) \<Rightarrow> write_now ws cur fd s1)"

subsection \<open>The event loop\<close>

record event =
  ev_fd :: nat
  ev_hup :: bool
  ev_in :: bool
  ev_out :: bool
  ev_now :: int
  ev_accepts :: "accept_reply list"
  ev_signals :: "int list option"
  ev_recv :: "recv_reply list"
  ev_writev :: "writev_reply list"
  ev_work :: "http \<Rightarrow> http run option"

text \<open>One event, with the flags \<^verbatim>\<open>timeout\<close> and \<^verbatim>\<open>stop_server\<close>.\<close>

definition dispatch :: "event \<Rightarrow> server \<times> bool \<times> bool \<Rightarrow> (server \<times> bool \<times> bool) run option" where
  "dispatch e st =
     (case st of (s, timeout, stop) \<Rightarrow>
      let on_server = (\<lambda>r. case r of None \<Rightarrow> None | Some Undefined \<Rightarrow> Some Undefined
                             | Some (Done s') \<Rightarrow> Some (Done (s', timeout, stop))) in
      if int (ev_fd e) = s_listen_fd s then
        (case deal_client_data (ev_now e) (ev_accepts e) s of
           None \<Rightarrow> Some Undefined | Some (b, s') \<Rightarrow> Some (Done (s', timeout, stop)))
      else if ev_hup e then on_server (lift_undef (srv_del_timer (s_timer_of s (ev_fd e)) (ev_fd e) s))
      else if int (ev_fd e) = fst (s_pipe_fd s) \<and> ev_in e then
        Some (Done (case deal_with_signal (ev_signals e) timeout stop of (b, t, sp) \<Rightarrow> (s, t, sp)))
      else if ev_in e then on_server (deal_with_read (ev_work e) (ev_recv e) (ev_now e) (ev_fd e) s)
      else if ev_out e then on_server (deal_with_write (ev_work e) (ev_writev e) (ev_now e) (ev_fd e) s)
      else Some (Done st))"

fun dispatch_all :: "event list \<Rightarrow> server \<times> bool \<times> bool \<Rightarrow> (server \<times> bool \<times> bool) run option" where
  "dispatch_all [] st = Some (Done st)"
| "dispatch_all (e # es) st =
     (case dispatch e st of
        Some (Done st') \<Rightarrow> dispatch_all es st'
      | r \<Rightarrow> r)"

text \<open>The loop on the results of \<^verbatim>\<open>epoll_wait\<close>: \<open>None\<close> is a failure, otherwise the events and the time at which
  the round ends.  The loop ends (with the server) on a failure, on SIGTERM, or when the results run out.\<close>

fun event_loop :: "(event list \<times> int) option list \<Rightarrow> server \<times> bool \<Rightarrow> server run option" where
  "event_loop [] (s, timeout) = Some (Done s)"
| "event_loop (None # rs) (s, timeout) = Some (Done s)"
| "event_loop (Some (es, now) # rs) (s, timeout) =
     (case dispatch_all es (s, timeout, False) of
        None \<Rightarrow> None
      | Some Undefined \<Rightarrow> Some Undefined
      | Some (Done (s1, t, stop)) \<Rightarrow>
          (case (if t then time_handler now s1 else Some s1) of
             None \<Rightarrow> Some Undefined
           | Some s2 \<Rightarrow> if stop then Some (Done s2) else event_loop rs (s2, False)))"

subsection \<open>Closing a connection from the main thread\<close>

lemma del_timer_deletes: "del_timer (Some a) s = Some s' \<Longrightarrow> a \<notin> t_live s'"
  by (auto simp: del_timer_def Let_def split: if_splits bind_splits)

text \<open>The list deletes the timer and then the server deletes it again.\<close>

lemma srv_del_timer_undefined: "srv_del_timer timer fd s = None"
proof (cases "obj timer (s_timers s)")
  case (Some a)
  show ?thesis
  proof (cases "del_timer (Some a) (s_timers (cb_func (int fd) s))")
    case (Some ts)
    with \<open>obj timer (s_timers s) = Some a\<close> show ?thesis
      using del_timer_deletes [OF Some] by (simp add: srv_del_timer_def)
  qed (use Some in \<open>simp add: srv_del_timer_def Let_def\<close>)
qed (simp add: srv_del_timer_def)

text \<open>Claim C27: the server cannot close a connection itself.  Whatever the state, an event that reports a
  closed or broken connection leads to undefined behaviour (the timer is deleted twice, or was
  already deleted, or is a null pointer), and in proactor mode so does a read that finds the end of
  the data or an error.\<close>

theorem closing_is_undefined:
  assumes "int (ev_fd e) \<noteq> s_listen_fd s"
  shows "(ev_hup e \<longrightarrow> dispatch e (s, timeout, stop) = Some Undefined)
    \<and> (\<forall>h work rs cur. s_actor_mode s \<noteq> 1 \<longrightarrow> read_once rs (s_users s (ev_fd e)) = Some (False, h) \<longrightarrow>
         deal_with_read work rs cur (ev_fd e) s = Some Undefined)"
  using assms
  by (simp add: dispatch_def deal_with_read_def lift_undef_def undef_none_def srv_del_timer_undefined Let_def)

text \<open>A server that listens on descriptor 3, for the examples.\<close>

definition listening :: server where
  "listening = (server_new ''/srv'')\<lparr>s_listen_fd := 3, s_pipe_fd := (4, 5)\<rparr>"

definition hup :: "nat \<Rightarrow> event" where
  "hup fd = \<lparr>ev_fd = fd, ev_hup = True, ev_in = True, ev_out = False, ev_now = 0, ev_accepts = [], ev_signals = None,
     ev_recv = [], ev_writev = [], ev_work = (\<lambda>h. Some (Done h))\<rparr>"

theorem closing_is_undefined_witness:
  "dispatch (hup 7) (listening, False, False) = Some Undefined"
  using closing_is_undefined [of "hup 7" listening] by (simp add: hup_def listening_def)

subsection \<open>The number of users\<close>

lemma srv_timer_count: "srv_timer fd cur a s = Some s' \<Longrightarrow> s_user_count s' = s_user_count s"
  by (auto simp: srv_timer_def split: option.splits)

lemma adjust_if_count: "adjust_if t cur s = Some s' \<Longrightarrow> s_user_count s' = s_user_count s"
  by (auto simp: adjust_if_def srv_adjust_timer_def split: option.splits bind_splits if_splits)

lemma fold_cb_func:
  "s_out (fold (\<lambda>a. cb_func (f a)) as s) = s_out s @ concat (map (\<lambda>a. [Fd (Ep_del (f a)), Fd (Sock_close (f a))]) as)"
  "s_user_count (fold (\<lambda>a. cb_func (f a)) as s) = s_user_count s - int (length as)"
  "s_timers (fold (\<lambda>a. cb_func (f a)) as s) = s_timers s"
  "s_user_of (fold (\<lambda>a. cb_func (f a)) as s) = s_user_of s"
  by (induction as arbitrary: s) (simp_all add: cb_func_def emit_def)

lemma time_handler_count: "time_handler cur s = Some s' \<Longrightarrow> s_user_count s' \<le> s_user_count s"
  by (auto simp: time_handler_def Let_def emit_def fold_cb_func split: bind_splits)

lemma accept_all_count: "accept_all cur rs s = Some (b, s') \<Longrightarrow> s_user_count s' = s_user_count s"
  by (induction cur rs s rule: accept_all.induct)
    (auto simp: show_error_def emit_def split: if_splits option.splits dest: srv_timer_count)

lemma deal_client_data_count: "deal_client_data cur rs s = Some (b, s') \<Longrightarrow> s_user_count s' = s_user_count s"
  by (auto simp: deal_client_data_def show_error_def emit_def split: if_splits option.splits list.splits accept_reply.splits
      dest: srv_timer_count accept_all_count)

lemma reactor_wait_count: "reactor_wait work cur st fd s = Some (Done s') \<Longrightarrow> s_user_count s' = s_user_count s"
  by (auto simp: reactor_wait_def srv_del_timer_undefined set_conn_def Let_def
      split: if_splits option.splits prod.splits run.splits dest: adjust_if_count)

lemma lift_undef_Done: "lift_undef x = Some (Done s) \<longleftrightarrow> x = Some s"
  by (auto simp: lift_undef_def undef_none_def split: option.splits)

lemma deal_with_read_count: "deal_with_read work rs cur fd s = Some (Done s') \<Longrightarrow> s_user_count s' = s_user_count s"
  by (auto simp: deal_with_read_def set_conn_def lift_undef_Done srv_del_timer_undefined Let_def
      split: if_splits option.splits prod.splits bool.splits dest: reactor_wait_count adjust_if_count)

lemma deal_with_write_count: "deal_with_write work ws cur fd s = Some (Done s') \<Longrightarrow> s_user_count s' = s_user_count s"
  by (auto simp: deal_with_write_def write_now_def set_conn_def lift_undef_Done srv_del_timer_undefined
      split: if_splits option.splits run.splits prod.splits bool.splits dest!: reactor_wait_count adjust_if_count)

lemma dispatch_count: "dispatch e (s, t, st) = Some (Done (s', t', st')) \<Longrightarrow> s_user_count s' = s_user_count s"
  by (auto simp: dispatch_def lift_undef_def undef_none_def srv_del_timer_undefined Let_def
      split: if_splits option.splits run.splits prod.splits
      dest: deal_client_data_count deal_with_read_count deal_with_write_count)

lemma dispatch_all_count: "dispatch_all es (s, t, st) = Some (Done (s', t', st')) \<Longrightarrow> s_user_count s' = s_user_count s"
proof (induction es arbitrary: s t st)
  case (Cons e es)
  then obtain s1 t1 st1 where "dispatch e (s, t, st) = Some (Done (s1, t1, st1))"
    "dispatch_all es (s1, t1, st1) = Some (Done (s', t', st'))"
    by (auto split: option.splits run.splits)
  with Cons.IH dispatch_count show ?case by fastforce
qed simp

text \<open>The connection limit has no effect.  The number of users is never increased, only decreased when
  a timer expires: over every run of the event loop that ends it stays at most what it was at the
  start, which is 0, so the test against the maximum never succeeds.\<close>

theorem user_count_never_grows:
  "event_loop rs (s, timeout) = Some (Done s') \<Longrightarrow> s_user_count s' \<le> s_user_count s"
proof (induction rs "(s, timeout)" arbitrary: s timeout rule: event_loop.induct)
  case (3 es now rs s timeout)
  then obtain s1 t st where d: "dispatch_all es (s, timeout, False) = Some (Done (s1, t, st))"
    by (auto split: option.splits run.splits)
  then obtain s2 where s2: "(if t then time_handler now s1 else Some s1) = Some s2"
    "s2 = s' \<or> event_loop rs (s2, False) = Some (Done s')"
    using 3(2) by (auto split: option.splits if_splits)
  have "s_user_count s2 \<le> s_user_count s"
    using s2(1) dispatch_all_count [OF d] time_handler_count [of now s1 s2] by (auto split: if_splits)
  moreover have "s_user_count s' \<le> s_user_count s2"
    using s2(2) 3(1) d s2(1) 3(2) by (auto split: if_splits)
  ultimately show ?case by simp
qed auto

theorem user_count_never_grows_witness:
  "\<exists>s'. event_loop [Some ([(hup 3)\<lparr>ev_accepts := [Conn 7 1]\<rparr>], 0), None] (listening, False) = Some (Done s')
     \<and> s_user_count s' \<le> 0"
proof -
  have "\<exists>s'. event_loop [Some ([(hup 3)\<lparr>ev_accepts := [Conn 7 1]\<rparr>], 0), None] (listening, False) = Some (Done s')"
    by (simp add: dispatch_def hup_def listening_def server_new_def deal_client_data_def srv_timer_def add_timer_def
        timer_init_def new_timer_def Let_def)
  then show ?thesis using user_count_never_grows [of _ listening False] by (fastforce simp: listening_def server_new_def)
qed

subsection \<open>Idle connections\<close>

text \<open>New connections and alarms, each at its time.  The abstract server is the list of open
  connections (timer, descriptor, time of expiry) and the descriptors closed so far.\<close>

datatype srv_op = S_accept nat addr int | S_alarm int

definition srv_do :: "srv_op \<Rightarrow> server \<Rightarrow> server option" where
  "srv_do c s = (case c of
      S_accept fd a cur \<Rightarrow> srv_timer fd cur a s
    | S_alarm cur \<Rightarrow> time_handler cur s)"

type_synonym idle = "(addr \<times> nat \<times> int) list \<times> int list"

definition idle_do :: "srv_op \<Rightarrow> idle \<Rightarrow> idle" where
  "idle_do c i = (case i of (xs, closed) \<Rightarrow> (case c of
      S_accept fd a cur \<Rightarrow> (xs @ [(a, fd, cur + 15)], closed)
    | S_alarm cur \<Rightarrow> (dropWhile (\<lambda>x. snd (snd x) \<le> cur) xs,
        closed @ map (\<lambda>x. int (fst (snd x))) (takeWhile (\<lambda>x. snd (snd x) \<le> cur) xs))))"

text \<open>The clock does not run backwards, and \<^verbatim>\<open>new\<close> returns an address that is not in use.\<close>

definition idle_ok :: "srv_op \<Rightarrow> idle \<Rightarrow> bool" where
  "idle_ok c i = (case c of
      S_accept fd a cur \<Rightarrow> a \<notin> fst ` set (fst i) \<and> (\<forall>x \<in> set (fst i). snd (snd x) \<le> cur + 15)
    | S_alarm cur \<Rightarrow> True)"

definition closes :: "srv_event list \<Rightarrow> int list" where
  "closes evs = concat (map (\<lambda>e. case e of Fd (Sock_close fd) \<Rightarrow> [fd] | _ \<Rightarrow> []) evs)"

definition agenda_of :: "(addr \<times> nat \<times> int) list \<Rightarrow> (addr \<times> int) list" where
  "agenda_of xs = map (\<lambda>(a, fd, e). (a, e)) xs"

definition idle_rel :: "server \<Rightarrow> idle \<Rightarrow> bool" where
  "idle_rel s i \<longleftrightarrow> timer_rel (s_timers s) (agenda_of (fst i), t_calls (s_timers s))
     \<and> (\<forall>(a, fd, e) \<in> set (fst i). s_user_of s a = int fd) \<and> closes (s_out s) = snd i"

lemma closes_append [simp]: "closes (xs @ ys) = closes xs @ closes ys"
  by (simp add: closes_def)

lemma closes_alarm [simp]: "closes [Alarm n] = []"
  by (simp add: closes_def)

lemma closes_cb: "closes (concat (map (\<lambda>a. [Fd (Ep_del (f a)), Fd (Sock_close (f a))]) as)) = map f as"
  by (induction as) (simp_all add: closes_def)

lemma agenda_of_fst: "fst ` set (agenda_of xs) = fst ` set xs"
  by (force simp: agenda_of_def image_iff)

lemma accept_sim:
  assumes rel: "idle_rel s i" and ok: "idle_ok (S_accept fd a cur) i"
  shows "\<exists>s'. srv_do (S_accept fd a cur) s = Some s' \<and> idle_rel s' (idle_do (S_accept fd a cur) i)"
proof -
  obtain xs cl where i: "i = (xs, cl)" by (cases i)
  let ?calls = "t_calls (s_timers s)"
  have late: "at_end (cur + 15) (agenda_of xs)"
    using ok i by (auto simp: idle_ok_def at_end_def agenda_of_def)
  have fresh: "a \<notin> fst ` set (agenda_of xs)" using ok i by (auto simp: idle_ok_def agenda_of_fst)
  then have "timer_legal (T_add a (cur + 15)) (agenda_of xs, ?calls)"
    using late by (simp add: timer_legal_def)
  with rel i obtain ts where ts: "add_timer (Some a) (new_timer a (cur + 15) (s_timers s)) = Some ts"
    "timer_rel ts (agenda_do (T_add a (cur + 15)) (agenda_of xs, ?calls))"
    using timers.step_sim by (fastforce simp: idle_rel_def timer_do_def)
  have "agenda_do (T_add a (cur + 15)) (agenda_of xs, ?calls) = (agenda_of (xs @ [(a, fd, cur + 15)]), ?calls)"
    using late by (cases xs) (auto simp: agenda_do_def agenda_of_def at_end_def)
  with ts(2) have "timer_rel ts (agenda_of (xs @ [(a, fd, cur + 15)]), t_calls ts)" by (simp add: timer_rel_def)
  moreover have "s_user_of s b = int g" "b \<noteq> a" if "(b, g, e) \<in> set xs" for b g e
    using that rel i fresh by (auto simp: idle_rel_def agenda_of_fst rev_image_eqI)
  ultimately show ?thesis
    using ts(1) rel i by (auto simp: srv_do_def srv_timer_def idle_rel_def idle_do_def)
qed

lemma alarm_sim:
  assumes rel: "idle_rel s i"
  shows "\<exists>s'. srv_do (S_alarm cur) s = Some s' \<and> idle_rel s' (idle_do (S_alarm cur) i)"
proof -
  obtain xs cl where i: "i = (xs, cl)" by (cases i)
  let ?calls = "t_calls (s_timers s)" and ?P = "\<lambda>x. snd (snd x) \<le> cur"
  from rel i obtain ts where ts: "tick cur (s_timers s) = Some ts"
    "timer_rel ts (agenda_do (T_tick cur) (agenda_of xs, ?calls))"
    using timers.step_sim [of "s_timers s" _ "T_tick cur"] by (fastforce simp: idle_rel_def timer_do_def timer_legal_def)
  have split: "takeWhile (\<lambda>x. snd x \<le> cur) (agenda_of xs) = agenda_of (takeWhile ?P xs)"
    "dropWhile (\<lambda>x. snd x \<le> cur) (agenda_of xs) = agenda_of (dropWhile ?P xs)"
    by (auto simp: agenda_of_def takeWhile_map dropWhile_map comp_def case_prod_beta)
  with ts(2) have calls: "t_calls ts = ?calls @ map fst (takeWhile ?P xs)"
    and rel': "timer_rel ts (agenda_of (dropWhile ?P xs), t_calls ts)"
    by (auto simp: agenda_do_def timer_rel_def agenda_of_def comp_def case_prod_beta)
  have "map (s_user_of s) (map fst (takeWhile ?P xs)) = map (\<lambda>x. int (fst (snd x))) (takeWhile ?P xs)"
    using rel i by (auto simp: idle_rel_def dest!: set_takeWhileD)
  moreover have "\<forall>(a, fd, e) \<in> set (dropWhile ?P xs). s_user_of s a = int fd"
    using rel i by (auto simp: idle_rel_def dest: set_dropWhileD)
  ultimately show ?thesis
    using ts(1) rel rel' i calls
    by (auto simp: srv_do_def time_handler_def idle_rel_def idle_do_def fold_cb_func closes_cb emit_def Let_def
        simp del: map_map)
qed

interpretation idle: simulation idle_rel srv_do idle_do idle_ok
proof
  fix s i c
  assume "idle_rel s i" "idle_ok c i"
  then show "\<exists>s'. srv_do c s = Some s' \<and> idle_rel s' (idle_do c i)"
    using accept_sim alarm_sim by (cases c) auto
qed



end
