(* ===== verification/Web_Main.thy ===== *)
theory Web_Main
  imports Web_Server
begin

text \<open>
  \<^verbatim>\<open>TinyWebServer/main.cpp\<close>: the start of the server.  \<open>web_start\<close> is \<^verbatim>\<open>main\<close> up to the call of \<^verbatim>\<open>event_loop\<close>; it is \<open>None\<close> when one of
  its parts exits, asserts or throws.  The answers of the operating system and of the database, the state of the log and of the pool
  singletons before the start, and the parsed options are the record \<open>web_env\<close>.

  The theorem says what a server that has started has set up: the port, trigger and closing mode the options ask for, the
  listening socket and the signal pipe in the epoll set, the handlers and the first alarm, in this order and nothing else.
\<close>

record web_env =
  w_opts :: "(char \<times> string) list"
  w_cwd :: string
  w_can :: "string \<Rightarrow> bool"
  w_time :: tm
  w_connect :: "nat \<Rightarrow> nat option"
  w_rows :: "(string \<times> string) list option"
  w_created :: "nat \<Rightarrow> bool"
  w_listen :: listen_env
  w_log :: wlog
  w_pool :: cpool

definition web_start :: "web_env \<Rightarrow> server option" where
  "web_start w =
     (let user = ''wh''; password = ''The_Beat1es''; database_name = ''userdb'';
          config = parse_arg (w_opts w) config_new;
          s = server_init config (server_new (w_cwd w))
      in do {
        l \<leftarrow> srv_log_write (w_can w) (w_time w) s (w_log w);
        (s, p) \<leftarrow> sql_pool (w_connect w) (w_rows w) user password database_name s (w_pool w);
        s \<leftarrow> thread_pool (w_created w) s;
        let s = trig_mode s;
        event_listen (w_listen w) s })"

definition web_main :: "web_env \<Rightarrow> (event list \<times> int) option list \<Rightarrow> unit + server run option" where
  "web_main w polls = (case web_start w of None \<Rightarrow> Inl () | Some s \<Rightarrow> Inr (event_loop polls (s, False)))"

text \<open>The events of the start.\<close>

definition linger_events :: "int \<Rightarrow> srv_event list" where
  "linger_events m = (if m = 0 then [Set_linger 0 1] else if m = 1 then [Set_linger 1 1] else [])"

definition start_events :: "config \<Rightarrow> int \<Rightarrow> int \<Rightarrow> srv_event list" where
  "start_events c fd pipe =
     linger_events (c_opt_linger c) @
     [Bound fd (c_port c), Fd (Ep_add fd (c_div (c_trig_mode c) 2 = 1) False), Fd (Ep_add pipe False False),
      Sig_install SIGPIPE True, Sig_install SIGALRM False, Sig_install SIGTERM False, Alarm TIMESLOT]"

lemma sql_pool_Some: "sql_pool connect rows u pw db s p = Some (s', p') \<Longrightarrow> \<exists>us. s' = s\<lparr>s_users := us\<rparr>"
  by (auto simp: sql_pool_def split: option.splits)

lemma thread_pool_Some: "thread_pool created s = Some s' \<Longrightarrow> \<exists>tp. s' = s\<lparr>s_pool := tp\<rparr>"
  by (auto simp: thread_pool_def split: option.splits)

lemma event_listen_Some:
  assumes "event_listen r s = Some s'"
  obtains p where "r_pair r = Some p"
    "s' = s\<lparr>s_listen_fd := r_socket r, s_epoll_fd := r_epoll r, s_pipe_fd := p,
       s_out := s_out s @ linger_events (s_opt_linger s) @ [Bound (r_socket r) (s_port s),
         Fd (Ep_add (r_socket r) (s_listen_trig_mode s = 1) False), Fd (Ep_add (fst p) False False),
         Sig_install SIGPIPE True, Sig_install SIGALRM False, Sig_install SIGTERM False, Alarm TIMESLOT]\<rparr>"
  using assms
  by (auto simp: event_listen_def addsig_def utils_addfd_def emit_def linger_events_def Let_def split: if_splits option.splits bind_splits)

theorem web_start_sets_up:
  assumes "web_start w = Some s"
  defines "c \<equiv> parse_arg (w_opts w) config_new"
  shows "\<exists>p. r_pair (w_listen w) = Some p \<and> s_pipe_fd s = p \<and> s_port s = c_port c \<and> s_actor_mode s = c_actor_mode c
    \<and> s_listen_fd s = r_socket (w_listen w) \<and> s_conn_trig_mode s = c_rem (c_trig_mode c) 2
    \<and> s_user_count s = 0 \<and> s_out s = start_events c (r_socket (w_listen w)) (fst p)"
proof -
  from assms(1) obtain l s1 p s2 where
    "sql_pool (w_connect w) (w_rows w) ''wh'' ''The_Beat1es'' ''userdb'' (server_init c (server_new (w_cwd w))) (w_pool w) = Some (s1, p)"
    and "thread_pool (w_created w) s1 = Some s2" and e: "event_listen (w_listen w) (trig_mode s2) = Some s"
    by (auto simp: web_start_def c_def Let_def split: bind_splits)
  then obtain us tp where s2: "s2 = (server_init c (server_new (w_cwd w)))\<lparr>s_users := us, s_pool := tp\<rparr>"
    using sql_pool_Some thread_pool_Some by metis
  from e show ?thesis
    by (rule event_listen_Some) (simp add: s2 trig_mode_def server_init_def server_new_def start_events_def)
qed

end
