(* ===== verification/Cpp_Std.thy ===== *)
theory Cpp_Std
  imports Net_Addr
begin

text \<open>
  What the C++ programs of \<^verbatim>\<open>videoedit\<close> use of the standard library.  \<open>outcome\<close> is the result of code that
  may throw, meet undefined behaviour, have the process terminated or not return; \<open>then_ok\<close> sequences it.  Strings are lists of
  characters with \<^verbatim>\<open>substr\<close>, \<^verbatim>\<open>find\<close>, \<^verbatim>\<open>stoi\<close> and \<^verbatim>\<open>to_string\<close>.  An input stream is the rest of its
  characters with the state \<open>good\<close> (neither the end of the file nor an error was met); \<^verbatim>\<open>getline\<close> and
  \<^verbatim>\<open>>>\<close> follow the standard: both fail on a stream that is not good, \<^verbatim>\<open>>>\<close> skips white space.

  The lemmas give the words that \<^verbatim>\<open>>>\<close> reads one after another and the lines that \<^verbatim>\<open>getline\<close> reads, as
  functions of the whole text.
\<close>

subsection \<open>Results\<close>

datatype exn = Invalid_argument | Out_of_range | Runtime_error string | Filesystem_error | Std_exception

datatype 'a outcome = Ok 'a | Throw exn | Undefined | Terminated | Blocked

fun then_ok :: "'a outcome \<Rightarrow> ('a \<Rightarrow> 'b outcome) \<Rightarrow> 'b outcome" where
  "then_ok (Ok x) f = f x"
| "then_ok (Throw e) f = Throw e"
| "then_ok Undefined f = Undefined"
| "then_ok Terminated f = Terminated"
| "then_ok Blocked f = Blocked"

fun each :: "('a \<Rightarrow> 's \<Rightarrow> 's outcome) \<Rightarrow> 'a list \<Rightarrow> 's \<Rightarrow> 's outcome" where
  "each f [] s = Ok s"
| "each f (x # xs) s = then_ok (f x s) (each f xs)"

lemma each_append [simp]: "each f (xs @ ys) s = then_ok (each f xs s) (each f ys)"
proof (induction xs arbitrary: s)
  case (Cons x xs)
  then show ?case by (cases "f x s") simp_all
qed simp

lemma then_ok_Ok: "then_ok r f = Ok y \<longleftrightarrow> (\<exists>x. r = Ok x \<and> f x = Ok y)"
  by (cases r) auto

subsection \<open>Strings\<close>

definition substr :: "string \<Rightarrow> nat \<Rightarrow> nat \<Rightarrow> string outcome" where
  "substr s pos n = (if length s < pos then Throw Out_of_range else Ok (take n (drop pos s)))"

fun has_prefix :: "string \<Rightarrow> string \<Rightarrow> bool" where
  "has_prefix [] s \<longleftrightarrow> True"
| "has_prefix (p # ps) [] \<longleftrightarrow> False"
| "has_prefix (p # ps) (c # cs) \<longleftrightarrow> p = c \<and> has_prefix ps cs"

text \<open>\<^verbatim>\<open>s.find(p)\<close>: the first position, \<open>None\<close> for \<^verbatim>\<open>npos\<close>.\<close>

fun find_str :: "string \<Rightarrow> string \<Rightarrow> nat option" where
  "find_str p [] = (if p = [] then Some 0 else None)"
| "find_str p (c # cs) = (if has_prefix p (c # cs) then Some 0 else map_option Suc (find_str p cs))"

text \<open>\<^verbatim>\<open>stoi\<close>: blanks, a sign, digits; no digits and numbers outside \<^verbatim>\<open>int\<close> throw.\<close>

definition stoi :: "string \<Rightarrow> int outcome" where
  "stoi s =
     (let t = dropWhile is_space s;
          u = (if t \<noteq> [] \<and> (hd t = CHR ''-'' \<or> hd t = CHR ''+'') then tl t else t);
          d = takeWhile is_digit u;
          n = (if t \<noteq> [] \<and> hd t = CHR ''-'' then - int (dec_val d) else int (dec_val d))
      in if d = [] then Throw Invalid_argument
         else if n < - (2 ^ 31) \<or> 2 ^ 31 \<le> n then Throw Out_of_range
         else Ok n)"

abbreviation to_string :: "int \<Rightarrow> string" where "to_string \<equiv> int_text"

lemma has_prefix_iff: "has_prefix p s \<longleftrightarrow> (\<exists>t. s = p @ t)"
  by (induction p s rule: has_prefix.induct) auto

lemma find_str_Some: "find_str p s = Some i \<Longrightarrow> i + length p \<le> length s \<and> take (length p) (drop i s) = p"
proof (induction s arbitrary: i)
  case (Cons c cs)
  have "length p \<le> length s \<and> take (length p) s = p" if "has_prefix p s" for s
    using that by (auto simp: has_prefix_iff)
  with Cons show ?case by (fastforce split: if_splits)
qed (simp split: if_splits)

lemma find_str_None: "find_str p s = None \<longleftrightarrow> (\<nexists>a b. s = a @ p @ b)"
proof (induction s)
  case (Cons c cs)
  have "(\<exists>a b. c # cs = a @ p @ b) \<longleftrightarrow> has_prefix p (c # cs) \<or> (\<exists>a b. cs = a @ p @ b)"
  proof
    assume "\<exists>a b. c # cs = a @ p @ b"
    then obtain a b where "c # cs = a @ p @ b" by blast
    then show "has_prefix p (c # cs) \<or> (\<exists>a b. cs = a @ p @ b)"
      by (cases a) (auto simp: has_prefix_iff)
  next
    assume "has_prefix p (c # cs) \<or> (\<exists>a b. cs = a @ p @ b)"
    then show "\<exists>a b. c # cs = a @ p @ b"
      by (metis append_Cons append_Nil has_prefix_iff)
  qed
  with Cons show ?case by auto
qed auto

lemma digit_not_space: "is_digit c \<Longrightarrow> \<not> is_space c"
  by (auto simp: is_digit_def is_space_def)

lemma digit_no_sign: "is_digit c \<Longrightarrow> c \<noteq> CHR ''-'' \<and> c \<noteq> CHR ''+''"
  by (auto simp: is_digit_def)

lemma stoi_digits:
  assumes "d \<noteq> []" "list_all is_digit d" "dec_val d < 2 ^ 31"
    "r = [] \<or> \<not> is_digit (hd r)"
  shows "stoi (d @ r) = Ok (int (dec_val d))"
proof -
  obtain c cs where d: "d = c # cs" using assms(1) by (cases d) auto
  with assms(2) have c: "\<not> is_space c" "c \<noteq> CHR ''-''" "c \<noteq> CHR ''+''"
    using digit_not_space digit_no_sign by auto
  have tw: "takeWhile is_digit (d @ r) = d"
    using assms(2,4) by (cases r) (auto simp: list_all_iff takeWhile_append2)
  show ?thesis using assms(3) c tw by (simp add: stoi_def d)
qed

lemma stoi_dec_text: "n < 2 ^ 31 \<Longrightarrow> stoi (dec_text n) = Ok (int n)"
  using stoi_digits [of "dec_text n" "[]"] dec_text_props [of n] by simp

subsection \<open>Input streams\<close>

record istream =
  chars :: string
  good :: bool

definition stream :: "string \<Rightarrow> istream" where
  "stream s = \<lparr>chars = s, good = True\<rparr>"

text \<open>\<^verbatim>\<open>getline(is, str)\<close>: the new value of \<open>str\<close>.  Without a line feed the rest is the line and the stream is at
  its end.\<close>

definition getline :: "string \<Rightarrow> istream \<Rightarrow> string \<times> istream" where
  "getline str is =
     (if \<not> good is then (str, is)
      else let line = takeWhile (\<lambda>c. c \<noteq> nl) (chars is); rest = dropWhile (\<lambda>c. c \<noteq> nl) (chars is)
           in (line, is\<lparr>chars := tl rest, good := rest \<noteq> []\<rparr>))"

text \<open>\<^verbatim>\<open>is >> token\<close>: whether it succeeded, and the token.\<close>

definition read_token :: "string \<Rightarrow> istream \<Rightarrow> bool \<times> string \<times> istream" where
  "read_token token is =
     (if \<not> good is then (False, token, is)
      else let s = dropWhile is_space (chars is)
           in if s = [] then (False, token, is\<lparr>chars := [], good := False\<rparr>)
              else let rest = dropWhile (\<lambda>c. \<not> is_space c) s
                   in (True, takeWhile (\<lambda>c. \<not> is_space c) s,
                       is\<lparr>chars := rest, good := rest \<noteq> []\<rparr>))"

lemma length_dropWhile: "length (dropWhile P xs) \<le> length xs"
  by (induction xs) auto

lemma read_token_shorter:
  assumes "read_token token is = (True, token', is')"
  shows "length (chars is') < length (chars is)"
proof -
  let ?t = "dropWhile is_space (chars is)"
  from assms have t: "?t \<noteq> []" "chars is' = dropWhile (\<lambda>c. \<not> is_space c) ?t"
    by (auto simp: read_token_def Let_def simp del: dropWhile_eq_Nil_conv split: if_splits)
  then have "\<not> is_space (hd ?t)" by (metis hd_dropWhile)
  then have "length (chars is') < length ?t"
    using t length_dropWhile [of "\<lambda>c. \<not> is_space c" "tl ?t"] by (cases ?t) auto
  then show ?thesis using length_dropWhile [of is_space "chars is"] by simp
qed

text \<open>The words of a text.\<close>

function words :: "string \<Rightarrow> string list" where
  "words s = (let t = dropWhile is_space s in
     if t = [] then [] else takeWhile (\<lambda>c. \<not> is_space c) t # words (dropWhile (\<lambda>c. \<not> is_space c) t))"
  by auto
termination
proof (relation "measure length", simp)
  fix s t assume t: "t = dropWhile is_space s" "t \<noteq> []"
  then have "\<not> is_space (hd t)" by (metis hd_dropWhile)
  then have "length (dropWhile (\<lambda>c. \<not> is_space c) t) < length t"
    using t(2) length_dropWhile [of "\<lambda>c. \<not> is_space c" "tl t"] by (cases t) auto
  then show "(dropWhile (\<lambda>c. \<not> is_space c) t, s) \<in> measure length"
    using length_dropWhile [of is_space s] t(1) by simp
qed

declare words.simps [simp del]

lemma words_Nil [simp]: "words [] = []"
  by (simp add: words.simps)

lemma words_space [simp]: "is_space c \<Longrightarrow> words (c # s) = words s"
  by (simp add: words.simps [of "c # s"] words.simps [of s])

definition word_ok :: "string \<Rightarrow> bool" where
  "word_ok w \<longleftrightarrow> w \<noteq> [] \<and> list_all (\<lambda>c. \<not> is_space c) w"

lemma words_word:
  assumes "word_ok w" "r = [] \<or> is_space (hd r)"
  shows "words (w @ r) = w # words r"
proof -
  obtain c cs where w: "w = c # cs" "\<not> is_space c" "list_all (\<lambda>c. \<not> is_space c) cs"
    using assms(1) by (cases w) (auto simp: word_ok_def)
  have "takeWhile (\<lambda>c. \<not> is_space c) (w @ r) = w" "dropWhile (\<lambda>c. \<not> is_space c) (w @ r) = r"
    using assms by (cases r; auto simp: word_ok_def list_all_iff takeWhile_append2 dropWhile_append2)+
  moreover have "dropWhile is_space (w @ r) = w @ r" "w @ r \<noteq> []" using w by simp_all
  ultimately show ?thesis by (subst words.simps) (simp add: Let_def)
qed

lemma words_ok: "w \<in> set (words s) \<Longrightarrow> word_ok w"
proof (induction s rule: words.induct)
  case (1 s)
  show ?case
  proof (cases "dropWhile is_space s = []")
    case False
    then have "\<not> is_space (hd (dropWhile is_space s))" by (metis hd_dropWhile)
    with False have "word_ok (takeWhile (\<lambda>c. \<not> is_space c) (dropWhile is_space s))"
      by (cases "dropWhile is_space s") (auto simp: word_ok_def list_all_iff dest: set_takeWhileD)
    with 1(1) [OF refl False] 1(2) False show ?thesis
      unfolding words.simps [of s] Let_def by (auto simp del: dropWhile_eq_Nil_conv)
  qed (use 1 in \<open>simp add: words.simps\<close>)
qed

text \<open>Words separated by single blanks.\<close>

fun unwords :: "string list \<Rightarrow> string" where
  "unwords [] = []"
| "unwords [w] = w"
| "unwords (w # ws) = w @ CHR '' '' # unwords ws"

lemma words_unwords: "list_all word_ok ws \<Longrightarrow> words (unwords ws) = ws"
proof (induction ws rule: unwords.induct)
  case (2 w)
  then show ?case using words_word [of w "[]"] by simp
next
  case (3 w v vs)
  then show ?case using words_word [of w "CHR '' '' # unwords (v # vs)"] by (simp add: is_space_def)
qed simp

text \<open>The lines that repeated \<^verbatim>\<open>getline\<close> reads, and the text of some lines.\<close>

fun lines :: "string \<Rightarrow> string list" where
  "lines [] = [[]]"
| "lines (c # cs) = (if c = nl then [] # lines cs else (c # hd (lines cs)) # tl (lines cs))"

lemma lines_ne [simp]: "lines s \<noteq> []"
  by (induction s) auto

lemma lines_rec:
  "lines s = takeWhile (\<lambda>c. c \<noteq> nl) s #
     (case dropWhile (\<lambda>c. c \<noteq> nl) s of [] \<Rightarrow> [] | c # cs \<Rightarrow> lines cs)"
  by (induction s) auto

definition unlines :: "string list \<Rightarrow> string" where
  "unlines ls = concat (map (\<lambda>l. l @ [nl]) ls)"

lemma lines_unlines: "list_all (\<lambda>l. nl \<notin> set l) ls \<Longrightarrow> lines (unlines ls) = ls @ [[]]"
proof (induction ls)
  case (Cons l ls)
  have "\<forall>c \<in> set l. c \<noteq> nl" using Cons.prems by auto
  then have "takeWhile (\<lambda>c. c \<noteq> nl) (l @ nl # unlines ls) = l"
    "dropWhile (\<lambda>c. c \<noteq> nl) (l @ nl # unlines ls) = nl # unlines ls"
    by (simp_all add: takeWhile_append2 dropWhile_append2)
  then show ?case using Cons lines_rec [of "l @ nl # unlines ls"] by (simp add: unlines_def)
qed (simp add: unlines_def)

end
