(* ===== verification/Web_Locks.thy ===== *)
theory Web_Locks
  imports Web_Queue Cpp_Std
begin

text \<open>
  \<^verbatim>\<open>TinyWebServer/lock/locker.h\<close>, the classes \<^verbatim>\<open>Sem\<close>, \<^verbatim>\<open>Locker\<close> and \<^verbatim>\<open>Cond\<close>, and \<^verbatim>\<open>push\<close> and \<^verbatim>\<open>pop\<close> of \<^verbatim>\<open>log/block_queue.h\<close> on top of them,
  statement by statement.

  A mutex is the thread that holds it; a semaphore its count; a condition variable the threads that sleep on it and those
  that were woken and have not got the mutex back.  Each method is its effect and its result, \<open>Blocked\<close> where the thread has to wait
  and \<open>Undefined\<close> where POSIX leaves the behaviour undefined.  A thread of the queue is at a statement of \<^verbatim>\<open>push\<close> or \<^verbatim>\<open>pop\<close>; a step
  runs one statement of one thread, or wakes a sleeper for no reason.  \<^verbatim>\<open>pthread_cond_wait\<close> on an initialised condition
  with the mutex held does not fail, so the branch for its failure is not taken.

  The property justifies the model of \<open>Queue_Threads\<close>, in which a critical section is one step: every run of the
  statements is a run of that system.
\<close>

subsection \<open>Sem\<close>

text \<open>The constructors, on the result of \<^verbatim>\<open>sem_init\<close>.\<close>

definition Sem_new :: "int \<Rightarrow> nat \<Rightarrow> nat outcome" where
  "Sem_new r num = (if r \<noteq> 0 then Throw Std_exception else Ok num)"

definition SEM_VALUE_MAX :: nat where "SEM_VALUE_MAX = 2147483647"

text \<open>\<open>interrupted\<close>: a signal handler ran while the thread waited.\<close>

definition Sem_wait :: "bool \<Rightarrow> nat \<Rightarrow> (bool \<times> nat) outcome" where
  "Sem_wait interrupted n = (if interrupted then Ok (False, n) else if n = 0 then Blocked else Ok (True, n - 1))"

definition Sem_post :: "nat \<Rightarrow> (bool \<times> nat) outcome" where
  "Sem_post n = (if n < SEM_VALUE_MAX then Ok (True, n + 1) else Ok (False, n))"

lemma sem_post_wait: "n < SEM_VALUE_MAX \<Longrightarrow> then_ok (Sem_post n) (\<lambda>(_, k). Sem_wait False k) = Ok (True, n)"
  by (simp add: Sem_post_def Sem_wait_def)

subsection \<open>Locker\<close>

type_synonym mutex = "nat option"

definition Locker_new :: "int \<Rightarrow> mutex outcome" where
  "Locker_new r = (if r \<noteq> 0 then Throw Std_exception else Ok None)"

definition Locker_lock :: "nat \<Rightarrow> mutex \<Rightarrow> (bool \<times> mutex) outcome" where
  "Locker_lock t m = (if m = None then Ok (True, Some t) else Blocked)"

definition Locker_unlock :: "nat \<Rightarrow> mutex \<Rightarrow> (bool \<times> mutex) outcome" where
  "Locker_unlock t m = (if m = Some t then Ok (True, None) else Undefined)"

subsection \<open>Cond\<close>

record cond =
  c_sleeping :: "nat set"
  c_woken :: "nat set"

definition Cond_new :: "int \<Rightarrow> cond outcome" where
  "Cond_new r = (if r \<noteq> 0 then Throw Std_exception else Ok \<lparr>c_sleeping = {}, c_woken = {}\<rparr>)"

text \<open>\<^verbatim>\<open>wait\<close> in two parts: the thread gives the mutex up and falls asleep in one step; when it was woken it takes the mutex.\<close>

definition Cond_wait :: "nat \<Rightarrow> mutex \<times> cond \<Rightarrow> (mutex \<times> cond) outcome" where
  "Cond_wait t = (\<lambda>(m, c). if m = Some t then Ok (None, c\<lparr>c_sleeping := insert t (c_sleeping c)\<rparr>) else Undefined)"

definition Cond_wait_returns :: "nat \<Rightarrow> mutex \<times> cond \<Rightarrow> (bool \<times> mutex \<times> cond) outcome" where
  "Cond_wait_returns t = (\<lambda>(m, c).
     if m = None \<and> t \<in> c_woken c then Ok (True, Some t, c\<lparr>c_woken := c_woken c - {t}\<rparr>) else Blocked)"

text \<open>\<^verbatim>\<open>timewait\<close> returns as well when the time is over, with \<^verbatim>\<open>false\<close>.\<close>

definition Cond_timewait_returns :: "bool \<Rightarrow> nat \<Rightarrow> mutex \<times> cond \<Rightarrow> (bool \<times> mutex \<times> cond) outcome" where
  "Cond_timewait_returns over t = (\<lambda>(m, c).
     if over \<and> m = None \<and> t \<in> c_sleeping c then Ok (False, Some t, c\<lparr>c_sleeping := c_sleeping c - {t}\<rparr>)
     else Cond_wait_returns t (m, c))"

text \<open>\<^verbatim>\<open>signal\<close> wakes a thread \<open>t\<close> the system chooses, if one sleeps.\<close>

definition Cond_signal :: "nat \<Rightarrow> cond \<Rightarrow> bool \<times> cond" where
  "Cond_signal t c = (True, if t \<in> c_sleeping c then c\<lparr>c_sleeping := c_sleeping c - {t}, c_woken := insert t (c_woken c)\<rparr> else c)"

definition Cond_broadcast :: "cond \<Rightarrow> bool \<times> cond" where
  "Cond_broadcast c = (True, c\<lparr>c_sleeping := {}, c_woken := c_woken c \<union> c_sleeping c\<rparr>)"

subsection \<open>The statements of push and pop\<close>

datatype 'a bq_pc =
    Idle
  | Push_lock 'a | Push_test 'a | Push_full 'a | Push_refuse 'a
  | Push_back 'a | Push_store 'a | Push_size 'a | Push_cast 'a | Push_unlock 'a
  | Pop_lock | Pop_test | Pop_wait | Pop_sleep | Pop_front | Pop_item | Pop_size 'a | Pop_unlock 'a

text \<open>\<open>f_pushed\<close> are the elements whose \<^verbatim>\<open>push\<close> has returned \<^verbatim>\<open>true\<close>, \<open>f_popped\<close> what the \<^verbatim>\<open>pop\<close>s have returned to which thread.\<close>

record 'a bq_sys =
  f_q :: "'a bq"
  f_m :: mutex
  f_c :: cond
  f_pc :: "nat \<Rightarrow> 'a bq_pc"
  f_pushed :: "'a list"
  f_popped :: "(nat \<times> 'a) list"

definition goto :: "nat \<Rightarrow> 'a bq_pc \<Rightarrow> 'a bq_sys \<Rightarrow> 'a bq_sys" where
  "goto t p s = s\<lparr>f_pc := (f_pc s)(t := p)\<rparr>"

definition locked :: "nat \<Rightarrow> 'a bq_pc \<Rightarrow> 'a bq_sys \<Rightarrow> 'a bq_sys outcome" where
  "locked t p s = then_ok (Locker_lock t (f_m s)) (\<lambda>(_, m). Ok (goto t p (s\<lparr>f_m := m\<rparr>)))"

definition unlocked :: "nat \<Rightarrow> 'a bq_sys \<Rightarrow> 'a bq_sys outcome" where
  "unlocked t s = then_ok (Locker_unlock t (f_m s)) (\<lambda>(_, m). Ok (goto t Idle (s\<lparr>f_m := m\<rparr>)))"

fun bq_statement :: "nat \<Rightarrow> 'a bq_pc \<Rightarrow> 'a bq_sys \<Rightarrow> 'a bq_sys outcome" where
  "bq_statement t Idle s = Blocked"
| "bq_statement t (Push_lock x) s = locked t (Push_test x) s"
| "bq_statement t (Push_test x) s =
     Ok (goto t (if m_size (f_q s) \<ge> m_max_size (f_q s) then Push_full x else Push_back x) s)"
| "bq_statement t (Push_full x) s = Ok (goto t (Push_refuse x) (s\<lparr>f_c := snd (Cond_broadcast (f_c s))\<rparr>))"
| "bq_statement t (Push_refuse x) s = unlocked t s"
| "bq_statement t (Push_back x) s =
     Ok (goto t (Push_store x) (s\<lparr>f_q := (f_q s)\<lparr>m_back := (m_back (f_q s) + 1) mod m_max_size (f_q s)\<rparr>\<rparr>))"
| "bq_statement t (Push_store x) s =
     (let q = f_q s in
      if 0 \<le> m_back q \<and> nat (m_back q) < length (m_array q)
      then Ok (goto t (Push_size x) (s\<lparr>f_q := q\<lparr>m_array := (m_array q)[nat (m_back q) := x]\<rparr>\<rparr>)) else Undefined)"
| "bq_statement t (Push_size x) s = Ok (goto t (Push_cast x) (s\<lparr>f_q := (f_q s)\<lparr>m_size := m_size (f_q s) + 1\<rparr>\<rparr>))"
| "bq_statement t (Push_cast x) s = Ok (goto t (Push_unlock x) (s\<lparr>f_c := snd (Cond_broadcast (f_c s))\<rparr>))"
| "bq_statement t (Push_unlock x) s = then_ok (unlocked t s) (\<lambda>s. Ok (s\<lparr>f_pushed := f_pushed s @ [x]\<rparr>))"
| "bq_statement t Pop_lock s = locked t Pop_test s"
| "bq_statement t Pop_test s = Ok (goto t (if m_size (f_q s) \<le> 0 then Pop_wait else Pop_front) s)"
| "bq_statement t Pop_wait s =
     then_ok (Cond_wait t (f_m s, f_c s)) (\<lambda>(m, c). Ok (goto t Pop_sleep (s\<lparr>f_m := m, f_c := c\<rparr>)))"
| "bq_statement t Pop_sleep s =
     then_ok (Cond_wait_returns t (f_m s, f_c s)) (\<lambda>(_, m, c). Ok (goto t Pop_test (s\<lparr>f_m := m, f_c := c\<rparr>)))"
| "bq_statement t Pop_front s =
     Ok (goto t Pop_item (s\<lparr>f_q := (f_q s)\<lparr>m_front := (m_front (f_q s) + 1) mod m_max_size (f_q s)\<rparr>\<rparr>))"
| "bq_statement t Pop_item s =
     (case array_get (m_array (f_q s)) (m_front (f_q s)) of None \<Rightarrow> Undefined | Some y \<Rightarrow> Ok (goto t (Pop_size y) s))"
| "bq_statement t (Pop_size y) s = Ok (goto t (Pop_unlock y) (s\<lparr>f_q := (f_q s)\<lparr>m_size := m_size (f_q s) - 1\<rparr>\<rparr>))"
| "bq_statement t (Pop_unlock y) s = then_ok (unlocked t s) (\<lambda>s. Ok (s\<lparr>f_popped := f_popped s @ [(t, y)]\<rparr>))"

text \<open>A thread that is in no call may call \<^verbatim>\<open>push\<close> or \<^verbatim>\<open>pop\<close>; a thread in a call runs its next statement.\<close>

datatype 'a bq_act = Call_push nat 'a | Call_pop nat | Run nat | Spurious nat

fun bq_step :: "'a bq_act \<Rightarrow> 'a bq_sys \<Rightarrow> 'a bq_sys outcome" where
  "bq_step (Call_push t x) s = (if f_pc s t = Idle then Ok (goto t (Push_lock x) s) else Blocked)"
| "bq_step (Call_pop t) s = (if f_pc s t = Idle then Ok (goto t Pop_lock s) else Blocked)"
| "bq_step (Run t) s = bq_statement t (f_pc s t) s"
| "bq_step (Spurious t) s =
     (if t \<in> c_sleeping (f_c s) then Ok (s\<lparr>f_c := snd (Cond_signal t (f_c s))\<rparr>) else Blocked)"

fun bq_steps :: "'a bq_act list \<Rightarrow> 'a bq_sys \<Rightarrow> 'a bq_sys outcome" where
  "bq_steps [] s = Ok s"
| "bq_steps (c # cs) s = then_ok (bq_step c s) (bq_steps cs)"

definition bq_boot :: "'a bq \<Rightarrow> 'a bq_sys" where
  "bq_boot q = \<lparr>f_q = q, f_m = None, f_c = \<lparr>c_sleeping = {}, c_woken = {}\<rparr>, f_pc = (\<lambda>_. Idle), f_pushed = [], f_popped = []\<rparr>"

subsection \<open>The statements refine the critical sections\<close>

text \<open>Where a thread holds the mutex, and where a \<^verbatim>\<open>pop\<close> holds it and has not yet taken its element.\<close>

fun inside :: "'a bq_pc \<Rightarrow> bool" where
  "inside Idle = False"
| "inside (Push_lock x) = False"
| "inside Pop_lock = False"
| "inside Pop_sleep = False"
| "inside _ = True"

fun popping :: "'a bq_pc \<Rightarrow> bool" where
  "popping Pop_test = True"
| "popping Pop_wait = True"
| "popping Pop_front = True"
| "popping Pop_item = True"
| "popping (Pop_size y) = True"
| "popping _ = False"

text \<open>The queue and the returned elements while thread \<open>t\<close> is at a statement, compared with the state of the coarse system, in
  which the effect of the whole section comes with \<^verbatim>\<open>broadcast\<close>, \<^verbatim>\<open>wait\<close>, or the end of the removal.\<close>

fun part :: "nat \<Rightarrow> 'a bq_pc \<Rightarrow> 'a bq \<Rightarrow> 'a bq \<Rightarrow> bool" where
  "part t (Push_full x) q q0 \<longleftrightarrow> q = q0 \<and> m_size q0 \<ge> m_max_size q0"
| "part t (Push_back x) q q0 \<longleftrightarrow> q = q0 \<and> m_size q0 < m_max_size q0"
| "part t (Push_store x) q q0 \<longleftrightarrow>
     m_size q0 < m_max_size q0 \<and> q = q0\<lparr>m_back := (m_back q0 + 1) mod m_max_size q0\<rparr>"
| "part t (Push_size x) q q0 \<longleftrightarrow>
     m_size q0 < m_max_size q0 \<and> q\<lparr>m_size := m_size q + 1\<rparr> = snd (bq_push x q0)"
| "part t (Push_cast x) q q0 \<longleftrightarrow> bq_push x q0 = (True, q)"
| "part t Pop_wait q q0 \<longleftrightarrow> q = q0 \<and> m_size q0 \<le> 0"
| "part t Pop_front q q0 \<longleftrightarrow> q = q0 \<and> 0 < m_size q0"
| "part t Pop_item q q0 \<longleftrightarrow> 0 < m_size q0 \<and> q = q0\<lparr>m_front := (m_front q0 + 1) mod m_max_size q0\<rparr>"
| "part t (Pop_size y) q q0 \<longleftrightarrow> bq_pop q0 = Some (y, q\<lparr>m_size := m_size q - 1\<rparr>)"
| "part t _ q q0 \<longleftrightarrow> q = q0"

fun late_push :: "'a bq_pc \<Rightarrow> 'a list" where
  "late_push (Push_unlock x) = [x]"
| "late_push _ = []"

fun late_pop :: "nat \<Rightarrow> 'a bq_pc \<Rightarrow> (nat \<times> 'a) list" where
  "late_pop t (Pop_unlock y) = [(t, y)]"
| "late_pop t _ = []"

definition in_section :: "'a bq_sys \<Rightarrow> ('a, 'a bq) qsys \<Rightarrow> bool" where
  "in_section s a \<longleftrightarrow> (case f_m s of
      None \<Rightarrow> f_q s = que a \<and> f_pushed s = accepted a \<and> f_popped s = got a \<and> woken a \<subseteq> c_woken (f_c s)
    | Some t \<Rightarrow> part t (f_pc s t) (f_q s) (que a) \<and> accepted a = f_pushed s @ late_push (f_pc s t)
        \<and> got a = f_popped s @ late_pop t (f_pc s t)
        \<and> woken a \<subseteq> c_woken (f_c s) \<union> (if popping (f_pc s t) then {t} else {}))"

definition bq_sim :: "'a bq_sys \<Rightarrow> ('a, 'a bq) qsys \<Rightarrow> bool" where
  "bq_sim s a \<longleftrightarrow> (\<forall>t. f_m s = Some t \<longleftrightarrow> inside (f_pc s t)) \<and> sleepers a = c_sleeping (f_c s)
     \<and> (\<forall>t. t \<in> c_sleeping (f_c s) \<union> c_woken (f_c s) \<longleftrightarrow> f_pc s t = Pop_sleep)
     \<and> c_sleeping (f_c s) \<inter> c_woken (f_c s) = {} \<and> in_section s a"

lemma bq_sim_boot: "bq_sim (bq_boot q) (q_start q)"
  by (simp add: bq_sim_def bq_boot_def q_start_def in_section_def)

lemma bq_sim_owner: "bq_sim s a \<Longrightarrow> inside (f_pc s t) \<Longrightarrow> f_m s = Some t"
  by (simp add: bq_sim_def)

lemma bq_sim_inside:
  assumes "bq_sim s a" "f_m s = Some t"
  shows "inside (f_pc s t)" "part t (f_pc s t) (f_q s) (que a)" "accepted a = f_pushed s @ late_push (f_pc s t)"
    "got a = f_popped s @ late_pop t (f_pc s t)" "woken a \<subseteq> c_woken (f_c s) \<union> (if popping (f_pc s t) then {t} else {})"
    "t \<notin> c_sleeping (f_c s)" "t \<notin> c_woken (f_c s)"
proof -
  show i: "inside (f_pc s t)" using assms unfolding bq_sim_def by blast
  show "part t (f_pc s t) (f_q s) (que a)" "accepted a = f_pushed s @ late_push (f_pc s t)"
    "got a = f_popped s @ late_pop t (f_pc s t)" "woken a \<subseteq> c_woken (f_c s) \<union> (if popping (f_pc s t) then {t} else {})"
    using assms by (simp_all add: bq_sim_def in_section_def)
  from i have "f_pc s t \<noteq> Pop_sleep" by auto
  with assms show "t \<notin> c_sleeping (f_c s)" "t \<notin> c_woken (f_c s)" unfolding bq_sim_def by blast+
qed

text \<open>A statement inside the section that the coarse system does not see.\<close>

lemma section_stay:
  assumes "bq_sim s a" "f_m s = Some t" "inside p'" "part t p' q' (que a)" "late_push p' = late_push (f_pc s t)"
    and "late_pop t p' = late_pop t (f_pc s t)" "popping (f_pc s t) \<longrightarrow> popping p'"
  shows "bq_sim (goto t p' (s\<lparr>f_q := q'\<rparr>)) a"
proof -
  note i = bq_sim_inside [OF assms(1,2)]
  have "p' \<noteq> Pop_sleep" using assms(3) by auto
  then show ?thesis using assms i unfolding bq_sim_def in_section_def goto_def by (auto split: if_splits)
qed

lemma bq_push_full: "m_size q \<ge> m_max_size q \<Longrightarrow> bq_push x q = (False, q)"
  by (simp add: bq_push_def)

lemma bq_push_steps:
  "m_size q < m_max_size q \<Longrightarrow> bq_push x q = (True, q\<lparr>m_back := (m_back q + 1) mod m_max_size q,
     m_array := (m_array q)[nat ((m_back q + 1) mod m_max_size q) := x], m_size := m_size q + 1\<rparr>)"
  by (simp add: bq_push_def Let_def)

text \<open>Every statement is no step or one step of the coarse system.\<close>

definition matched :: "'a bq_sys \<Rightarrow> ('a, 'a bq) qsys \<Rightarrow> bool" where
  "matched s' a \<longleftrightarrow> bq_sim s' a \<or> (\<exists>c a'. q_exec bq_push bq_pop c a = Some a' \<and> bq_sim s' a')"

lemma matchedI: "q_exec bq_push bq_pop c a = Some a' \<Longrightarrow> bq_sim s' a' \<Longrightarrow> matched s' a"
  unfolding matched_def by blast

text \<open>A \<^verbatim>\<open>broadcast\<close> is the moment at which the coarse system pushes.\<close>

lemma section_put:
  assumes "bq_sim s a" "f_m s = Some t" "\<not> popping (f_pc s t)" "late_push (f_pc s t) = []" "late_pop t (f_pc s t) = []"
    and "bq_push x (que a) = (b, f_q s)" "inside p'" "\<not> popping p'" "part t p' (f_q s) (f_q s)"
    and "late_push p' = (if b then [x] else [])" "late_pop t p' = []"
  shows "matched (goto t p' (s\<lparr>f_c := snd (Cond_broadcast (f_c s))\<rparr>)) a"
proof -
  note i = bq_sim_inside [OF assms(1,2)]
  let ?a = "a\<lparr>que := f_q s, sleepers := {}, woken := woken a \<union> sleepers a, accepted := accepted a @ (if b then [x] else [])\<rparr>"
  have "q_exec bq_push bq_pop (Put x (sleepers a)) a = Some ?a" using assms(6) by (simp add: q_put_def)
  moreover have "p' \<noteq> Pop_sleep" using assms(7) by auto
  then have "bq_sim (goto t p' (s\<lparr>f_c := snd (Cond_broadcast (f_c s))\<rparr>)) ?a"
    using assms i unfolding bq_sim_def in_section_def goto_def Cond_broadcast_def by (auto split: if_splits)
  ultimately show ?thesis by (rule matchedI)
qed

text \<open>Where \<^verbatim>\<open>pop\<close> falls asleep, and where it has taken its element.\<close>

lemma section_sleep:
  assumes "bq_sim s a" "f_pc s t = Pop_wait"
  shows "\<exists>s'. bq_statement t Pop_wait s = Ok s' \<and> matched s' a"
proof -
  have m: "f_m s = Some t" using assms by (simp add: bq_sim_owner)
  note i = bq_sim_inside [OF assms(1) m]
  let ?s = "goto t Pop_sleep (s\<lparr>f_m := None, f_c := (f_c s)\<lparr>c_sleeping := insert t (c_sleeping (f_c s))\<rparr>\<rparr>)"
  let ?a = "a\<lparr>sleepers := insert t (sleepers a), woken := woken a - {t}\<rparr>"
  have "sleepers a = c_sleeping (f_c s)" using assms(1) by (simp add: bq_sim_def)
  then have "q_exec bq_push bq_pop (Get t) a = Some ?a" using i assms(2) by (simp add: q_get_def bq_pop_def)
  moreover have "bq_sim ?s ?a" using assms m i unfolding bq_sim_def in_section_def goto_def by (auto split: if_splits)
  ultimately have "matched ?s a" by (rule matchedI)
  moreover have "bq_statement t Pop_wait s = Ok ?s" using m by (simp add: Cond_wait_def)
  ultimately show ?thesis by blast
qed

lemma section_get:
  assumes "bq_sim s a" "f_pc s t = Pop_size y"
  shows "\<exists>s'. bq_statement t (Pop_size y) s = Ok s' \<and> matched s' a"
proof -
  have m: "f_m s = Some t" using assms by (simp add: bq_sim_owner)
  note i = bq_sim_inside [OF assms(1) m]
  let ?q = "(f_q s)\<lparr>m_size := m_size (f_q s) - 1\<rparr>"
  let ?a = "a\<lparr>que := ?q, woken := woken a - {t}, got := got a @ [(t, y)]\<rparr>"
  have "sleepers a = c_sleeping (f_c s)" using assms(1) by (simp add: bq_sim_def)
  then have "q_exec bq_push bq_pop (Get t) a = Some ?a" using i assms(2) by (simp add: q_get_def)
  moreover have "bq_sim (goto t (Pop_unlock y) (s\<lparr>f_q := ?q\<rparr>)) ?a"
    using assms m i unfolding bq_sim_def in_section_def goto_def by (auto split: if_splits)
  ultimately have "matched (goto t (Pop_unlock y) (s\<lparr>f_q := ?q\<rparr>)) a" by (rule matchedI)
  then show ?thesis by simp
qed

text \<open>Leaving the section.\<close>

lemma section_leave:
  assumes "bq_sim s a" "f_m s = Some t" "f_pc s t \<in> {Push_refuse x, Push_unlock x, Pop_unlock y}"
  shows "bq_sim ((goto t Idle (s\<lparr>f_m := None\<rparr>))\<lparr>f_pushed := f_pushed s @ late_push (f_pc s t),
    f_popped := f_popped s @ late_pop t (f_pc s t)\<rparr>) a"
  using assms bq_sim_inside [OF assms(1,2)] unfolding bq_sim_def in_section_def goto_def by (auto split: if_splits)

lemma matched_stay:
  assumes "bq_sim s a" "f_m s = Some t" "inside p'" "part t p' q' (que a)" "late_push p' = late_push (f_pc s t)"
    and "late_pop t p' = late_pop t (f_pc s t)" "popping (f_pc s t) \<longrightarrow> popping p'"
  shows "matched (goto t p' (s\<lparr>f_q := q'\<rparr>)) a"
  using section_stay [OF assms] by (simp add: matched_def)

lemma matched_same:
  assumes "bq_sim s a" "f_m s = Some t" "inside p'" "part t p' (f_q s) (que a)" "late_push p' = late_push (f_pc s t)"
    and "late_pop t p' = late_pop t (f_pc s t)" "popping (f_pc s t) \<longrightarrow> popping p'"
  shows "matched (goto t p' s) a"
  using matched_stay [OF assms] by (simp add: goto_def)

lemma inside_matched:
  assumes "bq_sim s a" "bq_inv (que a)" "inside (f_pc s t)"
  shows "\<exists>s'. bq_statement t (f_pc s t) s = Ok s' \<and> matched s' a"
proof -
  have m: "f_m s = Some t" using assms by (simp add: bq_sim_owner)
  note i = bq_sim_inside [OF assms(1) m] and stay = matched_stay [OF assms(1) m]
    and same = matched_same [OF assms(1) m]
    and leave = section_leave [OF assms(1) m] and put = section_put [OF assms(1) m]
  have pos: "0 < m_max_size (que a)" "length (m_array (que a)) = nat (m_max_size (que a))" using assms(2) by (simp_all add: bq_inv_def)
  have slot: "0 \<le> k mod m_max_size (que a) \<and> nat (k mod m_max_size (que a)) < length (m_array (que a))" for k
    using pos by (simp add: nat_less_iff)
  have unlock: "unlocked t s = Ok (goto t Idle (s\<lparr>f_m := None\<rparr>))" using m by (simp add: unlocked_def Locker_unlock_def)
  show ?thesis
  proof (cases "f_pc s t")
    case (Push_test x)
    then show ?thesis using i same [of "Push_full x"] same [of "Push_back x"] by simp
  next
    case (Push_full x)
    then show ?thesis using i put [of x False "Push_refuse x"] by (simp add: bq_push_full)
  next
    case (Push_refuse x)
    then show ?thesis using leave [of x] unlock by (simp add: matched_def goto_def)
  next
    case (Push_back x)
    then show ?thesis using i stay [of "Push_store x"] by simp
  next
    case (Push_store x)
    then show ?thesis using i stay [of "Push_size x"] slot [of "m_back (que a) + 1"] by (simp add: bq_push_steps Let_def)
  next
    case (Push_size x)
    then show ?thesis using i stay [of "Push_cast x"] by (simp add: bq_push_steps)
  next
    case (Push_cast x)
    then show ?thesis using i put [of x True "Push_unlock x"] by simp
  next
    case (Push_unlock x)
    then show ?thesis using leave [of x] unlock by (simp add: matched_def goto_def)
  next
    case Pop_test
    then show ?thesis using i same [of Pop_wait] same [of Pop_front] by simp
  next
    case Pop_wait
    then show ?thesis using section_sleep [OF assms(1) Pop_wait] by simp
  next
    case Pop_front
    then show ?thesis using i stay [of Pop_item] by simp
  next
    case Pop_item
    let ?k = "(m_front (que a) + 1) mod m_max_size (que a)"
    have "array_get (m_array (f_q s)) (m_front (f_q s)) = Some (m_array (que a) ! nat ?k)"
      using Pop_item i slot [of "m_front (que a) + 1"] by (simp add: array_get_def)
    then show ?thesis using Pop_item i same [of "Pop_size (m_array (que a) ! nat ?k)"]
      by (simp add: bq_pop_def bq_take_def Let_def)
  next
    case (Pop_size y)
    then show ?thesis using section_get [OF assms(1) Pop_size] by simp
  next
    case (Pop_unlock y)
    then show ?thesis using leave [of _ y] unlock by (simp add: matched_def goto_def)
  qed (use assms(3) in simp_all)
qed

text \<open>Steps of threads that do not hold the mutex.\<close>

lemma enter_matched:
  assumes "bq_sim s a" "f_m s = None" "f_pc s t = p" "p = Push_lock x \<and> p' = Push_test x \<or> p = Pop_lock \<and> p' = Pop_test"
  shows "bq_sim (goto t p' (s\<lparr>f_m := Some t\<rparr>)) a"
  using assms unfolding bq_sim_def in_section_def goto_def by (auto split: if_splits)

lemma return_matched:
  assumes "bq_sim s a" "f_m s = None" "t \<in> c_woken (f_c s)"
  shows "bq_sim (goto t Pop_test (s\<lparr>f_m := Some t, f_c := (f_c s)\<lparr>c_woken := c_woken (f_c s) - {t}\<rparr>\<rparr>)) a"
  using assms unfolding bq_sim_def in_section_def goto_def by (auto split: if_splits)

lemma call_matched:
  assumes "bq_sim s a" "f_pc s t = Idle" "p' = Push_lock x \<or> p' = Pop_lock"
  shows "bq_sim (goto t p' s) a"
proof -
  have p: "\<not> inside p'" "p' \<noteq> Pop_sleep" using assms(3) by auto
  have "f_m s \<noteq> Some t" using assms(1,2) by (simp add: bq_sim_def)
  then have "in_section (goto t p' s) a = in_section s a" by (auto simp: in_section_def goto_def split: option.splits)
  with assms(1,2) p show ?thesis unfolding bq_sim_def by (auto simp: goto_def)
qed

lemma spurious_matched:
  assumes "bq_sim s a" "t \<in> c_sleeping (f_c s)"
  shows "matched (s\<lparr>f_c := snd (Cond_signal t (f_c s))\<rparr>) a"
proof -
  let ?s = "s\<lparr>f_c := snd (Cond_signal t (f_c s))\<rparr>" and ?a = "a\<lparr>sleepers := sleepers a - {t}, woken := insert t (woken a)\<rparr>"
  have "q_exec bq_push bq_pop (Wake t) a = Some ?a" using assms by (simp add: bq_sim_def)
  moreover have "in_section s a" using assms(1) by (simp add: bq_sim_def)
  with assms(2) have "in_section ?s ?a" by (cases "f_m s") (auto simp: in_section_def Cond_signal_def)
  then have "bq_sim ?s ?a" using assms unfolding bq_sim_def by (auto simp: Cond_signal_def)
  ultimately show ?thesis by (rule matchedI)
qed

lemma bq_step_matched:
  assumes "bq_sim s a" "bq_inv (que a)"
  shows "bq_step c s \<noteq> Undefined \<and> (\<forall>s'. bq_step c s = Ok s' \<longrightarrow> matched s' a)"
proof (cases c)
  case (Call_push t x)
  then show ?thesis using call_matched [OF assms(1), of t "Push_lock x"] by (simp add: matched_def)
next
  case (Call_pop t)
  then show ?thesis using call_matched [OF assms(1), of t Pop_lock] by (simp add: matched_def)
next
  case (Spurious t)
  then show ?thesis using spurious_matched [OF assms(1), of t] by simp
next
  case (Run t)
  show ?thesis
  proof (cases "inside (f_pc s t)")
    case True
    with inside_matched [OF assms] Run show ?thesis by fastforce
  next
    case False
    note e = enter_matched [OF assms(1) _ refl, of t] and r = return_matched [OF assms(1), of t]
    show ?thesis
    proof (cases "f_pc s t")
      case (Push_lock x)
      with e [of x "Push_test x"] Run show ?thesis by (auto simp: locked_def Locker_lock_def matched_def)
    next
      case Pop_lock
      with e [of _ Pop_test] Run show ?thesis by (auto simp: locked_def Locker_lock_def matched_def)
    next
      case Pop_sleep
      with r Run show ?thesis by (auto simp: Cond_wait_returns_def matched_def)
    qed (use False Run in simp_all)
  qed
qed

lemma q_run_snoc: "q_run push pop (as @ [c]) s = (case q_run push pop as s of None \<Rightarrow> None | Some s' \<Rightarrow> q_exec push pop c s')"
  by (induction as arbitrary: s) (auto split: option.splits)

lemma q_run_inv: "q_run bq_push bq_pop as (q_start q) = Some a \<Longrightarrow> bq_inv q \<Longrightarrow> bq_abs q = [] \<Longrightarrow> bq_inv (que a)"
  using bqq.q_run_ok [of as "q_start q" a] bqq.q_ok_start [of q] by (simp add: bqq.q_ok_def q_start_def)

text \<open>A state of the statements that belongs to some run of the coarse system.\<close>

definition covered :: "'a bq \<Rightarrow> 'a bq_sys \<Rightarrow> bool" where
  "covered q s \<longleftrightarrow> (\<exists>as a. q_run bq_push bq_pop as (q_start q) = Some a \<and> bq_sim s a)"

lemma covered_step:
  assumes "covered q s" "bq_inv q" "bq_abs q = []"
  shows "bq_step c s \<noteq> Undefined \<and> (\<forall>s'. bq_step c s = Ok s' \<longrightarrow> covered q s')"
proof -
  from assms(1) obtain as a where a: "q_run bq_push bq_pop as (q_start q) = Some a" "bq_sim s a" by (auto simp: covered_def)
  have "covered q s'" if m: "matched s' a" for s'
    using m unfolding matched_def
  proof (elim disjE exE conjE)
    fix c a' assume "q_exec bq_push bq_pop c a = Some a'" "bq_sim s' a'"
    then show ?thesis using a(1) q_run_snoc [of bq_push bq_pop as c "q_start q"] unfolding covered_def by fastforce
  qed (use a(1) in \<open>auto simp: covered_def\<close>)
  with bq_step_matched [OF a(2) q_run_inv [OF a(1) assms(2,3)]] show ?thesis by blast
qed

lemma covered_steps: "covered q s \<Longrightarrow> bq_inv q \<Longrightarrow> bq_abs q = [] \<Longrightarrow> bq_steps cs s = Ok s' \<Longrightarrow> covered q s'"
proof (induction cs arbitrary: s)
  case (Cons c cs)
  from Cons.prems(4) obtain s1 where "bq_step c s = Ok s1" "bq_steps cs s1 = Ok s'" by (auto simp: then_ok_Ok)
  with covered_step [OF Cons.prems(1-3), of c] Cons.IH [of s1] Cons.prems(2,3) show ?case by blast
qed simp

text \<open>Claim C16: critical sections may be taken as single steps.  For every interleaving of the statements of any number of
  threads that call \<^verbatim>\<open>push\<close> and \<^verbatim>\<open>pop\<close> on a new queue, with sleepers woken for no reason at any time: at most one thread is
  inside a critical section; the state is that of a run in which each section is one step; whenever the mutex is
  free the elements pushed are, in order, those popped followed by those in the buffer, and if the buffer holds an element while a
  thread sleeps another one has been woken; no statement is undefined, and the thread that holds the mutex can always go on.\<close>

theorem bq_statements_refine:
  assumes "bq_new junk n = Some q" "bq_steps cs (bq_boot q) = Ok s"
  shows "(\<forall>t u. inside (f_pc s t) \<and> inside (f_pc s u) \<longrightarrow> t = u)
    \<and> (\<exists>as a. q_run bq_push bq_pop as (q_start q) = Some a \<and> sleepers a = c_sleeping (f_c s)
        \<and> (f_m s = None \<longrightarrow> que a = f_q s \<and> accepted a = f_pushed s \<and> got a = f_popped s))
    \<and> (f_m s = None \<longrightarrow> f_pushed s = map snd (f_popped s) @ bq_abs (f_q s)
        \<and> (c_sleeping (f_c s) \<noteq> {} \<and> bq_abs (f_q s) \<noteq> [] \<longrightarrow> c_woken (f_c s) \<noteq> {}))
    \<and> (\<forall>c. bq_step c s \<noteq> Undefined) \<and> (\<forall>t. f_m s = Some t \<longrightarrow> (\<exists>s'. bq_step (Run t) s = Ok s'))"
proof -
  have q: "bq_inv q" "bq_abs q = []" using bq_new_inv [OF assms(1)] by auto
  have "q_run bq_push bq_pop [] (q_start q) = Some (q_start q)" by simp
  then have "covered q (bq_boot q)" using bq_sim_boot unfolding covered_def by blast
  from covered_steps [OF this q assms(2)] have cov: "covered q s" .
  then obtain as a where a: "q_run bq_push bq_pop as (q_start q) = Some a" "bq_sim s a" by (auto simp: covered_def)
  have sec: "in_section s a" "sleepers a = c_sleeping (f_c s)" using a(2) by (simp_all add: bq_sim_def)
  note fifo = bqq.run_fifo [OF a(1) q]
  have free: "f_m s = None \<longrightarrow> que a = f_q s \<and> accepted a = f_pushed s \<and> got a = f_popped s \<and> woken a \<subseteq> c_woken (f_c s)"
    using sec(1) by (simp add: in_section_def split: option.splits)
  have "\<forall>t u. inside (f_pc s t) \<and> inside (f_pc s u) \<longrightarrow> t = u"
    using bq_sim_owner [OF a(2)] by (metis option.inject)
  moreover have "\<exists>as a. q_run bq_push bq_pop as (q_start q) = Some a \<and> sleepers a = c_sleeping (f_c s)
      \<and> (f_m s = None \<longrightarrow> que a = f_q s \<and> accepted a = f_pushed s \<and> got a = f_popped s)"
    using a(1) sec(2) free by (intro exI [of _ as] exI [of _ a]) simp
  moreover have "f_m s = None \<longrightarrow> f_pushed s = map snd (f_popped s) @ bq_abs (f_q s)
      \<and> (c_sleeping (f_c s) \<noteq> {} \<and> bq_abs (f_q s) \<noteq> [] \<longrightarrow> c_woken (f_c s) \<noteq> {})"
    using free fifo sec(2) by auto
  moreover have "\<forall>t. f_m s = Some t \<longrightarrow> (\<exists>s'. bq_step (Run t) s = Ok s')"
    using inside_matched [OF a(2) q_run_inv [OF a(1) q]] bq_sim_inside(1) [OF a(2)] by (metis bq_step.simps(3))
  moreover have "\<forall>c. bq_step c s \<noteq> Undefined" using covered_step [OF cov q] by blast
  ultimately show ?thesis by blast
qed

text \<open>Thread 1 finds the queue empty and sleeps; thread 2 pushes; thread 3 pops the element first, and thread 1 sleeps again.\<close>

definition bq_example :: "nat bq_act list" where
  "bq_example = Call_pop 1 # replicate 3 (Run 1) @ [Call_push 2 7] @ replicate 7 (Run 2) @ [Call_pop 3] @ replicate 6 (Run 3)
     @ [Call_push 2 8] @ replicate 7 (Run 2) @ [Run 1, Run 1]"

theorem bq_statements_refine_witness:
  "\<exists>q s. bq_new 0 2 = Some q \<and> bq_steps bq_example (bq_boot q) = Ok s \<and> f_popped s = [(3, 7)] \<and> f_pushed s = [7, 8]
    \<and> (\<exists>s'. bq_step (Run 1) s = Ok s')"
proof -
  obtain q :: "nat bq" where q: "bq_new 0 2 = Some q"
      "q = \<lparr>m_array = [0, 0], m_size = 0, m_max_size = 2, m_front = - 1, m_back = - 1\<rparr>"
    by (simp add: bq_new_def numeral_2_eq_2)
  obtain s where s: "bq_steps bq_example (bq_boot q) = Ok s" "f_popped s = [(3, 7)]" "f_pushed s = [7, 8]" "f_m s = Some 1"
    unfolding q(2) bq_example_def bq_boot_def
    by (simp add: eval_nat_numeral locked_def unlocked_def goto_def Locker_lock_def Locker_unlock_def Cond_wait_def
        Cond_wait_returns_def Cond_broadcast_def array_get_def Let_def)
  from bq_statements_refine [OF q(1) s(1)] s(4) have "\<exists>s'. bq_step (Run 1) s = Ok s'" by blast
  with q(1) s show ?thesis by blast
qed

end
