(* ===== verification/Web_Workers.thy ===== *)
theory Web_Workers
  imports Web_Pool Web_Locks
begin

text \<open>
  The threads of \<^verbatim>\<open>TinyWebServer\<close>: \<^verbatim>\<open>ThreadPool::run\<close> of every worker and \<^verbatim>\<open>append\<close> and \<^verbatim>\<open>append_p\<close> of the main thread
  (\<^verbatim>\<open>threadpool/threadpool.h\<close>), with the database connection that a \<^verbatim>\<open>ConnectionRAII\<close> object takes for the time of
  a request (\<^verbatim>\<open>CGImysql/sql_connection_pool.cpp\<close>).  Thread 0 is the main thread, the others are workers; a turn is one operation on a
  lock, one access to the shared lists under its lock, or the handling of a request, which \<open>Web_Pool\<close> describes.

  The two abstraction functions map a state to states of \<open>Sem_Threads\<close>, one for the requests and one for the connections; the lemmas
  show that a turn is a step or no step of each.  The property combines the two pools.
\<close>

subsection \<open>The threads\<close>

datatype w_pc =
    W_loop | Q_lock | Q_test | Q_none | Q_take | Q_unlock ptr | Q_null ptr
  | Serve nat
  | G_test nat | G_wait nat | G_lock nat | G_take nat | G_unlock nat nat
  | Work nat "nat option"
  | Rel_lock nat nat | Rel_put nat nat | Rel_unlock nat | Rel_post nat
  | M_idle | M_lock nat "int option" | M_test nat "int option" | M_refuse | M_put nat "int option" | M_unlock | M_post

text \<open>\<open>w_put\<close> and \<open>w_taken\<close> record the requests accepted and those taken by workers, \<open>w_lent\<close> the connections taken.\<close>

record workers =
  w_pool :: tpool
  w_stat :: nat
  w_m :: mutex
  w_conns :: cpool
  w_cm :: mutex
  w_users :: "nat \<Rightarrow> http"
  w_pc :: "nat \<Rightarrow> w_pc"
  w_put :: "ptr list"
  w_taken :: "ptr list"
  w_back :: "nat list"
  w_lent :: "nat list"

definition go :: "nat \<Rightarrow> w_pc \<Rightarrow> workers \<Rightarrow> workers" where
  "go t p s = s\<lparr>w_pc := (w_pc s)(t := p)\<rparr>"

definition set_user :: "nat \<Rightarrow> http \<Rightarrow> workers \<Rightarrow> workers" where
  "set_user i h s = s\<lparr>w_users := (w_users s)(i := h)\<rparr>"

definition q_locked :: "nat \<Rightarrow> w_pc \<Rightarrow> workers \<Rightarrow> workers outcome" where
  "q_locked t p s = then_ok (Locker_lock t (w_m s)) (\<lambda>(_, m). Ok (go t p (s\<lparr>w_m := m\<rparr>)))"

definition q_unlocked :: "nat \<Rightarrow> w_pc \<Rightarrow> workers \<Rightarrow> workers outcome" where
  "q_unlocked t p s = then_ok (Locker_unlock t (w_m s)) (\<lambda>(_, m). Ok (go t p (s\<lparr>w_m := m\<rparr>)))"

definition c_locked :: "nat \<Rightarrow> w_pc \<Rightarrow> workers \<Rightarrow> workers outcome" where
  "c_locked t p s = then_ok (Locker_lock t (w_cm s)) (\<lambda>(_, m). Ok (go t p (s\<lparr>w_cm := m\<rparr>)))"

definition c_unlocked :: "nat \<Rightarrow> w_pc \<Rightarrow> workers \<Rightarrow> workers outcome" where
  "c_unlocked t p s = then_ok (Locker_unlock t (w_cm s)) (\<lambda>(_, m). Ok (go t p (s\<lparr>w_cm := m\<rparr>)))"

text \<open>The constructor of \<^verbatim>\<open>ConnectionRAII\<close> stores the connection in the request.\<close>

definition got_conn :: "nat \<Rightarrow> nat \<Rightarrow> nat option \<Rightarrow> workers \<Rightarrow> workers" where
  "got_conn t i c s = go t (Work i c) (set_user i ((w_users s i)\<lparr>m_mysql := c\<rparr>) s)"

text \<open>The work of a request before it needs a connection: in reactor mode the worker reads or writes.\<close>

definition serve :: "recv_reply list \<Rightarrow> writev_reply list \<Rightarrow> nat \<Rightarrow> nat \<Rightarrow> workers \<Rightarrow> workers outcome" where
  "serve rs ws t i s =
     (let h = w_users s i in
      if tp_actor_mode (w_pool s) = 1 then
        (if m_state h = 0 then
           (case read_once rs h of
              None \<Rightarrow> outcome.Undefined
            | Some (True, h1) \<Rightarrow> Ok (go t (G_test i) (set_user i (h1\<lparr>m_improv := 1\<rparr>) s))
            | Some (False, h1) \<Rightarrow> Ok (go t W_loop (set_user i (h1\<lparr>m_improv := 1, m_timer_flag := 1\<rparr>) s)))
         else
           (case http_write ws h of
              None \<Rightarrow> Blocked
            | Some (True, h1) \<Rightarrow> Ok (go t W_loop (set_user i (h1\<lparr>m_improv := 1\<rparr>) s))
            | Some (False, h1) \<Rightarrow> Ok (go t W_loop (set_user i (h1\<lparr>m_improv := 1, m_timer_flag := 1\<rparr>) s))))
      else Ok (go t (G_test i) s))"

text \<open>\<^verbatim>\<open>process\<close>, and the destructor of \<^verbatim>\<open>ConnectionRAII\<close>, which does nothing for NULL.\<close>

definition work :: "http_env \<Rightarrow> nat \<Rightarrow> nat \<Rightarrow> nat option \<Rightarrow> workers \<Rightarrow> workers outcome" where
  "work env t i c s =
     (case process env (w_users s i) of
        None \<Rightarrow> Blocked
      | Some run.Undefined \<Rightarrow> outcome.Undefined
      | Some (Done h) \<Rightarrow> Ok (go t (case c of None \<Rightarrow> W_loop | Some c \<Rightarrow> Rel_lock i c) (set_user i h s)))"

text \<open>\<open>M_idle\<close> waits for the next call of \<^verbatim>\<open>append\<close>.\<close>

fun w_turn :: "http_env \<Rightarrow> recv_reply list \<Rightarrow> writev_reply list \<Rightarrow> nat \<Rightarrow> w_pc \<Rightarrow> workers \<Rightarrow> workers outcome" where
  "w_turn env rs ws t W_loop s =
     (case sem_wait (w_stat s) of None \<Rightarrow> Blocked | Some n \<Rightarrow> Ok (go t Q_lock (s\<lparr>w_stat := n\<rparr>)))"
| "w_turn env rs ws t Q_lock s = q_locked t Q_test s"
| "w_turn env rs ws t Q_test s = Ok (go t (if m_work_queue (w_pool s) = [] then Q_none else Q_take) s)"
| "w_turn env rs ws t Q_none s = q_unlocked t W_loop s"
| "w_turn env rs ws t Q_take s =
     (case tp_take (w_pool s) of
        None \<Rightarrow> outcome.Undefined
      | Some (r, p) \<Rightarrow> Ok (go t (Q_unlock r) (s\<lparr>w_pool := p, w_taken := w_taken s @ [r]\<rparr>)))"
| "w_turn env rs ws t (Q_unlock r) s = q_unlocked t (Q_null r) s"
| "w_turn env rs ws t (Q_null r) s = Ok (go t (case r of None \<Rightarrow> W_loop | Some i \<Rightarrow> Serve i) s)"
| "w_turn env rs ws t (Serve i) s = serve rs ws t i s"
| "w_turn env rs ws t (G_test i) s = Ok (if conn_list (w_conns s) = [] then got_conn t i None s else go t (G_wait i) s)"
| "w_turn env rs ws t (G_wait i) s =
     (case sem_wait (reserve (w_conns s)) of
        None \<Rightarrow> Blocked | Some n \<Rightarrow> Ok (go t (G_lock i) (s\<lparr>w_conns := (w_conns s)\<lparr>reserve := n\<rparr>\<rparr>)))"
| "w_turn env rs ws t (G_lock i) s = c_locked t (G_take i) s"
| "w_turn env rs ws t (G_take i) s =
     (case cp_take (w_conns s) of
        None \<Rightarrow> outcome.Undefined
      | Some (c, p) \<Rightarrow> Ok (go t (G_unlock i c) (s\<lparr>w_conns := p, w_lent := w_lent s @ [c]\<rparr>)))"
| "w_turn env rs ws t (G_unlock i c) s = then_ok (c_unlocked t (Work i (Some c)) s) (\<lambda>s. Ok (got_conn t i (Some c) s))"
| "w_turn env rs ws t (Work i c) s = work env t i c s"
| "w_turn env rs ws t (Rel_lock i c) s = c_locked t (Rel_put i c) s"
| "w_turn env rs ws t (Rel_put i c) s =
     Ok (go t (Rel_unlock i) (s\<lparr>w_conns := cp_put c (w_conns s), w_back := w_back s @ [c]\<rparr>))"
| "w_turn env rs ws t (Rel_unlock i) s = c_unlocked t (Rel_post i) s"
| "w_turn env rs ws t (Rel_post i) s =
     Ok (go t W_loop (s\<lparr>w_conns := (w_conns s)\<lparr>reserve := sem_post (reserve (w_conns s))\<rparr>\<rparr>))"
| "w_turn env rs ws t M_idle s = Blocked"
| "w_turn env rs ws t (M_lock i st) s = q_locked t (M_test i st) s"
| "w_turn env rs ws t (M_test i st) s =
     Ok (go t (if int (length (m_work_queue (w_pool s))) \<ge> m_max_requests (w_pool s) then M_refuse else M_put i st) s)"
| "w_turn env rs ws t M_refuse s = q_unlocked t M_idle s"
| "w_turn env rs ws t (M_put i st) s =
     (let s1 = (case st of None \<Rightarrow> s | Some v \<Rightarrow> set_user i ((w_users s i)\<lparr>m_state := v\<rparr>) s);
          p = w_pool s1
      in Ok (go t M_unlock (s1\<lparr>w_pool := p\<lparr>m_work_queue := m_work_queue p @ [Some i]\<rparr>, w_put := w_put s1 @ [Some i]\<rparr>)))"
| "w_turn env rs ws t M_unlock s = q_unlocked t M_post s"
| "w_turn env rs ws t M_post s = Ok (go t M_idle (s\<lparr>w_stat := sem_post (w_stat s)\<rparr>))"

text \<open>A call by the main thread, with the state for \<^verbatim>\<open>append\<close> and without it for \<^verbatim>\<open>append_p\<close>, or a turn of a thread.\<close>

datatype w_act = Append nat "int option" | Turn nat http_env "recv_reply list" "writev_reply list"

fun w_do :: "w_act \<Rightarrow> workers \<Rightarrow> workers outcome" where
  "w_do (Append i st) s = (if w_pc s 0 = M_idle then Ok (go 0 (M_lock i st) s) else Blocked)"
| "w_do (Turn t env rs ws) s =
     (if t \<le> nat (m_thread_number (w_pool s)) then w_turn env rs ws t (w_pc s t) s else Blocked)"

definition w_start :: "tpool \<Rightarrow> cpool \<Rightarrow> (nat \<Rightarrow> http) \<Rightarrow> workers" where
  "w_start p cp us = \<lparr>w_pool = p, w_stat = 0, w_m = None, w_conns = cp, w_cm = None, w_users = us,
     w_pc = (\<lambda>_. W_loop)(0 := M_idle), w_put = [], w_taken = [], w_back = conn_list cp, w_lent = []\<rparr>"

text \<open>The handling of one request by \<open>serve\<close> and \<open>work\<close> with the connection in between is \<open>handle_request\<close>.\<close>

lemma serve_work:
  assumes "w_pc s t = Serve i" "0 < t"
  shows "(case handle_request (tp_actor_mode (w_pool s)) env c rs ws (w_users s i) of
      None \<Rightarrow> Blocked | Some run.Undefined \<Rightarrow> outcome.Undefined | Some (Done h) \<Rightarrow> Ok h)
    = then_ok (serve rs ws t i s) (\<lambda>s1. if w_pc s1 t = G_test i
        then then_ok (work env t i c (got_conn t i c s1)) (\<lambda>s2. Ok (w_users s2 i)) else Ok (w_users s1 i))"
  by (auto simp: handle_request_def serve_def work_def got_conn_def go_def set_user_def Let_def
      split: option.split run.split bool.split)

subsection \<open>Abstraction\<close>

fun in_q :: "w_pc \<Rightarrow> bool" where
  "in_q Q_test = True" | "in_q Q_none = True" | "in_q Q_take = True" | "in_q (Q_unlock _) = True"
| "in_q (M_test _ _) = True" | "in_q M_refuse = True" | "in_q (M_put _ _) = True" | "in_q M_unlock = True"
| "in_q _ = False"

fun in_c :: "w_pc \<Rightarrow> bool" where
  "in_c (G_take _) = True" | "in_c (G_unlock _ _) = True" | "in_c (Rel_put _ _) = True" | "in_c (Rel_unlock _) = True"
| "in_c _ = False"

fun of_main :: "w_pc \<Rightarrow> bool" where
  "of_main M_idle = True" | "of_main (M_lock _ _) = True" | "of_main (M_test _ _) = True" | "of_main M_refuse = True"
| "of_main (M_put _ _) = True" | "of_main M_unlock = True" | "of_main M_post = True"
| "of_main _ = False"

text \<open>Passed the semaphore of the requests; has taken a request; owes a post.\<close>

fun q_granted :: "w_pc \<Rightarrow> bool" where
  "q_granted Q_lock = True" | "q_granted Q_test = True" | "q_granted Q_none = True" | "q_granted Q_take = True"
| "q_granted _ = False"

fun request :: "w_pc \<Rightarrow> ptr option" where
  "request (Q_unlock r) = Some r" | "request (Q_null r) = Some r" | "request (Serve i) = Some (Some i)"
| "request (G_test i) = Some (Some i)" | "request (G_wait i) = Some (Some i)" | "request (G_lock i) = Some (Some i)"
| "request (G_take i) = Some (Some i)" | "request (G_unlock i _) = Some (Some i)" | "request (Work i _) = Some (Some i)"
| "request (Rel_lock i _) = Some (Some i)" | "request (Rel_put i _) = Some (Some i)" | "request (Rel_unlock i) = Some (Some i)"
| "request (Rel_post i) = Some (Some i)"
| "request _ = None"

fun q_owes :: "w_pc \<Rightarrow> bool" where
  "q_owes M_unlock = True" | "q_owes M_post = True"
| "q_owes _ = False"

text \<open>The same for the connections.\<close>

fun c_granted :: "w_pc \<Rightarrow> bool" where
  "c_granted (G_lock _) = True" | "c_granted (G_take _) = True"
| "c_granted _ = False"

fun conn_of :: "w_pc \<Rightarrow> nat option" where
  "conn_of (G_unlock _ c) = Some c" | "conn_of (Work _ c) = c" | "conn_of (Rel_lock _ c) = Some c" | "conn_of (Rel_put _ c) = Some c"
| "conn_of _ = None"

fun c_owes :: "w_pc \<Rightarrow> bool" where
  "c_owes (Rel_unlock _) = True" | "c_owes (Rel_post _) = True"
| "c_owes _ = False"

definition req_abs :: "workers \<Rightarrow> (ptr, tpool) ssys" where
  "req_abs s = \<lparr>guarded = w_pool s, sem = w_stat s, granted = {t. q_granted (w_pc s t)},
     owed = (if q_owes (w_pc s 0) then 1 else 0), held = (\<lambda>t. request (w_pc s t)), put_log = w_put s, take_log = w_taken s\<rparr>"

definition conn_abs :: "workers \<Rightarrow> (nat, cpool) ssys" where
  "conn_abs s = \<lparr>guarded = (w_conns s)\<lparr>reserve := 0\<rparr>, sem = reserve (w_conns s), granted = {t. c_granted (w_pc s t)},
     owed = card {t. c_owes (w_pc s t)}, held = (\<lambda>t. conn_of (w_pc s t)), put_log = w_back s, take_log = w_lent s\<rparr>"

text \<open>Connections are only taken and given back.\<close>

definition conn_label :: "'a sem_label \<Rightarrow> bool" where
  "conn_label l = (case l of L_put _ \<Rightarrow> False | L_done _ \<Rightarrow> False | _ \<Rightarrow> True)"

definition no_step_or :: "('a sem_label \<Rightarrow> bool) \<Rightarrow> ('a \<Rightarrow> 's \<Rightarrow> 's option) \<Rightarrow> ('s \<Rightarrow> ('a \<times> 's) option) \<Rightarrow> ('a, 's) ssys \<Rightarrow> ('a, 's) ssys \<Rightarrow> bool" where
  "no_step_or L put tak a a' \<longleftrightarrow> a' = a \<or> (\<exists>l. L l \<and> sem_step put tak a l a')"

text \<open>What holds besides: the mutexes belong to the threads in their sections, and a test made in a section still holds.\<close>

definition w_ok :: "workers \<Rightarrow> bool" where
  "w_ok s \<longleftrightarrow> (\<forall>t. in_q (w_pc s t) \<longleftrightarrow> w_m s = Some t) \<and> (\<forall>t. in_c (w_pc s t) \<longleftrightarrow> w_cm s = Some t)
     \<and> (\<forall>t. of_main (w_pc s t) \<longleftrightarrow> t = 0) \<and> (\<forall>t. nat (m_thread_number (w_pool s)) < t \<longrightarrow> w_pc s t = W_loop)
     \<and> (\<forall>t i st. w_pc s t = M_put i st \<longrightarrow> int (length (m_work_queue (w_pool s))) < m_max_requests (w_pool s))
     \<and> (\<forall>t. w_pc s t = Q_take \<longrightarrow> m_work_queue (w_pool s) \<noteq> []) \<and> (\<forall>t. w_pc s t \<noteq> Q_none)"

subsection \<open>A turn is a step of each pool or none\<close>

lemma req_abs_simps [simp]:
  "guarded (req_abs s) = w_pool s" "sem (req_abs s) = w_stat s" "t \<in> granted (req_abs s) \<longleftrightarrow> q_granted (w_pc s t)"
  "owed (req_abs s) = (if q_owes (w_pc s 0) then 1 else 0)" "held (req_abs s) t = request (w_pc s t)"
  "put_log (req_abs s) = w_put s" "take_log (req_abs s) = w_taken s"
  by (simp_all add: req_abs_def)

lemma conn_abs_simps [simp]:
  "guarded (conn_abs s) = (w_conns s)\<lparr>reserve := 0\<rparr>" "sem (conn_abs s) = reserve (w_conns s)"
  "t \<in> granted (conn_abs s) \<longleftrightarrow> c_granted (w_pc s t)" "owed (conn_abs s) = card {t. c_owes (w_pc s t)}"
  "held (conn_abs s) t = conn_of (w_pc s t)" "put_log (conn_abs s) = w_back s" "take_log (conn_abs s) = w_lent s"
  by (simp_all add: conn_abs_def)

text \<open>Where the thread goes on within the same part of its work.\<close>

lemma req_same:
  assumes "w_pc s' = (w_pc s)(t := p)" "w_pool s' = w_pool s" "w_stat s' = w_stat s" "w_put s' = w_put s" "w_taken s' = w_taken s"
    and "q_granted p = q_granted (w_pc s t)" "request p = request (w_pc s t)" "q_owes p = q_owes (w_pc s t)"
  shows "no_step_or (\<lambda>_. True) tp_put tp_take (req_abs s) (req_abs s')"
proof -
  have "{u. q_granted (w_pc s' u)} = {u. q_granted (w_pc s u)}" "(\<lambda>u. request (w_pc s' u)) = (\<lambda>u. request (w_pc s u))"
    using assms by auto
  with assms show ?thesis by (simp add: no_step_or_def req_abs_def)
qed

lemma no_step_orI: "L l \<Longrightarrow> sem_exec put tak l a = Some a' \<Longrightarrow> no_step_or L put tak a a'"
  by (auto simp: no_step_or_def sem_exec_step)

text \<open>An executed label gives the state after the turn, compared field by field.\<close>

lemma req_stepI:
  assumes "sem_exec tp_put tp_take l (req_abs s) = Some a" "guarded a = w_pool s'" "sem a = w_stat s'"
    and "\<And>u. u \<in> granted a \<longleftrightarrow> q_granted (w_pc s' u)" "owed a = (if q_owes (w_pc s' 0) then 1 else 0)"
    and "\<And>u. held a u = request (w_pc s' u)" "put_log a = w_put s'" "take_log a = w_taken s'"
  shows "no_step_or (\<lambda>_. True) tp_put tp_take (req_abs s) (req_abs s')"
proof -
  have "a = req_abs s'" using assms by (intro ssys.equality) (auto simp: fun_eq_iff)
  with assms(1) show ?thesis by (auto intro: no_step_orI)
qed

lemma conn_stepI:
  assumes "conn_label l" "sem_exec put cp_take l (conn_abs s) = Some a" "guarded a = (w_conns s')\<lparr>reserve := 0\<rparr>" "sem a = reserve (w_conns s')"
    and "\<And>u. u \<in> granted a \<longleftrightarrow> c_granted (w_pc s' u)" "owed a = card {u. c_owes (w_pc s' u)}"
    and "\<And>u. held a u = conn_of (w_pc s' u)" "put_log a = w_back s'" "take_log a = w_lent s'"
  shows "no_step_or conn_label put cp_take (conn_abs s) (conn_abs s')"
proof -
  have "a = conn_abs s'" using assms by (intro ssys.equality) (auto simp: fun_eq_iff)
  with assms(1,2) show ?thesis by (auto intro: no_step_orI)
qed

lemma req_finish:
  assumes "w_pc s' = (w_pc s)(t := W_loop)" "w_pool s' = w_pool s" "w_stat s' = w_stat s" "w_put s' = w_put s" "w_taken s' = w_taken s"
    and "\<not> q_granted (w_pc s t)" "request (w_pc s t) = Some r" "\<not> q_owes (w_pc s t)"
  shows "no_step_or (\<lambda>_. True) tp_put tp_take (req_abs s) (req_abs s')"
  by (rule req_stepI [of "L_done t"]) (use assms in \<open>auto split: option.splits\<close>)

lemma conn_same:
  assumes "w_pc s' = (w_pc s)(t := p)" "w_conns s' = w_conns s" "w_back s' = w_back s" "w_lent s' = w_lent s"
    and "c_granted p = c_granted (w_pc s t)" "conn_of p = conn_of (w_pc s t)" "c_owes p = c_owes (w_pc s t)"
  shows "no_step_or L put tak (conn_abs s) (conn_abs s')"
proof -
  have "{u. c_granted (w_pc s' u)} = {u. c_granted (w_pc s u)}" "(\<lambda>u. conn_of (w_pc s' u)) = (\<lambda>u. conn_of (w_pc s u))"
    "{u. c_owes (w_pc s' u)} = {u. c_owes (w_pc s u)}"
    using assms by auto
  with assms show ?thesis by (simp add: no_step_or_def conn_abs_def)
qed

lemmas w_defs = go_def set_user_def q_locked_def q_unlocked_def c_locked_def c_unlocked_def got_conn_def
  Locker_lock_def Locker_unlock_def

text \<open>\<open>serve\<close> and \<open>work\<close> only change the request they are about.\<close>

lemma serve_effect:
  assumes "serve rs ws t i s = Ok s'"
  obtains h where "s' = go t W_loop (set_user i h s) \<or> s' = go t (G_test i) (set_user i h s)"
proof -
  have "\<exists>h. s' = go t W_loop (set_user i h s) \<or> s' = go t (G_test i) (set_user i h s)"
  proof (cases "tp_actor_mode (w_pool s) = 1")
    case False
    then have "s' = go t (G_test i) (set_user i (w_users s i) s)" using assms by (simp add: serve_def set_user_def)
    then show ?thesis by blast
  qed (use assms in \<open>auto simp: serve_def Let_def split: if_splits option.splits bool.splits\<close>)
  then show thesis using that by blast
qed

lemma work_effect:
  assumes "work env t i c s = Ok s'"
  obtains h where "s' = go t (case c of None \<Rightarrow> W_loop | Some c \<Rightarrow> Rel_lock i c) (set_user i h s)"
  using assms by (auto simp: work_def split: option.splits run.splits)

lemma req_turn:
  assumes "w_ok s" "w_turn env rs ws t (w_pc s t) s = Ok s'"
  shows "no_step_or (\<lambda>_. True) tp_put tp_take (req_abs s) (req_abs s')"
proof (cases "w_pc s t")
  case W_loop
  then have "0 < t" using assms(1) unfolding w_ok_def by (metis of_main.simps(8) neq0_conv)
  with W_loop assms(2) show ?thesis
    by (intro req_stepI [of "L_wait t"]) (auto simp: sem_wait_def w_defs split: if_splits)
next
  case Q_take
  obtain r p where p: "tp_take (w_pool s) = Some (r, p)" "s' = go t (Q_unlock r) (s\<lparr>w_pool := p, w_taken := w_taken s @ [r]\<rparr>)"
    using assms(2) Q_take by (auto split: option.splits)
  have "0 < t" using assms(1) Q_take unfolding w_ok_def by (metis of_main.simps neq0_conv)
  with p Q_take show ?thesis by (intro req_stepI [of "L_take t"]) (auto simp: go_def)
next
  case (M_put i st)
  then have "t = 0" "int (length (m_work_queue (w_pool s))) < m_max_requests (w_pool s)"
    using assms(1) unfolding w_ok_def by (metis of_main.simps(5))+
  moreover from this(1) M_put have "q_granted (w_pc s u) \<longrightarrow> 0 < u" for u by (cases u) auto
  ultimately show ?thesis using M_put assms(2)
    by (intro req_stepI [of "L_put (Some i)"]) (auto simp: w_defs tp_put_def Let_def split: option.splits if_splits)
next
  case M_post
  then have "t = 0" using assms(1) unfolding w_ok_def by (metis of_main.simps(7))
  moreover from this M_post have "q_granted (w_pc s u) \<longrightarrow> 0 < u" for u by (cases u) auto
  ultimately show ?thesis using M_post assms(2)
    by (intro req_stepI [of L_post]) (auto simp: w_defs sem_post_def split: if_splits)
next
  case (Q_null r)
  then show ?thesis using assms(2)
    by (cases r) (auto simp: w_defs intro: req_finish [of _ s t] req_same [of _ s t])
next
  case (Serve i)
  with assms(2) have "serve rs ws t i s = Ok s'" by simp
  with Serve show ?thesis
    by (elim serve_effect) (auto simp: w_defs intro: req_finish [of _ s t] req_same [of _ s t])
next
  case (Work i c)
  with assms(2) have "work env t i c s = Ok s'" by simp
  with Work show ?thesis
    by (elim work_effect; cases c) (auto simp: w_defs intro: req_finish [of _ s t] req_same [of _ s t])
next
  case (Rel_post i)
  then show ?thesis using assms(2) by (auto simp: w_defs intro: req_finish [of _ s t])
next
  case Q_none
  then show ?thesis using assms(1) unfolding w_ok_def by blast
qed (use assms(2) in \<open>auto simp: w_defs sem_wait_def then_ok_Ok Let_def split: if_splits option.splits intro: req_same [of _ s t]\<close>)


lemma cp_reserve:
  "cp_take (p\<lparr>reserve := n\<rparr>) = map_option (\<lambda>(c, p'). (c, p'\<lparr>reserve := n\<rparr>)) (cp_take p)"
  "cp_put c (p\<lparr>reserve := n\<rparr>) = (cp_put c p)\<lparr>reserve := n\<rparr>"
  "cp_take p = Some (c, p') \<Longrightarrow> reserve p' = reserve p" "reserve (cp_put c p) = reserve p"
  by (auto simp: cp_take_def cp_put_def split: list.splits)

lemma finite_owing: "w_ok s \<Longrightarrow> finite {t. c_owes (w_pc s t)}"
proof (rule finite_subset)
  assume "w_ok s"
  then have "w_pc s t = W_loop" if "nat (m_thread_number (w_pool s)) < t" for t using that by (simp add: w_ok_def)
  then show "{t. c_owes (w_pc s t)} \<subseteq> {..nat (m_thread_number (w_pool s))}" by (force simp: not_less [symmetric])
qed simp

lemma conn_turn:
  assumes "w_ok s" "w_turn env rs ws t (w_pc s t) s = Ok s'"
  shows "no_step_or conn_label (\<lambda>c p. Some (cp_put c p)) cp_take (conn_abs s) (conn_abs s')"
proof (cases "w_pc s t")
  case (G_wait i)
  have "{u. c_owes (w_pc s' u)} = {u. c_owes (w_pc s u)}"
    using assms(2) G_wait by (auto simp: sem_wait_def w_defs split: if_splits)
  with G_wait assms(2) show ?thesis
    by (intro conn_stepI [of "L_wait t"]) (auto simp: conn_label_def sem_wait_def w_defs split: if_splits)
next
  case (G_take i)
  obtain c p where p: "cp_take (w_conns s) = Some (c, p)" "s' = go t (G_unlock i c) (s\<lparr>w_conns := p, w_lent := w_lent s @ [c]\<rparr>)"
    using assms(2) G_take by (auto split: option.splits)
  have "{u. c_owes (w_pc s' u)} = {u. c_owes (w_pc s u)}" using p(2) G_take by (auto simp: go_def)
  with p G_take show ?thesis by (intro conn_stepI [of "L_take t"]) (auto simp: conn_label_def go_def cp_reserve)
next
  case (Rel_put i c)
  then have s': "s' = go t (Rel_unlock i) (s\<lparr>w_conns := cp_put c (w_conns s), w_back := w_back s @ [c]\<rparr>)"
    using assms(2) by simp
  have "{u. c_owes (w_pc s' u)} = insert t {u. c_owes (w_pc s u)}" using s' Rel_put by (auto simp: go_def)
  then have "card {u. c_owes (w_pc s' u)} = Suc (card {u. c_owes (w_pc s u)})"
    using finite_owing [OF assms(1)] Rel_put by simp
  with s' Rel_put show ?thesis by (intro conn_stepI [of "L_return t"]) (auto simp: conn_label_def go_def cp_reserve)
next
  case (Rel_post i)
  then have s': "s' = go t W_loop (s\<lparr>w_conns := (w_conns s)\<lparr>reserve := Suc (reserve (w_conns s))\<rparr>\<rparr>)"
    using assms(2) by (simp add: sem_post_def)
  let ?A = "{u. c_owes (w_pc s u)}"
  have A: "{u. c_owes (w_pc s' u)} = ?A - {t}" using s' Rel_post by (auto simp: go_def split: if_splits)
  have "t \<in> ?A" using Rel_post by simp
  then have "0 < card ?A" "card (?A - {t}) = card ?A - 1" using finite_owing [OF assms(1)] by (auto simp only: card_gt_0_iff card_Diff_singleton)
  then have "sem_exec (\<lambda>c p. Some (cp_put c p)) cp_take L_post (conn_abs s)
      = Some ((conn_abs s)\<lparr>owed := card (?A - {t}), sem := Suc (reserve (w_conns s))\<rparr>)" by simp
  from conn_stepI [OF _ this, of s'] show ?thesis using s' Rel_post A by (simp add: conn_label_def go_def)
next
  case (Serve i)
  with assms(2) have "serve rs ws t i s = Ok s'" by simp
  with Serve show ?thesis by (elim serve_effect) (auto simp: w_defs intro: conn_same [of _ s t])
next
  case (Work i c)
  with assms(2) have "work env t i c s = Ok s'" by simp
  with Work show ?thesis by (elim work_effect; cases c) (auto simp: w_defs intro: conn_same [of _ s t])
qed (use assms(2) in \<open>auto simp: w_defs sem_wait_def then_ok_Ok Let_def split: if_splits option.splits intro: conn_same [of _ s t]\<close>)

text \<open>The conditions on the statements of the threads.\<close>

lemma w_okD:
  assumes "w_ok s"
  shows "in_q (w_pc s u) \<longleftrightarrow> w_m s = Some u" "in_c (w_pc s u) \<longleftrightarrow> w_cm s = Some u"
    "of_main (w_pc s u) \<longleftrightarrow> u = 0" "nat (m_thread_number (w_pool s)) < u \<Longrightarrow> w_pc s u = W_loop"
    "w_pc s u = M_put i st \<Longrightarrow> int (length (m_work_queue (w_pool s))) < m_max_requests (w_pool s)"
    "w_pc s u = Q_take \<Longrightarrow> m_work_queue (w_pool s) \<noteq> []" "w_pc s u \<noteq> Q_none"
  using assms unfolding w_ok_def by metis+

lemma w_ok_upd:
  assumes "w_ok s" "w_pc s' = (w_pc s)(t := p)"
    and "w_m s' = (if in_q p then Some t else if in_q (w_pc s t) then None else w_m s)" "in_q p \<longrightarrow> in_q (w_pc s t) \<or> w_m s = None"
    and "w_cm s' = (if in_c p then Some t else if in_c (w_pc s t) then None else w_cm s)" "in_c p \<longrightarrow> in_c (w_pc s t) \<or> w_cm s = None"
    and "of_main p = of_main (w_pc s t)" "t \<le> nat (m_thread_number (w_pool s))"
    and "m_thread_number (w_pool s') = m_thread_number (w_pool s)" "m_max_requests (w_pool s') = m_max_requests (w_pool s)"
    and "in_q (w_pc s t) \<or> m_work_queue (w_pool s') = m_work_queue (w_pool s)"
    and "\<forall>i st. p = M_put i st \<longrightarrow> int (length (m_work_queue (w_pool s'))) < m_max_requests (w_pool s')"
    and "p = Q_take \<longrightarrow> m_work_queue (w_pool s') \<noteq> []" "p \<noteq> Q_none"
  shows "w_ok s'"
proof -
  note ok = w_okD [OF assms(1)]
  have others: "m_work_queue (w_pool s') = m_work_queue (w_pool s)" if "u \<noteq> t" "in_q (w_pc s u)" for u
    using assms(11) that ok(1) [of u] ok(1) [of t] by auto
  have "in_q (w_pc s' u) \<longleftrightarrow> w_m s' = Some u" for u
    using assms(2-4) ok(1) [of u] ok(1) [of t] by (cases "u = t") (auto split: if_splits)
  moreover have "in_c (w_pc s' u) \<longleftrightarrow> w_cm s' = Some u" for u
    using assms(2,5,6) ok(2) [of u] ok(2) [of t] by (cases "u = t") (auto split: if_splits)
  moreover have "of_main (w_pc s' u) \<longleftrightarrow> u = 0" "nat (m_thread_number (w_pool s')) < u \<longrightarrow> w_pc s' u = W_loop" "w_pc s' u \<noteq> Q_none" for u
    using assms(2,7-9,14) ok(3,4,7) [of u] by (cases "u = t"; simp)+
  moreover have "int (length (m_work_queue (w_pool s'))) < m_max_requests (w_pool s')" if "w_pc s' u = M_put i st" for u i st
    using assms(2,10,12) that ok(5) [of u i st] others [of u] by (cases "u = t") auto
  moreover have "m_work_queue (w_pool s') \<noteq> []" if "w_pc s' u = Q_take" for u
    using assms(2,13) that ok(6) [of u] others [of u] by (cases "u = t") auto
  ultimately show ?thesis unfolding w_ok_def by blast
qed

lemma w_ok_turn:
  assumes "w_ok s" "reqs.s_ok n (req_abs s)" "t \<le> nat (m_thread_number (w_pool s))" "w_turn env rs ws t (w_pc s t) s = Ok s'"
  shows "w_ok s'"
proof -
  note ok = w_okD [OF assms(1)] and upd = w_ok_upd [OF assms(1), where t = t, OF _ _ _ _ _ _ assms(3)]
  show ?thesis
  proof (cases "w_pc s t")
    case W_loop
    then show ?thesis using assms(4) by (intro upd [of s' Q_lock]) (auto simp: w_defs sem_wait_def split: if_splits)
  next
    case Q_test
    have "finite (granted (req_abs s))" "t \<in> granted (req_abs s)" using assms(2) Q_test by (auto simp: reqs.s_ok_def)
    then have "0 < card (granted (req_abs s))" by (auto simp only: card_gt_0_iff)
    then have "m_work_queue (w_pool s) \<noteq> []" using assms(2) by (auto simp: reqs.s_ok_def)
    then show ?thesis using assms(4) Q_test ok(1) [of t] by (intro upd [of s' Q_take]) (auto simp: w_defs)
  next
    case Q_take
    then obtain r p where p: "tp_take (w_pool s) = Some (r, p)" "s' = go t (Q_unlock r) (s\<lparr>w_pool := p, w_taken := w_taken s @ [r]\<rparr>)"
      using assms(4) by (auto split: option.splits)
    then show ?thesis using Q_take ok(1) [of t] by (intro upd [of s' "Q_unlock r"]) (auto simp: go_def tp_take_def split: list.splits)
  next
    case (Serve i)
    with assms(4) have "serve rs ws t i s = Ok s'" by simp
    then show ?thesis using Serve
      by (elim serve_effect disjE; intro upd [of s' W_loop] upd [of s' "G_test i"]) (simp_all add: w_defs)
  next
    case (Work i c)
    with assms(4) have "work env t i c s = Ok s'" by simp
    then obtain h where "s' = go t (case c of None \<Rightarrow> W_loop | Some c \<Rightarrow> Rel_lock i c) (set_user i h s)" by (rule work_effect)
    then show ?thesis using Work by (cases c) (auto simp: w_defs intro!: upd)
  next
    case (M_put i st)
    then show ?thesis using assms(4) ok(1) [of t]
      by (cases st; intro upd [of s' M_unlock]) (auto simp: w_defs Let_def)
  next
    case Q_none
    then show ?thesis using ok(7) by blast
  qed (use assms(4) ok(1,2) [of t] in \<open>auto simp: w_defs sem_wait_def then_ok_Ok cp_take_def cp_put_def
         split: if_splits option.splits list.splits intro!: upd\<close>)
qed

subsection \<open>Every run\<close>

definition w_inv :: "int \<Rightarrow> int \<Rightarrow> nat list \<Rightarrow> workers \<Rightarrow> bool" where
  "w_inv n k cs s \<longleftrightarrow> w_ok s \<and> reqs.s_ok n (req_abs s) \<and> conns.s_ok k (conn_abs s) \<and> conns.apart cs (conn_abs s)
     \<and> (\<forall>t i. w_pc s t = G_wait i \<longrightarrow> cs \<noteq> [])"

lemma w_inv_start:
  assumes "tp_new created actor threads n = Some p" "cp_init connect url user pw db port k lg cp_new = Some cp" "distinct (conn_list cp)"
  shows "w_inv n (int (nat k)) (conn_list cp) (w_start p cp us)"
proof -
  have p: "m_max_requests p = n" "0 < n" "m_work_queue p = []" using assms(1) by (auto simp: tp_new_def split: if_splits)
  note cp = cp_init_inv [OF assms(2)]
  have none: "request (if t = 0 then M_idle else W_loop) = None" "conn_of (if t = 0 then M_idle else W_loop) = None" for t :: nat
    by simp_all
  show ?thesis
    using p cp assms(3)
    by (auto simp: w_inv_def w_ok_def reqs.s_ok_def conns.s_ok_def conns.apart_def req_abs_def conn_abs_def w_start_def
        tp_inv_def cp_inv_def none)
qed

lemma conn_labelD: "conn_label l \<Longrightarrow> (\<forall>x. l \<noteq> L_put x) \<and> (\<forall>t. l \<noteq> L_done t)"
  by (auto simp: conn_label_def)

lemma w_inv_both:
  assumes "w_inv n k cs s" "w_ok s'" "no_step_or (\<lambda>_. True) tp_put tp_take (req_abs s) (req_abs s')"
    "no_step_or conn_label (\<lambda>c p. Some (cp_put c p)) cp_take (conn_abs s) (conn_abs s')"
    "\<forall>t i. w_pc s' t = G_wait i \<longrightarrow> cs \<noteq> []"
  shows "w_inv n k cs s'"
proof -
  have i: "reqs.s_ok n (req_abs s)" "conns.s_ok k (conn_abs s)" "conns.apart cs (conn_abs s)"
    using assms(1) by (simp_all add: w_inv_def)
  have "reqs.s_ok n (req_abs s')" using assms(3) i(1) by (auto simp: no_step_or_def dest: reqs.s_ok_step)
  moreover have "conns.s_ok k (conn_abs s') \<and> conns.apart cs (conn_abs s')"
  proof (cases "conn_abs s' = conn_abs s")
    case False
    with assms(4) obtain l where "conn_label l" "sem_step (\<lambda>c p. Some (cp_put c p)) cp_take (conn_abs s) l (conn_abs s')"
      by (auto simp: no_step_or_def)
    with conns.s_ok_step [OF this(2) i(2)] conns.apart_step [OF this(2) i(2,3)] conn_labelD [of l] show ?thesis by blast
  qed (use i in simp)
  ultimately show ?thesis using assms(2,5) by (simp add: w_inv_def)
qed

lemma apart_nonempty: "conns.apart cs (conn_abs s) \<Longrightarrow> conn_list (w_conns s) \<noteq> [] \<Longrightarrow> cs \<noteq> []"
  by (auto simp: conns.apart_def)

lemma w_inv_do:
  assumes "w_inv n k cs s" "w_do act s = Ok s'"
  shows "w_inv n k cs s'"
proof (cases act)
  case (Append i st)
  then have a: "w_pc s 0 = M_idle" "s' = go 0 (M_lock i st) s" using assms(2) by (auto split: if_splits)
  have ok: "w_ok s" "\<forall>t i. w_pc s t = G_wait i \<longrightarrow> cs \<noteq> []" using assms(1) by (simp_all add: w_inv_def)
  have "w_ok s'" using a by (intro w_ok_upd [OF ok(1), of s' 0 "M_lock i st"]) (simp_all add: go_def)
  moreover have "\<forall>t i. w_pc s' t = G_wait i \<longrightarrow> cs \<noteq> []" using ok(2) a(2) by (auto simp: go_def split: if_splits)
  moreover have "no_step_or (\<lambda>_. True) tp_put tp_take (req_abs s) (req_abs s')"
    using a by (intro req_same [of s' s 0 "M_lock i st"]) (simp_all add: go_def)
  moreover have "no_step_or conn_label (\<lambda>c p. Some (cp_put c p)) cp_take (conn_abs s) (conn_abs s')"
    using a by (intro conn_same [of s' s 0 "M_lock i st"]) (simp_all add: go_def)
  ultimately show ?thesis using w_inv_both [OF assms(1)] by blast
next
  case (Turn t env rs ws)
  then have t: "t \<le> nat (m_thread_number (w_pool s))" "w_turn env rs ws t (w_pc s t) s = Ok s'"
    using assms(2) by (auto split: if_splits)
  have ok: "w_ok s" "reqs.s_ok n (req_abs s)" "conns.apart cs (conn_abs s)" "\<forall>t i. w_pc s t = G_wait i \<longrightarrow> cs \<noteq> []"
    using assms(1) by (simp_all add: w_inv_def)
  have "w_pc s' u = G_wait i \<longrightarrow> w_pc s u = G_wait i \<or> conn_list (w_conns s) \<noteq> []" for u i
    using t(2) by (cases "w_pc s t")
      (auto simp: w_defs sem_wait_def then_ok_Ok Let_def work_def serve_def split: if_splits option.splits run.splits bool.splits)
  then have "\<forall>u i. w_pc s' u = G_wait i \<longrightarrow> cs \<noteq> []" using apart_nonempty [OF ok(3)] ok(4) by blast
  then show ?thesis
    by (intro w_inv_both [OF assms(1)] w_ok_turn [OF ok(1,2) t] req_turn [OF ok(1) t(2)] conn_turn [OF ok(1) t(2)])
qed

lemma w_inv_run: "each w_do acts s = Ok s' \<Longrightarrow> w_inv n k cs s \<Longrightarrow> w_inv n k cs s'"
  by (induction acts arbitrary: s) (auto simp: then_ok_Ok dest: w_inv_do)

subsection \<open>Progress\<close>

fun handling :: "w_pc \<Rightarrow> bool" where
  "handling (Serve _) = True" | "handling (Work _ _) = True"
| "handling _ = False"

text \<open>The thread can go on, whatever the network does, or is busy with a request.\<close>

definition can_go :: "workers \<Rightarrow> nat \<Rightarrow> bool" where
  "can_go s t \<longleftrightarrow> t \<le> nat (m_thread_number (w_pool s))
     \<and> (handling (w_pc s t) \<or> (\<forall>env rs ws. \<exists>s'. w_do (Turn t env rs ws) s = Ok s'))"

lemma can_goI:
  assumes "w_ok s" "w_pc s t \<noteq> W_loop" "handling (w_pc s t) \<or> (\<forall>env rs ws. \<exists>s'. w_turn env rs ws t (w_pc s t) s = Ok s')"
  shows "can_go s t"
proof -
  have "t \<le> nat (m_thread_number (w_pool s))" using w_okD(4) [OF assms(1), of t] assms(2) by (meson not_le)
  with assms(3) show ?thesis by (simp add: can_go_def)
qed

lemma take_conn:
  assumes "conns.s_ok k (conn_abs s)" "c_granted (w_pc s t)"
  shows "\<exists>c p. cp_take (w_conns s) = Some (c, p)"
proof -
  have "finite (granted (conn_abs s))" "t \<in> granted (conn_abs s)" using assms by (auto simp: conns.s_ok_def)
  then have "0 < card (granted (conn_abs s))" by (auto simp only: card_gt_0_iff)
  then have "conn_list (w_conns s) \<noteq> []" using assms(1) by (auto simp: conns.s_ok_def)
  then show ?thesis by (auto simp: cp_take_def neq_Nil_conv)
qed

fun wants_q :: "w_pc \<Rightarrow> bool" where
  "wants_q Q_lock = True" | "wants_q (M_lock _ _) = True"
| "wants_q _ = False"

fun wants_c :: "w_pc \<Rightarrow> bool" where
  "wants_c (G_lock _) = True" | "wants_c (Rel_lock _ _) = True"
| "wants_c _ = False"

text \<open>A thread outside the three places where it may have to wait goes on unless it needs a mutex that is taken.\<close>

lemma turn_Ok:
  assumes "w_inv n k cs s" "w_pc s t \<notin> {W_loop, M_idle} \<union> range G_wait" "\<not> handling (w_pc s t)"
    and "wants_q (w_pc s t) \<longrightarrow> w_m s = None" "wants_c (w_pc s t) \<longrightarrow> w_cm s = None"
  shows "\<exists>s'. w_turn env rs ws t (w_pc s t) s = Ok s'"
proof -
  have ok: "w_ok s" "conns.s_ok k (conn_abs s)" using assms(1) by (simp_all add: w_inv_def)
  note o = w_okD [OF ok(1), of t] and tak = take_conn [OF ok(2), of t]
  show ?thesis
  proof (cases "w_pc s t")
    case Q_take
    then show ?thesis using o(6) by (auto simp: tp_take_def neq_Nil_conv)
  next
    case (G_take i)
    then show ?thesis using tak by auto
  qed (use assms(2-5) o in \<open>auto simp: w_defs Let_def\<close>)
qed

lemma turn_can_go:
  assumes "w_inv n k cs s" "w_pc s t \<notin> {W_loop, M_idle} \<union> range G_wait"
    and "wants_q (w_pc s t) \<longrightarrow> w_m s = None" "wants_c (w_pc s t) \<longrightarrow> w_cm s = None"
  shows "can_go s t"
proof (rule can_goI)
  show "w_ok s" "w_pc s t \<noteq> W_loop" using assms(1,2) by (auto simp: w_inv_def)
  show "handling (w_pc s t) \<or> (\<forall>env rs ws. \<exists>s'. w_turn env rs ws t (w_pc s t) s = Ok s')"
    using turn_Ok [OF assms(1,2) _ assms(3,4)] by blast
qed

lemma in_sections:
  "in_q p \<or> in_c p \<Longrightarrow> p \<notin> {W_loop, M_idle} \<union> range G_wait \<and> \<not> wants_q p \<and> \<not> wants_c p"
  by (cases p) auto

text \<open>No deadlock: as long as something is left to do, some thread goes on.\<close>

lemma some_can_go:
  assumes "w_inv n k cs s" "0 < m_thread_number (w_pool s)"
    and "m_work_queue (w_pool s) \<noteq> [] \<or> (\<exists>t. w_pc s t \<notin> {W_loop, M_idle})"
  shows "\<exists>t. can_go s t"
proof -
  have ok: "w_ok s" "reqs.s_ok n (req_abs s)" "conns.s_ok k (conn_abs s)" "conns.apart cs (conn_abs s)"
    "\<And>t i. w_pc s t = G_wait i \<Longrightarrow> cs \<noteq> []" using assms(1) by (auto simp: w_inv_def)
  note go = turn_can_go [OF assms(1)]
  show ?thesis
  proof (cases "\<exists>t. in_q (w_pc s t) \<or> in_c (w_pc s t)")
    case True
    then show ?thesis using go in_sections by blast
  next
    case False
    then have free: "w_m s = None" "w_cm s = None" using w_okD(1,2) [OF ok(1)] by (metis option.exhaust)+
    show ?thesis
    proof (cases "\<exists>t. w_pc s t \<notin> {W_loop, M_idle} \<union> range G_wait")
      case True
      then show ?thesis using go free by blast
    next
      case False
      then have q: "w_pc s t \<in> {W_loop, M_idle} \<union> range G_wait" for t by blast
      have none: "\<not> q_granted (w_pc s t) \<and> \<not> q_owes (w_pc s t) \<and> \<not> c_granted (w_pc s t) \<and> \<not> c_owes (w_pc s t) \<and> conn_of (w_pc s t) = None" for t
        using q [of t] by auto
      have abs: "granted (req_abs s) = {}" "granted (conn_abs s) = {}" "held (conn_abs s) = Map.empty" using none by auto
      show ?thesis
      proof (cases "\<exists>t i. w_pc s t = G_wait i")
        case True
        then obtain t i where t: "w_pc s t = G_wait i" by blast
        have "set (conn_list (w_conns s)) = set cs" using ok(4) abs(3) by (simp add: conns.apart_def)
        with ok(5) [OF t] have "conn_list (w_conns s) \<noteq> []" by force
        moreover have "length (conn_list (w_conns s)) = reserve (w_conns s)" using ok(3) abs(2) none by (simp add: conns.s_ok_def)
        ultimately have "0 < reserve (w_conns s)" by (metis length_greater_0_conv)
        then show ?thesis using can_goI [OF ok(1), of t] t by (auto simp: sem_wait_def)
      next
        case False
        with q have w: "w_pc s t \<in> {W_loop, M_idle}" for t by blast
        with assms(3) have "m_work_queue (w_pool s) \<noteq> []" by blast
        moreover have "length (m_work_queue (w_pool s)) = w_stat s" using ok(2) abs(1) none by (simp add: reqs.s_ok_def)
        ultimately have "0 < w_stat s" by (metis length_greater_0_conv)
        moreover have "w_pc s 1 = W_loop" using w [of 1] w_okD(3) [OF ok(1), of 1] by auto
        ultimately have "can_go s 1" using assms(2) by (simp add: can_go_def sem_wait_def)
        then show ?thesis by blast
      qed
    qed
  qed
qed

subsection \<open>The property\<close>

lemma w_do_pool: "w_do act s = Ok s' \<Longrightarrow> m_thread_number (w_pool s') = m_thread_number (w_pool s)"
proof (cases act)
  case (Turn t env rs ws)
  assume "w_do act s = Ok s'"
  with Turn have "w_turn env rs ws t (w_pc s t) s = Ok s'" by (simp split: if_splits)
  then show ?thesis
    by (cases "w_pc s t") (auto simp: w_defs sem_wait_def then_ok_Ok Let_def work_def serve_def tp_take_def
        split: if_splits option.splits run.splits bool.splits list.splits)
qed (auto simp: go_def split: if_splits)

lemma run_pool: "each w_do acts s = Ok s' \<Longrightarrow> m_thread_number (w_pool s') = m_thread_number (w_pool s)"
  by (induction acts arbitrary: s) (auto simp: then_ok_Ok dest: w_do_pool)

text \<open>Only the handling of a request can be undefined.\<close>

lemma undefined_only_handling:
  assumes "w_inv n k cs s" "w_do act s = outcome.Undefined"
  shows "\<exists>t env rs ws. act = Turn t env rs ws \<and> handling (w_pc s t)"
proof (cases act)
  case (Turn t env rs ws)
  then have u: "w_turn env rs ws t (w_pc s t) s = outcome.Undefined" using assms(2) by (simp split: if_splits)
  have ok: "w_ok s" "conns.s_ok k (conn_abs s)" using assms(1) by (simp_all add: w_inv_def)
  note o = w_okD [OF ok(1), of t] and tak = take_conn [OF ok(2), of t]
  have "handling (w_pc s t)"
  proof (cases "w_pc s t")
    case Q_take
    then show ?thesis using o(6) u by (auto simp: tp_take_def neq_Nil_conv)
  next
    case (G_take i)
    then show ?thesis using tak u by auto
  qed (use u o in \<open>auto simp: w_defs sem_wait_def Let_def split: if_splits\<close>)
  with Turn show ?thesis by blast
qed (use assms(2) in \<open>simp split: if_splits\<close>)


text \<open>Two workers, one connection: the first worker is about to process the request with it, the second one will get none.\<close>

definition w_example :: "w_act list" where
  "w_example = Append 5 None # replicate 5 (Turn 0 one_file [] []) @ Append 6 None # replicate 5 (Turn 0 one_file [] [])
     @ replicate 12 (Turn 1 one_file [] []) @ replicate 7 (Turn 2 one_file [] [])"


end
