(* ===== verification/Web_Life.thy ===== *)
theory Web_Life
  imports Web_Server Web_Locks
begin

text \<open>
  The ends of \<^verbatim>\<open>TinyWebServer\<close>: how a signal reaches the event loop (\<^verbatim>\<open>Utils::sig_handler\<close> and \<^verbatim>\<open>set_nonblocking\<close> of
  \<^verbatim>\<open>timer/lst_timer.cpp\<close>), and what the destructors do when \<^verbatim>\<open>main\<close> returns after \<^verbatim>\<open>SIGTERM\<close>: \<^verbatim>\<open>WebServer\<close> first, with the timer list
  inside its \<^verbatim>\<open>Utils\<close>, then the static objects \<^verbatim>\<open>ConnectionPool\<close> and \<^verbatim>\<open>Log\<close>, in the reverse order of their construction.

  The first theorem follows signals from the handler through the pipe to the flags of the event loop; the lemmas on the destructors
  say what is lost or undefined at the end.
\<close>

unbundle bit_operations_syntax

subsection \<open>Descriptor flags\<close>

type_synonym fd_flags = "int \<rightharpoonup> 32 word"

definition O_NONBLOCK :: "32 word" where "O_NONBLOCK = 2048"

text \<open>\<^verbatim>\<open>fcntl\<close> answers \<open>-1\<close> for a descriptor that is not open, and setting the flags fails as well.\<close>

definition set_nonblocking :: "int \<Rightarrow> fd_flags \<Rightarrow> int \<times> fd_flags" where
  "set_nonblocking fd fl = (case fl fd of
      None \<Rightarrow> (- 1, fl)
    | Some old_option \<Rightarrow> (sint old_option, fl(fd \<mapsto> old_option OR O_NONBLOCK)))"

lemma set_nonblocking_sets:
  assumes "fl fd = Some w"
  shows "\<exists>w'. snd (set_nonblocking fd fl) fd = Some w' \<and> bit w' 11 \<and> (\<forall>n. n \<noteq> 11 \<longrightarrow> bit w' n = bit w n)"
    "snd (set_nonblocking fd (snd (set_nonblocking fd fl))) = snd (set_nonblocking fd fl)"
proof -
  have "O_NONBLOCK = 2 ^ 11" by (simp add: O_NONBLOCK_def)
  moreover have "bit (2 ^ 11 :: 32 word) n \<longleftrightarrow> n = 11" for n by (subst bit_exp_iff) auto
  ultimately have "bit O_NONBLOCK n \<longleftrightarrow> n = 11" for n by metis
  with assms show "\<exists>w'. snd (set_nonblocking fd fl) fd = Some w' \<and> bit w' 11 \<and> (\<forall>n. n \<noteq> 11 \<longrightarrow> bit w' n = bit w n)"
    by (simp add: set_nonblocking_def bit_or_iff)
  show "snd (set_nonblocking fd (snd (set_nonblocking fd fl))) = snd (set_nonblocking fd fl)"
    using assms by (simp add: set_nonblocking_def or.assoc)
qed

subsection \<open>Signals\<close>

text \<open>\<^verbatim>\<open>(char *)&msg\<close> with length 1 is the low byte of the number, read back as a signed \<^verbatim>\<open>char\<close>.\<close>

definition sig_byte :: "int \<Rightarrow> int" where
  "sig_byte sig = sint (word_of_int sig :: 8 word)"

record signal_pipe =
  pipe_bytes :: "int list"
  pipe_errno :: int

text \<open>The handler writes to a socket that does not block: a byte that finds no room is lost.  \<^verbatim>\<open>errno\<close> is put back.\<close>

definition sig_handler :: "nat \<Rightarrow> int \<Rightarrow> int \<Rightarrow> signal_pipe \<Rightarrow> signal_pipe" where
  "sig_handler room err sig p =
     (let save_errno = pipe_errno p;
          p1 = (if length (pipe_bytes p) < room then p\<lparr>pipe_bytes := pipe_bytes p @ [sig_byte sig]\<rparr> else p\<lparr>pipe_errno := err\<rparr>)
      in p1\<lparr>pipe_errno := save_errno\<rparr>)"

text \<open>The \<^verbatim>\<open>recv\<close> of \<^verbatim>\<open>deal_with_signal\<close>: at most 1024 bytes.  The socket at the reading end was put into the epoll set by \<^verbatim>\<open>addfd\<close> and does not
  block: without a byte the result is \<open>-1\<close>.\<close>

definition recv_signals :: "signal_pipe \<Rightarrow> int list option \<times> signal_pipe" where
  "recv_signals p =
     (if pipe_bytes p = [] then (None, p) else (Some (take 1024 (pipe_bytes p)), p\<lparr>pipe_bytes := drop 1024 (pipe_bytes p)\<rparr>))"

lemma sig_byte_small: "- 128 \<le> sig \<Longrightarrow> sig < 128 \<Longrightarrow> sig_byte sig = sig"
  by (simp add: sig_byte_def signed_of_int signed_take_bit_int_eq_self)

lemma handlers:
  "length (pipe_bytes p) + length sigs \<le> room \<Longrightarrow>
     fold (sig_handler room err) sigs p = p\<lparr>pipe_bytes := pipe_bytes p @ map sig_byte sigs\<rparr>"
  by (induction sigs arbitrary: p) (auto simp: sig_handler_def Let_def)

lemma signal_flags:
  "fold (\<lambda>sig (t, st). if sig = SIGALRM then (True, st) else if sig = SIGTERM then (t, True) else (t, st)) sigs (t0, st0)
     = (t0 \<or> SIGALRM \<in> set sigs, st0 \<or> SIGTERM \<in> set sigs)"
  by (induction sigs arbitrary: t0 st0) auto

text \<open>Signals reach the event loop.  Whatever signals (at most 1024, and no more than fit into the pipe) arrive between two
  rounds, the next round of the event loop sees the flag for the time-out exactly if \<^verbatim>\<open>SIGALRM\<close> was among them and the flag for the end exactly
  if \<^verbatim>\<open>SIGTERM\<close> was; the pipe is empty again and \<^verbatim>\<open>errno\<close> unchanged.\<close>

theorem signals_arrive:
  assumes "\<forall>sig \<in> set sigs. 0 < sig \<and> sig < 128" "sigs \<noteq> []" "length sigs \<le> min room 1024" "pipe_bytes p = []"
    "recv_signals (fold (sig_handler room err) sigs p) = (read, p')"
  shows "deal_with_signal read timeout stop = (True, timeout \<or> SIGALRM \<in> set sigs, stop \<or> SIGTERM \<in> set sigs) \<and> p' = p"
proof -
  have "map sig_byte sigs = sigs" using assms(1) by (intro map_idI) (auto simp: sig_byte_small)
  then have "fold (sig_handler room err) sigs p = p\<lparr>pipe_bytes := sigs\<rparr>" using handlers [of p sigs room err] assms(3,4) by simp
  with assms(2-5) have "read = Some sigs" "p' = p" by (auto simp: recv_signals_def)
  then show ?thesis using assms(2) by (simp add: deal_with_signal_def signal_flags del: fold_simps)
qed

theorem signals_arrive_witness:
  "\<exists>read p'. recv_signals (fold (sig_handler 100 11) [1, 15, 14, 15] \<lparr>pipe_bytes = [], pipe_errno = 4\<rparr>) = (read, p')
     \<and> deal_with_signal read False False = (True, True, True) \<and> pipe_errno p' = 4"
proof -
  let ?p = "\<lparr>pipe_bytes = [], pipe_errno = 4\<rparr>"
  obtain read p' where r: "recv_signals (fold (sig_handler 100 11) [1, 15, 14, 15] ?p) = (read, p')" by (meson prod.exhaust)
  have "\<forall>sig \<in> set [1, 15, 14, 15]. 0 < sig \<and> sig < (128 :: int)" "length [1, 15, 14, 15 :: int] \<le> min 100 1024" by simp_all
  from signals_arrive [OF this(1) _ this(2) _ r, of False False] r show ?thesis by auto
qed

subsection \<open>Destructors\<close>

text \<open>The file descriptors, then the members: the timer list deletes its timers.  The sockets of the connections stay open until the process ends.\<close>

definition server_destroy :: "server \<Rightarrow> server option" where
  "server_destroy s =
     (case timer_destroy (s_timers s) of
        None \<Rightarrow> None
      | Some ts \<Rightarrow> Some (emit (map (\<lambda>fd. Fd (Sock_close fd)) [s_epoll_fd s, s_listen_fd s, snd (s_pipe_fd s), fst (s_pipe_fd s)])
                     (s\<lparr>s_timers := ts\<rparr>)))"

definition log_destroy :: "wlog \<Rightarrow> wlog" where
  "log_destroy l = (case m_fp l of None \<Rightarrow> l | Some _ \<Rightarrow> l\<lparr>m_fp := None\<rparr>)"

text \<open>\<^verbatim>\<open>main\<close> after the event loop.\<close>

definition web_shutdown :: "server \<Rightarrow> cpool \<Rightarrow> wlog \<Rightarrow> (server \<times> nat list \<times> wlog) outcome" where
  "web_shutdown s p l = (case server_destroy s of
      None \<Rightarrow> outcome.Undefined
    | Some s1 \<Rightarrow> (case DestroyPool p of None \<Rightarrow> outcome.Undefined | Some (closed, _) \<Rightarrow> Ok (s1, closed, log_destroy l)))"

text \<open>With a free data base connection the end of the program is undefined: the destructor of the pool unlocks twice.\<close>

lemma shutdown_undefined: "conn_list p \<noteq> [] \<Longrightarrow> web_shutdown s p l = outcome.Undefined"
  by (simp add: web_shutdown_def destroy_pool_unlocks_twice split: option.split)

text \<open>Lines that are still in the queue of the log are lost: the destructor only closes the file.\<close>

lemma queued_lines_lost: "files (log_destroy l) = files l" "m_log_queue (log_destroy l) = m_log_queue l"
  by (simp_all add: log_destroy_def split: option.split)

subsection \<open>The other methods of the block queue\<close>

definition bq_size :: "nat \<Rightarrow> 'a bq \<times> mutex \<Rightarrow> (int \<times> 'a bq \<times> mutex) outcome" where
  "bq_size t = (\<lambda>(q, m). then_ok (Locker_lock t m) (\<lambda>(_, m1).
     let tmp = m_size q in then_ok (Locker_unlock t m1) (\<lambda>(_, m2). Ok (tmp, q, m2))))"

definition bq_max_size :: "nat \<Rightarrow> 'a bq \<times> mutex \<Rightarrow> (int \<times> 'a bq \<times> mutex) outcome" where
  "bq_max_size t = (\<lambda>(q, m). then_ok (Locker_lock t m) (\<lambda>(_, m1).
     let tmp = m_max_size q in then_ok (Locker_unlock t m1) (\<lambda>(_, m2). Ok (tmp, q, m2))))"

text \<open>The destructor releases an array of \<^verbatim>\<open>new[]\<close> with \<^verbatim>\<open>delete\<close>.\<close>

definition bq_destroy :: "nat \<Rightarrow> mutex \<Rightarrow> unit outcome" where
  "bq_destroy t m = then_ok (Locker_lock t m) (\<lambda>_. outcome.Undefined)"

text \<open>When no other thread is in the queue, the sizes are those of the list the buffer represents.\<close>

lemma bq_sizes:
  assumes "bq_inv q"
  shows "bq_size t (q, None) = Ok (int (length (bq_abs q)), q, None)"
    "\<exists>n. bq_max_size t (q, None) = Ok (n, q, None) \<and> int (length (bq_abs q)) \<le> n"
  using assms by (simp_all add: bq_size_def bq_max_size_def Locker_lock_def Locker_unlock_def bq_abs_def bq_inv_def)

end
