(* ===== verification/Vid_Exec.thy ===== *)
theory Vid_Exec
  imports Queue_Threads Cpp_Std
begin

text \<open>
  \<^verbatim>\<open>videoedit/src/xexec\<close>: the blocking queue on a \<^verbatim>\<open>std::queue\<close> (\<^verbatim>\<open>block_queue.h\<close>, the same file as in \<^verbatim>\<open>xlog\<close>) and
  \<^verbatim>\<open>XExec\<close>, which runs a command in a thread and passes its output on line by line, to a callback or through the
  queue.  What the command prints is the argument \<open>popen\<close> (\<open>None\<close> when the pipe cannot be opened).

  The worker reads characters into a \<^verbatim>\<open>char\<close> and compares it with \<^verbatim>\<open>EOF\<close>; with a signed \<^verbatim>\<open>char\<close> the byte 255 is taken
  for the end of the output.

  The lemmas show that the queue satisfies the contract of \<open>fifo_queue\<close> and that the worker cuts the output exactly
  after each line feed and carriage return; the properties say what the callback or the threads behind the
  queue receive.
\<close>

subsection \<open>The queue\<close>

type_synonym 'a vqueue = "'a list"

definition vq_push :: "'a \<Rightarrow> 'a vqueue \<Rightarrow> 'a vqueue" where
  "vq_push value q = q @ [value]"

definition vq_empty :: "'a vqueue \<Rightarrow> bool" where
  "vq_empty q \<longleftrightarrow> q = []"

definition vq_try_pop :: "'a \<Rightarrow> 'a vqueue \<Rightarrow> bool \<times> 'a \<times> 'a vqueue" where
  "vq_try_pop value q = (if vq_empty q then (False, value, q) else (True, hd q, tl q))"

text \<open>\<open>None\<close>: the thread sleeps on the condition variable.\<close>

definition vq_wait_and_pop :: "'a vqueue \<Rightarrow> ('a \<times> 'a vqueue) option" where
  "vq_wait_and_pop q = (if vq_empty q then None else Some (hd q, tl q))"

interpretation vqq: fifo_queue "\<lambda>_. True" "\<lambda>q. q" "\<lambda>x q. (True, vq_push x q)" vq_wait_and_pop
  by unfold_locales (auto simp: vq_push_def vq_wait_and_pop_def vq_empty_def split: if_splits)

subsection \<open>Running a command\<close>

definition CR_char :: char where "CR_char = CHR 0x0D"

text \<open>\<^verbatim>\<open>char c = fgetc(...)\<close> equals \<^verbatim>\<open>EOF\<close> for this byte.\<close>

definition EOF_char :: char where "EOF_char = CHR 0xFF"

definition line_end :: "char \<Rightarrow> bool" where
  "line_end c \<longleftrightarrow> c = nl \<or> c = CR_char"

record xexec =
  running :: bool
  outputs :: "string vqueue"

definition xexec_new :: xexec where
  "xexec_new = \<lparr>running = False, outputs = []\<rparr>"

text \<open>A line goes to the callback, if there is one, and to the queue otherwise.\<close>

definition deliver :: "(string \<Rightarrow> 's \<Rightarrow> 's outcome) option \<Rightarrow> string \<Rightarrow> xexec \<times> 's \<Rightarrow> (xexec \<times> 's) outcome" where
  "deliver func line es = (case func of
      Some f \<Rightarrow> then_ok (f line (snd es)) (\<lambda>s. Ok (fst es, s))
    | None \<Rightarrow> Ok ((fst es)\<lparr>outputs := vq_push line (outputs (fst es))\<rparr>, snd es))"

fun read_loop :: "(string \<Rightarrow> 's \<Rightarrow> 's outcome) option \<Rightarrow> string \<Rightarrow> string \<Rightarrow> xexec \<times> 's
    \<Rightarrow> (string \<times> xexec \<times> 's) outcome" where
  "read_loop func [] result es = Ok (result, es)"
| "read_loop func (c # cs) result es =
     (if c = EOF_char then Ok (result, es)
      else if line_end c then then_ok (deliver func (result @ [c]) es) (read_loop func cs [])
      else read_loop func cs (result @ [c]) es)"

definition RunCommand :: "(string \<Rightarrow> string option) \<Rightarrow> string \<Rightarrow> (string \<Rightarrow> 's \<Rightarrow> 's outcome) option
    \<Rightarrow> xexec \<times> 's \<Rightarrow> (xexec \<times> 's) outcome" where
  "RunCommand popen cmd func es = (case popen (cmd @ '' 2>&1'') of
      None \<Rightarrow> Throw (Runtime_error ''popen() failed'')
    | Some out \<Rightarrow>
        then_ok (read_loop func out [] es) (\<lambda>(result, es1).
        then_ok (if result \<noteq> [] then deliver func result es1 else Ok es1) (\<lambda>es2.
          Ok ((fst es2)\<lparr>running := False\<rparr>, snd es2))))"

definition GetOutput :: "xexec \<Rightarrow> (string \<times> xexec) option" where
  "GetOutput e = map_option (\<lambda>(line, q). (line, e\<lparr>outputs := q\<rparr>)) (vq_wait_and_pop (outputs e))"

subsection \<open>The lines of the output\<close>

text \<open>The reference: the text cut after every line end, the rest, if any, last.\<close>

fun cut_lines :: "string \<Rightarrow> string list" where
  "cut_lines [] = []"
| "cut_lines (c # cs) =
     (if line_end c then [c] # cut_lines cs
      else case cut_lines cs of [] \<Rightarrow> [[c]] | p # ps \<Rightarrow> (c # p) # ps)"

definition command_output :: "string \<Rightarrow> string" where
  "command_output out = takeWhile (\<lambda>c. c \<noteq> EOF_char) out"

lemma concat_pieces: "concat (cut_lines s) = s"
  by (induction s) (auto split: list.splits)

lemma pieces_shape: "p \<in> set (cut_lines s) \<Longrightarrow> p \<noteq> [] \<and> (\<forall>c \<in> set (butlast p). \<not> line_end c)"
proof (induction s arbitrary: p)
  case (Cons c cs)
  show ?case
  proof (cases "line_end c")
    case False
    show ?thesis
    proof (cases "cut_lines cs")
      case Nil
      with Cons.prems False show ?thesis by simp
    next
      case (Cons q qs)
      with Cons.prems False Cons.IH [of q] Cons.IH [of p] show ?thesis by auto
    qed
  qed (use Cons in auto)
qed simp

lemma pieces_ended: "p \<in> set (butlast (cut_lines s)) \<Longrightarrow> line_end (last p)"
proof (induction s arbitrary: p)
  case (Cons c cs)
  show ?case
  proof (cases "line_end c")
    case True
    with Cons show ?thesis by (cases "cut_lines cs") auto
  next
    case False
    show ?thesis
    proof (cases "cut_lines cs")
      case Nil
      with Cons.prems False show ?thesis by simp
    next
      case ps: (Cons q qs)
      then have "q \<noteq> []" using pieces_shape [of q cs] by simp
      with Cons False ps show ?thesis by (cases qs) auto
    qed
  qed
qed simp

text \<open>A line under construction is an unfinished first line.\<close>

lemma pieces_unfinished:
  "list_all (\<lambda>c. \<not> line_end c) r \<Longrightarrow> r \<noteq> [] \<Longrightarrow> cut_lines (r @ s) = (case cut_lines s of [] \<Rightarrow> [r] | p # ps \<Rightarrow>
     (r @ p) # ps)"
proof (induction r)
  case (Cons c r)
  show ?case
  proof (cases "r = []")
    case False
    with Cons show ?thesis by (cases "cut_lines s") auto
  qed (use Cons in \<open>simp split: list.split\<close>)
qed simp

lemma pieces_end:
  "list_all (\<lambda>c. \<not> line_end c) r \<Longrightarrow> line_end c \<Longrightarrow> cut_lines (r @ c # cs) = (r @ [c]) # cut_lines cs"
  by (cases "r = []") (simp_all add: pieces_unfinished)

lemma deliver_each:
  "list_all (\<lambda>c. \<not> line_end c) r \<Longrightarrow>
     then_ok (read_loop func out r es) (\<lambda>(result, es1). if result \<noteq> [] then deliver func result es1 else Ok es1)
     = each (deliver func) (cut_lines (r @ command_output out)) es"
proof (induction out arbitrary: r es)
  case Nil
  then show ?case
    using pieces_unfinished [of r "[]"] by (cases "deliver func r es") (simp_all add: command_output_def)
next
  case (Cons c out)
  show ?case
  proof (cases "c = EOF_char")
    case True
    with Cons.prems show ?thesis
      using pieces_unfinished [of r "[]"] by (cases "deliver func r es") (simp_all add: command_output_def)
  next
    case False
    show ?thesis
    proof (cases "line_end c")
      case True
      with Cons.IH [of "[]"] Cons.prems False show ?thesis
        by (cases "deliver func (r @ [c]) es") (simp_all add: command_output_def pieces_end)
    next
      case ne: False
      with Cons.IH [of "r @ [c]" es] Cons.prems False show ?thesis by (simp add: command_output_def)
    qed
  qed
qed

text \<open>The worker as a whole: the callback is called for each piece in turn.\<close>

lemma RunCommand_each:
  "popen (cmd @ '' 2>&1'') = Some out \<Longrightarrow>
     RunCommand popen cmd func es =
       then_ok (each (deliver func) (cut_lines (command_output out)) es)
         (\<lambda>es'. Ok ((fst es')\<lparr>running := False\<rparr>, snd es'))"
proof -
  assume p: "popen (cmd @ '' 2>&1'') = Some out"
  have "RunCommand popen cmd func es =
      then_ok (then_ok (read_loop func out [] es)
        (\<lambda>(result, es1). if result \<noteq> [] then deliver func result es1 else Ok es1))
        (\<lambda>es'. Ok ((fst es')\<lparr>running := False\<rparr>, snd es'))"
    using p by (cases "read_loop func out [] es") (auto simp: RunCommand_def)
  then show ?thesis using deliver_each [of "[]" func out es] by simp
qed

lemma each_deliver_queue:
  "each (deliver None) ls (e, s) = Ok (e\<lparr>outputs := outputs e @ ls\<rparr>, s)"
  by (induction ls arbitrary: e) (simp_all add: deliver_def vq_push_def)

lemma each_deliver_func:
  "each (deliver (Some f)) ls (e, s) = then_ok (each f ls s) (\<lambda>s'. Ok (e, s'))"
proof (induction ls arbitrary: s)
  case (Cons l ls)
  then show ?case by (cases "f l s") (simp_all add: deliver_def)
qed simp

text \<open>Claim C29: without a callback the worker puts the output of the command, up to the first byte 255, into the queue
  and clears \<^verbatim>\<open>running_\<close>: nothing is lost, added or reordered, every entry but the last ends with a line feed or a
  carriage return, and no entry contains one before its end.\<close>

theorem run_command_lines:
  assumes "popen (cmd @ '' 2>&1'') = Some out"
  shows "\<exists>e' ls. RunCommand popen cmd None (e, s) = Ok (e', s) \<and> outputs e' = outputs e @ ls \<and> \<not> running e'
     \<and> concat ls = takeWhile (\<lambda>c. c \<noteq> EOF_char) out
     \<and> (\<forall>l \<in> set ls. l \<noteq> [] \<and> (\<forall>c \<in> set (butlast l). c \<noteq> nl \<and> c \<noteq> CR_char))
     \<and> (\<forall>l \<in> set (butlast ls). last l = nl \<or> last l = CR_char)"
  using RunCommand_each [of popen cmd out None "(e, s)", OF assms] concat_pieces [of "command_output out"]
    pieces_shape [of _ "command_output out"] pieces_ended [of _ "command_output out"]
  by (auto simp: each_deliver_queue command_output_def line_end_def)

theorem run_command_lines_witness:
  "\<exists>e' ls. RunCommand (\<lambda>_. Some (''ab'' @ [nl, CR_char] @ ''c'' @ [EOF_char] @ ''d'')) ''ls'' None (xexec_new, ()) = Ok (e', ())
     \<and> outputs e' = ls \<and> concat ls = ''ab'' @ [nl, CR_char] @ ''c''"
  using run_command_lines [of "\<lambda>_. Some (''ab'' @ [nl, CR_char] @ ''c'' @ [EOF_char] @ ''d'')" "''ls''" _ xexec_new "()"]
  by (auto simp: xexec_new_def nl_def CR_char_def EOF_char_def)

subsection \<open>The worker and the threads that read its output\<close>

fun puts :: "'a q_action list \<Rightarrow> 'a list" where
  "puts [] = []"
| "puts (Put x ts # as) = x # puts as"
| "puts (_ # as) = puts as"

lemma q_run_accepted:
  "q_run (\<lambda>x q. (True, vq_push x q)) vq_wait_and_pop as s = Some s' \<Longrightarrow> accepted s' = accepted s @ puts as"
proof (induction as arbitrary: s)
  case (Cons a as)
  then show ?case
    by (cases a) (fastforce simp: q_put_def q_get_def split: if_splits option.splits)+
qed simp

text \<open>When the worker has put the lines of an output into the queue, while any number of threads
  called \<^verbatim>\<open>GetOutput\<close>, slept and were woken in any interleaving (\<^verbatim>\<open>notify_one\<close> wakes at least one sleeper),
  the lines they received in order, followed by the lines still queued, are the output; and no thread sleeps while a
  line waits unless another was woken for it.\<close>

theorem exec_output_threads:
  assumes "q_run (\<lambda>x q. (True, vq_push x q)) vq_wait_and_pop as (q_start []) = Some s"
    and "puts as = cut_lines (command_output out)"
  shows "concat (map snd (got s)) @ concat (que s) = command_output out
     \<and> (sleepers s \<noteq> {} \<and> que s \<noteq> [] \<longrightarrow> woken s \<noteq> {})"
proof -
  have "accepted s = cut_lines (command_output out)"
    using q_run_accepted [OF assms(1)] assms(2) by (simp add: q_start_def)
  with vqq.run_fifo [OF assms(1)] show ?thesis
    using concat_pieces [of "command_output out"] by (metis concat_append)
qed

theorem exec_output_threads_witness:
  "\<exists>s. q_run (\<lambda>x q. (True, vq_push x q)) vq_wait_and_pop
          [Get 1, Put (''a'' @ [nl]) {1}, Get 2, Get 1, Put ''b'' {1}, Get 1] (q_start []) = Some s
     \<and> concat (map snd (got s)) @ concat (que s) = ''a'' @ [nl] @ ''b''
     \<and> got s = [(2, ''a'' @ [nl]), (1, ''b'')]"
proof -
  let ?as = "[Get 1, Put (''a'' @ [nl]) {1}, Get 2, Get 1, Put ''b'' {1}, Get 1]"
  obtain s where s: "q_run (\<lambda>x q. (True, vq_push x q)) vq_wait_and_pop ?as (q_start []) = Some s"
      "got s = [(2, ''a'' @ [nl]), (1, ''b'')]"
    by (simp add: q_get_def q_put_def q_start_def vq_wait_and_pop_def vq_empty_def vq_push_def)
  have "puts ?as = cut_lines (command_output (''a'' @ [nl] @ ''b''))"
    by (simp add: command_output_def line_end_def EOF_char_def nl_def CR_char_def)
  from exec_output_threads [OF s(1) this] s show ?thesis
    by (auto simp: command_output_def EOF_char_def nl_def)
qed

end
