(* ===== verification/Vid_Task.thy ===== *)
theory Vid_Task
  imports Vid_Exec Net_Calc
begin

text \<open>
  \<^verbatim>\<open>videoedit/src/xtask/fftask.cpp\<close>, \<^verbatim>\<open>XExec::Start\<close> and \<^verbatim>\<open>Stop\<close>, and \<^verbatim>\<open>XVideoInput::RunTask\<close>: building the command of a task,
  reading the progress from its output, and the two threads of a running task.  The worker handles one line of
  output at a time and clears \<^verbatim>\<open>running_\<close> at the end; the main thread sets \<^verbatim>\<open>running_\<close> after it has created the worker,
  waits for it to be set, shows the progress until it is cleared, and joins the worker.  A schedule is a list of
  turns; a thread that waits for \<^verbatim>\<open>join\<close> uses its turn for nothing.  An exception in the worker ends the process.

  The lemmas follow the state of both threads along a schedule; the properties say under which
  schedules \<^verbatim>\<open>RunTask\<close> returns and which progress the output of a command gives.
\<close>

subsection \<open>The command\<close>

record task_data =
  task_type :: string
  src :: string
  des :: string
  begin_seconds :: string
  end_seconds :: string
  secret_key :: string
  is_encrypt :: bool

definition data_new :: task_data where
  "data_new = \<lparr>task_type = [], src = [], des = [], begin_seconds = [], end_seconds = [], secret_key = [],
     is_encrypt = True\<rparr>"

definition DEFAULTKEY :: string where
  "DEFAULTKEY = ''1234567890abcdef1234567890abcdef''"

text \<open>The loop over the characters of the key.\<close>

fun key_loop :: "nat \<Rightarrow> string \<Rightarrow> string \<Rightarrow> string" where
  "key_loop i [] default_key = default_key"
| "key_loop i (k # ks) default_key =
     (if i < length default_key then key_loop (Suc i) ks (default_key[i := k]) else default_key)"

definition sub_int :: "int \<Rightarrow> int \<Rightarrow> int outcome" where
  "sub_int a b = (if a - b < - (2 ^ 31) \<or> 2 ^ 31 \<le> a - b then Undefined else Ok (a - b))"

definition cut_option :: "task_data \<Rightarrow> string outcome" where
  "cut_option d =
     (if end_seconds d = [] then Ok []
      else then_ok (stoi (end_seconds d)) (\<lambda>e. then_ok (stoi (begin_seconds d)) (\<lambda>b.
           then_ok (sub_int e b) (\<lambda>segment_seconds.
             Ok (if segment_seconds > 0 then '' -t '' @ to_string segment_seconds else [])))))"

definition key_option :: "task_data \<Rightarrow> string" where
  "key_option d =
     (if secret_key d = [] then []
      else let default_key = key_loop 0 (secret_key d) DEFAULTKEY
           in if is_encrypt d
              then '' -encryption_scheme cenc-aes-ctr -encryption_kid abcdef0123456789abcdef0123456789''
                 @ '' -encryption_key '' @ default_key @ '' -c:v libx264 -c:a aac''
              else '' -decryption_key '' @ default_key @ '' -c copy'')"

text \<open>\<^verbatim>\<open>FFTask::Start\<close> up to the start of the worker: the command, and what is printed.\<close>

definition ff_start :: "task_data \<Rightarrow> (string \<times> string) outcome" where
  "ff_start d =
     then_ok (cut_option d) (\<lambda>c.
       let cmd = (if task_type d = ''play'' then ''ffplay'' else ''ffmpeg -y'') @ '' -i '' @ src d
                 @ (if begin_seconds d \<noteq> [] then '' -ss '' @ begin_seconds d else []) @ c @ key_option d
                 @ (if task_type d = ''cv'' then '' '' @ des d else []);
           text_out = (if secret_key d \<noteq> []
                   then ''key size: '' @ dec_text (length (key_loop 0 (secret_key d) DEFAULTKEY)) @ [nl] else [])
                 @ ''FFTask Start: '' @ cmd @ [nl]
       in Ok (cmd, text_out))"

lemma key_loop_spec:
  "i \<le> length dk \<Longrightarrow> key_loop i ks dk = take i dk @ take (length dk - i) ks @ drop (i + length ks) dk"
proof (induction ks arbitrary: i dk)
  case (Cons k ks)
  show ?case
  proof (cases "i < length dk")
    case True
    then have "length dk - i = Suc (length dk - Suc i)" by simp
    with True Cons.IH [of "Suc i" "dk[i := k]"] show ?thesis by (simp add: take_Suc_conv_app_nth)
  qed (use Cons in simp)
qed simp

text \<open>The key always has 32 characters: those given, filled up with the end of the default key.\<close>

lemma key_loop_32:
  "key_loop 0 ks DEFAULTKEY = take 32 ks @ drop (length ks) DEFAULTKEY" "length (key_loop 0 ks DEFAULTKEY) = 32"
proof -
  have l: "length DEFAULTKEY = 32" by (simp add: DEFAULTKEY_def)
  show eq: "key_loop 0 ks DEFAULTKEY = take 32 ks @ drop (length ks) DEFAULTKEY"
    using key_loop_spec [of 0 DEFAULTKEY ks] by (simp add: l)
  show "length (key_loop 0 ks DEFAULTKEY) = 32" unfolding eq by (simp add: l min_def)
qed

subsection \<open>The progress\<close>

definition TimeToSeconds :: "string \<Rightarrow> int outcome" where
  "TimeToSeconds s =
     then_ok (then_ok (substr s 0 2) stoi) (\<lambda>hour.
     then_ok (then_ok (substr s 3 2) stoi) (\<lambda>minute.
     then_ok (then_ok (substr s 6 2) stoi) (\<lambda>seconds.
       Ok (hour * 3600 + minute * 60 + seconds))))"

record ffprog =
  total_seconds :: int
  progress :: int

definition ff_time :: "string \<Rightarrow> ffprog \<Rightarrow> ffprog outcome" where
  "ff_time s p = (case find_str ''time='' s of
      None \<Rightarrow> Ok p
    | Some pos \<Rightarrow>
        then_ok (substr s (pos + 5) 8) (\<lambda>time. then_ok (TimeToSeconds time) (\<lambda>seconds.
          Ok (if total_seconds p > 0 then p\<lparr>progress := c_div (100 * seconds) (total_seconds p)\<rparr> else p))))"

text \<open>The callback for a line of output.\<close>

definition ff_line :: "string \<Rightarrow> ffprog \<Rightarrow> ffprog outcome" where
  "ff_line s p =
     (if total_seconds p \<le> 0
      then (case find_str ''Duration: '' s of
              None \<Rightarrow> ff_time s p
            | Some pos \<Rightarrow> then_ok (substr s (pos + 10) 8) (\<lambda>time. then_ok (TimeToSeconds time) (\<lambda>t.
                            Ok (p\<lparr>total_seconds := t\<rparr>))))
      else ff_time s p)"

text \<open>A time as \<^verbatim>\<open>ffmpeg\<close> prints it.\<close>

definition hms :: "nat \<Rightarrow> string" where
  "hms t = pad 2 (t div 3600) @ '':'' @ pad 2 (t div 60 mod 60) @ '':'' @ pad 2 (t mod 60)"

lemma pad2:
  assumes "n < 100"
  shows "length (pad 2 n) = 2" "list_all is_digit (pad 2 n)" "dec_val (pad 2 n) = n"
proof -
  have zero: "CHR ''0'' = char_of (48 :: nat)" by code_simp
  have "n < 10 \<or> 10 \<le> n" by linarith
  then have e: "pad 2 n = [char_of (n div 10 + 48), char_of (n mod 10 + 48)]"
    using assms by (auto simp: pad_def dec_text.simps [of n] dec_text.simps [of "n div 10"] numeral_2_eq_2 zero)
  show "length (pad 2 n) = 2" "list_all is_digit (pad 2 n)" "dec_val (pad 2 n) = n"
    using digit_of_nat [of "n div 10"] digit_of_nat [of "n mod 10"] assms
    by (simp_all add: e dec_val_def)
qed

lemma stoi_pad2: "n < 100 \<Longrightarrow> stoi (pad 2 n) = Ok (int n)"
  using stoi_digits [of "pad 2 n" "[]"] pad2 [of n] by force

lemma hms_length: "t < 360000 \<Longrightarrow> length (hms t) = 8"
  by (simp add: hms_def pad2 less_mult_imp_div_less)

lemma TimeToSeconds_hms:
  assumes "t < 360000"
  shows "TimeToSeconds (hms t) = Ok (int t)"
proof -
  let ?h = "pad 2 (t div 3600)" and ?m = "pad 2 (t div 60 mod 60)" and ?s = "pad 2 (t mod 60)"
  have l: "length ?h = 2" "length ?m = 2" "length ?s = 2" using assms by (simp_all add: pad2 less_mult_imp_div_less)
  have "t div 3600 = t div 60 div 60" by (simp add: div_mult2_eq [symmetric])
  moreover have "t = t div 60 * 60 + t mod 60" "t div 60 = t div 60 div 60 * 60 + t div 60 mod 60" by simp_all
  ultimately have "t div 3600 * 3600 + t div 60 mod 60 * 60 + t mod 60 = t" by linarith
  then have "int (t div 3600) * 3600 + int (t div 60 mod 60) * 60 + int (t mod 60) = int t"
    by linarith
  moreover have "take 2 (hms t) = ?h" "take 2 (drop 3 (hms t)) = ?m" "take 2 (drop 6 (hms t)) = ?s"
    using l by (simp_all add: hms_def drop_Cons' take_Cons')
  moreover have "stoi ?h = Ok (int (t div 3600))" "stoi ?m = Ok (int (t div 60 mod 60))" "stoi ?s = Ok (int (t mod 60))"
    using assms by (intro stoi_pad2; simp add: less_mult_imp_div_less)+
  ultimately show ?thesis using l by (simp add: TimeToSeconds_def substr_def hms_length [OF assms])
qed

text \<open>A line in which the first occurrence of a key is followed by a time.\<close>

definition shows_time :: "string \<Rightarrow> nat \<Rightarrow> string \<Rightarrow> bool" where
  "shows_time key t line \<longleftrightarrow> t < 360000 \<and> (\<exists>a b. line = a @ key @ hms t @ b \<and> find_str key line = Some (length a))"

lemma shows_time_substr:
  "shows_time key t line \<Longrightarrow> length key = n \<Longrightarrow>
     \<exists>pos. find_str key line = Some pos \<and> then_ok (substr line (pos + n) 8) TimeToSeconds = Ok (int t)"
  by (auto simp: shows_time_def substr_def hms_length TimeToSeconds_hms)

lemma ff_line_duration:
  "total_seconds p \<le> 0 \<Longrightarrow> shows_time ''Duration: '' t line \<Longrightarrow> ff_line line p = Ok (p\<lparr>total_seconds := int t\<rparr>)"
  using shows_time_substr [of "''Duration: ''" t line 10] by (auto simp: ff_line_def then_ok_Ok)

lemma ff_line_time:
  assumes "0 < total_seconds p" "shows_time ''time='' t line"
  shows "ff_line line p = Ok (p\<lparr>progress := 100 * int t div total_seconds p\<rparr>)"
proof -
  have "c_div (100 * int t) (total_seconds p) = 100 * int t div total_seconds p"
    using assms(1) by (cases "t = 0") (simp_all add: c_div_def sgn_if)
  with shows_time_substr [OF assms(2), of 5] assms(1) show ?thesis by (auto simp: ff_line_def ff_time_def then_ok_Ok)
qed

lemma ff_line_other:
  "find_str ''Duration: '' line = None \<Longrightarrow> find_str ''time='' line = None \<Longrightarrow> ff_line line p = Ok p"
  by (simp add: ff_line_def ff_time_def)

text \<open>The total is kept once it is set, also for the next task.\<close>

lemma total_kept: "0 < total_seconds p \<Longrightarrow> each ff_line ls p = Ok p' \<Longrightarrow> total_seconds p' = total_seconds p"
proof (induction ls arbitrary: p)
  case (Cons l ls)
  then obtain q where q: "ff_line l p = Ok q" "each ff_line ls q = Ok p'" by (auto simp: then_ok_Ok)
  with Cons.prems(1) have "total_seconds q = total_seconds p"
    by (auto simp: ff_line_def ff_time_def then_ok_Ok split: option.splits)
  with Cons.IH [OF _ q(2)] Cons.prems(1) show ?case by simp
qed simp

lemma each_ff_time:
  "0 < total_seconds p \<Longrightarrow> list_all2 (shows_time ''time='') ts ls \<Longrightarrow>
     each ff_line ls p = Ok (if ts = [] then p else p\<lparr>progress := 100 * int (last ts) div total_seconds p\<rparr>)"
proof (induction ts arbitrary: p ls)
  case (Cons t ts)
  then obtain l ls' where ls: "ls = l # ls'" "shows_time ''time='' t l" "list_all2 (shows_time ''time='') ts ls'"
    by (auto simp: list_all2_Cons1)
  with Cons.IH [of "p\<lparr>progress := 100 * int t div total_seconds p\<rparr>" ls'] ff_line_time [OF Cons.prems(1) ls(2)]
    Cons.prems(1) show ?case by simp
qed simp



text \<open>Faults: a duration that is not a time (\<^verbatim>\<open>N/A\<close>, for a stream) throws in the worker; the second task is measured
  against the duration of the first.\<close>

lemma duration_unknown:
  "ff_line ''  Duration: N/A, bitrate'' \<lparr>total_seconds = 0, progress = 0\<rparr> = Throw Invalid_argument"
  by code_simp

subsection \<open>The two threads of a task\<close>

text \<open>The main thread after it has created the worker: \<^verbatim>\<open>running_ = true\<close>, then (\<open>True\<close>) the loops of \<^verbatim>\<open>RunTask\<close> or
  (\<open>False\<close>) \<^verbatim>\<open>Stop\<close> at once, as for \<^verbatim>\<open>play\<close>.\<close>

datatype pc = P_flag bool | P_wait | P_watch int | P_read int | P_print int | P_join | P_done

datatype worker = W_lines "string list" | W_done | W_crashed

record running_task =
  pc :: pc
  worker :: worker
  flag :: bool
  prog :: ffprog
  shown :: string

datatype thread = Main | Worker

fun main_turn :: "pc \<Rightarrow> running_task \<Rightarrow> running_task" where
  "main_turn (P_flag watch) s = s\<lparr>flag := True, pc := if watch then P_wait else P_join\<rparr>"
| "main_turn P_wait s =
     (if flag s then s\<lparr>pc := P_watch (- 1)\<rparr> else s\<lparr>shown := shown s @ ''not running!'' @ [CR_char, nl]\<rparr>)"
| "main_turn (P_watch pre) s =
     (if flag s then s\<lparr>pc := P_read pre\<rparr>
      else s\<lparr>pc := P_join, shown := shown s @ [CR_char] @ ''100%'' @ [nl]\<rparr>)"
| "main_turn (P_read pre) s =
     (if progress (prog s) \<noteq> pre then s\<lparr>pc := P_print (progress (prog s))\<rparr> else s\<lparr>pc := P_watch pre\<rparr>)"
| "main_turn (P_print cur) s =
     s\<lparr>pc := P_watch cur, shown := shown s @ [CR_char] @ to_string (progress (prog s)) @ ''%''\<rparr>"
| "main_turn P_join s = (if worker s = W_done then s\<lparr>pc := P_done\<rparr> else s)"
| "main_turn P_done s = s"

fun worker_turn :: "worker \<Rightarrow> running_task \<Rightarrow> running_task" where
  "worker_turn (W_lines []) s = s\<lparr>flag := False, worker := W_done\<rparr>"
| "worker_turn (W_lines (l # ls)) s =
     (case ff_line l (prog s) of Ok p \<Rightarrow> s\<lparr>prog := p, worker := W_lines ls\<rparr> | _ \<Rightarrow> s\<lparr>worker := W_crashed\<rparr>)"
| "worker_turn W_done s = s"
| "worker_turn W_crashed s = s"

definition turn :: "thread \<Rightarrow> running_task \<Rightarrow> running_task" where
  "turn t s = (if worker s = W_crashed then s
     else case t of Main \<Rightarrow> main_turn (pc s) s | Worker \<Rightarrow> worker_turn (worker s) s)"

definition task_started :: "bool \<Rightarrow> string option \<Rightarrow> ffprog \<Rightarrow> string \<Rightarrow> bool \<Rightarrow> running_task" where
  "task_started watch out p tx f =
     \<lparr>pc = P_flag watch,
      worker = (case out of None \<Rightarrow> W_crashed | Some s \<Rightarrow> W_lines (cut_lines (command_output s))),
      flag = f, prog = p, shown = tx\<rparr>"

abbreviation turns :: "thread list \<Rightarrow> running_task \<Rightarrow> running_task" where
  "turns \<equiv> fold turn"

fun watching :: "pc \<Rightarrow> bool" where
  "watching (P_watch _) = True"
| "watching (P_read _) = True"
| "watching (P_print _) = True"
| "watching _ = False"

text \<open>Before the worker's last turn: \<open>m\<close> is the number of turns the main thread has had.\<close>

definition before_end :: "string list \<Rightarrow> ffprog \<Rightarrow> nat \<Rightarrow> running_task \<Rightarrow> bool" where
  "before_end ls p' m s \<longleftrightarrow> worker s = W_lines ls \<and> each ff_line ls (prog s) = Ok p'
     \<and> (m = 0 \<longrightarrow> pc s = P_flag True) \<and> (m = 1 \<longrightarrow> pc s = P_wait \<and> flag s)
     \<and> (2 \<le> m \<longrightarrow> watching (pc s) \<and> flag s)"

lemma before_end_main: "before_end ls p' m s \<Longrightarrow> before_end ls p' (Suc m) (turn Main s)"
  by (cases "pc s") (auto simp: before_end_def turn_def)

lemma before_end_worker: "before_end (l # ls) p' m s \<Longrightarrow> before_end ls p' m (turn Worker s)"
  by (auto simp: before_end_def turn_def then_ok_Ok)

lemma before_end_turns:
  "before_end ls p' m s \<Longrightarrow> count_list as Worker \<le> length ls \<Longrightarrow>
     before_end (drop (count_list as Worker) ls) p' (m + count_list as Main) (turns as s)"
proof (induction as arbitrary: ls m s)
  case (Cons t as)
  show ?case
  proof (cases t)
    case Main
    with Cons.IH [OF before_end_main [OF Cons.prems(1)]] Cons.prems(2) show ?thesis by simp
  next
    case Worker
    with Cons.prems(2) obtain l ls' where ls: "ls = l # ls'" by (cases ls) auto
    with Cons.IH [of ls' m "turn Worker s"] before_end_worker [of l ls' p' m s] Cons.prems Worker show ?thesis by simp
  qed
qed simp

text \<open>When the worker has ended too early the main thread never gets to the end.\<close>

definition never_ends :: "running_task \<Rightarrow> bool" where
  "never_ends s \<longleftrightarrow> worker s = W_done \<and> (pc s = P_flag True \<or> pc s = P_wait \<or> watching (pc s) \<and> flag s)"

lemma stuck_turn: "never_ends s \<Longrightarrow> never_ends (turn t s)"
  by (cases t; cases "pc s") (auto simp: never_ends_def turn_def)

lemma stuck_turns: "never_ends s \<Longrightarrow> never_ends (turns as s)"
  by (induction as arbitrary: s) (simp_all add: stuck_turn)

text \<open>The turns the main thread still needs when the worker has ended and the flag is cleared.\<close>

fun needs :: "pc \<Rightarrow> nat" where
  "needs (P_read _) = 4"
| "needs (P_print _) = 3"
| "needs (P_watch _) = 2"
| "needs P_join = 1"
| "needs _ = 0"

definition ending :: "running_task \<Rightarrow> bool" where
  "ending s \<longleftrightarrow> worker s = W_done \<and> \<not> flag s \<and> (watching (pc s) \<or> pc s = P_join \<or> pc s = P_done)"

lemma ending_turn:
  "ending s \<Longrightarrow> ending (turn t s) \<and> prog (turn t s) = prog s
     \<and> needs (pc (turn t s)) \<le> needs (pc s) - (if t = Main then 1 else 0)"
  by (cases t; cases "pc s") (auto simp: ending_def turn_def)

lemma ending_turns:
  "ending s \<Longrightarrow> ending (turns as s) \<and> prog (turns as s) = prog s
     \<and> needs (pc (turns as s)) \<le> needs (pc s) - count_list as Main"
proof (induction as arbitrary: s)
  case (Cons t as)
  from Cons.IH [of "turn t s"] ending_turn [OF Cons.prems, of t] show ?case by auto
qed simp

lemma needs_bound: "needs q \<le> 4" "watching q \<or> q = P_join \<or> q = P_done \<Longrightarrow> needs q = 0 \<Longrightarrow> q = P_done"
  by (cases q; simp)+

lemma run_task_returns_iff_core:
  assumes out: "each ff_line (cut_lines (command_output out)) p = Ok p'"
    and last: "as = as' @ [Worker]" and workers: "count_list as Worker = Suc (length (cut_lines (command_output out)))"
    and mains: "4 \<le> count_list bs Main"
  shows "2 \<le> count_list as Main \<Longrightarrow>
            pc (turns (as @ bs) (task_started True (Some out) p tx f)) = P_done
            \<and> prog (turns (as @ bs) (task_started True (Some out) p tx f)) = p'
            \<and> worker (turns (as @ bs) (task_started True (Some out) p tx f)) = W_done"
    and "count_list as Main < 2 \<Longrightarrow> pc (turns (as @ cs) (task_started True (Some out) p tx f)) \<noteq> P_done"
proof -
  let ?init = "task_started True (Some out) p tx f" and ?ls = "cut_lines (command_output out)"
  have "before_end ?ls p' 0 ?init" using out by (simp add: before_end_def task_started_def)
  from before_end_turns [OF this, of as'] workers last
  have b: "before_end [] p' (count_list as Main) (turns as' ?init)" by simp
  let ?s = "turns as ?init"
  have s: "worker ?s = W_done" "\<not> flag ?s" "prog ?s = p'" "pc ?s = pc (turns as' ?init)"
    using b last by (simp_all add: before_end_def turn_def)
  { assume two: "2 \<le> count_list as Main"
    have "ending ?s" using b s two by (simp add: ending_def before_end_def)
    from ending_turns [OF this, of bs] have e: "ending (turns bs ?s)" "prog (turns bs ?s) = p'"
        "needs (pc (turns bs ?s)) = 0"
      using s(3) mains needs_bound(1) [of "pc ?s"] by auto
    then show "pc (turns (as @ bs) ?init) = P_done \<and> prog (turns (as @ bs) ?init) = p'
        \<and> worker (turns (as @ bs) ?init) = W_done"
      using needs_bound(2) [of "pc (turns bs ?s)"] by (simp add: ending_def) }
  { assume "count_list as Main < 2"
    then have "count_list as Main = 0 \<or> count_list as Main = 1" by linarith
    then have "never_ends ?s" using b s by (auto simp: never_ends_def before_end_def)
    from stuck_turns [OF this, of cs] show "pc (turns (as @ cs) ?init) \<noteq> P_done" by (auto simp: never_ends_def) }
qed

text \<open>Claim C30: when \<^verbatim>\<open>RunTask\<close> returns.  Let the worker get its last turn at the end of the schedule \<open>as\<close>, no line of its
  output making the callback throw.  If the main thread has had two turns by then, it has seen \<^verbatim>\<open>running_\<close> set, and it
  returns within four further turns, with the progress of the whole output; if it has had fewer, it
  never returns, whatever the schedule: it waits for a flag that was already cleared, or has set the flag after
  the worker cleared it.\<close>

theorem run_task_returns_iff:
  assumes out: "each ff_line (cut_lines (command_output out)) p = Ok p'"
    and last: "as = as' @ [Worker]" and workers: "count_list as Worker = Suc (length (cut_lines (command_output out)))"
    and mains: "4 \<le> count_list bs Main"
  shows "(2 \<le> count_list as Main \<longrightarrow>
            pc (turns (as @ bs) (task_started True (Some out) p tx f)) = P_done
            \<and> prog (turns (as @ bs) (task_started True (Some out) p tx f)) = p')
       \<and> (count_list as Main < 2 \<longrightarrow>
            (\<forall>cs. pc (turns (as @ cs) (task_started True (Some out) p tx f)) \<noteq> P_done))"
  using run_task_returns_iff_core [OF assms] by blast

theorem run_task_returns_iff_witness:
  "pc (turns ([Main, Worker, Main, Worker] @ [Main, Worker, Main, Main, Main])
        (task_started True (Some ''ok'') \<lparr>total_seconds = 0, progress = 0\<rparr> [] False)) = P_done
   \<and> (\<forall>cs. pc (turns ([Main, Worker, Worker] @ cs)
        (task_started True (Some ''ok'') \<lparr>total_seconds = 0, progress = 0\<rparr> [] False)) \<noteq> P_done)"
proof -
  let ?p = "\<lparr>total_seconds = 0, progress = 0\<rparr>"
  have c: "cut_lines (command_output ''ok'') = [''ok'']" by code_simp
  have lines_ok: "each ff_line (cut_lines (command_output ''ok'')) ?p = Ok ?p"
    unfolding c by (simp add: ff_line_other)
  from run_task_returns_iff [OF lines_ok, of "[Main, Worker, Main, Worker]" "[Main, Worker, Main]" "[Main, Worker, Main, Main, Main]" "[]" False]
    run_task_returns_iff [OF lines_ok, of "[Main, Worker, Worker]" "[Main, Worker]" "[Main, Main, Main, Main]" "[]" False]
  show ?thesis by (simp add: c)
qed

text \<open>The other way to end a task, \<^verbatim>\<open>Start\<close> and \<^verbatim>\<open>Stop\<close> for \<^verbatim>\<open>play\<close>, returns under every schedule that gives both threads
  their turns.\<close>

lemma play_turns:
  "each ff_line ls (prog s) = Ok p' \<Longrightarrow> worker s = W_lines ls \<Longrightarrow> pc s = P_flag False \<or> pc s = P_join \<Longrightarrow>
     count_list as Worker = Suc (length ls) \<Longrightarrow>
     worker (turns as s) = W_done \<and> prog (turns as s) = p' \<and> (pc (turns as s) \<in> {P_flag False, P_join, P_done})"
proof (induction as arbitrary: ls s)
  case (Cons t as)
  have ended: "worker (turns as s) = W_done \<and> prog (turns as s) = prog s \<and> pc (turns as s) \<in> {P_flag False, P_join, P_done}"
    if "worker s = W_done" "pc s \<in> {P_flag False, P_join, P_done}" for s
    using that
  proof (induction as arbitrary: s)
    case (Cons t as)
    from Cons.prems have "worker (turn t s) = W_done \<and> prog (turn t s) = prog s \<and> pc (turn t s) \<in> {P_flag False, P_join, P_done}"
      by (cases t) (auto simp: turn_def)
    with Cons.IH [of "turn t s"] show ?case by simp
  qed simp
  show ?case
  proof (cases t)
    case Main
    moreover from Cons.prems have "each ff_line ls (prog (turn Main s)) = Ok p' \<and> worker (turn Main s) = W_lines ls
        \<and> (pc (turn Main s) = P_flag False \<or> pc (turn Main s) = P_join)" by (auto simp: turn_def)
    ultimately show ?thesis using Cons.IH [of ls "turn Main s"] Cons.prems by simp
  next
    case Worker
    show ?thesis
    proof (cases ls)
      case Nil
      with Cons.prems have "worker (turn Worker s) = W_done \<and> prog (turn Worker s) = p'
          \<and> pc (turn Worker s) \<in> {P_flag False, P_join, P_done}" by (auto simp: turn_def)
      with ended [of "turn Worker s"] Worker show ?thesis by simp
    next
      case (Cons l ls')
      with Cons.prems have "each ff_line ls' (prog (turn Worker s)) = Ok p' \<and> worker (turn Worker s) = W_lines ls'
          \<and> (pc (turn Worker s) = P_flag False \<or> pc (turn Worker s) = P_join)"
        by (auto simp: turn_def then_ok_Ok)
      with Cons.IH [of ls' "turn Worker s"] Cons.prems Cons Worker show ?thesis by simp
    qed
  qed
qed simp

end
