(* ===== verification/Vid_Log.thy ===== *)
theory Vid_Log
  imports Cpp_Std
begin

text \<open>
  \<^verbatim>\<open>videoedit/src/xlog\<close>: the configuration file (\<^verbatim>\<open>xconfig.cpp\<close>), the factory that sets the logger up from it
  (\<^verbatim>\<open>log_factory.cpp\<close>), the format (\<^verbatim>\<open>xlog_format.cpp\<close>), the two outputs and \<^verbatim>\<open>Logger::Write\<close>.  The state
  of the single factory holds its logger, the text on the console and the contents of the files; the content of the
  configuration file (\<open>None\<close> when it cannot be opened), the files that can be opened and the local time of each
  message are arguments.

  The lemmas relate the reading loop to the lines of the file; the property says which of a sequence of messages
  reach which output, for every configuration file made of settings.
\<close>

subsection \<open>The configuration file\<close>

type_synonym config_map = "string \<Rightarrow> string option"

definition config_line :: "string \<Rightarrow> config_map \<Rightarrow> config_map" where
  "config_line line cfg =
     (if line = [] then cfg
      else (case find_str ''='' line of
              None \<Rightarrow> cfg(line \<mapsto> line)
            | Some pos \<Rightarrow> if 0 < pos then cfg(take pos line \<mapsto> drop (pos + 1) line) else cfg))"

function read_config_loop :: "string \<Rightarrow> istream \<Rightarrow> config_map \<Rightarrow> config_map" where
  "read_config_loop line ifs cfg =
     (let (line', ifs') = getline line ifs; cfg' = config_line line' cfg
      in if \<not> good ifs' then cfg' else read_config_loop line' ifs' cfg')"
  by auto
termination
proof (relation "measure (\<lambda>(line, ifs, cfg). length (chars ifs))", simp)
  fix line ifs cfg x line' ifs' cfg'
  assume "x = getline line ifs" "(line', ifs') = x" "\<not> \<not> good ifs'"
  then have g: "getline line ifs = (line', ifs')" "good ifs'" by simp_all
  then have ne: "dropWhile (\<lambda>c. c \<noteq> nl) (chars ifs) \<noteq> []"
    and eq: "chars ifs' = tl (dropWhile (\<lambda>c. c \<noteq> nl) (chars ifs))"
    by (auto simp: getline_def Let_def simp del: dropWhile_eq_Nil_conv split: if_splits)
  from ne have "length (chars ifs') < length (dropWhile (\<lambda>c. c \<noteq> nl) (chars ifs))"
    unfolding eq by (cases "dropWhile (\<lambda>c. c \<noteq> nl) (chars ifs)") simp_all
  then show "((line', ifs', cfg'), line, ifs, cfg) \<in> measure (\<lambda>(line, ifs, cfg). length (chars ifs))"
    using length_dropWhile [of "\<lambda>c. c \<noteq> nl" "chars ifs"] by simp
qed

declare read_config_loop.simps [simp del]

definition config_read :: "string option \<Rightarrow> config_map \<Rightarrow> bool \<times> config_map" where
  "config_read file cfg = (case file of
      None \<Rightarrow> (False, cfg)
    | Some content \<Rightarrow> (True, (read_config_loop [] (stream content) cfg)(''null'' \<mapsto> [])))"

text \<open>A missing key is answered with the entry \<^verbatim>\<open>null\<close>, which \<^verbatim>\<open>operator[]\<close> creates when there is none.\<close>

definition config_get :: "string \<Rightarrow> config_map \<Rightarrow> string \<times> config_map" where
  "config_get key cfg = (case cfg key of
      Some v \<Rightarrow> (v, cfg)
    | None \<Rightarrow> (case cfg ''null'' of Some v \<Rightarrow> (v, cfg) | None \<Rightarrow> ([], cfg(''null'' \<mapsto> []))))"

subsection \<open>Levels, format, outputs\<close>

datatype log_level = DEBUG | INFO | ERROR | FATAL

definition level_num :: "log_level \<Rightarrow> nat" where
  "level_num l = (case l of DEBUG \<Rightarrow> 0 | INFO \<Rightarrow> 1 | ERROR \<Rightarrow> 2 | FATAL \<Rightarrow> 3)"

lemma level_num_inj: "level_num a = level_num b \<Longrightarrow> a = b"
  by (cases a; cases b) (simp_all add: level_num_def)

instantiation log_level :: linorder
begin

definition less_eq_log_level :: "log_level \<Rightarrow> log_level \<Rightarrow> bool" where
  "a \<le> b \<longleftrightarrow> level_num a \<le> level_num b"

definition less_log_level :: "log_level \<Rightarrow> log_level \<Rightarrow> bool" where
  "a < b \<longleftrightarrow> level_num a < level_num b"

instance
  by standard (auto simp: less_eq_log_level_def less_log_level_def dest: level_num_inj)

end

record local_time =
  t_year :: nat
  t_mon :: nat
  t_mday :: nat
  t_hour :: nat
  t_min :: nat
  t_sec :: nat

text \<open>\<^verbatim>\<open>%Y-%m-%d %H:%M:%S\<close>.\<close>

definition GetNow :: "local_time \<Rightarrow> string" where
  "GetNow t = dec_text (t_year t) @ ''-'' @ pad 2 (t_mon t) @ ''-'' @ pad 2 (t_mday t) @ '' ''
     @ pad 2 (t_hour t) @ '':'' @ pad 2 (t_min t) @ '':'' @ pad 2 (t_sec t)"

definition log_text :: "local_time \<Rightarrow> string \<Rightarrow> string \<Rightarrow> string \<Rightarrow> int \<Rightarrow> string" where
  "log_text now level log file line = GetNow now @ '' '' @ level @ '' '' @ log @ '' '' @ file @ '': '' @ to_string line"

datatype log_output = Console | To_file string

record xlog =
  log_format :: bool
  log_output :: "log_output option"
  loglevel :: log_level
  console :: string
  disk :: "string \<Rightarrow> string"

definition log_emit :: "log_output \<Rightarrow> string \<Rightarrow> xlog \<Rightarrow> xlog" where
  "log_emit dest log l = (case dest of
      Console \<Rightarrow> l\<lparr>console := console l @ log @ [nl]\<rparr>
    | To_file f \<Rightarrow> l\<lparr>disk := (disk l)(f := disk l f @ log @ [nl])\<rparr>)"

subsection \<open>The logger\<close>

record message =
  m_level :: log_level
  m_log :: string
  m_file :: string
  m_line :: int
  m_time :: local_time

definition level_str :: "log_level \<Rightarrow> string" where
  "level_str l = (case l of INFO \<Rightarrow> ''info'' | ERROR \<Rightarrow> ''error'' | FATAL \<Rightarrow> ''fatal'' | DEBUG \<Rightarrow> ''debug'')"

text \<open>\<^verbatim>\<open>Logger::Write\<close>: format and output are called through pointers that are null before the set-up.\<close>

definition logger_write :: "message \<Rightarrow> xlog \<Rightarrow> xlog outcome" where
  "logger_write m l =
     (if m_level m < loglevel l then Ok l
      else if \<not> log_format l then Undefined
      else let formatted_output = log_text (m_time m) (level_str (m_level m)) (m_log m) (m_file m) (m_line m)
           in (case log_output l of None \<Rightarrow> Undefined | Some dest \<Rightarrow> Ok (log_emit dest formatted_output l)))"

definition setting :: "string \<Rightarrow> string \<Rightarrow> config_map \<Rightarrow> string \<times> config_map" where
  "setting key dflt cfg = (case config_get key cfg of (val, cfg') \<Rightarrow> (if val \<noteq> [] then val else dflt, cfg'))"

text \<open>The level of an unknown name is an uninitialised variable (\<open>None\<close>).\<close>

definition level_of :: "string \<Rightarrow> log_level option" where
  "level_of s =
     (if s = ''debug'' then Some DEBUG else if s = ''info'' then Some DEBUG
      else if s = ''error'' then Some ERROR else if s = ''fatal'' then Some FATAL else None)"

definition xlog_init :: "string option \<Rightarrow> (string \<Rightarrow> bool) \<Rightarrow> xlog \<Rightarrow> xlog outcome" where
  "xlog_init file can_open l =
     (let l1 = l\<lparr>log_format := True\<rparr>;
          (result, cfg) = config_read file Map.empty;
          (log_type, log_file, log_level) =
            (if result then
               (let (a, cfg1) = setting ''log_type'' ''console'' cfg;
                    (b, cfg2) = setting ''log_file'' ''log.txt'' cfg1;
                    (c, cfg3) = setting ''log_level'' ''debug'' cfg2
                in (a, b, c))
             else (''console'', ''log.txt'', ''debug''))
      in if log_type \<noteq> ''console'' \<and> \<not> can_open log_file then Ok l1
         else let l2 = l1\<lparr>log_output := Some (if log_type = ''console'' then Console else To_file log_file)\<rparr>
              in (case level_of log_level of None \<Rightarrow> Undefined | Some level \<Rightarrow> Ok (l2\<lparr>loglevel := level\<rparr>)))"

definition xlog_new :: "(string \<Rightarrow> string) \<Rightarrow> xlog" where
  "xlog_new d = \<lparr>log_format = False, log_output = None, loglevel = DEBUG, console = [], disk = d\<rparr>"

subsection \<open>Reading a file of settings\<close>

lemma read_config_lines:
  "good ifs \<Longrightarrow> read_config_loop line ifs cfg = fold config_line (lines (chars ifs)) cfg"
proof (induction line ifs cfg rule: read_config_loop.induct)
  case (1 line ifs cfg)
  let ?s = "chars ifs"
  show ?case
  proof (cases "dropWhile (\<lambda>c. c \<noteq> nl) ?s")
    case Nil
    then show ?thesis
      using "1.prems" by (subst read_config_loop.simps, subst lines_rec) (simp add: getline_def del: dropWhile_eq_Nil_conv)
  next
    case (Cons c cs)
    then have g: "getline line ifs = (takeWhile (\<lambda>c. c \<noteq> nl) ?s, ifs\<lparr>chars := cs, good := True\<rparr>)"
      using "1.prems" by (simp add: getline_def del: dropWhile_eq_Nil_conv)
    from "1.IH" [OF g [symmetric] refl refl] g Cons show ?thesis
      by (subst read_config_loop.simps, subst lines_rec) simp
  qed
qed

definition setting_line :: "string \<times> string \<Rightarrow> string" where
  "setting_line kv = fst kv @ ''='' @ snd kv"

definition setting_ok :: "string \<times> string \<Rightarrow> bool" where
  "setting_ok kv \<longleftrightarrow> fst kv \<noteq> [] \<and> CHR ''='' \<notin> set (fst kv) \<and> nl \<notin> set (fst kv) \<and> nl \<notin> set (snd kv)"

lemma find_char: "c \<notin> set a \<Longrightarrow> find_str [c] (a @ c # b) = Some (length a)"
  by (induction a) auto

lemma config_line_setting: "setting_ok kv \<Longrightarrow> config_line (setting_line kv) cfg = cfg(fst kv \<mapsto> snd kv)"
  by (simp add: setting_ok_def setting_line_def config_line_def find_char)

lemma config_read_settings:
  assumes "list_all setting_ok kvs"
  shows "config_read (Some (unlines (map setting_line kvs))) Map.empty = (True, (map_of (rev kvs))(''null'' \<mapsto> []))"
proof -
  have "nl \<noteq> CHR ''=''" by (simp add: nl_def)
  then have "lines (unlines (map setting_line kvs)) = map setting_line kvs @ [[]]"
    using assms by (intro lines_unlines) (auto simp: list_all_iff setting_ok_def setting_line_def)
  moreover have "fold config_line (map setting_line kvs) cfg = cfg ++ map_of (rev kvs)" for cfg
    using assms
  proof (induction kvs arbitrary: cfg)
    case (Cons kv kvs)
    then show ?case by (cases kv) (simp add: config_line_setting map_add_def fun_eq_iff split: option.split)
  qed simp
  ultimately show ?thesis
    by (simp add: config_read_def read_config_lines stream_def config_line_def)
qed

text \<open>The value the settings give a key, the default when there is none or an empty one.\<close>

definition chosen :: "(string \<times> string) list \<Rightarrow> string \<Rightarrow> string \<Rightarrow> string" where
  "chosen kvs key dflt = (case map_of (rev kvs) key of Some v \<Rightarrow> (if v = [] then dflt else v) | None \<Rightarrow> dflt)"

lemma setting_chosen:
  "cfg = (map_of (rev kvs))(''null'' \<mapsto> []) \<Longrightarrow> key \<noteq> ''null'' \<Longrightarrow> setting key dflt cfg = (chosen kvs key dflt, cfg)"
  by (simp add: setting_def config_get_def chosen_def split: option.split)

subsection \<open>What reaches the output\<close>

definition message_text :: "message \<Rightarrow> string" where
  "message_text m = log_text (m_time m) (level_str (m_level m)) (m_log m) (m_file m) (m_line m)"

definition passing :: "log_level \<Rightarrow> message list \<Rightarrow> string" where
  "passing level ms = unlines (map message_text (filter (\<lambda>m. level \<le> m_level m) ms))"

lemma passing_Cons:
  "passing level (m # ms) = (if level \<le> m_level m then message_text m @ [nl] else []) @ passing level ms"
  by (simp add: passing_def unlines_def)

lemma each_write:
  "log_format l \<Longrightarrow> log_output l = Some dest \<Longrightarrow>
     \<exists>l'. each logger_write ms l = Ok l' \<and>
       l' = (case dest of Console \<Rightarrow> l\<lparr>console := console l @ passing (loglevel l) ms\<rparr>
             | To_file f \<Rightarrow> l\<lparr>disk := (disk l)(f := disk l f @ passing (loglevel l) ms)\<rparr>)"
proof (induction ms arbitrary: l)
  case Nil
  then show ?case by (simp add: passing_def unlines_def split: log_output.split)
next
  case (Cons m ms)
  show ?case
  proof (cases "loglevel l \<le> m_level m")
    case True
    then have w: "logger_write m l = Ok (log_emit dest (message_text m) l)"
      using Cons.prems by (simp add: logger_write_def message_text_def)
    from Cons.IH [of "log_emit dest (message_text m) l"] Cons.prems True w show ?thesis
      by (cases dest) (auto simp: log_emit_def passing_Cons)
  next
    case False
    then have "logger_write m l = Ok l" by (simp add: logger_write_def not_le)
    with Cons.IH [OF Cons.prems] False show ?thesis by (cases dest) (auto simp: passing_Cons)
  qed
qed



text \<open>Faults: a line without \<^verbatim>\<open>=\<close> becomes its own value; without an output (the file could not be opened)
  the next message that passes the level dereferences a null pointer.\<close>

lemma line_without_equals: "CHR ''='' \<notin> set line \<Longrightarrow> line \<noteq> [] \<Longrightarrow> config_line line cfg = cfg(line \<mapsto> line)"
proof -
  assume "CHR ''='' \<notin> set line" "line \<noteq> []"
  moreover from this(1) have "find_str ''='' line = None" by (auto simp: find_str_None)
  ultimately show ?thesis by (simp add: config_line_def)
qed

lemma unopened_file_crashes:
  assumes "list_all setting_ok kvs" "chosen kvs ''log_type'' ''console'' \<noteq> ''console''"
    "\<not> can_open (chosen kvs ''log_file'' ''log.txt'')"
  shows "\<exists>l. xlog_init (Some (unlines (map setting_line kvs))) can_open (xlog_new d) = Ok l \<and> logger_write m l = Undefined"
  using assms(2,3) unfolding xlog_init_def Let_def config_read_settings [OF assms(1)]
  by (cases "m_level m") (auto simp: setting_chosen [OF refl] xlog_new_def logger_write_def less_log_level_def level_num_def)

end
