(* ===== verification/Vid_Input.thy ===== *)
theory Vid_Input
  imports Vid_Task Vid_Log
begin

text \<open>
  \<^verbatim>\<open>videoedit/src/xinput\<close> and \<^verbatim>\<open>xdir\<close>: the command line (\<^verbatim>\<open>user_input.cpp\<close>), the commands and options of the editor
  (\<^verbatim>\<open>xvideo_input.cpp\<close>), directories, the factory and \<^verbatim>\<open>main\<close>.  The registered functions are maps from words to state
  changes; the state holds the standard streams, the data of the task being entered, the progress, and the commands
  that were run.  The environment \<open>venv\<close> gives the output of each command and the schedule of its two threads (both may
  depend on the number of commands run before), and the file system.

  The loop of \<^verbatim>\<open>UserInput::Start\<close> takes the number of rounds it may still make; its result says whether it has ended.  The
  destruction of the task at the end of \<^verbatim>\<open>XVideoInput::Start\<close> is not modelled.
\<close>

subsection \<open>State and environment\<close>

record vio =
  cin :: istream
  cout :: string
  cerr :: string
  vdata :: task_data
  vprog :: ffprog
  vflag :: bool
  made :: "string list"
  cmds :: "string list"

record dir_entry =
  d_path :: string
  d_is_directory :: bool
  d_is_regular_file :: bool

record venv =
  popen :: "nat \<Rightarrow> string \<Rightarrow> string option"
  sched :: "nat \<Rightarrow> string \<Rightarrow> thread list"
  is_dir :: "string \<Rightarrow> bool"
  can_mkdir :: "string \<Rightarrow> bool"
  entries :: "string \<Rightarrow> dir_entry list option"

definition say :: "string \<Rightarrow> vio \<Rightarrow> vio" where
  "say s st = st\<lparr>cout := cout st @ s\<rparr>"

definition set_data :: "(task_data \<Rightarrow> task_data) \<Rightarrow> vio \<Rightarrow> vio" where
  "set_data f st = st\<lparr>vdata := f (vdata st)\<rparr>"

lemma say_simps [simp]:
  "cin (say s st) = cin st" "vdata (say s st) = vdata st" "vprog (say s st) = vprog st" "vflag (say s st) = vflag st"
  "made (say s st) = made st" "cmds (say s st) = cmds st" "cerr (say s st) = cerr st"
  by (simp_all add: say_def)

lemma set_data_simps [simp]:
  "cin (set_data f st) = cin st" "vdata (set_data f st) = f (vdata st)" "vprog (set_data f st) = vprog st"
  "vflag (set_data f st) = vflag st" "made (set_data f st) = made st" "cmds (set_data f st) = cmds st"
  "cerr (set_data f st) = cerr st" "cout (set_data f st) = cout st"
  by (simp_all add: set_data_def)

subsection \<open>UserInput\<close>

function split_loop :: "string \<Rightarrow> istream \<Rightarrow> string list" where
  "split_loop token is =
     (case read_token token is of (b, token', is') \<Rightarrow> if b then token' # split_loop token' is' else [])"
  by auto
termination
  by (relation "measure (\<lambda>(token, is). length (chars is))") (auto dest: read_token_shorter [OF sym])

declare split_loop.simps [simp del]

definition SplitString :: "string \<Rightarrow> string list" where
  "SplitString s = split_loop [] (stream s)"

type_synonym key_map = "string \<Rightarrow> (string \<Rightarrow> vio \<Rightarrow> vio outcome) option"
type_synonym task_map = "string \<Rightarrow> (vio \<Rightarrow> vio outcome) option"

record user_input =
  is_stop :: bool
  key_functions :: key_map
  task_functions :: task_map

definition user_input_new :: user_input where
  "user_input_new = \<lparr>is_stop = False, key_functions = Map.empty, task_functions = Map.empty\<rparr>"

definition Register :: "string \<Rightarrow> (string \<Rightarrow> vio \<Rightarrow> vio outcome) \<Rightarrow> user_input \<Rightarrow> user_input" where
  "Register key func u = u\<lparr>key_functions := (key_functions u)(key \<mapsto> func)\<rparr>"

definition RegisterTask :: "string \<Rightarrow> (vio \<Rightarrow> vio outcome) \<Rightarrow> user_input \<Rightarrow> user_input" where
  "RegisterTask key func u = u\<lparr>task_functions := (task_functions u)(key \<mapsto> func)\<rparr>"

text \<open>The loop over the words of a line.\<close>

fun key_words :: "key_map \<Rightarrow> string list \<Rightarrow> vio \<Rightarrow> vio outcome" where
  "key_words kf [] st = Ok st"
| "key_words kf [key] st = (case kf key of None \<Rightarrow> Ok st | Some f \<Rightarrow> f [] st)"
| "key_words kf (key # v # vec) st =
     (case kf key of
        None \<Rightarrow> key_words kf (v # vec) st
      | Some f \<Rightarrow> if kf v = None then then_ok (f v st) (key_words kf vec)
                 else then_ok (f [] st) (key_words kf (v # vec)))"

text \<open>One round; a line of blanks only leaves no word, and \<^verbatim>\<open>vec[0]\<close> is then read outside the vector.\<close>

definition user_round :: "user_input \<Rightarrow> (vio \<Rightarrow> vio) \<Rightarrow> vio \<Rightarrow> (bool \<times> vio) outcome" where
  "user_round u init_function st =
     (let st1 = say ([nl] @ ''>> '') st;
          (input, is) = getline [] (cin st1);
          st2 = st1\<lparr>cin := is\<rparr>
      in if input = [] then Ok (False, st2)
         else if input = ''exit'' then Ok (True, st2)
         else let st3 = init_function st2; vec = SplitString input
              in if vec = [] then Undefined
                 else then_ok (key_words (key_functions u) vec st3) (\<lambda>st4.
                      case task_functions u (hd vec) of
                        None \<Rightarrow> Ok (False, st4\<lparr>cerr := cerr st4 @ hd vec @ '' not supported'' @ [nl]\<rparr>)
                      | Some task \<Rightarrow> then_ok (task st4) (\<lambda>st5. Ok (False, st5))))"

fun user_loop :: "user_input \<Rightarrow> (vio \<Rightarrow> vio) \<Rightarrow> nat \<Rightarrow> vio \<Rightarrow> (bool \<times> vio) outcome" where
  "user_loop u init_function 0 st = Ok (False, st)"
| "user_loop u init_function (Suc n) st =
     then_ok (user_round u init_function st) (\<lambda>(stop, st'). if stop then Ok (True, st') else user_loop u init_function n st')"

definition user_start :: "user_input \<Rightarrow> (vio \<Rightarrow> vio) \<Rightarrow> nat \<Rightarrow> vio \<Rightarrow> (bool \<times> vio) outcome" where
  "user_start u init_function n st = (if is_stop u then Ok (True, st) else user_loop u init_function n st)"

subsection \<open>Directories\<close>

record xfile =
  f_name :: string
  f_path :: string
  f_ext :: string

definition path_filename :: "string \<Rightarrow> string" where
  "path_filename p = rev (takeWhile (\<lambda>c. c \<noteq> CHR ''/'') (rev p))"

definition path_extension :: "string \<Rightarrow> string" where
  "path_extension p =
     (let f = path_filename p; r = takeWhile (\<lambda>c. c \<noteq> CHR ''.'') (rev f)
      in if length f \<le> Suc (length r) \<or> f = ''..'' then [] else CHR ''.'' # rev r)"

fun file_loop :: "dir_entry list \<Rightarrow> xfile list \<Rightarrow> xfile list" where
  "file_loop [] files = files"
| "file_loop (p # ps) files =
     (if d_is_directory p then file_loop ps files
      else if \<not> d_is_regular_file p then file_loop ps files
      else file_loop ps (files @ [\<lparr>f_name = path_filename (d_path p), f_path = d_path p, f_ext = path_extension (d_path p)\<rparr>]))"

definition GetFiles :: "venv \<Rightarrow> string \<Rightarrow> xfile list outcome" where
  "GetFiles env path = (case entries env path of None \<Rightarrow> Throw Filesystem_error | Some ps \<Rightarrow> Ok (file_loop ps []))"

definition IsDir :: "venv \<Rightarrow> vio \<Rightarrow> string \<Rightarrow> bool" where
  "IsDir env st path \<longleftrightarrow> is_dir env path \<or> path \<in> set (made st)"

definition CreateDir :: "venv \<Rightarrow> string \<Rightarrow> vio \<Rightarrow> vio outcome" where
  "CreateDir env path st = (if can_mkdir env path then Ok (st\<lparr>made := path # made st\<rparr>) else Throw Filesystem_error)"

subsection \<open>XVideoInput\<close>

text \<open>\<^verbatim>\<open>FFTask::Start\<close> and what follows it, for \<^verbatim>\<open>cv\<close> (\<open>watch\<close>) and \<^verbatim>\<open>play\<close>.  \<open>Blocked\<close>: it has not returned under the
  given schedule.\<close>

definition run_task :: "venv \<Rightarrow> bool \<Rightarrow> task_data \<Rightarrow> vio \<Rightarrow> vio outcome" where
  "run_task env watch d st =
     then_ok (ff_start d) (\<lambda>(cmd, txt).
       let k = length (cmds st);
           s = turns (sched env k cmd)
                 (task_started watch (popen env k (cmd @ '' 2>&1'')) (vprog st) (cout st @ txt) (vflag st))
       in if worker s = W_crashed then Terminated
          else if pc s = P_done
          then Ok (st\<lparr>cout := shown s, vprog := prog s, vflag := flag s, cmds := cmds st @ [cmd]\<rparr>)
          else Blocked)"

definition opt_s :: "string \<Rightarrow> vio \<Rightarrow> vio outcome" where
  "opt_s s st = Ok (set_data (\<lambda>d. d\<lparr>src := s\<rparr>) (say (''-s: '' @ s @ [nl]) st))"

definition opt_d :: "string \<Rightarrow> vio \<Rightarrow> vio outcome" where
  "opt_d s st = Ok (set_data (\<lambda>d. d\<lparr>des := s\<rparr>) (say (''-d: '' @ s @ [nl]) st))"

definition read_key :: "vio \<Rightarrow> vio" where
  "read_key st =
     (let st1 = say ''please input secret key: >> '' st;
          (b, key, is) = read_token (secret_key (vdata st1)) (cin st1)
      in set_data (\<lambda>d. d\<lparr>secret_key := key\<rparr>) (st1\<lparr>cin := is\<rparr>))"

definition opt_p :: "bool \<Rightarrow> string \<Rightarrow> vio \<Rightarrow> vio outcome" where
  "opt_p enc s st =
     Ok (set_data (\<lambda>d. d\<lparr>is_encrypt := enc\<rparr>)
          (if s = [] then read_key st else set_data (\<lambda>d. d\<lparr>secret_key := s\<rparr>) st))"

definition opt_b :: "string \<Rightarrow> vio \<Rightarrow> vio outcome" where
  "opt_b s st = Ok (set_data (\<lambda>d. d\<lparr>begin_seconds := s\<rparr>) st)"

definition opt_e :: "string \<Rightarrow> vio \<Rightarrow> vio outcome" where
  "opt_e s st = Ok (set_data (\<lambda>d. d\<lparr>end_seconds := s\<rparr>) st)"

definition cv_file :: "venv \<Rightarrow> xfile \<Rightarrow> vio \<Rightarrow> vio outcome" where
  "cv_file env file st =
     then_ok (if IsDir env st (des (vdata st)) then Ok st else CreateDir env (des (vdata st)) st) (\<lambda>st1.
       run_task env True ((vdata st1)\<lparr>src := f_path file, des := des (vdata st1) @ ''/'' @ f_name file\<rparr>) st1)"

definition task_cv :: "venv \<Rightarrow> vio \<Rightarrow> vio outcome" where
  "task_cv env st =
     (let st1 = say (src (vdata st) @ '' '' @ des (vdata st) @ [nl]) (say (''cv function'' @ [nl]) st);
          st2 = set_data (\<lambda>d. d\<lparr>task_type := ''cv''\<rparr>) st1
      in if IsDir env st2 (src (vdata st2))
         then then_ok (GetFiles env (src (vdata st2))) (\<lambda>files. each (cv_file env) files st2)
         else run_task env True (vdata st2) st2)"

definition task_play :: "venv \<Rightarrow> vio \<Rightarrow> vio outcome" where
  "task_play env st =
     (let st1 = set_data (\<lambda>d. d\<lparr>task_type := ''play''\<rparr>) (say (''play function'' @ [nl]) st)
      in run_task env False (vdata st1) st1)"

definition video_input :: "venv \<Rightarrow> user_input" where
  "video_input env =
     RegisterTask ''play'' (task_play env) (RegisterTask ''cv'' (task_cv env)
       (Register ''-e'' opt_e (Register ''-b'' opt_b (Register ''-dp'' (opt_p False)
         (Register ''-p'' (opt_p True) (Register ''-d'' opt_d (Register ''-s'' opt_s user_input_new)))))))"

definition video_init :: "vio \<Rightarrow> vio" where
  "video_init st = set_data (\<lambda>_. data_new) (say (''init task'' @ [nl]) st)"

definition video_start :: "venv \<Rightarrow> nat \<Rightarrow> vio \<Rightarrow> (bool \<times> vio) outcome" where
  "video_start env n st = user_start (video_input env) video_init n st"

text \<open>The factory: every type gives an \<^verbatim>\<open>FFTask\<close>, other types than 0 with a message.\<close>

definition task_create :: "int \<Rightarrow> vio \<Rightarrow> vio" where
  "task_create type st =
     (if type = 0 then st else st\<lparr>cerr := cerr st @ ''Task type '' @ to_string type @ '' not support!'' @ [nl]\<rparr>)
       \<lparr>vprog := \<lparr>total_seconds = 0, progress = 0\<rparr>, vflag := False\<rparr>"

definition vio_new :: "istream \<Rightarrow> vio" where
  "vio_new is = \<lparr>cin = is, cout = [], cerr = [], vdata = data_new, vprog = \<lparr>total_seconds = 0, progress = 0\<rparr>, vflag = False,
     made = [], cmds = []\<rparr>"

text \<open>\<^verbatim>\<open>test/test.cpp\<close>; \<open>now\<close> is the time of the log message.\<close>

definition video_main :: "string option \<Rightarrow> (string \<Rightarrow> bool) \<Rightarrow> (string \<Rightarrow> string) \<Rightarrow> local_time \<Rightarrow> string \<Rightarrow> venv \<Rightarrow> nat
    \<Rightarrow> istream \<Rightarrow> (bool \<times> vio) outcome" where
  "video_main conf can_open d now file env n is =
     then_ok (xlog_init conf can_open (xlog_new d)) (\<lambda>l.
     then_ok (logger_write \<lparr>m_level = DEBUG, m_log = ''log debug'', m_file = file, m_line = 13, m_time = now\<rparr> l) (\<lambda>l'.
       video_start env n (task_create 0 (say (console l') (vio_new is)))))"

text \<open>\<^verbatim>\<open>TestUserInput\<close> of \<^verbatim>\<open>xexec/test.cpp\<close>.\<close>

definition test_input :: user_input where
  "test_input = RegisterTask ''cv'' (\<lambda>st. Ok (say (''cv function'' @ [nl]) st))
     (Register ''-p'' (\<lambda>s st. Ok (say (''-p password'' @ s @ [nl]) st))
     (Register ''-d'' (\<lambda>s st. Ok (say (''-d'' @ s @ [nl]) st))
     (Register ''-s'' (\<lambda>s st. Ok (say (''-s'' @ s @ [nl]) st)) user_input_new)))"

subsection \<open>When the command line ends\<close>

lemma split_loop_words: "good is \<or> chars is = [] \<Longrightarrow> split_loop token is = words (chars is)"
proof (induction token "is" rule: split_loop.induct)
  case (1 token "is")
  show ?case
  proof (cases "good is \<and> dropWhile is_space (chars is) \<noteq> []")
    case True
    let ?t = "dropWhile is_space (chars is)"
    let ?rest = "dropWhile (\<lambda>c. \<not> is_space c) ?t"
    let ?is = "is\<lparr>chars := ?rest, good := ?rest \<noteq> []\<rparr>"
    have r: "read_token token is = (True, takeWhile (\<lambda>c. \<not> is_space c) ?t, ?is)"
      using True by (simp add: read_token_def Let_def del: dropWhile_eq_Nil_conv)
    have "split_loop (takeWhile (\<lambda>c. \<not> is_space c) ?t) ?is = words ?rest"
      using "1.IH" [OF r [symmetric] refl] by (simp del: dropWhile_eq_Nil_conv)
    then show ?thesis using True
      by (subst split_loop.simps, subst words.simps) (simp add: r Let_def del: dropWhile_eq_Nil_conv)
  next
    case False
    then have "words (chars is) = []" "\<not> fst (read_token token is)"
      using "1.prems" by (auto simp: words.simps [of "chars is"] read_token_def)
    then show ?thesis by (subst split_loop.simps) (auto split: prod.split)
  qed
qed

lemma SplitString_words [simp]: "SplitString s = words s"
  by (simp add: SplitString_def split_loop_words stream_def)

text \<open>The lines the input still holds.\<close>

definition remaining :: "istream \<Rightarrow> string list" where
  "remaining is = (if good is then lines (chars is) else [])"

lemma getline_remaining:
  "fst (getline [] is) = (if remaining is = [] then [] else hd (remaining is))
     \<and> remaining (snd (getline [] is)) = tl (remaining is)"
proof (cases "good is")
  case True
  then show ?thesis using lines_rec [of "chars is"]
    by (cases "dropWhile (\<lambda>c. c \<noteq> nl) (chars is)")
      (simp_all add: getline_def remaining_def Let_def del: dropWhile_eq_Nil_conv)
qed (simp add: getline_def remaining_def)

text \<open>Functions that return and leave the input alone.\<close>

definition input_kept :: "(vio \<Rightarrow> vio outcome) \<Rightarrow> bool" where
  "input_kept f \<longleftrightarrow> (\<forall>st. \<exists>st'. f st = Ok st' \<and> cin st' = cin st)"

lemma key_words_quiet:
  "\<forall>k f v. kf k = Some f \<longrightarrow> input_kept (f v) \<Longrightarrow> \<exists>st'. key_words kf vec st = Ok st' \<and> cin st' = cin st"
proof (induction kf vec st rule: key_words.induct)
  case (2 kf key st)
  then show ?case by (cases "kf key") (auto simp: input_kept_def)
next
  case (3 kf key v vec st)
  show ?case
  proof (cases "kf key")
    case None
    with 3 show ?thesis by simp
  next
    case (Some f)
    obtain a b where ab: "f v st = Ok a" "cin a = cin st" "f [] st = Ok b" "cin b = cin st"
      using 3(4) Some unfolding input_kept_def by meson
    with 3 Some show ?thesis by (cases "kf v = None") fastforce+
  qed
qed simp

definition input_quiet :: "user_input \<Rightarrow> (vio \<Rightarrow> vio) \<Rightarrow> bool" where
  "input_quiet u f \<longleftrightarrow> (\<forall>st. cin (f st) = cin st) \<and> (\<forall>k g v. key_functions u k = Some g \<longrightarrow> input_kept (g v))
     \<and> (\<forall>k g. task_functions u k = Some g \<longrightarrow> input_kept g)"

lemma user_round_quiet:
  assumes q: "input_quiet u f" and nb: "\<forall>l \<in> set (remaining (cin st)). l = [] \<or> words l \<noteq> []"
  shows "\<exists>st'. user_round u f st = Ok (remaining (cin st) \<noteq> [] \<and> hd (remaining (cin st)) = ''exit'', st')
     \<and> remaining (cin st') = tl (remaining (cin st))"
proof -
  let ?r = "remaining (cin st)"
  obtain input "is" where g: "getline [] (cin st) = (input, is)" by fastforce
  with getline_remaining [of "cin st"] have r: "remaining is = tl ?r" "input = (if ?r = [] then [] else hd ?r)"
    by simp_all
  define st2 where "st2 = (say ([nl] @ ''>> '') st)\<lparr>cin := is\<rparr>"
  have round: "user_round u f st =
      (if input = [] then Ok (False, st2) else if input = ''exit'' then Ok (True, st2)
       else if words input = [] then Undefined
       else then_ok (key_words (key_functions u) (words input) (f st2)) (\<lambda>st4.
              case task_functions u (hd (words input)) of
                None \<Rightarrow> Ok (False, st4\<lparr>cerr := cerr st4 @ hd (words input) @ '' not supported'' @ [nl]\<rparr>)
              | Some task \<Rightarrow> then_ok (task st4) (\<lambda>st5. Ok (False, st5))))"
    by (simp add: user_round_def Let_def g st2_def)
  have c2: "cin st2 = is" by (simp add: st2_def)
  show ?thesis
  proof (cases "input = [] \<or> input = ''exit''")
    case True
    with r c2 show ?thesis by (auto simp: round)
  next
    case False
    with r nb have w: "words input \<noteq> []" "?r \<noteq> []" "hd ?r \<noteq> ''exit''"
      by (auto split: if_splits dest: hd_in_set)
    have cf: "cin (f st2) = is" using q c2 by (simp add: input_quiet_def)
    from q have kq: "\<forall>k g v. key_functions u k = Some g \<longrightarrow> input_kept (g v)" by (simp add: input_quiet_def)
    obtain st4 where st4: "key_words (key_functions u) (words input) (f st2) = Ok st4" "cin st4 = is"
      using key_words_quiet [OF kq, of "words input" "f st2"] cf by auto
    show ?thesis
    proof (cases "task_functions u (hd (words input))")
      case None
      with False w st4 r show ?thesis by (simp add: round)
    next
      case (Some task)
      then obtain st5 where "task st4 = Ok st5" "cin st5 = is"
        using q st4(2) unfolding input_quiet_def input_kept_def by metis
      with False w st4 r Some show ?thesis by (simp add: round)
    qed
  qed
qed

lemma user_loop_quiet:
  "input_quiet u f \<Longrightarrow> \<forall>l \<in> set (remaining (cin st)). l = [] \<or> words l \<noteq> [] \<Longrightarrow>
     \<exists>st'. user_loop u f n st = Ok (''exit'' \<in> set (take n (remaining (cin st))), st')"
proof (induction n arbitrary: st)
  case (Suc n)
  let ?r = "remaining (cin st)"
  from user_round_quiet [OF Suc.prems] obtain st' where
    st': "user_round u f st = Ok (?r \<noteq> [] \<and> hd ?r = ''exit'', st')" "remaining (cin st') = tl ?r" by blast
  from Suc.prems(2) have "\<forall>l \<in> set (remaining (cin st')). l = [] \<or> words l \<noteq> []"
    unfolding st'(2) by (cases ?r) auto
  with Suc.IH [OF Suc.prems(1), of st'] st' show ?case by (cases ?r) auto
qed simp


lemma test_input_quiet: "input_quiet test_input id" "\<not> is_stop test_input"
  by (auto simp: input_quiet_def input_kept_def test_input_def Register_def RegisterTask_def user_input_new_def split: if_splits)


end
