(* ===== verification/Vid_Edit.thy ===== *)
theory Vid_Edit
  imports Vid_Input
begin

text \<open>
  The editor as a whole: from a typed line through \<^verbatim>\<open>UserInput\<close>, the options of \<^verbatim>\<open>XVideoInput\<close>, \<^verbatim>\<open>FFTask\<close> and \<^verbatim>\<open>XExec\<close> to the
  command that is run and the progress that is reported; and the conversion of a directory.
\<close>

subsection \<open>Options\<close>

definition video_keys :: "string set" where
  "video_keys = {''-s'', ''-d'', ''-p'', ''-dp'', ''-b'', ''-e''}"

text \<open>What an option with a value means.\<close>

fun set_opt :: "string \<times> string \<Rightarrow> task_data \<Rightarrow> task_data" where
  "set_opt (k, v) d =
     (if k = ''-s'' then d\<lparr>src := v\<rparr> else if k = ''-d'' then d\<lparr>des := v\<rparr>
      else if k = ''-p'' then d\<lparr>secret_key := v, is_encrypt := True\<rparr>
      else if k = ''-dp'' then d\<lparr>secret_key := v, is_encrypt := False\<rparr>
      else if k = ''-b'' then d\<lparr>begin_seconds := v\<rparr> else if k = ''-e'' then d\<lparr>end_seconds := v\<rparr> else d)"

definition option_ok :: "string \<times> string \<Rightarrow> bool" where
  "option_ok kv \<longleftrightarrow> fst kv \<in> video_keys \<and> word_ok (snd kv) \<and> snd kv \<notin> video_keys"

fun option_words :: "(string \<times> string) list \<Rightarrow> string list" where
  "option_words [] = []"
| "option_words ((k, v) # kvs) = k # v # option_words kvs"

definition video_kf :: key_map where
  "video_kf = [''-s'' \<mapsto> opt_s, ''-d'' \<mapsto> opt_d, ''-p'' \<mapsto> opt_p True, ''-dp'' \<mapsto> opt_p False, ''-b'' \<mapsto> opt_b, ''-e'' \<mapsto> opt_e]"

lemma video_input_simps [simp]:
  "key_functions (video_input env) = video_kf"
  "task_functions (video_input env) = [''cv'' \<mapsto> task_cv env, ''play'' \<mapsto> task_play env]"
  "is_stop (video_input env) = False"
  by (simp_all add: video_kf_def video_input_def Register_def RegisterTask_def user_input_new_def)

lemma video_kf_None: "video_kf w = None \<longleftrightarrow> w \<notin> video_keys"
  by (simp add: video_kf_def video_keys_def)

lemma say_say [simp]: "say b (say a st) = say (a @ b) st"
  by (simp add: say_def)

lemma say_set_data [simp]: "say a (set_data f st) = set_data f (say a st)"
  by (simp add: say_def set_data_def)

lemma set_data_set_data [simp]: "set_data g (set_data f st) = set_data (\<lambda>d. g (f d)) st"
  by (simp add: set_data_def)

lemma say_Nil [simp]: "say [] st = st"
  by (simp add: say_def)

lemma set_data_id [simp]: "set_data (\<lambda>d. d) st = st"
  by (simp add: set_data_def)

text \<open>One option has the effect of \<open>set_opt\<close> and prints something.\<close>

lemma option_effect:
  assumes "option_ok (k, v)"
  shows "\<exists>f tx. video_kf k = Some f \<and> f v st = Ok (set_data (set_opt (k, v)) (say tx st))"
proof -
  have ne: "v \<noteq> []" using assms by (simp add: option_ok_def word_ok_def)
  let ?set = "\<lambda>f tx. f v st = Ok (set_data (set_opt (k, v)) (say tx st))"
  consider "k = ''-s''" | "k = ''-d''" | "k = ''-p''" | "k = ''-dp''" | "k = ''-b''" | "k = ''-e''"
    using assms by (auto simp: option_ok_def video_keys_def)
  then show ?thesis
  proof cases
    case 1
    then have "?set opt_s (''-s: '' @ v @ [nl])" by (simp add: opt_s_def set_data_def)
    with 1 show ?thesis by (auto simp: video_kf_def)
  next
    case 2
    then have "?set opt_d (''-d: '' @ v @ [nl])" by (simp add: opt_d_def set_data_def)
    with 2 show ?thesis by (auto simp: video_kf_def)
  next
    case 3
    then have "?set (opt_p True) []" using ne by (simp add: opt_p_def set_data_def)
    with 3 show ?thesis by (auto simp: video_kf_def simp del: say_Nil)
  next
    case 4
    then have "?set (opt_p False) []" using ne by (simp add: opt_p_def set_data_def)
    with 4 show ?thesis by (auto simp: video_kf_def simp del: say_Nil)
  next
    case 5
    then have "?set opt_b []" by (simp add: opt_b_def set_data_def)
    with 5 show ?thesis by (auto simp: video_kf_def simp del: say_Nil)
  next
    case 6
    then have "?set opt_e []" by (simp add: opt_e_def set_data_def)
    with 6 show ?thesis by (auto simp: video_kf_def simp del: say_Nil)
  qed
qed

lemma key_words_options:
  "list_all option_ok opts \<Longrightarrow> \<exists>tx. key_words video_kf (option_words opts) st = Ok (set_data (fold set_opt opts) (say tx st))"
proof (induction opts arbitrary: st)
  case Nil
  have "st = set_data id (say [] st)" by (simp add: id_def)
  then show ?case by (metis (no_types) fold_simps(1) id_def key_words.simps(1) option_words.simps(1) fold.simps(1))
next
  case (Cons kv opts)
  obtain k v where kv: "kv = (k, v)" by fastforce
  with Cons.prems have ok: "option_ok (k, v)" "video_kf v = None"
    by (simp_all add: video_kf_None option_ok_def)
  from option_effect [OF ok(1), of st] obtain f tx where
    f: "video_kf k = Some f" "f v st = Ok (set_data (set_opt (k, v)) (say tx st))" by blast
  from Cons.IH [of "set_data (set_opt (k, v)) (say tx st)"] Cons.prems obtain tx' where
    "key_words video_kf (option_words opts) (set_data (set_opt (k, v)) (say tx st))
       = Ok (set_data (fold set_opt opts) (say tx' (set_data (set_opt (k, v)) (say tx st))))"
    by (auto simp del: set_opt.simps)
  with f ok(2) have "key_words video_kf (option_words (kv # opts)) st =
      Ok (set_data (\<lambda>d. fold set_opt opts (set_opt (k, v) d)) (say (tx @ tx') st))"
    unfolding kv option_words.simps key_words.simps by (simp del: set_opt.simps)
  moreover have "(\<lambda>d. fold set_opt opts (set_opt (k, v) d)) = fold set_opt (kv # opts)"
    by (simp add: kv fun_eq_iff del: set_opt.simps)
  ultimately show ?case by metis
qed

lemma key_words_skip: "kf w = None \<Longrightarrow> key_words kf (w # vec) st = key_words kf vec st"
  by (cases vec) simp_all

text \<open>Fields after options with different keys.\<close>

lemma fold_opt_keep:
  "''-s'' \<notin> fst ` set opts \<Longrightarrow> src (fold set_opt opts d) = src d"
  "''-d'' \<notin> fst ` set opts \<Longrightarrow> des (fold set_opt opts d) = des d"
  "''-b'' \<notin> fst ` set opts \<Longrightarrow> begin_seconds (fold set_opt opts d) = begin_seconds d"
  "''-e'' \<notin> fst ` set opts \<Longrightarrow> end_seconds (fold set_opt opts d) = end_seconds d"
  "''-p'' \<notin> fst ` set opts \<Longrightarrow> ''-dp'' \<notin> fst ` set opts \<Longrightarrow> secret_key (fold set_opt opts d) = secret_key d"
  by (induction opts arbitrary: d) auto

lemma fold_opt_set:
  assumes "distinct (map fst opts)"
  shows "(''-s'', v) \<in> set opts \<Longrightarrow> src (fold set_opt opts d) = v"
    "(''-d'', v) \<in> set opts \<Longrightarrow> des (fold set_opt opts d) = v"
    "(''-b'', v) \<in> set opts \<Longrightarrow> begin_seconds (fold set_opt opts d) = v"
    "(''-e'', v) \<in> set opts \<Longrightarrow> end_seconds (fold set_opt opts d) = v"
  using assms
proof (induction opts arbitrary: d)
  case (Cons kv opts)
  { case 1
    then show ?case using Cons.IH(1) [of "set_opt kv d"] fold_opt_keep(1) [of opts "set_opt kv d"] by auto }
  { case 2
    then show ?case using Cons.IH(2) [of "set_opt kv d"] fold_opt_keep(2) [of opts "set_opt kv d"] by auto }
  { case 3
    then show ?case using Cons.IH(3) [of "set_opt kv d"] fold_opt_keep(3) [of opts "set_opt kv d"] by auto }
  { case 4
    then show ?case using Cons.IH(4) [of "set_opt kv d"] fold_opt_keep(4) [of opts "set_opt kv d"] by auto }
qed simp_all

subsection \<open>A typed command\<close>

text \<open>The schedules under which \<^verbatim>\<open>RunTask\<close> returns.\<close>

definition lets_return :: "string list \<Rightarrow> thread list \<Rightarrow> bool" where
  "lets_return ls sch \<longleftrightarrow> (\<exists>as bs. sch = as @ [Worker] @ bs \<and> count_list as Worker = length ls
     \<and> 2 \<le> count_list as Main \<and> 4 \<le> count_list bs Main)"

lemma run_task_runs:
  assumes start: "ff_start d = Ok (cmd, tx)" and out: "popen env (length (cmds st)) (cmd @ '' 2>&1'') = Some out"
    and lines: "each ff_line (cut_lines (command_output out)) (vprog st) = Ok p'"
    and sch: "lets_return (cut_lines (command_output out)) (sched env (length (cmds st)) cmd)"
  shows "\<exists>st'. run_task env True d st = Ok st' \<and> cmds st' = cmds st @ [cmd] \<and> vprog st' = p' \<and> cin st' = cin st
     \<and> vdata st' = vdata st \<and> made st' = made st \<and> cerr st' = cerr st"
proof -
  from sch obtain as bs where ab: "sched env (length (cmds st)) cmd = (as @ [Worker]) @ bs"
      "count_list (as @ [Worker]) Worker = Suc (length (cut_lines (command_output out)))"
      "2 \<le> count_list (as @ [Worker]) Main" "4 \<le> count_list bs Main"
    by (auto simp: lets_return_def)
  let ?s = "turns ((as @ [Worker]) @ bs) (task_started True (Some out) (vprog st) (cout st @ tx) (vflag st))"
  from run_task_returns_iff_core(1) [OF lines refl ab(2) ab(4) ab(3), where tx = "cout st @ tx" and f = "vflag st"]
  have "pc ?s = P_done" "prog ?s = p'" "worker ?s = W_done" by simp_all
  then show ?thesis unfolding run_task_def by (simp add: start out ab(1) Let_def)
qed

lemma getline_line: "nl \<notin> set l \<Longrightarrow> getline str (stream (l @ nl # r)) = (l, stream r)"
proof -
  assume "nl \<notin> set l"
  then have "\<forall>c \<in> set l. c \<noteq> nl" by auto
  then show ?thesis by (simp add: getline_def stream_def takeWhile_append2 dropWhile_append2)
qed

lemma nl_space: "is_space nl"
  by (simp add: is_space_def nl_def)

lemma unwords_nl: "list_all word_ok ws \<Longrightarrow> nl \<notin> set (unwords ws)"
proof (induction ws rule: unwords.induct)
qed (use nl_space in \<open>auto simp: word_ok_def list_all_iff nl_def\<close>)

lemma option_words_ok: "list_all option_ok opts \<Longrightarrow> list_all word_ok (option_words opts)"
proof (induction opts rule: option_words.induct)
  case (2 k v kvs)
  have "word_ok k" if "k \<in> video_keys"
    using that by (auto simp: video_keys_def word_ok_def is_space_def)
  with 2 show ?case by (simp add: option_ok_def)
qed simp

lemma dec_text_option: "word_ok (dec_text n)" "dec_text n \<notin> video_keys"
proof -
  obtain c cs where d: "dec_text n = c # cs" "is_digit c" using dec_text_props [of n] by (cases "dec_text n") auto
  show "word_ok (dec_text n)"
    using dec_text_props [of n] digit_not_space by (auto simp: word_ok_def list_all_iff)
  have "c \<noteq> CHR ''-''" using digit_no_sign [OF d(2)] by simp
  then show "dec_text n \<notin> video_keys" by (simp add: d(1) video_keys_def)
qed

text \<open>The round for a line with a command and options: the data start afresh and are set by the options.\<close>

lemma user_round_command:
  assumes opts: "list_all option_ok opts" and w: "word_ok w" "w \<notin> video_keys" "w \<noteq> ''exit'' \<or> opts \<noteq> []"
    and c: "cin st = stream (unwords (w # option_words opts) @ nl # r)" and t: "task_functions (video_input env) w = Some task"
  shows "\<exists>tx. user_round (video_input env) video_init st =
      then_ok (task (set_data (\<lambda>_. fold set_opt opts data_new) (say tx (st\<lparr>cin := stream r\<rparr>)))) (\<lambda>st5. Ok (False, st5))"
proof -
  let ?ws = "w # option_words opts" and ?kf = "key_functions (video_input env)"
  let ?st2 = "(say ([nl] @ ''>> '') st)\<lparr>cin := stream r\<rparr>"
  have ok: "list_all word_ok ?ws" using option_words_ok [OF opts] w(1) by simp
  have ws: "words (unwords ?ws) = ?ws" by (rule words_unwords [OF ok])
  have g: "getline [] (cin (say ([nl] @ ''>> '') st)) = (unwords ?ws, stream r)"
    using getline_line [OF unwords_nl [OF ok]] c by simp
  have ne: "unwords ?ws \<noteq> []" using ws by auto
  have nx: "unwords ?ws \<noteq> ''exit''"
  proof
    assume "unwords ?ws = ''exit''"
    then have "?ws = words ''exit''" using ws by simp
    also have "words ''exit'' = [''exit'']" using words_word [of "''exit''" "[]"] by (simp add: word_ok_def is_space_def)
    finally show False using w(3) by (cases opts rule: option_words.cases) auto
  qed
  obtain tx where k: "key_words ?kf ?ws (video_init ?st2) = Ok (set_data (fold set_opt opts) (say tx (video_init ?st2)))"
    using key_words_options [OF opts, of "video_init ?st2"] key_words_skip [of video_kf w "option_words opts"] w(2)
    by (auto simp: video_kf_None)
  have e: "set_data (fold set_opt opts) (say tx (video_init ?st2)) =
      set_data (\<lambda>_. fold set_opt opts data_new) (say ([nl] @ ''>> '' @ ''init task'' @ [nl] @ tx) (st\<lparr>cin := stream r\<rparr>))"
    by (simp add: video_init_def set_data_def say_def)
  have "user_round (video_input env) video_init st =
      then_ok (task (set_data (fold set_opt opts) (say tx (video_init ?st2)))) (\<lambda>st5. Ok (False, st5))"
    unfolding user_round_def Let_def g SplitString_words split_conv ws k then_ok.simps using ne nx t by simp
  then show ?thesis unfolding e by blast
qed

lemma user_round_exit:
  assumes "cin st = stream (''exit'' @ nl # r)"
  shows "user_round u f st = Ok (True, (say ([nl] @ ''>> '') st)\<lparr>cin := stream r\<rparr>)"
proof -
  have "nl \<notin> set ''exit''" by (simp add: nl_def)
  from getline_line [OF this, of "[]" r] assms show ?thesis by (simp add: user_round_def Let_def)
qed

lemma ff_start_cut:
  assumes "task_type d = ''cv''" "src d = s" "des d = t" "begin_seconds d = dec_text b" "end_seconds d = dec_text e"
    "secret_key d = []" "b < e" "e < 2 ^ 31"
  shows "\<exists>tx. ff_start d = Ok (''ffmpeg -y -i '' @ s @ '' -ss '' @ dec_text b @ '' -t '' @ dec_text (e - b) @ '' '' @ t, tx)"
proof -
  have ne: "dec_text b \<noteq> []" "dec_text e \<noteq> []" using dec_text_props by simp_all
  have cut1: "cut_option d = Ok ('' -t '' @ dec_text (e - b))"
    using assms ne by (simp add: cut_option_def stoi_dec_text sub_int_def int_text_def nat_diff_distrib' del: of_nat_diff)
  show ?thesis using assms ne by (simp add: ff_start_def cut1 key_option_def Let_def)
qed


definition sample_env :: venv where
  "sample_env = \<lparr>popen = (\<lambda>_ _. Some ''ok''), sched = (\<lambda>_ _. [Main, Main, Worker, Worker, Main, Main, Main, Main]),
     is_dir = (\<lambda>_. False), can_mkdir = (\<lambda>_. True), entries = (\<lambda>_. None)\<rparr>"


subsection \<open>Directories and faults\<close>

text \<open>The files of a directory are its regular files in the order of the iteration, under their names only: files of
  the same name in different subdirectories get the same destination.\<close>

lemma file_loop_filter:
  "file_loop ps files = files @ map (\<lambda>p. \<lparr>f_name = path_filename (d_path p), f_path = d_path p, f_ext = path_extension (d_path p)\<rparr>)
     (filter (\<lambda>p. \<not> d_is_directory p \<and> d_is_regular_file p) ps)"
  by (induction ps files rule: file_loop.induct) simp_all

text \<open>An end without a beginning throws, since an empty text is no number; a line of blanks leaves no first word.\<close>

lemma end_without_begin:
  "e < 2 ^ 31 \<Longrightarrow> end_seconds d = dec_text e \<Longrightarrow> begin_seconds d = [] \<Longrightarrow> ff_start d = Throw Invalid_argument"
  using dec_text_props [of e] by (simp add: ff_start_def cut_option_def stoi_dec_text) (simp add: stoi_def)

lemma blank_line_undefined:
  "cin st = stream ('' '' @ nl # r) \<Longrightarrow> user_round u f st = Undefined"
proof -
  assume c: "cin st = stream ('' '' @ nl # r)"
  have "nl \<notin> set '' ''" by (simp add: nl_def)
  from getline_line [OF this, of "[]" r] c show ?thesis by (simp add: user_round_def Let_def is_space_def)
qed

end
