(* ===== verification/Vid_Test.thy ===== *)
theory Vid_Test
  imports Vid_Input
begin

text \<open>
  The test programs \<^verbatim>\<open>videoedit/src/xexec/test.cpp\<close> (\<^verbatim>\<open>TestXExec\<close>, the only other client of \<^verbatim>\<open>XExec\<close> besides the tasks)
  and \<^verbatim>\<open>xlog/test_log.cpp\<close>.  \<^verbatim>\<open>TestXExec\<close> starts a command without a callback, so that the worker puts the lines into the
  queue, and prints them until \<^verbatim>\<open>running_\<close> is cleared.  As in \<^verbatim>\<open>Vid_Task\<close> a schedule is a list of turns; a thread that
  sleeps on the queue or waits for \<^verbatim>\<open>join\<close> uses its turn for nothing.

  The lemmas give the state of both threads before and after the worker's last turn; the property says under which
  schedules \<^verbatim>\<open>TestXExec\<close> returns and which lines it has printed then.
\<close>

subsection \<open>TestXExec\<close>

text \<open>The main thread: \<^verbatim>\<open>running_ = true\<close> at the end of \<^verbatim>\<open>Start\<close>, the message, the three statements of the loop, and
  the join in the destructor.\<close>

datatype test_pc = X_flag | X_while | X_pop | X_print string | X_test | X_join | X_done

record test_run =
  x_pc :: test_pc
  x_worker :: worker
  x_exec :: xexec
  x_cout :: string

fun test_main_turn :: "test_pc \<Rightarrow> test_run \<Rightarrow> test_run" where
  "test_main_turn X_flag s = s\<lparr>x_exec := (x_exec s)\<lparr>running := True\<rparr>, x_pc := X_while\<rparr>"
| "test_main_turn X_while s = s\<lparr>x_cout := x_cout s @ ''while'' @ [nl], x_pc := X_pop\<rparr>"
| "test_main_turn X_pop s =
     (case GetOutput (x_exec s) of None \<Rightarrow> s | Some (line, e) \<Rightarrow> s\<lparr>x_exec := e, x_pc := X_print line\<rparr>)"
| "test_main_turn (X_print line) s = s\<lparr>x_cout := x_cout s @ line, x_pc := X_test\<rparr>"
| "test_main_turn X_test s = s\<lparr>x_pc := if running (x_exec s) then X_pop else X_join\<rparr>"
| "test_main_turn X_join s = (if x_worker s = W_done then s\<lparr>x_pc := X_done\<rparr> else s)"
| "test_main_turn X_done s = s"

text \<open>The worker without a callback: one line into the queue, or \<^verbatim>\<open>running_ = false\<close> at the end.\<close>

fun test_worker_turn :: "worker \<Rightarrow> test_run \<Rightarrow> test_run" where
  "test_worker_turn (W_lines []) s = s\<lparr>x_exec := (x_exec s)\<lparr>running := False\<rparr>, x_worker := W_done\<rparr>"
| "test_worker_turn (W_lines (l # ls)) s =
     s\<lparr>x_exec := (x_exec s)\<lparr>outputs := vq_push l (outputs (x_exec s))\<rparr>, x_worker := W_lines ls\<rparr>"
| "test_worker_turn W_done s = s"
| "test_worker_turn W_crashed s = s"

definition test_turn :: "thread \<Rightarrow> test_run \<Rightarrow> test_run" where
  "test_turn t s = (if x_worker s = W_crashed then s
     else case t of Main \<Rightarrow> test_main_turn (x_pc s) s | Worker \<Rightarrow> test_worker_turn (x_worker s) s)"

abbreviation test_turns :: "thread list \<Rightarrow> test_run \<Rightarrow> test_run" where
  "test_turns \<equiv> fold test_turn"

text \<open>The start: the worker has been created; without the pipe it throws and ends the process.\<close>

definition TestXExec :: "(string \<Rightarrow> string option) \<Rightarrow> string \<Rightarrow> test_run" where
  "TestXExec opened cmd =
     \<lparr>x_pc = X_flag,
      x_worker = (case opened (cmd @ '' 2>&1'') of
          None \<Rightarrow> W_crashed | Some out \<Rightarrow> W_lines (cut_lines (command_output out))),
      x_exec = xexec_new, x_cout = []\<rparr>"

definition test_xexec_main :: "(string \<Rightarrow> string option) \<Rightarrow> test_run" where
  "test_xexec_main opened = TestXExec opened ''ffplay run.mp4''"

text \<open>The line in the hands of the main thread, and where it stands in the loop.\<close>

fun in_hand :: "test_pc \<Rightarrow> string list" where
  "in_hand (X_print line) = [line]"
| "in_hand _ = []"

fun before_pop :: "test_pc \<Rightarrow> bool" where
  "before_pop X_while = True"
| "before_pop X_pop = True"
| "before_pop _ = False"

fun after_pop :: "test_pc \<Rightarrow> bool" where
  "after_pop (X_print _) = True"
| "after_pop X_test = True"
| "after_pop _ = False"

definition greeting :: "test_pc \<Rightarrow> string" where
  "greeting q = (if q = X_flag \<or> q = X_while then [] else ''while'' @ [nl])"

text \<open>What was printed, is in hand and is queued are the lines delivered so far, in order.\<close>

definition test_lines :: "string list \<Rightarrow> test_run \<Rightarrow> bool" where
  "test_lines ls s \<longleftrightarrow> (\<exists>shown. x_cout s = greeting (x_pc s) @ concat shown
     \<and> (x_pc s = X_flag \<or> x_pc s = X_while \<longrightarrow> shown = [])
     \<and> shown @ in_hand (x_pc s) @ outputs (x_exec s) = ls)"

lemma test_lines_main:
  assumes "test_lines ls s" "x_worker s \<noteq> W_crashed"
  shows "test_lines ls (test_turn Main s)"
proof (cases "x_pc s")
  case (X_print line)
  with assms(1) obtain shown where "x_cout s = greeting X_pop @ concat shown" "shown @ [line] @ outputs (x_exec s) = ls"
    by (auto simp: test_lines_def greeting_def)
  with assms(2) show ?thesis
    by (auto simp: test_turn_def test_lines_def X_print greeting_def intro!: exI [of _ "shown @ [line]"])
qed (use assms in \<open>auto simp: test_turn_def test_lines_def greeting_def GetOutput_def vq_wait_and_pop_def vq_empty_def\<close>)

subsection \<open>Up to the worker's last turn\<close>

definition test_before :: "string list \<Rightarrow> string list \<Rightarrow> nat \<Rightarrow> test_run \<Rightarrow> bool" where
  "test_before done_ls ls m s \<longleftrightarrow> x_worker s = W_lines ls \<and> test_lines done_ls s
     \<and> (m = 0 \<longrightarrow> x_pc s = X_flag)
     \<and> (0 < m \<longrightarrow> running (x_exec s) \<and> (before_pop (x_pc s) \<or> after_pop (x_pc s)))"

lemma test_before_main: "test_before ds ls m s \<Longrightarrow> test_before ds ls (Suc m) (test_turn Main s)"
  using test_lines_main [of ds s]
  by (cases "x_pc s") (auto simp: test_before_def test_turn_def GetOutput_def split: option.splits)

lemma test_before_worker: "test_before ds (l # ls) m s \<Longrightarrow> test_before (ds @ [l]) ls m (test_turn Worker s)"
  by (auto simp: test_before_def test_turn_def test_lines_def vq_push_def)

lemma test_before_turns:
  "test_before ds ls m s \<Longrightarrow> count_list as Worker \<le> length ls \<Longrightarrow>
     test_before (ds @ take (count_list as Worker) ls) (drop (count_list as Worker) ls) (m + count_list as Main)
       (test_turns as s)"
proof (induction as arbitrary: ds ls m s)
  case (Cons t as)
  show ?case
  proof (cases t)
    case Main
    with Cons.IH [OF test_before_main [OF Cons.prems(1)]] Cons.prems(2) show ?thesis by simp
  next
    case Worker
    with Cons.prems(2) obtain l ls' where "ls = l # ls'" by (cases ls) auto
    with Cons.IH [OF test_before_worker, of ds l ls' m s] Cons.prems Worker show ?thesis by simp
  qed
qed simp

subsection \<open>After it\<close>

text \<open>The number of lines that still reach the standard output.\<close>

definition still :: "test_pc \<Rightarrow> nat" where
  "still q = (if before_pop q then 1 else 0)"

definition test_ending :: "string \<Rightarrow> test_run \<Rightarrow> bool" where
  "test_ending out s \<longleftrightarrow> x_worker s = W_done \<and> \<not> running (x_exec s) \<and> x_pc s \<noteq> X_flag
     \<and> (before_pop (x_pc s) \<longrightarrow> outputs (x_exec s) \<noteq> [])
     \<and> out = x_cout s @ (if x_pc s = X_while then ''while'' @ [nl] else []) @ concat (in_hand (x_pc s))
             @ concat (take (still (x_pc s)) (outputs (x_exec s)))"

fun test_needs :: "test_pc \<Rightarrow> nat" where
  "test_needs X_while = 5"
| "test_needs X_pop = 4"
| "test_needs (X_print _) = 3"
| "test_needs X_test = 2"
| "test_needs X_join = 1"
| "test_needs _ = 0"

lemma test_ending_turn:
  "test_ending out s \<Longrightarrow> test_ending out (test_turn t s)
     \<and> test_needs (x_pc (test_turn t s)) = test_needs (x_pc s) - (if t = Main then 1 else 0)"
  by (cases t; cases "x_pc s"; cases "outputs (x_exec s)")
    (simp_all add: test_ending_def test_turn_def still_def GetOutput_def vq_wait_and_pop_def vq_empty_def)

lemma test_ending_turns:
  "test_ending out s \<Longrightarrow> test_ending out (test_turns as s)
     \<and> test_needs (x_pc (test_turns as s)) = test_needs (x_pc s) - count_list as Main"
proof (induction as arbitrary: s)
  case (Cons t as)
  from Cons.IH [of "test_turn t s"] test_ending_turn [OF Cons.prems, of t] show ?case by auto
qed simp

lemma test_needs_bound: "test_needs q \<le> 5" "q \<noteq> X_flag \<Longrightarrow> test_needs q = 0 \<Longrightarrow> q = X_done"
  by (cases q; simp)+

lemma test_ends:
  assumes "test_ending out s" "5 \<le> count_list bs Main"
  shows "x_pc (test_turns bs s) = X_done" "x_cout (test_turns bs s) = out"
proof -
  from test_ending_turns [OF assms(1), of bs] test_needs_bound(1) [of "x_pc s"] assms(2)
  have e: "test_ending out (test_turns bs s)" "test_needs (x_pc (test_turns bs s)) = 0" by auto
  then show "x_pc (test_turns bs s) = X_done"
    using test_needs_bound(2) [of "x_pc (test_turns bs s)"] by (simp add: test_ending_def)
  with e(1) show "x_cout (test_turns bs s) = out" by (simp add: test_ending_def still_def)
qed

text \<open>Too late: the flag is set for ever, or the queue is empty for ever.\<close>

definition test_stuck :: "test_run \<Rightarrow> bool" where
  "test_stuck s \<longleftrightarrow> x_worker s = W_done
     \<and> (x_pc s = X_flag \<or> before_pop (x_pc s) \<and> outputs (x_exec s) = []
        \<or> running (x_exec s) \<and> (before_pop (x_pc s) \<or> after_pop (x_pc s)))"

lemma test_stuck_turn: "test_stuck s \<Longrightarrow> test_stuck (test_turn t s)"
  by (cases t; cases "x_pc s")
    (auto simp: test_stuck_def test_turn_def GetOutput_def vq_wait_and_pop_def vq_empty_def split: option.splits)

lemma test_stuck_turns: "test_stuck s \<Longrightarrow> test_stuck (test_turns as s)"
  by (induction as arbitrary: s) (simp_all add: test_stuck_turn)

lemma test_stuck_not_done: "test_stuck s \<Longrightarrow> x_pc s \<noteq> X_done"
  by (auto simp: test_stuck_def)

text \<open>The state right after the worker's last turn.\<close>

lemma test_at_end:
  assumes out: "opened (cmd @ '' 2>&1'') = Some out" and ls: "ls = cut_lines (command_output out)"
    and last: "as = as' @ [Worker]" and workers: "count_list as Worker = Suc (length ls)"
  obtains s' where "test_before ls [] (count_list as Main) s'"
    "test_turns as (TestXExec opened cmd) = s'\<lparr>x_exec := (x_exec s')\<lparr>running := False\<rparr>, x_worker := W_done\<rparr>"
proof -
  let ?s' = "test_turns as' (TestXExec opened cmd)"
  have "test_before [] ls 0 (TestXExec opened cmd)"
    by (simp add: test_before_def TestXExec_def out ls test_lines_def xexec_new_def greeting_def)
  from test_before_turns [OF this, of as'] workers have b: "test_before ls [] (count_list as Main) ?s'"
    by (simp add: last)
  moreover from b have "test_turns as (TestXExec opened cmd) = ?s'\<lparr>x_exec := (x_exec ?s')\<lparr>running := False\<rparr>, x_worker := W_done\<rparr>"
    by (simp add: last test_turn_def test_before_def)
  ultimately show thesis by (rule that)
qed

lemma test_lines_ending:
  assumes "test_lines ls s" "q = x_pc s" "before_pop q \<longrightarrow> outputs (x_exec s) \<noteq> []" "before_pop q \<or> after_pop q"
  shows "x_cout s @ (if q = X_while then ''while'' @ [nl] else []) @ concat (in_hand q)
             @ concat (take (still q) (outputs (x_exec s)))
     = ''while'' @ [nl] @ concat (take (length ls - length (outputs (x_exec s)) + still q) ls)"
proof -
  obtain shown where s: "x_cout s = greeting q @ concat shown" "q = X_flag \<or> q = X_while \<longrightarrow> shown = []"
    "ls = shown @ in_hand q @ outputs (x_exec s)"
    using assms(1,2) by (auto simp: test_lines_def)
  show ?thesis
    using assms(3,4) s by (cases q) (auto simp: greeting_def still_def)
qed

text \<open>Claim C32: \<^verbatim>\<open>TestXExec\<close>.  Let the worker have its last turn, in which it clears \<^verbatim>\<open>running_\<close>, at the end of \<open>as\<close>.  If
  by then the main thread has set \<^verbatim>\<open>running_\<close>, and either holds a line (or is about to test the flag) or finds one in the
  queue, then it returns after at most five more turns of its own, having printed at most one more line: those still in the
  queue behind it are lost.  In every other case it never returns, in particular for a command without output and for one
  whose lines it has printed too fast.\<close>

theorem test_xexec_returns_iff:
  assumes out: "opened (cmd @ '' 2>&1'') = Some out" and ls: "ls = cut_lines (command_output out)"
    and last: "as = as' @ [Worker]" and workers: "count_list as Worker = Suc (length ls)"
    and s: "s = test_turns as (TestXExec opened cmd)" and mains: "5 \<le> count_list bs Main"
  shows "if 0 < count_list as Main \<and> (outputs (x_exec s) \<noteq> [] \<or> after_pop (x_pc s))
     then x_pc (test_turns bs s) = X_done
        \<and> x_cout (test_turns bs s) = ''while'' @ [nl] @ concat (take (length ls - length (outputs (x_exec s)) + still (x_pc s)) ls)
     else \<forall>cs. x_pc (test_turns cs s) \<noteq> X_done"
proof -
  obtain s' where b: "test_before ls [] (count_list as Main) s'"
    and e: "s = s'\<lparr>x_exec := (x_exec s')\<lparr>running := False\<rparr>, x_worker := W_done\<rparr>"
    using test_at_end [where opened = opened, OF out ls last workers] s by metis
  let ?q = "x_pc s'"
  show ?thesis
  proof (cases "0 < count_list as Main \<and> (outputs (x_exec s) \<noteq> [] \<or> after_pop (x_pc s))")
    case True
    with b have q: "before_pop ?q \<or> after_pop ?q" "test_lines ls s'" by (auto simp: test_before_def)
    with True have ne: "before_pop ?q \<longrightarrow> outputs (x_exec s') \<noteq> []" by (cases ?q) (auto simp: e)
    let ?out = "''while'' @ [nl] @ concat (take (length ls - length (outputs (x_exec s)) + still (x_pc s)) ls)"
    have "test_ending ?out s"
      using q ne test_lines_ending [OF q(2) refl ne q(1)] by (cases ?q) (simp_all add: test_ending_def e)
    from test_ends [OF this mains] True show ?thesis by simp
  next
    case False
    with b have "test_stuck s" by (cases ?q) (auto simp: test_before_def test_stuck_def e)
    from test_stuck_not_done [OF test_stuck_turns [OF this]] False show ?thesis by auto
  qed
qed

text \<open>Both lines are in the queue when the worker ends: the first one is printed, the second one is lost.\<close>

theorem test_xexec_returns_iff_witness:
  "x_cout (test_turns (replicate 5 Main) (test_turns [Main, Worker, Worker, Worker]
     (TestXExec (\<lambda>_. Some (''a'' @ [nl] @ ''b'')) ''x''))) = ''while'' @ [nl] @ ''a'' @ [nl]"
proof -
  let ?s = "test_turns [Main, Worker, Worker, Worker] (TestXExec (\<lambda>_. Some (''a'' @ [nl] @ ''b'')) ''x'')"
  have o: "cut_lines (command_output (''a'' @ [nl] @ ''b'')) = [''a'' @ [nl], ''b'']"
    by (simp add: command_output_def EOF_char_def nl_def line_end_def CR_char_def)
  have s: "outputs (x_exec ?s) = [''a'' @ [nl], ''b'']" "x_pc ?s = X_while"
    using o by (simp_all add: TestXExec_def test_turn_def xexec_new_def vq_push_def)
  from test_xexec_returns_iff [of "\<lambda>_. Some (''a'' @ [nl] @ ''b'')" "''x''" "''a'' @ [nl] @ ''b''"
      "[''a'' @ [nl], ''b'']" "[Main, Worker, Worker, Worker]" "[Main, Worker, Worker]" ?s "replicate 5 Main"] o s
  show ?thesis by (simp add: numeral_eq_Suc still_def)
qed

text \<open>A command that prints nothing: the program hangs under every schedule.\<close>

lemma test_xexec_no_output:
  assumes "opened (cmd @ '' 2>&1'') = Some []"
  shows "x_pc (test_turns as (TestXExec opened cmd)) \<noteq> X_done"
proof -
  define quiet where "quiet s \<longleftrightarrow> x_worker s \<in> {W_lines [], W_done} \<and> outputs (x_exec s) = []
      \<and> x_pc s \<in> {X_flag, X_while, X_pop}" for s :: test_run
  have "quiet (test_turn t s)" if "quiet s" for t s
    using that by (cases t) (auto simp: quiet_def test_turn_def GetOutput_def vq_wait_and_pop_def vq_empty_def)
  then have "quiet (test_turns as s)" if "quiet s" for s
    using that by (induction as arbitrary: s) simp_all
  moreover have "quiet (TestXExec opened cmd)" by (simp add: quiet_def TestXExec_def assms xexec_new_def command_output_def)
  ultimately have "quiet (test_turns as (TestXExec opened cmd))" by blast
  then show ?thesis by (auto simp: quiet_def)
qed

subsection \<open>The test of the log\<close>

text \<open>\<^verbatim>\<open>main\<close> of \<^verbatim>\<open>test_log.cpp\<close>: \<open>clock\<close> gives the local time of each message, \<open>path\<close> is \<^verbatim>\<open>__FILE__\<close>.\<close>

definition test_message :: "string \<Rightarrow> (nat \<Rightarrow> local_time) \<Rightarrow> nat \<Rightarrow> log_level \<times> string \<times> int \<Rightarrow> message" where
  "test_message path clock i m = \<lparr>m_level = fst m, m_log = fst (snd m), m_file = path, m_line = snd (snd m), m_time = clock i\<rparr>"

definition test_messages :: "string \<Rightarrow> (nat \<Rightarrow> local_time) \<Rightarrow> message list" where
  "test_messages path clock =
     [test_message path clock 0 (DEBUG, ''debug'', 18), test_message path clock 1 (INFO, ''info'', 19),
      test_message path clock 2 (ERROR, ''error'', 20), test_message path clock 3 (FATAL, ''fatal'', 21)]"

definition test_log_main :: "string option \<Rightarrow> (string \<Rightarrow> bool) \<Rightarrow> string \<Rightarrow> (nat \<Rightarrow> local_time) \<Rightarrow> (string \<Rightarrow> string) \<Rightarrow> xlog outcome" where
  "test_log_main file can_open path clock d =
     then_ok (xlog_init file can_open (xlog_new d)) (\<lambda>l. each logger_write (test_messages path clock) l)"

text \<open>Without a configuration file all four messages go to the console.\<close>

lemma test_log_without_file:
  "\<exists>l. test_log_main None can_open path clock d = Ok l \<and> disk l = d
     \<and> console l = unlines (map message_text (test_messages path clock))"
proof -
  define l where "l = xlog_new d \<lparr>log_format := True, log_output := Some Console, loglevel := DEBUG\<rparr>"
  have i: "xlog_init None can_open (xlog_new d) = Ok l"
    by (simp add: xlog_init_def config_read_def level_of_def l_def)
  have "filter (\<lambda>m. DEBUG \<le> m_level m) (test_messages path clock) = test_messages path clock"
    by (rule filter_True) (simp add: less_eq_log_level_def level_num_def)
  then have p: "passing DEBUG (test_messages path clock) = unlines (map message_text (test_messages path clock))"
    by (simp add: passing_def)
  from each_write [of l Console "test_messages path clock"] i p show ?thesis
    by (simp add: test_log_main_def l_def xlog_new_def)
qed

end
