(* ===== verification/Lru_Cache.thy ===== *)
theory Lru_Cache
  imports Clang_Prelude
begin

text \<open>
  \<^verbatim>\<open>algo/Ya_10.cpp\<close>: the cache that evicts the least recently used entry.  A hash map leads from a key to its node in a doubly
  linked list between two sentinels, most recently used first.  The nodes are a heap of fields indexed by address with
  the set of live addresses; following a null or dangling pointer, or deleting twice, is \<open>None\<close>.  The address that
  \<^verbatim>\<open>new\<close> returns is the argument \<open>new\<close>, of which only that it is not in use is assumed.

  The specification is a list of entries, most recently used first.  The lemmas show what the link updates do to the
  list; the property that every sequence of calls has the results of the specification, never follows a bad pointer, keeps map and
  list in step, and that the destructor frees every node once.
\<close>

subsection \<open>The code\<close>

record lru =
  l_cache :: "int \<Rightarrow> addr option"
  l_size :: int
  l_capacity :: int
  l_head :: addr
  l_tail :: addr
  n_key :: "addr \<Rightarrow> int"
  n_value :: "addr \<Rightarrow> int"
  n_prev :: "addr \<Rightarrow> ptr"
  n_next :: "addr \<Rightarrow> ptr"
  n_live :: "addr set"

definition node_at :: "ptr \<Rightarrow> lru \<Rightarrow> addr option" where
  "node_at p s = (case p of Some a \<Rightarrow> if a \<in> n_live s then Some a else None | None \<Rightarrow> None)"

definition put_next :: "addr \<Rightarrow> ptr \<Rightarrow> lru \<Rightarrow> lru" where
  "put_next a p s = s\<lparr>n_next := (n_next s)(a := p)\<rparr>"

definition put_prev :: "addr \<Rightarrow> ptr \<Rightarrow> lru \<Rightarrow> lru" where
  "put_prev a p s = s\<lparr>n_prev := (n_prev s)(a := p)\<rparr>"

definition new_node :: "addr \<Rightarrow> int \<Rightarrow> int \<Rightarrow> lru \<Rightarrow> lru" where
  "new_node a k v s = s\<lparr>n_key := (n_key s)(a := k), n_value := (n_value s)(a := v), n_prev := (n_prev s)(a := None),
     n_next := (n_next s)(a := None), n_live := insert a (n_live s)\<rparr>"

definition delete_node :: "addr \<Rightarrow> lru \<Rightarrow> lru option" where
  "delete_node a s = (if a \<in> n_live s then Some (s\<lparr>n_live := n_live s - {a}\<rparr>) else None)"

definition addToHead :: "addr \<Rightarrow> lru \<Rightarrow> lru option" where
  "addToHead node s = do {
     n \<leftarrow> node_at (Some node) s;
     h \<leftarrow> node_at (Some (l_head s)) s;
     let s1 = put_next n (n_next s h) s;
     let s2 = put_prev n (Some h) s1;
     f \<leftarrow> node_at (n_next s2 h) s2;
     let s3 = put_prev f (Some n) s2;
     Some (put_next h (Some n) s3) }"

definition removeNode :: "addr \<Rightarrow> lru \<Rightarrow> lru option" where
  "removeNode node s = do {
     n \<leftarrow> node_at (Some node) s;
     p \<leftarrow> node_at (n_prev s n) s;
     let s1 = put_next p (n_next s n) s;
     x \<leftarrow> node_at (n_next s1 n) s1;
     Some (put_prev x (n_prev s1 n) s1) }"

definition moveToHead :: "addr \<Rightarrow> lru \<Rightarrow> lru option" where
  "moveToHead node s = do { s1 \<leftarrow> removeNode node s; addToHead node s1 }"

definition removeTail :: "lru \<Rightarrow> (addr \<times> lru) option" where
  "removeTail s = do {
     t \<leftarrow> node_at (Some (l_tail s)) s;
     removed \<leftarrow> n_prev s t;
     s1 \<leftarrow> removeNode removed s;
     Some (removed, s1) }"

definition lru_new :: "(addr set \<Rightarrow> addr) \<Rightarrow> int \<Rightarrow> lru" where
  "lru_new new c =
     (let h = new {}; t = new {h};
          s = \<lparr>l_cache = Map.empty, l_size = 0, l_capacity = c, l_head = h, l_tail = t, n_key = (\<lambda>_. 0), n_value = (\<lambda>_. 0),
               n_prev = (\<lambda>_. None), n_next = (\<lambda>_. None), n_live = {}\<rparr>
      in put_prev t (Some h) (put_next h (Some t) (new_node t 0 0 (new_node h 0 0 s))))"

definition lru_get :: "int \<Rightarrow> lru \<Rightarrow> (int \<times> lru) option" where
  "lru_get key s = (case l_cache s key of
      None \<Rightarrow> Some (- 1, s)
    | Some node \<Rightarrow> do {
        s1 \<leftarrow> moveToHead node s;
        n \<leftarrow> node_at (Some node) s1;
        Some (n_value s1 n, s1) })"

definition lru_put :: "(addr set \<Rightarrow> addr) \<Rightarrow> int \<Rightarrow> int \<Rightarrow> lru \<Rightarrow> lru option" where
  "lru_put new key value s = (case l_cache s key of
      None \<Rightarrow> do {
        let node = new (n_live s);
        let s1 = new_node node key value s;
        let s2 = s1\<lparr>l_cache := (l_cache s1)(key \<mapsto> node)\<rparr>;
        s3 \<leftarrow> addToHead node s2;
        let s4 = s3\<lparr>l_size := l_size s3 + 1\<rparr>;
        if l_size s4 > l_capacity s4 then do {
          (removed, s5) \<leftarrow> removeTail s4;
          r \<leftarrow> node_at (Some removed) s5;
          let s6 = s5\<lparr>l_cache := (l_cache s5)(n_key s5 r := None)\<rparr>;
          s7 \<leftarrow> delete_node r s6;
          Some (s7\<lparr>l_size := l_size s7 - 1\<rparr>) }
        else Some s4 }
    | Some node \<Rightarrow> do {
        n \<leftarrow> node_at (Some node) s;
        moveToHead n (s\<lparr>n_value := (n_value s)(n := value)\<rparr>) })"

text \<open>The destructor.\<close>

partial_function (option) destroy_loop :: "ptr \<Rightarrow> lru \<Rightarrow> lru option" where
  "destroy_loop cur s =
     (case cur of
        None \<Rightarrow> Some s
      | Some a \<Rightarrow> do {
          c \<leftarrow> node_at (Some a) s;
          let nxt = n_next s c;
          s1 \<leftarrow> delete_node c s;
          destroy_loop nxt s1 })"

declare destroy_loop.simps [code]

definition lru_destroy :: "lru \<Rightarrow> lru option" where
  "lru_destroy s = destroy_loop (Some (l_head s)) s"

subsection \<open>Linked lists\<close>

text \<open>Neighbours in the list point to each other.\<close>

fun linked :: "(addr \<Rightarrow> ptr) \<Rightarrow> (addr \<Rightarrow> ptr) \<Rightarrow> addr list \<Rightarrow> bool" where
  "linked nx pv (a # b # xs) \<longleftrightarrow> nx a = Some b \<and> pv b = Some a \<and> linked nx pv (b # xs)"
| "linked nx pv _ \<longleftrightarrow> True"

lemma linked_append:
  "xs \<noteq> [] \<Longrightarrow> ys \<noteq> [] \<Longrightarrow> linked nx pv (xs @ ys) \<longleftrightarrow>
     linked nx pv xs \<and> linked nx pv ys \<and> nx (last xs) = Some (hd ys) \<and> pv (hd ys) = Some (last xs)"
  by (induction nx pv xs rule: linked.induct; cases ys) auto

lemma linked_upd_next: "u \<notin> set (butlast xs) \<Longrightarrow> linked (nx(u := v)) pv xs = linked nx pv xs"
  by (induction nx pv xs rule: linked.induct) auto

lemma linked_upd_prev: "u \<notin> set (tl xs) \<Longrightarrow> linked nx (pv(u := v)) xs = linked nx pv xs"
  by (induction nx pv xs rule: linked.induct) auto

lemma linked_upd_out: 
  "u \<notin> set xs \<Longrightarrow> linked (nx(u := v)) pv xs = linked nx pv xs"
  "u \<notin> set xs \<Longrightarrow> linked nx (pv(u := v)) xs = linked nx pv xs"
  by (cases xs; auto intro!: linked_upd_next linked_upd_prev dest: in_set_butlastD)+

lemma node_at_Some [simp]: "node_at (Some a) s = (if a \<in> n_live s then Some a else None)"
  by (simp add: node_at_def)

lemma put_simps [simp]:
  "n_next (put_next a p s) = (n_next s)(a := p)" "n_prev (put_next a p s) = n_prev s"
  "n_next (put_prev a p s) = n_next s" "n_prev (put_prev a p s) = (n_prev s)(a := p)"
  "n_live (put_next a p s) = n_live s" "n_live (put_prev a p s) = n_live s"
  "l_head (put_next a p s) = l_head s" "l_head (put_prev a p s) = l_head s"
  "l_tail (put_next a p s) = l_tail s" "l_tail (put_prev a p s) = l_tail s"
  "n_key (put_next a p s) = n_key s" "n_key (put_prev a p s) = n_key s"
  "n_value (put_next a p s) = n_value s" "n_value (put_prev a p s) = n_value s"
  "l_cache (put_next a p s) = l_cache s" "l_cache (put_prev a p s) = l_cache s"
  "l_size (put_next a p s) = l_size s" "l_size (put_prev a p s) = l_size s"
  "l_capacity (put_next a p s) = l_capacity s" "l_capacity (put_prev a p s) = l_capacity s"
  by (simp_all add: put_next_def put_prev_def)

text \<open>The links of a state between the sentinels, and states that differ in their links only.\<close>

definition links :: "lru \<Rightarrow> addr list \<Rightarrow> bool" where
  "links s ns \<longleftrightarrow> linked (n_next s) (n_prev s) (l_head s # ns @ [l_tail s]) \<and> distinct (l_head s # ns @ [l_tail s])
     \<and> n_next s (l_tail s) = None \<and> set (l_head s # ns @ [l_tail s]) \<subseteq> n_live s"

definition relinked :: "lru \<Rightarrow> lru \<Rightarrow> bool" where
  "relinked s s' \<longleftrightarrow> n_live s' = n_live s \<and> l_head s' = l_head s \<and> l_tail s' = l_tail s \<and> n_key s' = n_key s
     \<and> n_value s' = n_value s \<and> l_cache s' = l_cache s \<and> l_size s' = l_size s \<and> l_capacity s' = l_capacity s"

lemma addToHead_links:
  assumes l: "links s ns" and n: "n \<in> n_live s" "n \<notin> set (l_head s # ns @ [l_tail s])"
  shows "\<exists>s'. addToHead n s = Some s' \<and> links s' (n # ns) \<and> relinked s s'"
proof -
  let ?h = "l_head s" and ?ys = "ns @ [l_tail s]"
  define f where "f = hd ?ys"
  have split: "linked (n_next s) (n_prev s) ?ys" "n_next s ?h = Some f" "n_prev s f = Some ?h"
    using l linked_append [of "[?h]" ?ys] by (simp_all add: links_def f_def)
  have f: "f \<in> set ?ys" unfolding f_def by (rule hd_in_set) simp
  have live: "?h \<in> n_live s" "f \<in> n_live s" using l f by (auto simp: links_def)
  have d: "?h \<noteq> n" "f \<noteq> n" "?h \<notin> set ?ys" "n \<notin> set ?ys" using l n f by (auto simp: links_def)
  define s' where "s' = put_next ?h (Some n) (put_prev f (Some n) (put_prev n (Some ?h) (put_next n (Some f) s)))"
  have "addToHead n s = Some s'"
    using n(1) live d split by (simp add: addToHead_def s'_def Let_def)
  moreover have "links s' (n # ns)"
  proof -
    have tl: "f \<notin> set (tl ?ys)" using l by (cases ns) (auto simp: links_def f_def)
    have "linked (n_next s') (n_prev s') ?ys"
      using split(1) d tl by (simp add: s'_def linked_upd_out linked_upd_prev)
    then have "linked (n_next s') (n_prev s') (?h # n # ?ys)"
      using linked_append [of "[?h, n]" ?ys "n_next s'" "n_prev s'"] d by (simp add: s'_def f_def)
    then show ?thesis using l n by (auto simp: links_def s'_def)
  qed
  moreover have "relinked s s'" by (simp add: relinked_def s'_def)
  ultimately show ?thesis by blast
qed

lemma removeNode_links:
  assumes l: "links s (us @ n # vs)"
  shows "\<exists>s'. removeNode n s = Some s' \<and> links s' (us @ vs) \<and> relinked s s'"
proof -
  let ?xs = "l_head s # us" and ?ys = "vs @ [l_tail s]"
  define p x where "p = last ?xs" and "x = hd ?ys"
  have "linked (n_next s) (n_prev s) (?xs @ n # ?ys)" using l by (simp add: links_def)
  then have split: "linked (n_next s) (n_prev s) ?xs" "linked (n_next s) (n_prev s) ?ys"
      "n_prev s n = Some p" "n_next s n = Some x"
    using linked_append [of ?xs "n # ?ys"] linked_append [of "[n]" ?ys] by (auto simp: p_def x_def)
  have mem: "p \<in> set ?xs" "x \<in> set ?ys" unfolding p_def x_def by (rule last_in_set hd_in_set; simp)+
  have dist: "distinct (?xs @ n # ?ys)" "set (?xs @ n # ?ys) \<subseteq> n_live s" using l by (simp_all add: links_def)
  have live: "n \<in> n_live s" "p \<in> n_live s" "x \<in> n_live s" using dist(2) mem by auto
  have d: "p \<noteq> n" "p \<notin> set ?ys" "x \<notin> set ?xs" using dist(1) mem by auto
  define s' where "s' = put_prev x (Some p) (put_next p (Some x) s)"
  have "removeNode n s = Some s'" using live d split by (simp add: removeNode_def s'_def Let_def)
  moreover have "links s' (us @ vs)"
  proof -
    have pb: "p \<notin> set (butlast ?xs)"
      using dist(1) append_butlast_last_id [of ?xs] by (metis p_def distinct_append list.distinct(1) not_distinct_conv_prefix)
    have xt: "x \<notin> set (tl ?ys)" using dist(1) by (cases vs) (auto simp: x_def)
    have "linked (n_next s') (n_prev s') ?xs" "linked (n_next s') (n_prev s') ?ys"
      using split d pb xt unfolding s'_def put_simps by (simp_all add: linked_upd_out linked_upd_next linked_upd_prev)
    then have "linked (n_next s') (n_prev s') (?xs @ ?ys)"
      using linked_append [of ?xs ?ys "n_next s'" "n_prev s'"] d by (simp add: s'_def p_def x_def)
    moreover have "n_next s' (l_tail s) = None" using l d by (auto simp: links_def s'_def)
    ultimately show ?thesis using l by (auto simp: links_def s'_def)
  qed
  moreover have "relinked s s'" by (simp add: relinked_def s'_def)
  ultimately show ?thesis by blast
qed

lemma relinked_trans: "relinked s s' \<Longrightarrow> relinked s' s'' \<Longrightarrow> relinked s s''"
  by (auto simp: relinked_def)

lemma moveToHead_links:
  assumes l: "links s (us @ n # vs)"
  shows "\<exists>s'. moveToHead n s = Some s' \<and> links s' (n # us @ vs) \<and> relinked s s'"
proof -
  obtain s1 where s1: "removeNode n s = Some s1" "links s1 (us @ vs)" "relinked s s1"
    using removeNode_links [OF l] by blast
  have "n \<in> n_live s1" "n \<notin> set (l_head s1 # (us @ vs) @ [l_tail s1])"
    using l s1(3) by (auto simp: links_def relinked_def)
  from addToHead_links [OF s1(2) this] s1 show ?thesis by (auto simp: moveToHead_def intro: relinked_trans)
qed

lemma removeTail_links:
  assumes l: "links s (us @ [n])"
  shows "\<exists>s'. removeTail s = Some (n, s') \<and> links s' us \<and> relinked s s'"
proof -
  have "linked (n_next s) (n_prev s) ((l_head s # us @ [n]) @ [l_tail s])" using l by (simp add: links_def)
  then have "n_prev s (l_tail s) = Some n"
    using linked_append [of "l_head s # us @ [n]" "[l_tail s]"] by simp
  moreover have "l_tail s \<in> n_live s" using l by (simp add: links_def)
  ultimately show ?thesis using removeNode_links [OF l] by (auto simp: removeTail_def)
qed

subsection \<open>The specification\<close>

type_synonym entries = "(int \<times> int) list"

definition without :: "int \<Rightarrow> entries \<Rightarrow> entries" where
  "without k xs = filter (\<lambda>e. fst e \<noteq> k) xs"

definition spec_get :: "int \<Rightarrow> entries \<Rightarrow> int \<times> entries" where
  "spec_get k xs = (case map_of xs k of None \<Rightarrow> (- 1, xs) | Some v \<Rightarrow> (v, (k, v) # without k xs))"

definition spec_put :: "int \<Rightarrow> int \<Rightarrow> int \<Rightarrow> entries \<Rightarrow> entries" where
  "spec_put c k v xs =
     (case map_of xs k of
        None \<Rightarrow> if c < int (length xs) + 1 then butlast ((k, v) # xs) else (k, v) # xs
      | Some _ \<Rightarrow> (k, v) # without k xs)"

text \<open>A state and the entries it holds.\<close>

definition lru_rel :: "lru \<Rightarrow> addr list \<Rightarrow> entries \<Rightarrow> bool" where
  "lru_rel s ns xs \<longleftrightarrow> links s ns \<and> n_live s = set (l_head s # ns @ [l_tail s])
     \<and> xs = map (\<lambda>n. (n_key s n, n_value s n)) ns \<and> distinct (map fst xs)
     \<and> (\<forall>k n. l_cache s k = Some n \<longleftrightarrow> n \<in> set ns \<and> n_key s n = k) \<and> l_size s = int (length ns)"

lemma lru_relI:
  "links s ns \<Longrightarrow> n_live s = set (l_head s # ns @ [l_tail s]) \<Longrightarrow> xs = map (\<lambda>n. (n_key s n, n_value s n)) ns \<Longrightarrow>
     distinct (map fst xs) \<Longrightarrow> (\<And>k n. l_cache s k = Some n \<longleftrightarrow> n \<in> set ns \<and> n_key s n = k) \<Longrightarrow> l_size s = int (length ns) \<Longrightarrow>
     lru_rel s ns xs"
  unfolding lru_rel_def by blast

lemma lru_rel_entries:
  assumes "lru_rel s ns xs"
  shows "xs = map (\<lambda>n. (n_key s n, n_value s n)) ns" "distinct (map fst xs)" "distinct (map (n_key s) ns)"
proof -
  show x: "xs = map (\<lambda>n. (n_key s n, n_value s n)) ns" "distinct (map fst xs)"
    using assms unfolding lru_rel_def by blast+
  show "distinct (map (n_key s) ns)" using x(2) unfolding x(1) by (simp add: o_def)
qed

lemma lru_rel_map_of:
  assumes "lru_rel s ns xs"
  shows "map_of xs k = map_option (n_value s) (l_cache s k)"
proof (cases "l_cache s k")
  case None
  have "l_cache s (n_key s m) = Some m" if "m \<in> set ns" for m using assms that by (auto simp: lru_rel_def)
  with None have "k \<notin> n_key s ` set ns" by auto
  with None assms show ?thesis by (auto simp: lru_rel_def map_of_eq_None_iff image_image)
next
  case (Some n)
  with assms have "n \<in> set ns" "n_key s n = k" by (auto simp: lru_rel_def)
  then have "map_of xs k = Some (n_value s n)"
    using lru_rel_entries [OF assms] by (intro map_of_is_SomeI) auto
  with Some show ?thesis by simp
qed

lemma lru_rel_touch:
  assumes rel: "lru_rel s ns xs" and c: "l_cache s k = Some n"
  shows "\<exists>s' us vs. moveToHead n (s\<lparr>n_value := (n_value s)(n := v)\<rparr>) = Some s' \<and> ns = us @ n # vs
     \<and> lru_rel s' (n # us @ vs) ((k, v) # without k xs) \<and> n_value s' n = v \<and> l_capacity s' = l_capacity s"
proof -
  let ?s = "s\<lparr>n_value := (n_value s)(n := v)\<rparr>"
  have n: "n \<in> set ns" "n_key s n = k" using rel c by (auto simp: lru_rel_def)
  then obtain us vs where ns: "ns = us @ n # vs" by (auto simp: in_set_conv_decomp)
  have "links ?s (us @ n # vs)" using rel ns by (simp add: lru_rel_def links_def)
  from moveToHead_links [OF this] obtain s' where
    s': "moveToHead n ?s = Some s'" "links s' (n # us @ vs)" "relinked ?s s'" by blast
  note eq = s'(3) [unfolded relinked_def]
  have out: "n \<notin> set us" "n \<notin> set vs" using rel ns by (auto simp: lru_rel_def links_def)
  have keys: "\<forall>m \<in> set us \<union> set vs. n_key s m \<noteq> k"
    using lru_rel_entries(3) [OF rel] unfolding ns n(2) [symmetric] by (force simp: image_iff)
  have "without k xs = map (\<lambda>m. (n_key s m, n_value s m)) (us @ vs)"
    using keys n(2) unfolding lru_rel_entries(1) [OF rel] by (simp add: without_def ns filter_map o_def)
  moreover have "map (\<lambda>m. (n_key s' m, n_value s' m)) (n # us @ vs) = (k, v) # map (\<lambda>m. (n_key s m, n_value s m)) (us @ vs)"
    using eq n(2) out by auto
  moreover have "distinct (map fst ((k, v) # map (\<lambda>m. (n_key s m, n_value s m)) (us @ vs)))"
    using lru_rel_entries(3) [OF rel] keys by (auto simp: ns o_def)
  ultimately have "lru_rel s' (n # us @ vs) ((k, v) # without k xs)"
    using rel s'(2) eq unfolding lru_rel_def by (auto simp: ns)
  with s' ns eq show ?thesis by auto
qed

lemma lru_get_sim:
  assumes rel: "lru_rel s ns xs"
  shows "\<exists>r s' ns'. lru_get k s = Some (r, s') \<and> lru_rel s' ns' (snd (spec_get k xs)) \<and> r = fst (spec_get k xs)
     \<and> l_capacity s' = l_capacity s"
proof (cases "l_cache s k")
  case None
  with rel lru_rel_map_of [OF rel, of k] show ?thesis by (auto simp: lru_get_def spec_get_def)
next
  case (Some n)
  have same: "s\<lparr>n_value := (n_value s)(n := n_value s n)\<rparr> = s" by simp
  from lru_rel_touch [OF rel Some, of "n_value s n"] obtain s' us vs where
    s': "moveToHead n s = Some s'" "lru_rel s' (n # us @ vs) ((k, n_value s n) # without k xs)" "n_value s' n = n_value s n"
      "l_capacity s' = l_capacity s"
    unfolding same by blast
  have "n \<in> n_live s'" using s'(2) by (simp add: lru_rel_def)
  with s' Some lru_rel_map_of [OF rel, of k] show ?thesis by (auto simp: lru_get_def spec_get_def)
qed

definition alloc_ok :: "(addr set \<Rightarrow> addr) \<Rightarrow> bool" where
  "alloc_ok new \<longleftrightarrow> (\<forall>A. finite A \<longrightarrow> new A \<notin> A)"

text \<open>Inserting a new key, before the size is checked.\<close>

definition inserted :: "(addr set \<Rightarrow> addr) \<Rightarrow> int \<Rightarrow> int \<Rightarrow> lru \<Rightarrow> lru" where
  "inserted new k v s = (new_node (new (n_live s)) k v s)\<lparr>l_cache := (l_cache s)(k \<mapsto> new (n_live s))\<rparr>"

lemma lru_insert_rel:
  assumes rel: "lru_rel s ns xs" and new: "alloc_ok new" and c: "l_cache s k = None"
  shows "\<exists>s'. addToHead (new (n_live s)) (inserted new k v s) = Some s'
     \<and> lru_rel (s'\<lparr>l_size := l_size s' + 1\<rparr>) (new (n_live s) # ns) ((k, v) # xs) \<and> l_capacity s' = l_capacity s"
proof -
  let ?n = "new (n_live s)" and ?s = "inserted new k v s"
  have live: "n_live s = set (l_head s # ns @ [l_tail s])" using rel by (simp add: lru_rel_def)
  then have fresh: "?n \<notin> set (l_head s # ns @ [l_tail s])" using new unfolding alloc_ok_def by (metis List.finite_set)
  let ?all = "l_head s # ns @ [l_tail s]"
  have "linked (n_next ?s) (n_prev ?s) ?all" using rel fresh
    by (simp add: inserted_def new_node_def lru_rel_def links_def linked_upd_out del: append_Cons)
  then have "links ?s ns" using rel fresh by (auto simp: inserted_def new_node_def lru_rel_def links_def)
  moreover have "?n \<in> n_live ?s" "?n \<notin> set (l_head ?s # ns @ [l_tail ?s])"
    using fresh by (simp_all add: inserted_def new_node_def)
  ultimately obtain s' where s': "addToHead ?n ?s = Some s'" "links s' (?n # ns)" "relinked ?s s'"
    using addToHead_links by blast
  have eq: "n_live s' = insert ?n (n_live s)" "l_head s' = l_head s" "l_tail s' = l_tail s" "n_key s' = (n_key s)(?n := k)"
      "n_value s' = (n_value s)(?n := v)" "l_cache s' = (l_cache s)(k \<mapsto> ?n)" "l_size s' = l_size s" "l_capacity s' = l_capacity s"
    using s'(3) by (simp_all add: relinked_def inserted_def new_node_def)
  have nk: "k \<notin> n_key s ` set ns" using lru_rel_map_of [OF rel, of k] c lru_rel_entries(1) [OF rel]
    by (auto simp: map_of_eq_None_iff image_image)
  have "\<forall>m \<in> set ns. m \<noteq> ?n" using fresh by auto
  then have "(k, v) # xs = map (\<lambda>m. (n_key s' m, n_value s' m)) (?n # ns)"
    using lru_rel_entries(1) [OF rel] by (auto simp: eq)
  moreover have "distinct (map fst ((k, v) # xs))"
    using lru_rel_entries(1,2) [OF rel] nk by (auto simp: image_image)
  moreover have "l_cache s' j = Some m \<longleftrightarrow> m \<in> set (?n # ns) \<and> n_key s' m = j" for j m
    using rel nk fresh by (auto simp: lru_rel_def eq)
  moreover have "n_live s' = set (l_head s' # (?n # ns) @ [l_tail s'])" using live by (auto simp: eq)
  moreover have "l_size s' = int (length ns)" using rel by (simp add: lru_rel_def eq)
  ultimately have "lru_rel (s'\<lparr>l_size := l_size s' + 1\<rparr>) (?n # ns) ((k, v) # xs)"
    using s'(2) by (intro lru_relI) (simp_all add: links_def)
  with s'(1) eq show ?thesis by blast
qed

lemma lru_evict_rel:
  assumes rel: "lru_rel s ns xs" and ne: "xs \<noteq> []"
  shows "\<exists>r s1 s2. removeTail s = Some (r, s1) \<and> r \<in> n_live s1
     \<and> delete_node r (s1\<lparr>l_cache := (l_cache s1)(n_key s1 r := None)\<rparr>) = Some s2
     \<and> lru_rel (s2\<lparr>l_size := l_size s2 - 1\<rparr>) (butlast ns) (butlast xs) \<and> l_capacity s2 = l_capacity s"
proof -
  have "ns \<noteq> []" using ne lru_rel_entries(1) [OF rel] by auto
  then obtain us r where ns: "ns = us @ [r]" by (metis append_butlast_last_id)
  from rel have "links s (us @ [r])" by (simp add: lru_rel_def ns)
  from removeTail_links [OF this] obtain s1 where
    s1: "removeTail s = Some (r, s1)" "links s1 us" "relinked s s1" by blast
  note eq = s1(3) [unfolded relinked_def]
  define s2 where "s2 = s1\<lparr>l_cache := (l_cache s1)(n_key s1 r := None), n_live := n_live s1 - {r}\<rparr>"
  have rl: "r \<in> n_live s1" using rel eq by (simp add: lru_rel_def ns)
  then have "delete_node r (s1\<lparr>l_cache := (l_cache s1)(n_key s1 r := None)\<rparr>) = Some s2"
    by (simp add: delete_node_def s2_def)
  moreover have "lru_rel (s2\<lparr>l_size := l_size s2 - 1\<rparr>) us (butlast xs)"
  proof -
    have d: "distinct (l_head s # (us @ [r]) @ [l_tail s])" "n_live s = set (l_head s # (us @ [r]) @ [l_tail s])"
      using rel by (simp_all add: lru_rel_def links_def ns)
    have rk: "\<forall>m \<in> set us. n_key s m \<noteq> n_key s r"
      using lru_rel_entries(3) [OF rel] unfolding ns by (force simp: image_iff)
    have "links (s2\<lparr>l_size := l_size s2 - 1\<rparr>) us" using s1(2) eq d(1) by (auto simp: links_def s2_def)
    moreover have "n_live s2 = set (l_head s2 # us @ [l_tail s2])" using d eq by (auto simp: s2_def)
    moreover have x: "xs = map (\<lambda>n. (n_key s n, n_value s n)) (us @ [r])" using lru_rel_entries(1) [OF rel] ns by simp
    moreover have "butlast xs = map (\<lambda>n. (n_key s2 n, n_value s2 n)) us" using eq by (simp add: x s2_def butlast_append)
    moreover have "distinct (map fst (butlast xs))" using lru_rel_entries(2) [OF rel] by (simp add: map_butlast distinct_butlast)
    moreover have "l_cache s2 j = Some m \<longleftrightarrow> m \<in> set us \<and> n_key s2 m = j" for j m
      using rel eq d(1) rk by (auto simp: lru_rel_def ns s2_def)
    moreover have "l_size s2 - 1 = int (length us)" using rel eq by (simp add: lru_rel_def ns s2_def)
    ultimately show ?thesis by (intro lru_relI) simp_all
  qed
  moreover have "l_capacity s2 = l_capacity s" using eq by (simp add: s2_def)
  ultimately show ?thesis using s1(1) rl by (auto simp: ns)
qed

lemma lru_put_sim:
  assumes rel: "lru_rel s ns xs" and new: "alloc_ok new"
  shows "\<exists>s' ns'. lru_put new k v s = Some s' \<and> lru_rel s' ns' (spec_put (l_capacity s) k v xs) \<and> l_capacity s' = l_capacity s"
proof (cases "l_cache s k")
  case None
  have sz: "l_size s = int (length xs)" using rel lru_rel_entries(1) [OF rel] by (simp add: lru_rel_def)
  have "inserted new k v s = (new_node (new (n_live s)) k v s)
      \<lparr>l_cache := (l_cache (new_node (new (n_live s)) k v s))(k \<mapsto> new (n_live s))\<rparr>"
    by (simp add: inserted_def new_node_def)
  note ins = this [symmetric]
  obtain s1 where s1: "addToHead (new (n_live s)) (inserted new k v s) = Some s1"
      "lru_rel (s1\<lparr>l_size := l_size s1 + 1\<rparr>) (new (n_live s) # ns) ((k, v) # xs)" "l_capacity s1 = l_capacity s"
    using lru_insert_rel [OF rel new None] by blast
  have sz1: "l_size s1 + 1 = int (length xs) + 1" using s1(2) lru_rel_entries(1) [OF rel] by (simp add: lru_rel_def)
  have m: "map_of xs k = None" using lru_rel_map_of [OF rel, of k] None by simp
  show ?thesis
  proof (cases "l_capacity s < int (length xs) + 1")
    case False
    with None s1 sz1 m show ?thesis by (auto simp: lru_put_def ins spec_put_def Let_def)
  next
    case True
    from lru_evict_rel [OF s1(2)] obtain r s2 s3 where
      e: "removeTail (s1\<lparr>l_size := l_size s1 + 1\<rparr>) = Some (r, s2)" "r \<in> n_live s2"
        "delete_node r (s2\<lparr>l_cache := (l_cache s2)(n_key s2 r := None)\<rparr>) = Some s3"
        "lru_rel (s3\<lparr>l_size := l_size s3 - 1\<rparr>) (butlast (new (n_live s) # ns)) (butlast ((k, v) # xs))"
        "l_capacity s3 = l_capacity s"
      using s1(3) by auto
    then have "lru_put new k v s = Some (s3\<lparr>l_size := l_size s3 - 1\<rparr>)"
      using None s1 sz1 True by (simp add: lru_put_def ins Let_def)
    with e True m show ?thesis by (auto simp: spec_put_def simp del: butlast.simps)
  qed
next
  case (Some n)
  have "n \<in> n_live s" using rel Some by (auto simp: lru_rel_def)
  with lru_rel_touch [OF rel Some, of v] Some lru_rel_map_of [OF rel, of k] show ?thesis
    by (auto simp: lru_put_def spec_put_def)
qed

subsection \<open>Sequences of calls\<close>

datatype lru_op = Lru_get int | Lru_put int int

fun lru_calls :: "(addr set \<Rightarrow> addr) \<Rightarrow> lru_op list \<Rightarrow> lru \<Rightarrow> (int list \<times> lru) option" where
  "lru_calls new [] s = Some ([], s)"
| "lru_calls new (Lru_get k # ops) s =
     do { (r, s1) \<leftarrow> lru_get k s; (rs, s2) \<leftarrow> lru_calls new ops s1; Some (r # rs, s2) }"
| "lru_calls new (Lru_put k v # ops) s = do { s1 \<leftarrow> lru_put new k v s; lru_calls new ops s1 }"

fun spec_calls :: "int \<Rightarrow> lru_op list \<Rightarrow> entries \<Rightarrow> int list \<times> entries" where
  "spec_calls c [] xs = ([], xs)"
| "spec_calls c (Lru_get k # ops) xs =
     (let (r, ys) = spec_get k xs; (rs, zs) = spec_calls c ops ys in (r # rs, zs))"
| "spec_calls c (Lru_put k v # ops) xs = spec_calls c ops (spec_put c k v xs)"

lemma lru_calls_sim:
  "alloc_ok new \<Longrightarrow> lru_rel s ns xs \<Longrightarrow> l_capacity s = c \<Longrightarrow>
     \<exists>s' ns'. lru_calls new ops s = Some (fst (spec_calls c ops xs), s') \<and> lru_rel s' ns' (snd (spec_calls c ops xs))"
proof (induction new ops s arbitrary: ns xs rule: lru_calls.induct)
  case (2 new k ops s)
  from lru_get_sim [OF 2(3), of k] 2(4) obtain s1 ns1 where
    s1: "lru_get k s = Some (fst (spec_get k xs), s1)" "lru_rel s1 ns1 (snd (spec_get k xs))" "l_capacity s1 = c" by auto
  from 2(1) [OF s1(1) refl 2(2) s1(2,3)] s1(1) show ?case by (auto simp: case_prod_beta)
next
  case (3 new k v ops s)
  from lru_put_sim [OF 3(3,2), of k v] 3(4) obtain s1 ns1 where
    s1: "lru_put new k v s = Some s1" "lru_rel s1 ns1 (spec_put c k v xs)" "l_capacity s1 = c" by auto
  from 3(1) [OF s1(1) 3(2) s1(2,3)] s1(1) show ?case by auto
qed auto

lemma lru_new_rel:
  assumes "alloc_ok new"
  shows "lru_rel (lru_new new c) [] [] \<and> l_capacity (lru_new new c) = c"
proof -
  have "new {new {}} \<noteq> new {}" using assms unfolding alloc_ok_def by (metis finite.simps singletonI)
  then show ?thesis by (auto simp: lru_rel_def links_def lru_new_def new_node_def Let_def)
qed

text \<open>The size never exceeds the capacity.\<close>

lemma spec_put_length: "int (length xs) \<le> max 0 c \<Longrightarrow> int (length (spec_put c k v xs)) \<le> max 0 c"
proof -
  assume le: "int (length xs) \<le> max 0 c"
  have "length (without k xs) < length xs" if "map_of xs k = Some w" for w
    using that unfolding without_def by (intro length_filter_less [of "(k, w)"]) (auto dest: map_of_SomeD)
  then show ?thesis using le by (cases "map_of xs k") (fastforce simp: spec_put_def)+
qed

lemma spec_get_length: "length (snd (spec_get k xs)) \<le> length xs"
proof -
  have "length (without k xs) < length xs" if "map_of xs k = Some w" for w
    using that unfolding without_def by (intro length_filter_less [of "(k, w)"]) (auto dest: map_of_SomeD)
  then show ?thesis by (cases "map_of xs k") (auto simp: spec_get_def Suc_le_eq)
qed

lemma spec_calls_length: "int (length xs) \<le> max 0 c \<Longrightarrow> int (length (snd (spec_calls c ops xs))) \<le> max 0 c"
proof (induction c ops xs rule: spec_calls.induct)
  case (2 c k ops xs)
  obtain r ys where g: "spec_get k xs = (r, ys)" by fastforce
  then have "int (length ys) \<le> max 0 c" using spec_get_length [of k xs] 2(2) by simp
  with 2(1) [OF g [symmetric] refl] show ?case by (simp add: g case_prod_beta)
next
  case (3 c k v ops xs)
  then show ?case using spec_put_length [of xs c k v] by simp
qed simp

subsection \<open>The destructor\<close>

lemma destroy_loop_list:
  "linked (n_next s) pv (a # ns) \<Longrightarrow> n_next s (last (a # ns)) = None \<Longrightarrow> distinct (a # ns) \<Longrightarrow> set (a # ns) \<subseteq> n_live s \<Longrightarrow>
     \<exists>s'. destroy_loop (Some a) s = Some s' \<and> n_live s' = n_live s - set (a # ns)"
proof (induction ns arbitrary: a s)
  case Nil
  then show ?case by (subst destroy_loop.simps) (simp add: delete_node_def destroy_loop.simps [of None])
next
  case (Cons b ns)
  let ?s = "s\<lparr>n_live := n_live s - {a}\<rparr>"
  have "\<exists>s'. destroy_loop (Some b) ?s = Some s' \<and> n_live s' = n_live ?s - set (b # ns)"
    using Cons.prems by (intro Cons.IH) auto
  then obtain s' where s': "destroy_loop (Some b) ?s = Some s'" "n_live s' = n_live ?s - set (b # ns)" by blast
  have "destroy_loop (Some a) s = Some s'"
    using Cons.prems s'(1) by (subst destroy_loop.simps) (simp add: delete_node_def)
  with s'(2) show ?case by auto
qed

lemma lru_destroy_all:
  assumes "lru_rel s ns xs"
  shows "\<exists>s'. lru_destroy s = Some s' \<and> n_live s' = {}"
proof -
  have "linked (n_next s) (n_prev s) (l_head s # ns @ [l_tail s])" "n_next s (last (l_head s # ns @ [l_tail s])) = None"
      "distinct (l_head s # ns @ [l_tail s])" "n_live s = set (l_head s # ns @ [l_tail s])"
    using assms by (simp_all add: lru_rel_def links_def)
  from destroy_loop_list [OF this(1-3)] this(4) show ?thesis by (auto simp: lru_destroy_def)
qed

text \<open>Claim C35: the cache is a list of at most \<open>c\<close> entries, most recently used first.  Every sequence of \<^verbatim>\<open>get\<close> and \<^verbatim>\<open>put\<close> on a new
  cache of any capacity follows no null or dangling pointer and returns what the list returns: the value of the
  key, which becomes the first, or -1; a new key goes to the front and, over the capacity, the last entry leaves.
  Hash map, links and size stay in step with the list, and the destructor then frees every node exactly once.\<close>

theorem lru_refines_list:
  assumes "alloc_ok new"
  shows "\<exists>s ns s'. lru_calls new ops (lru_new new c) = Some (fst (spec_calls c ops []), s)
     \<and> lru_rel s ns (snd (spec_calls c ops [])) \<and> l_size s = int (length (snd (spec_calls c ops [])))
     \<and> l_size s \<le> max 0 c \<and> lru_destroy s = Some s' \<and> n_live s' = {}"
proof -
  obtain s ns where s: "lru_calls new ops (lru_new new c) = Some (fst (spec_calls c ops []), s)"
      "lru_rel s ns (snd (spec_calls c ops []))"
    using lru_calls_sim [OF assms] lru_new_rel [OF assms, of c] by blast
  have "l_size s = int (length (snd (spec_calls c ops [])))"
    using s(2) lru_rel_entries(1) [OF s(2)] by (simp add: lru_rel_def)
  with s lru_destroy_all [OF s(2)] spec_calls_length [of "[]" c ops] show ?thesis by auto
qed

text \<open>The calls of \<^verbatim>\<open>main\<close>.\<close>

definition lru_main :: "lru_op list" where
  "lru_main = [Lru_put 1 10, Lru_put 2 20, Lru_get 1, Lru_put 3 3, Lru_get 2]"

theorem lru_refines_list_witness:
  "\<exists>s. lru_calls (\<lambda>A. Suc (Max (insert 0 A))) lru_main (lru_new (\<lambda>A. Suc (Max (insert 0 A))) 2) = Some ([10, - 1], s)
     \<and> l_size s = 2"
proof -
  have "x < Suc (Max (insert 0 A))" if "finite A" "x \<in> A" for x :: nat and A
    using that by (simp add: le_imp_less_Suc)
  then have ok: "alloc_ok (\<lambda>A. Suc (Max (insert 0 A)))" unfolding alloc_ok_def by (metis less_irrefl)
  have "spec_calls 2 lru_main [] = ([10, - 1], [(3, 3), (1, 10)])"
    by (simp add: lru_main_def spec_get_def spec_put_def without_def)
  with lru_refines_list [OF ok, of lru_main 2] show ?thesis by auto
qed

end
