(* ===== verification/Random_List.thy ===== *)
theory Random_List
  imports Clang_Prelude
begin

text \<open>
  \<^verbatim>\<open>algo/Ya_4.cpp\<close>: \<^verbatim>\<open>copyRandomList\<close>, which copies a linked list whose nodes also have a pointer to any node of the list.

  The heap maps addresses to nodes; \<^verbatim>\<open>new\<close> takes the next unused address.  A null or unmapped pointer that is followed is
  undefined (the outer \<open>None\<close>), as is a loop that never ends.  The function returns \<^verbatim>\<open>nullptr\<close> for the empty list and falls off its
  end for any other list, so that its value is undefined: \<open>No_return\<close>.

  The property describes the heap it leaves: the copies follow their originals in the one list, with the random pointers of
  a copy.  The last part, which would separate the two lists and return the copy, is missing in the source.
\<close>

record rnode =
  rval :: int
  rnext :: "nat option"
  random :: "nat option"

record rheap =
  rcells :: "nat \<Rightarrow> rnode option"
  fresh :: nat

definition new_Node :: "int \<Rightarrow> rheap \<Rightarrow> nat \<times> rheap" where
  "new_Node v h = (fresh h, h\<lparr>rcells := (rcells h)(fresh h \<mapsto> \<lparr>rval = v, rnext = None, random = None\<rparr>), fresh := fresh h + 1\<rparr>)"

definition put_node :: "nat \<Rightarrow> (rnode \<Rightarrow> rnode) \<Rightarrow> rheap \<Rightarrow> rheap option" where
  "put_node a f h = (case rcells h a of None \<Rightarrow> None | Some n \<Rightarrow> Some (h\<lparr>rcells := (rcells h)(a \<mapsto> f n)\<rparr>))"

text \<open>The first loop: a new node after each node.\<close>

partial_function (option) copy_loop :: "nat option \<Rightarrow> rheap \<Rightarrow> rheap option" where
  "copy_loop cur h = (case cur of None \<Rightarrow> Some h
     | Some c \<Rightarrow> do {
         n \<leftarrow> rcells h c;
         let (node, h) = new_Node (rval n) h;
         h \<leftarrow> put_node node (\<lambda>m. m\<lparr>rnext := rnext n\<rparr>) h;
         h \<leftarrow> put_node c (\<lambda>m. m\<lparr>rnext := Some node\<rparr>) h;
         m \<leftarrow> rcells h node;
         copy_loop (rnext m) h })"

text \<open>The second loop: the random pointers of the new nodes.\<close>

partial_function (option) random_loop :: "nat option \<Rightarrow> rheap \<Rightarrow> rheap option" where
  "random_loop cur h = (case cur of None \<Rightarrow> Some h
     | Some c \<Rightarrow> do {
         n \<leftarrow> rcells h c;
         h \<leftarrow> (case random n of None \<Rightarrow> Some h
           | Some r \<Rightarrow> do { m \<leftarrow> rcells h r; a \<leftarrow> rnext n; put_node a (\<lambda>k. k\<lparr>random := rnext m\<rparr>) h });
         n \<leftarrow> rcells h c;
         a \<leftarrow> rnext n;
         m \<leftarrow> rcells h a;
         random_loop (rnext m) h })"

datatype copy_result = Null_ptr | No_return

definition copyRandomList :: "nat option \<Rightarrow> rheap \<Rightarrow> (copy_result \<times> rheap) option" where
  "copyRandomList head h =
     (if head = None then Some (Null_ptr, h)
      else do { h \<leftarrow> copy_loop head h; h \<leftarrow> random_loop head h; Some (No_return, h) })"

subsection \<open>The heap in between\<close>

definition pos :: "nat list \<Rightarrow> nat \<Rightarrow> nat" where
  "pos xs x = length (takeWhile (\<lambda>y. y \<noteq> x) xs)"

lemma pos_Cons [simp]: "pos (x # xs) y = (if x = y then 0 else Suc (pos xs y))"
  by (simp add: pos_def)

lemma pos_less: "x \<in> set xs \<Longrightarrow> pos xs x < length xs"
  by (induction xs) auto

lemma nth_pos: "x \<in> set xs \<Longrightarrow> xs ! pos xs x = x"
  by (induction xs) auto

lemma pos_nth: "distinct xs \<Longrightarrow> i < length xs \<Longrightarrow> pos xs (xs ! i) = i"
  by (induction xs arbitrary: i) (auto simp: nth_Cons split: nat.splits)

definition is_list :: "nat list \<Rightarrow> nat option \<Rightarrow> rheap \<Rightarrow> bool" where
  "is_list xs p h \<longleftrightarrow> chain (\<lambda>x. rnext (the (rcells h x))) p xs None \<and> distinct xs \<and> (\<forall>x \<in> set xs. rcells h x \<noteq> None)
     \<and> (\<forall>a. rcells h a \<noteq> None \<longrightarrow> a < fresh h)"

text \<open>The cells when every node of \<open>xs\<close> has its copy, and the copies of the nodes in \<open>D\<close> their random pointers.\<close>

definition copied :: "nat list \<Rightarrow> nat set \<Rightarrow> rheap \<Rightarrow> nat \<Rightarrow> rnode option" where
  "copied xs D h a =
     (if a \<in> set xs then Some ((the (rcells h a))\<lparr>rnext := Some (fresh h + pos xs a)\<rparr>)
      else if fresh h \<le> a \<and> a < fresh h + length xs then
        (let n = the (rcells h (xs ! (a - fresh h)))
         in Some \<lparr>rval = rval n, rnext = rnext n,
              random = (if xs ! (a - fresh h) \<in> D then map_option (\<lambda>r. fresh h + pos xs r) (random n) else None)\<rparr>)
      else rcells h a)"

lemma is_list_Cons:
  assumes "is_list (x # xs) p h"
  obtains n where "p = Some x" "rcells h x = Some n" "x < fresh h" "x \<notin> set xs" "is_list xs (rnext n) h"
  using assms by (auto simp: is_list_def)

lemma chain_cong: "(\<And>x. x \<in> set xs \<Longrightarrow> nx x = nx' x) \<Longrightarrow> chain nx p xs q = chain nx' p xs q"
  by (induction xs arbitrary: p) auto

lemma copy_loop_copies:
  "is_list xs p h \<Longrightarrow> copy_loop p h = Some (h\<lparr>rcells := copied xs {} h, fresh := fresh h + length xs\<rparr>)"
proof (induction xs arbitrary: p h)
  case Nil
  moreover have "copied [] {} h = rcells h" by (auto simp: copied_def fun_eq_iff)
  ultimately show ?case by (subst copy_loop.simps) (simp add: is_list_def)
next
  case (Cons x xs)
  from Cons.prems obtain n where n: "p = Some x" "rcells h x = Some n" "x < fresh h" "x \<notin> set xs" "is_list xs (rnext n) h"
    by (rule is_list_Cons)
  let ?h = "h\<lparr>fresh := fresh h + 1,
    rcells := (rcells h)(fresh h \<mapsto> \<lparr>rval = rval n, rnext = rnext n, random = None\<rparr>, x \<mapsto> n\<lparr>rnext := Some (fresh h)\<rparr>)\<rparr>"
  have fr: "fresh h \<notin> set xs" using n(5) by (auto simp: is_list_def)
  have c: "copy_loop p h = copy_loop (rnext n) ?h"
    by (subst copy_loop.simps) (use n(1-3) in \<open>simp add: new_Node_def put_node_def\<close>)
  have "chain (\<lambda>y. rnext (the (rcells ?h y))) (rnext n) xs None = chain (\<lambda>y. rnext (the (rcells h y))) (rnext n) xs None"
    using fr n(4) by (intro chain_cong) auto
  with n fr have l: "is_list xs (rnext n) ?h" by (auto simp: is_list_def less_Suc_eq)
  have "copied xs {} ?h a = copied (x # xs) {} h a" for a
  proof (cases "fresh h < a \<and> a \<le> fresh h + length xs")
    case True
    then have "a - fresh h = Suc (a - Suc (fresh h))" "a - Suc (fresh h) < length xs" by auto
    moreover from this n(4) fr have "xs ! (a - Suc (fresh h)) \<noteq> x" "xs ! (a - Suc (fresh h)) \<noteq> fresh h"
      by (metis nth_mem)+
    ultimately show ?thesis using True n(1-4) fr by (simp add: copied_def)
  next
    case False
    then show ?thesis using n fr by (auto simp: copied_def Let_def)
  qed
  then have "copied xs {} ?h = copied (x # xs) {} h" ..
  with c Cons.IH [OF l] show ?case by simp
qed

text \<open>The second loop, from the node after the part \<open>us\<close> on.\<close>

definition mid_heap :: "nat list \<Rightarrow> nat set \<Rightarrow> rheap \<Rightarrow> rheap" where
  "mid_heap xs D h = h\<lparr>rcells := copied xs D h, fresh := fresh h + length xs\<rparr>"

lemma copied_node: "x \<in> set xs \<Longrightarrow> copied xs D h x = Some ((the (rcells h x))\<lparr>rnext := Some (fresh h + pos xs x)\<rparr>)"
  by (simp add: copied_def)

lemma copied_copy:
  assumes "is_list xs p h" "x \<in> set xs" "rcells h x = Some n"
  shows "copied xs D h (fresh h + pos xs x)
    = Some \<lparr>rval = rval n, rnext = rnext n, random = (if x \<in> D then map_option (\<lambda>r. fresh h + pos xs r) (random n) else None)\<rparr>"
proof -
  have "fresh h + pos xs x \<notin> set xs" using assms(1) by (auto simp: is_list_def)
  then show ?thesis using assms pos_less [OF assms(2)] nth_pos [OF assms(2)] by (simp add: copied_def)
qed

lemma copied_insert:
  assumes "is_list xs p h" "x \<in> set xs" "rcells h x = Some n"
  shows "copied xs (insert x D) h = (copied xs D h)(fresh h + pos xs x \<mapsto>
    \<lparr>rval = rval n, rnext = rnext n, random = map_option (\<lambda>r. fresh h + pos xs r) (random n)\<rparr>)"
proof
  fix a
  show "copied xs (insert x D) h a = ((copied xs D h)(fresh h + pos xs x \<mapsto>
    \<lparr>rval = rval n, rnext = rnext n, random = map_option (\<lambda>r. fresh h + pos xs r) (random n)\<rparr>)) a"
  proof (cases "a = fresh h + pos xs x")
    case True
    with copied_copy [OF assms, of "insert x D"] show ?thesis by simp
  next
    case False
    have "xs ! (a - fresh h) \<noteq> x" if "fresh h \<le> a" "a < fresh h + length xs"
      using False that assms(1) pos_nth [of xs "a - fresh h"] by (auto simp: is_list_def)
    with False show ?thesis by (auto simp: copied_def Let_def)
  qed
qed

lemma random_loop_sets:
  assumes "is_list xs p h" "\<forall>x \<in> set xs. \<forall>r. random (the (rcells h x)) = Some r \<longrightarrow> r \<in> set xs"
    and "is_list vs q h" "set vs \<subseteq> set xs"
  shows "random_loop q (mid_heap xs D h) = Some (mid_heap xs (D \<union> set vs) h)"
  using assms(3,4)
proof (induction vs arbitrary: q D)
  case Nil
  then show ?case by (subst random_loop.simps) (simp add: is_list_def)
next
  case (Cons x vs)
  from Cons.prems(1) obtain n where n: "q = Some x" "rcells h x = Some n" "is_list vs (rnext n) h" by (rule is_list_Cons)
  have x: "x \<in> set xs" using Cons.prems(2) by simp
  note cp = copied_copy [OF assms(1) x n(2)] and ins = copied_insert [OF assms(1) x n(2), of D]
  have set: "(case random n of None \<Rightarrow> Some (mid_heap xs D h)
     | Some r \<Rightarrow> do { m \<leftarrow> rcells (mid_heap xs D h) r; a \<leftarrow> Some (fresh h + pos xs x);
         put_node a (\<lambda>k. k\<lparr>random := rnext m\<rparr>) (mid_heap xs D h) }) = Some (mid_heap xs (insert x D) h)"
  proof (cases "random n")
    case None
    have "copied xs (insert x D) h = copied xs D h" using ins cp [of D] None by (auto simp: fun_eq_iff)
    with None show ?thesis by (simp add: mid_heap_def)
  next
    case (Some r)
    with assms(2) x n(2) have r: "r \<in> set xs" by auto
    show ?thesis using Some cp [of D] ins copied_node [OF r, of D h] by (simp add: mid_heap_def put_node_def)
  qed
  have cell: "rcells (mid_heap xs E h) x = Some (n\<lparr>rnext := Some (fresh h + pos xs x)\<rparr>)" for E
    using copied_node [OF x, of E h] n(2) by (simp add: mid_heap_def)
  have copy: "rcells (mid_heap xs E h) (fresh h + pos xs x) = copied xs E h (fresh h + pos xs x)" for E
    by (simp add: mid_heap_def)
  have "random_loop q (mid_heap xs D h) = random_loop (rnext n) (mid_heap xs (insert x D) h)"
    using set by (subst random_loop.simps) (simp add: n(1) cell copy cp cong: option.case_cong)
  with Cons.IH [OF n(3), of "insert x D"] Cons.prems(2) show ?case by simp
qed

text \<open>Claim C40: for a list whose random pointers stay inside the list, \<^verbatim>\<open>copyRandomList\<close> ends, leaves the values and random
  pointers of the originals alone, and threads a new node behind each original: with the same value, the next original behind
  it, and a random pointer to the copy of the node its original points to.  The new addresses were unused.  For a
  non-empty list it returns no value.\<close>

theorem copy_random_list:
  assumes "is_list xs p h" "\<forall>x \<in> set xs. \<forall>r. random (the (rcells h x)) = Some r \<longrightarrow> r \<in> set xs"
  shows "\<exists>h'. copyRandomList p h = Some (if xs = [] then Null_ptr else No_return, h')
    \<and> (\<forall>x \<in> set xs. rcells h' x = Some ((the (rcells h x))\<lparr>rnext := Some (fresh h + pos xs x)\<rparr>)
         \<and> rcells h (fresh h + pos xs x) = None
         \<and> rcells h' (fresh h + pos xs x) = Some \<lparr>rval = rval (the (rcells h x)), rnext = rnext (the (rcells h x)),
             random = map_option (\<lambda>r. fresh h + pos xs r) (random (the (rcells h x)))\<rparr>)"
proof (cases xs)
  case Nil
  with assms(1) show ?thesis by (simp add: is_list_def copyRandomList_def)
next
  case (Cons x ys)
  with assms(1) have p: "p \<noteq> None" by (simp add: is_list_def)
  have "random_loop p (mid_heap xs {} h) = Some (mid_heap xs (set xs) h)"
    using random_loop_sets [OF assms assms(1), of "{}"] by simp
  with copy_loop_copies [OF assms(1)] p Cons have run: "copyRandomList p h = Some (No_return, mid_heap xs (set xs) h)"
    by (simp add: copyRandomList_def mid_heap_def)
  moreover have "rcells (mid_heap xs (set xs) h) y = Some ((the (rcells h y))\<lparr>rnext := Some (fresh h + pos xs y)\<rparr>)
      \<and> rcells h (fresh h + pos xs y) = None
      \<and> rcells (mid_heap xs (set xs) h) (fresh h + pos xs y) = Some \<lparr>rval = rval (the (rcells h y)),
          rnext = rnext (the (rcells h y)), random = map_option (\<lambda>r. fresh h + pos xs r) (random (the (rcells h y)))\<rparr>"
    if y: "y \<in> set xs" for y
  proof -
    from assms(1) y obtain n where n: "rcells h y = Some n" by (auto simp: is_list_def)
    have "rcells h (fresh h + pos xs y) = None" using assms(1) by (meson is_list_def not_add_less1)
    then show ?thesis using n copied_copy [OF assms(1) y n, of "set xs"] y by (simp add: mid_heap_def copied_node)
  qed
  moreover have "xs \<noteq> []" using Cons by simp
  ultimately show ?thesis by auto
qed

definition two_nodes :: rheap where
  "two_nodes = \<lparr>rcells = [1 \<mapsto> \<lparr>rval = 7, rnext = Some 2, random = Some 2\<rparr>, 2 \<mapsto> \<lparr>rval = 9, rnext = None, random = Some 2\<rparr>],
     fresh = 3\<rparr>"

theorem copy_random_list_witness:
  "\<exists>h'. copyRandomList (Some 1) two_nodes = Some (No_return, h')
    \<and> rcells h' 3 = Some \<lparr>rval = 7, rnext = Some 2, random = Some 4\<rparr>
    \<and> rcells h' 4 = Some \<lparr>rval = 9, rnext = None, random = Some 4\<rparr>"
proof -
  have "is_list [1, 2] (Some 1) two_nodes" by (auto simp: is_list_def two_nodes_def split: if_splits)
  from copy_random_list [OF this] show ?thesis by (auto simp: two_nodes_def)
qed

end
