(* ===== verification/Shared_Ptr.thy ===== *)
theory Shared_Ptr
  imports Clang_Prelude
begin

text \<open>
  \<^verbatim>\<open>Cpp/shared_ptr.cpp\<close>: the reference-counted pointer.  The state holds the \<^verbatim>\<open>SharedPtr\<close> objects by name, the control blocks with
  their counts and the set of live managed objects; using or deleting a control block or object that is not live is
  \<open>None\<close>.  The atomic counter makes each change of a count one step; the operations are modelled one after another.  The constructor
  from a raw pointer initialises a member from an undeclared name and does not compile, so objects enter through
  \<^verbatim>\<open>reset\<close>.  The address of a new control block is the argument \<open>new\<close>, of which only that it is not in use is assumed.

  The specification says for each pointer which object it owns.  The property says that every legal sequence of operations
  refines it, with every count equal to the number of owners and exactly the owned objects alive.
\<close>

subsection \<open>The code\<close>

record shared_ptr =
  sp_ptr :: ptr
  sp_ref :: ptr

record sp_state =
  sp_vars :: "nat \<Rightarrow> shared_ptr option"
  sp_counts :: "addr \<Rightarrow> int option"
  sp_objs :: "addr set"

definition null_sp :: shared_ptr where
  "null_sp = \<lparr>sp_ptr = None, sp_ref = None\<rparr>"

definition set_var :: "nat \<Rightarrow> shared_ptr \<Rightarrow> sp_state \<Rightarrow> sp_state" where
  "set_var x v s = s\<lparr>sp_vars := (sp_vars s)(x \<mapsto> v)\<rparr>"

text \<open>\<^verbatim>\<open>SharedCount\<close>: a new count is 1; \<open>None\<close> is a block that is not live.\<close>

definition count_new :: "(addr set \<Rightarrow> addr) \<Rightarrow> sp_state \<Rightarrow> addr \<times> sp_state" where
  "count_new new s = (let c = new (dom (sp_counts s)) in (c, s\<lparr>sp_counts := (sp_counts s)(c \<mapsto> 1)\<rparr>))"

definition count_add :: "addr \<Rightarrow> sp_state \<Rightarrow> sp_state option" where
  "count_add c s = do { n \<leftarrow> sp_counts s c; Some (s\<lparr>sp_counts := (sp_counts s)(c \<mapsto> n + 1)\<rparr>) }"

definition count_minus :: "addr \<Rightarrow> sp_state \<Rightarrow> (int \<times> sp_state) option" where
  "count_minus c s = do { n \<leftarrow> sp_counts s c; Some (n - 1, s\<lparr>sp_counts := (sp_counts s)(c \<mapsto> n - 1)\<rparr>) }"

definition delete_obj :: "ptr \<Rightarrow> sp_state \<Rightarrow> sp_state option" where
  "delete_obj p s = (case p of None \<Rightarrow> Some s
     | Some a \<Rightarrow> if a \<in> sp_objs s then Some (s\<lparr>sp_objs := sp_objs s - {a}\<rparr>) else None)"

definition delete_count :: "addr \<Rightarrow> sp_state \<Rightarrow> sp_state option" where
  "delete_count c s = (if c \<in> dom (sp_counts s) then Some (s\<lparr>sp_counts := (sp_counts s)(c := None)\<rparr>) else None)"

definition sp_clean :: "nat \<Rightarrow> sp_state \<Rightarrow> sp_state option" where
  "sp_clean x s = do {
     v \<leftarrow> sp_vars s x;
     case sp_ref v of
       None \<Rightarrow> Some s
     | Some c \<Rightarrow> do {
         (n, s1) \<leftarrow> count_minus c s;
         s2 \<leftarrow> (if n = 0 then do { s' \<leftarrow> delete_obj (sp_ptr v) s1; delete_count c s' } else Some s1);
         Some (set_var x null_sp s2) } }"

text \<open>\<^verbatim>\<open>if (ref_count) ref_count->add()\<close>.\<close>

definition add_ref :: "ptr \<Rightarrow> sp_state \<Rightarrow> sp_state option" where
  "add_ref r s = (case r of None \<Rightarrow> Some s | Some c \<Rightarrow> count_add c s)"

definition sp_default :: "nat \<Rightarrow> sp_state \<Rightarrow> sp_state option" where
  "sp_default x s = Some (set_var x null_sp s)"

definition sp_destroy :: "nat \<Rightarrow> sp_state \<Rightarrow> sp_state option" where
  "sp_destroy x s = do { s1 \<leftarrow> sp_clean x s; Some (s1\<lparr>sp_vars := (sp_vars s1)(x := None)\<rparr>) }"

definition sp_copy :: "nat \<Rightarrow> nat \<Rightarrow> sp_state \<Rightarrow> sp_state option" where
  "sp_copy x y s = do { v \<leftarrow> sp_vars s y; add_ref (sp_ref v) (set_var x v s) }"

definition sp_move :: "nat \<Rightarrow> nat \<Rightarrow> sp_state \<Rightarrow> sp_state option" where
  "sp_move x y s = do { v \<leftarrow> sp_vars s y; Some (set_var y null_sp (set_var x v s)) }"

definition sp_assign :: "nat \<Rightarrow> nat \<Rightarrow> sp_state \<Rightarrow> sp_state option" where
  "sp_assign x y s =
     (if x = y then Some s
      else do { s1 \<leftarrow> sp_clean x s; v \<leftarrow> sp_vars s1 y; add_ref (sp_ref v) (set_var x v s1) })"

definition sp_move_assign :: "nat \<Rightarrow> nat \<Rightarrow> sp_state \<Rightarrow> sp_state option" where
  "sp_move_assign x y s =
     (if x = y then Some s
      else do { s1 \<leftarrow> sp_clean x s; v \<leftarrow> sp_vars s1 y; Some (set_var y null_sp (set_var x v s1)) })"

definition sp_reset :: "(addr set \<Rightarrow> addr) \<Rightarrow> nat \<Rightarrow> ptr \<Rightarrow> sp_state \<Rightarrow> sp_state option" where
  "sp_reset new x new_ptr s = do {
     s1 \<leftarrow> sp_clean x s;
     case new_ptr of
       None \<Rightarrow> Some s1
     | Some p \<Rightarrow> (case count_new new s1 of (c, s2) \<Rightarrow> Some (set_var x \<lparr>sp_ptr = Some p, sp_ref = Some c\<rparr> s2)) }"

definition sp_swap :: "nat \<Rightarrow> nat \<Rightarrow> sp_state \<Rightarrow> sp_state option" where
  "sp_swap x y s = do { v \<leftarrow> sp_vars s x; w \<leftarrow> sp_vars s y; Some (set_var y v (set_var x w s)) }"

subsection \<open>Operations and their specification\<close>

text \<open>\<open>Sp_reset_new x p\<close> is \<^verbatim>\<open>x.reset(new T)\<close> with the object at the address \<open>p\<close>.\<close>

datatype sp_op = Sp_default nat | Sp_destroy nat | Sp_copy nat nat | Sp_move nat nat | Sp_assign nat nat
  | Sp_move_assign nat nat | Sp_reset nat | Sp_reset_new nat addr | Sp_swap nat nat

fun sp_do :: "(addr set \<Rightarrow> addr) \<Rightarrow> sp_op \<Rightarrow> sp_state \<Rightarrow> sp_state option" where
  "sp_do new (Sp_default x) s = sp_default x s"
| "sp_do new (Sp_destroy x) s = sp_destroy x s"
| "sp_do new (Sp_copy x y) s = sp_copy x y s"
| "sp_do new (Sp_move x y) s = sp_move x y s"
| "sp_do new (Sp_assign x y) s = sp_assign x y s"
| "sp_do new (Sp_move_assign x y) s = sp_move_assign x y s"
| "sp_do new (Sp_reset x) s = sp_reset new x None s"
| "sp_do new (Sp_reset_new x p) s = sp_reset new x (Some p) (s\<lparr>sp_objs := insert p (sp_objs s)\<rparr>)"
| "sp_do new (Sp_swap x y) s = sp_swap x y s"

type_synonym ownership = "nat \<Rightarrow> ptr option"

definition owned :: "ownership \<Rightarrow> addr set" where
  "owned a = {p. \<exists>x. a x = Some (Some p)}"

fun own_do :: "sp_op \<Rightarrow> ownership \<Rightarrow> ownership" where
  "own_do (Sp_default x) a = a(x \<mapsto> None)"
| "own_do (Sp_destroy x) a = a(x := None)"
| "own_do (Sp_copy x y) a = a(x := a y)"
| "own_do (Sp_move x y) a = a(x := a y, y \<mapsto> None)"
| "own_do (Sp_assign x y) a = a(x := a y)"
| "own_do (Sp_move_assign x y) a = (if x = y then a else a(x := a y, y \<mapsto> None))"
| "own_do (Sp_reset x) a = a(x \<mapsto> None)"
| "own_do (Sp_reset_new x p) a = a(x \<mapsto> Some p)"
| "own_do (Sp_swap x y) a = a(x := a y, y := a x)"

text \<open>Constructors make new pointers, the others work on existing ones; a new object has a new address.\<close>

fun own_ok :: "sp_op \<Rightarrow> ownership \<Rightarrow> bool" where
  "own_ok (Sp_default x) a \<longleftrightarrow> a x = None"
| "own_ok (Sp_destroy x) a \<longleftrightarrow> a x \<noteq> None"
| "own_ok (Sp_copy x y) a \<longleftrightarrow> a x = None \<and> a y \<noteq> None"
| "own_ok (Sp_move x y) a \<longleftrightarrow> a x = None \<and> a y \<noteq> None"
| "own_ok (Sp_assign x y) a \<longleftrightarrow> a x \<noteq> None \<and> a y \<noteq> None"
| "own_ok (Sp_move_assign x y) a \<longleftrightarrow> a x \<noteq> None \<and> a y \<noteq> None"
| "own_ok (Sp_reset x) a \<longleftrightarrow> a x \<noteq> None"
| "own_ok (Sp_reset_new x p) a \<longleftrightarrow> a x \<noteq> None \<and> p \<notin> owned a"
| "own_ok (Sp_swap x y) a \<longleftrightarrow> a x \<noteq> None \<and> a y \<noteq> None"

subsection \<open>The invariant\<close>

definition owners :: "sp_state \<Rightarrow> addr \<Rightarrow> nat set" where
  "owners s c = {x. \<exists>v. sp_vars s x = Some v \<and> sp_ref v = Some c}"

definition managed :: "sp_state \<Rightarrow> addr set" where
  "managed s = {p. \<exists>x v. sp_vars s x = Some v \<and> sp_ptr v = Some p}"

text \<open>Pointers share a control block exactly if they share the object.\<close>

definition sp_paired :: "sp_state \<Rightarrow> bool" where
  "sp_paired s \<longleftrightarrow> finite (dom (sp_vars s)) \<and> (\<forall>x v. sp_vars s x = Some v \<longrightarrow> (sp_ref v = None \<longleftrightarrow> sp_ptr v = None))
     \<and> (\<forall>x y v w. sp_vars s x = Some v \<longrightarrow> sp_vars s y = Some w \<longrightarrow> (sp_ref v = sp_ref w \<longleftrightarrow> sp_ptr v = sp_ptr w))"

definition sp_inv :: "sp_state \<Rightarrow> bool" where
  "sp_inv s \<longleftrightarrow> sp_paired s \<and> sp_objs s = managed s
     \<and> sp_counts s = (\<lambda>c. if owners s c = {} then None else Some (int (card (owners s c))))"

definition owns :: "sp_state \<Rightarrow> ownership" where
  "owns s = (\<lambda>x. map_option sp_ptr (sp_vars s x))"

lemma set_var_simps [simp]:
  "sp_vars (set_var x v s) = (sp_vars s)(x \<mapsto> v)" "sp_counts (set_var x v s) = sp_counts s" "sp_objs (set_var x v s) = sp_objs s"
  by (simp_all add: set_var_def)

lemma null_sp_simps [simp]: "sp_ptr null_sp = None" "sp_ref null_sp = None"
  by (simp_all add: null_sp_def)

lemma sp_pairedD:
  "sp_paired s \<Longrightarrow> sp_vars s x = Some v \<Longrightarrow> sp_ref v = None \<longleftrightarrow> sp_ptr v = None"
  "sp_paired s \<Longrightarrow> sp_vars s x = Some v \<Longrightarrow> sp_vars s y = Some w \<Longrightarrow> sp_ref v = sp_ref w \<longleftrightarrow> sp_ptr v = sp_ptr w"
  unfolding sp_paired_def by blast+

lemma sp_paired_cong:
  assumes pd: "sp_paired s" and fin: "finite (dom (sp_vars s'))"
    and sub: "\<And>x v. sp_vars s' x = Some v \<Longrightarrow> v = null_sp \<or> (\<exists>y. sp_vars s y = Some v)"
  shows "sp_paired s'"
proof -
  have one: "sp_ref v = None \<longleftrightarrow> sp_ptr v = None" if "sp_vars s' x = Some v" for x v
    using sub [OF that] sp_pairedD(1) [OF pd] by auto
  have "sp_ref v = sp_ref w \<longleftrightarrow> sp_ptr v = sp_ptr w" if v: "sp_vars s' x = Some v" and w: "sp_vars s' y = Some w" for x y v w
  proof (cases "v = null_sp \<or> w = null_sp")
    case True
    with one [OF v] one [OF w] show ?thesis by auto
  next
    case False
    with sub [OF v] sub [OF w] sp_pairedD(2) [OF pd] show ?thesis by auto
  qed
  with one fin show ?thesis unfolding sp_paired_def by blast
qed

lemma owners_finite: "sp_paired s \<Longrightarrow> finite (owners s c)"
  by (rule finite_subset [of _ "dom (sp_vars s)"]) (auto simp: owners_def sp_paired_def)

lemma owners_upd:
  "sp_vars s' = (sp_vars s)(x \<mapsto> v) \<Longrightarrow>
     owners s' c = (if sp_ref v = Some c then insert x (owners s c) else owners s c - {x})"
  by (auto simp: owners_def)

lemma managed_upd:
  "sp_vars s' = (sp_vars s)(x \<mapsto> v) \<Longrightarrow>
     managed s' = (\<Union>y \<in> - {x}. {p. \<exists>w. sp_vars s y = Some w \<and> sp_ptr w = Some p}) \<union> {p. sp_ptr v = Some p}"
  by (auto simp: managed_def)

lemma managed_null:
  assumes "sp_vars s' = (sp_vars s)(x \<mapsto> null_sp)" "sp_vars s x = Some v" "sp_ptr v = Some p"
  shows "managed s' = (if \<exists>y w. y \<noteq> x \<and> sp_vars s y = Some w \<and> sp_ptr w = Some p then managed s else managed s - {p})"
proof -
  have "q \<in> managed s' \<union> {p}" if q: "q \<in> managed s" for q
  proof -
    obtain y w where "sp_vars s y = Some w" "sp_ptr w = Some q" using q by (auto simp: managed_def)
    with assms show ?thesis by (cases "y = x") (auto simp: managed_def)
  qed
  moreover have "managed s' \<union> {p} \<subseteq> managed s" using assms by (auto simp: managed_def split: if_splits)
  ultimately have "managed s = managed s' \<union> {p}" by blast
  moreover have "p \<in> managed s' \<longleftrightarrow> (\<exists>y w. y \<noteq> x \<and> sp_vars s y = Some w \<and> sp_ptr w = Some p)"
    using assms by (auto simp: managed_def split: if_splits)
  ultimately show ?thesis by auto
qed

lemma sp_clean_inv:
  assumes inv: "sp_inv s" and v: "sp_vars s x = Some v"
  shows "\<exists>s'. sp_clean x s = Some s' \<and> sp_inv s' \<and> sp_vars s' = (sp_vars s)(x \<mapsto> null_sp)"
proof (cases "sp_ref v")
  case None
  then have "v = null_sp" using inv v by (auto simp: sp_inv_def sp_paired_def null_sp_def)
  with v have "sp_vars s = (sp_vars s)(x \<mapsto> null_sp)" by auto
  with None inv v show ?thesis by (simp add: sp_clean_def)
next
  case (Some c)
  have pd: "sp_paired s" and objs: "sp_objs s = managed s"
    and cts: "\<And>d. sp_counts s d = (if owners s d = {} then None else Some (int (card (owners s d))))"
    using inv by (simp_all add: sp_inv_def)
  obtain p where p: "sp_ptr v = Some p" using sp_pairedD(1) [OF pd v] Some by (cases "sp_ptr v") auto
  have x: "x \<in> owners s c" using v Some by (auto simp: owners_def)
  then have cnt: "sp_counts s c = Some (int (card (owners s c)))" using inv by (auto simp: sp_inv_def)
  let ?n = "int (card (owners s c))" and ?vars = "(sp_vars s)(x \<mapsto> null_sp)"
  have card: "card (owners s c - {x}) = card (owners s c) - 1" "0 < card (owners s c)"
    using x owners_finite [OF pd] by (auto simp: card_gt_0_iff)
  have pd': "sp_paired (s\<lparr>sp_vars := ?vars, sp_counts := k, sp_objs := l\<rparr>)" for k l
    using pd by (intro sp_paired_cong [OF pd]) (auto simp: sp_paired_def split: if_splits)
  have ow: "owners (s\<lparr>sp_vars := ?vars, sp_counts := k, sp_objs := l\<rparr>) d = owners s d - {x}" for k l d
    using owners_upd [of _ s x null_sp] by auto
  have others: "owners s d - {x} = owners s d" if "d \<noteq> c" for d using that v Some by (auto simp: owners_def)
  show ?thesis
  proof (cases "card (owners s c) = 1")
    case True
    then have only: "owners s c = {x}" using x by (auto simp: card_1_singleton_iff)
    let ?s = "s\<lparr>sp_vars := ?vars, sp_counts := (sp_counts s)(c := None), sp_objs := sp_objs s - {p}\<rparr>"
    have "p \<in> sp_objs s" using inv v p by (auto simp: sp_inv_def managed_def)
    then have "sp_clean x s = Some ?s"
      using v Some cnt True p by (simp add: sp_clean_def count_minus_def delete_obj_def delete_count_def set_var_def)
    moreover have "managed ?s = sp_objs s - {p}"
    proof -
      have "y = x" if that: "sp_vars s y = Some w" "sp_ptr w = Some p" for y w
      proof -
        have "sp_ref w = Some c" using sp_pairedD(2) [OF pd v that(1)] that(2) p Some by simp
        then have "y \<in> owners s c" using that by (auto simp: owners_def)
        then show ?thesis by (simp add: only)
      qed
      then have "\<not> (\<exists>y w. y \<noteq> x \<and> sp_vars s y = Some w \<and> sp_ptr w = Some p)" by blast
      then show ?thesis using managed_null [of ?s s x v p] p v objs by auto
    qed
    moreover have "sp_counts ?s = (\<lambda>d. if owners ?s d = {} then None else Some (int (card (owners ?s d))))"
      using only others by (auto simp: cts ow fun_eq_iff)
    ultimately show ?thesis using pd' by (auto simp: sp_inv_def)
  next
    case False
    let ?s = "s\<lparr>sp_vars := ?vars, sp_counts := (sp_counts s)(c \<mapsto> ?n - 1)\<rparr>"
    have two: "2 \<le> card (owners s c)" using False card(2) by linarith
    have "\<not> owners s c \<subseteq> {x}"
    proof
      assume "owners s c \<subseteq> {x}"
      then have "card (owners s c) \<le> card {x}" by (intro card_mono) simp_all
      with two show False by simp
    qed
    then obtain y where y: "y \<in> owners s c" "y \<noteq> x" by blast
    have "sp_clean x s = Some ?s" using v Some cnt False card(2)
      by (simp add: sp_clean_def count_minus_def set_var_def)
    moreover have "managed ?s = sp_objs s"
    proof -
      obtain w where w: "sp_vars s y = Some w" "sp_ref w = Some c" using y by (auto simp: owners_def)
      then have "sp_ptr w = Some p" using sp_pairedD(2) [OF pd v w(1)] Some p by simp
      then have "\<exists>y w. y \<noteq> x \<and> sp_vars s y = Some w \<and> sp_ptr w = Some p" using w(1) y(2) by blast
      then show ?thesis using managed_null [of ?s s x v p] p v objs by auto
    qed
    moreover have "sp_counts ?s = (\<lambda>d. if owners ?s d = {} then None else Some (int (card (owners ?s d))))"
    proof
      fix d
      have "owners ?s d = owners s d - {x}" using ow [where k = "sp_counts ?s" and l = "sp_objs s" and d = d] by simp
      then show "sp_counts ?s d = (if owners ?s d = {} then None else Some (int (card (owners ?s d))))"
        using others [of d] card y by (cases "d = c") (auto simp: cts)
    qed
    moreover have "sp_paired ?s" using pd' [where k = "sp_counts ?s" and l = "sp_objs s"] by simp
    ultimately show ?thesis by (auto simp: sp_inv_def)
  qed
qed

lemma managed_eqI:
  assumes "\<And>y w. sp_vars s y = Some w \<Longrightarrow> w \<noteq> null_sp \<Longrightarrow> \<exists>z. sp_vars s' z = Some w"
    and "\<And>y w. sp_vars s' y = Some w \<Longrightarrow> w \<noteq> null_sp \<Longrightarrow> \<exists>z. sp_vars s z = Some w"
  shows "managed s' = managed s"
proof -
  have ne: "w \<noteq> null_sp" if "sp_ptr w = Some p" for w p using that by auto
  show ?thesis unfolding managed_def using assms ne by blast
qed

text \<open>States with the same blocks and objects whose pointers own them in the same numbers.\<close>

lemma sp_inv_cong:
  assumes inv: "sp_inv s" and eq: "sp_counts s' = sp_counts s" "sp_objs s' = sp_objs s" and pd: "sp_paired s'"
    and ow: "\<And>c. card (owners s' c) = card (owners s c) \<and> (owners s' c = {} \<longleftrightarrow> owners s c = {})" and mg: "managed s' = managed s"
  shows "sp_inv s'"
  using assms by (simp add: sp_inv_def fun_eq_iff)

lemma sp_null_inv:
  assumes inv: "sp_inv s" and x: "sp_vars s x = None" and vars: "sp_vars s' = (sp_vars s)(x \<mapsto> null_sp)"
    and eq: "sp_counts s' = sp_counts s" "sp_objs s' = sp_objs s"
  shows "sp_inv s'"
proof (rule sp_inv_cong [OF inv eq])
  have "sp_paired s" using inv by (simp add: sp_inv_def)
  then show "sp_paired s'" by (rule sp_paired_cong) (use \<open>sp_paired s\<close> in \<open>auto simp: vars sp_paired_def split: if_splits\<close>)
  have "owners s' c = owners s c" for c using x by (auto simp: owners_def vars)
  then show "card (owners s' c) = card (owners s c) \<and> (owners s' c = {} \<longleftrightarrow> owners s c = {})" for c by simp
  show "managed s' = managed s"
  proof (rule managed_eqI)
    fix y w assume "sp_vars s y = Some w"
    then have "sp_vars s' y = Some w" using x by (auto simp: vars)
    then show "\<exists>z. sp_vars s' z = Some w" ..
  qed (auto simp: vars split: if_splits)
qed

lemma sp_remove_inv:
  assumes inv: "sp_inv s" and x: "sp_vars s x = Some null_sp" and vars: "sp_vars s' = (sp_vars s)(x := None)"
    and eq: "sp_counts s' = sp_counts s" "sp_objs s' = sp_objs s"
  shows "sp_inv s'"
proof (rule sp_inv_cong [OF inv eq])
  have pd: "sp_paired s" using inv by (simp add: sp_inv_def)
  show "sp_paired s'" by (rule sp_paired_cong [OF pd]) (use pd in \<open>auto simp: vars sp_paired_def split: if_splits\<close>)
  have "owners s' c = owners s c" for c using x by (auto simp: owners_def vars split: if_splits)
  then show "card (owners s' c) = card (owners s c) \<and> (owners s' c = {} \<longleftrightarrow> owners s c = {})" for c by simp
  show "managed s' = managed s"
  proof (rule managed_eqI)
    fix y w assume "sp_vars s y = Some w" "w \<noteq> null_sp"
    then have "sp_vars s' y = Some w" using x by (auto simp: vars)
    then show "\<exists>z. sp_vars s' z = Some w" ..
  qed (auto simp: vars split: if_splits)
qed

lemma sp_swap_inv:
  assumes inv: "sp_inv s" and x: "sp_vars s x = Some v" "sp_vars s y = Some w"
    and vars: "sp_vars s' = (sp_vars s)(x \<mapsto> w, y \<mapsto> v)" and eq: "sp_counts s' = sp_counts s" "sp_objs s' = sp_objs s"
  shows "sp_inv s'"
proof (rule sp_inv_cong [OF inv eq])
  let ?f = "id(x := y, y := x)"
  have tr: "sp_vars s' z = sp_vars s (?f z)" for z using x by (auto simp: vars)
  have ff: "?f (?f z) = z" for z by simp
  have pd: "sp_paired s" using inv by (simp add: sp_inv_def)
  have "dom (sp_vars s') = dom (sp_vars s)" using x by (auto simp: vars split: if_splits)
  then show "sp_paired s'" using pd by (intro sp_paired_cong [OF pd]) (auto simp: tr sp_paired_def)
  show "managed s' = managed s" unfolding managed_def tr by (metis ff)
  have ow: "owners s' c = ?f ` owners s c" for c
  proof (intro set_eqI iffI)
    fix z assume "z \<in> owners s' c"
    then have "?f z \<in> owners s c" unfolding owners_def tr by blast
    then show "z \<in> ?f ` owners s c" using ff by (metis imageI)
  next
    fix z assume "z \<in> ?f ` owners s c"
    then obtain u where u: "u \<in> owners s c" "z = ?f u" by blast
    then have "?f z \<in> owners s c" using ff by metis
    then show "z \<in> owners s' c" unfolding owners_def tr by blast
  qed
  have "inj ?f" by (rule inj_on_inverseI [of _ ?f]) (rule ff)
  then show "card (owners s' c) = card (owners s c) \<and> (owners s' c = {} \<longleftrightarrow> owners s c = {})" for c
    unfolding ow using card_image [of ?f "owners s c"] by (auto intro: inj_on_subset)
qed

lemma sp_share_inv:
  assumes inv: "sp_inv s" and y: "sp_vars s y = Some v" and x: "sp_vars s x = None \<or> sp_vars s x = Some null_sp"
  shows "\<exists>s'. add_ref (sp_ref v) (set_var x v s) = Some s' \<and> sp_inv s' \<and> sp_vars s' = (sp_vars s)(x \<mapsto> v)"
proof -
  have pd: "sp_paired s" and objs: "sp_objs s = managed s"
    and cts: "\<And>d. sp_counts s d = (if owners s d = {} then None else Some (int (card (owners s d))))"
    using inv by (simp_all add: sp_inv_def)
  have out: "x \<notin> owners s d" for d using x by (auto simp: owners_def)
  have mg: "managed s' = managed s" if vars: "sp_vars s' = (sp_vars s)(x \<mapsto> v)" for s'
  proof (rule managed_eqI)
    fix z w assume "sp_vars s z = Some w" "w \<noteq> null_sp"
    then have "sp_vars s' z = Some w" using x by (auto simp: vars)
    then show "\<exists>z. sp_vars s' z = Some w" ..
  qed (use y in \<open>auto simp: vars split: if_splits\<close>)
  have pd': "sp_paired s'" if vars: "sp_vars s' = (sp_vars s)(x \<mapsto> v)" for s'
    using y pd by (intro sp_paired_cong [OF pd]) (auto simp: vars sp_paired_def split: if_splits)
  have ow: "owners s' d = (if sp_ref v = Some d then insert x (owners s d) else owners s d)" if "sp_vars s' = (sp_vars s)(x \<mapsto> v)" for s' d
    using owners_upd [OF that] out [of d] by simp
  show ?thesis
  proof (cases "sp_ref v")
    case None
    have "sp_inv (set_var x v s)"
      by (rule sp_inv_cong [OF inv]) (simp_all add: pd' mg ow None)
    with None show ?thesis by (simp add: add_ref_def)
  next
    case (Some c)
    have yo: "y \<in> owners s c" using y Some by (auto simp: owners_def)
    let ?s = "(set_var x v s)\<lparr>sp_counts := (sp_counts s)(c \<mapsto> int (card (owners s c)) + 1)\<rparr>"
    have "add_ref (sp_ref v) (set_var x v s) = Some ?s"
      using yo by (auto simp: add_ref_def Some count_add_def cts)
    moreover have "sp_counts ?s d = (if owners ?s d = {} then None else Some (int (card (owners ?s d))))" for d
      using ow [of ?s d] out [of c] owners_finite [OF pd, of c] by (auto simp: Some cts)
    then have "sp_inv ?s" using pd' [of ?s] mg [of ?s] objs by (simp add: sp_inv_def fun_eq_iff)
    ultimately show ?thesis by simp
  qed
qed

lemma sp_fresh_inv:
  assumes inv: "sp_inv s" and x: "sp_vars s x = Some null_sp" and p: "p \<notin> sp_objs s" and c: "sp_counts s c = None"
    and s': "s' = s\<lparr>sp_vars := (sp_vars s)(x \<mapsto> \<lparr>sp_ptr = Some p, sp_ref = Some c\<rparr>), sp_counts := (sp_counts s)(c \<mapsto> 1),
                  sp_objs := insert p (sp_objs s)\<rparr>"
  shows "sp_inv s'"
proof -
  let ?v = "\<lparr>sp_ptr = Some p, sp_ref = Some c\<rparr>"
  have pd: "sp_paired s" and objs: "sp_objs s = managed s"
    and cts: "\<And>d. sp_counts s d = (if owners s d = {} then None else Some (int (card (owners s d))))"
    using inv by (simp_all add: sp_inv_def)
  have vars: "sp_vars s' = (sp_vars s)(x \<mapsto> ?v)" by (simp add: s')
  have no_c: "sp_ref w \<noteq> Some c" if "sp_vars s y = Some w" for y w
    using c that cts [of c] by (auto simp: owners_def split: if_splits)
  have no_p: "sp_ptr w \<noteq> Some p" if "sp_vars s y = Some w" for y w
    using p that by (auto simp: objs managed_def)
  have oc: "owners s c = {}" using c cts [of c] by (auto split: if_splits)
  have out: "x \<notin> owners s d" for d using x by (auto simp: owners_def)
  have "sp_counts s' d = (if owners s' d = {} then None else Some (int (card (owners s' d))))" for d
    using owners_upd [OF vars, of d] out [of d] oc by (auto simp: s' cts)
  moreover have "managed s' = insert p (managed s)"
  proof -
    have "managed s' = managed (set_var x null_sp s) \<union> {p}" by (auto simp: managed_def vars split: if_splits)
    also have "managed (set_var x null_sp s) = managed s"
      using x fun_upd_triv [of "sp_vars s" x] by (simp add: managed_def del: fun_upd_triv)
    finally show ?thesis by simp
  qed
  moreover have "sp_paired s'"
    using pd no_c no_p no_c [symmetric] no_p [symmetric] unfolding sp_paired_def by (auto simp: vars split: if_splits)
  ultimately show ?thesis by (simp add: sp_inv_def fun_eq_iff objs [symmetric] s')
qed

lemma sp_clean_extra:
  assumes inv: "sp_inv s" and p: "p \<notin> sp_objs s" and cl: "sp_clean x s = Some s'"
  shows "sp_clean x (s\<lparr>sp_objs := insert p (sp_objs s)\<rparr>) = Some (s'\<lparr>sp_objs := insert p (sp_objs s')\<rparr>)"
proof -
  have "q \<in> sp_objs s \<Longrightarrow> insert p (sp_objs s) - {q} = insert p (sp_objs s - {q})" for q using p by auto
  note ins = this
  obtain v where v: "sp_vars s x = Some v" using cl by (auto simp: sp_clean_def bind_eq_Some_conv)
  show ?thesis
  proof (cases "sp_ref v")
    case None
    with cl v show ?thesis by (simp add: sp_clean_def)
  next
    case (Some c)
    then obtain n where n: "sp_counts s c = Some n"
      using cl v by (cases "sp_counts s c") (auto simp: sp_clean_def count_minus_def)
    show ?thesis
    proof (cases "n = 1")
      case False
      with cl v Some n show ?thesis by (auto simp: sp_clean_def count_minus_def set_var_def)
    next
      case True
      with cl v Some n p ins show ?thesis
        by (cases "sp_ptr v") (auto simp: sp_clean_def count_minus_def delete_obj_def delete_count_def set_var_def split: if_splits)
    qed
  qed
qed

subsection \<open>Refinement\<close>

definition sp_rel :: "sp_state \<Rightarrow> ownership \<Rightarrow> bool" where
  "sp_rel s a \<longleftrightarrow> sp_inv s \<and> a = owns s"

lemma owns_vars: "owns s x = Some q \<Longrightarrow> \<exists>v. sp_vars s x = Some v \<and> sp_ptr v = q"
  by (auto simp: owns_def)

lemma owns_upd: "sp_vars s' = (sp_vars s)(x \<mapsto> v) \<Longrightarrow> owns s' = (owns s)(x \<mapsto> sp_ptr v)"
  by (auto simp: owns_def)

lemma sp_counts_finite:
  assumes "sp_inv s"
  shows "finite (dom (sp_counts s))"
proof (rule finite_subset)
  show "dom (sp_counts s) \<subseteq> (\<lambda>x. the (sp_ref (the (sp_vars s x)))) ` dom (sp_vars s)"
  proof
    fix c assume "c \<in> dom (sp_counts s)"
    then have "owners s c \<noteq> {}" using assms by (auto simp: sp_inv_def split: if_splits)
    then obtain x v where "sp_vars s x = Some v" "sp_ref v = Some c" by (auto simp: owners_def)
    then show "c \<in> (\<lambda>x. the (sp_ref (the (sp_vars s x)))) ` dom (sp_vars s)" by (intro image_eqI [of _ _ x]) auto
  qed
  show "finite ((\<lambda>x. the (sp_ref (the (sp_vars s x)))) ` dom (sp_vars s))"
    using assms by (simp add: sp_inv_def sp_paired_def)
qed

lemma sp_do_sim:
  assumes new: "\<And>A. finite A \<Longrightarrow> new A \<notin> A" and rel: "sp_rel s a" and ok: "own_ok op a"
  shows "\<exists>s'. sp_do new op s = Some s' \<and> sp_rel s' (own_do op a)"
proof -
  have inv: "sp_inv s" and a: "a = owns s" using rel by (simp_all add: sp_rel_def)
  have clean: "\<exists>s'. sp_clean x s = Some s' \<and> sp_inv s' \<and> sp_vars s' = (sp_vars s)(x \<mapsto> null_sp)" if "a x \<noteq> None" for x
    using that sp_clean_inv [OF inv, of x] by (auto simp: a owns_def)
  show ?thesis
  proof (cases op)
    case (Sp_default x)
    with ok have "sp_vars s x = None" by (simp add: a owns_def)
    from sp_null_inv [OF inv this, of "set_var x null_sp s"] Sp_default show ?thesis
      by (auto simp: sp_default_def sp_rel_def a owns_def fun_eq_iff)
  next
    case (Sp_destroy x)
    with ok clean [of x] obtain s1 where s1: "sp_clean x s = Some s1" "sp_inv s1" "sp_vars s1 = (sp_vars s)(x \<mapsto> null_sp)" by auto
    then have "sp_inv (s1\<lparr>sp_vars := (sp_vars s1)(x := None)\<rparr>)" by (intro sp_remove_inv [OF s1(2), of x]) simp_all
    with Sp_destroy s1 show ?thesis by (auto simp: sp_destroy_def sp_rel_def a owns_def fun_eq_iff)
  next
    case (Sp_copy x y)
    with ok obtain v where v: "sp_vars s x = None" "sp_vars s y = Some v" by (auto simp: a owns_def)
    with sp_share_inv [OF inv v(2), of x] Sp_copy show ?thesis by (auto simp: sp_copy_def sp_rel_def a owns_def fun_eq_iff)
  next
    case (Sp_move x y)
    with ok obtain v where v: "sp_vars s x = None" "sp_vars s y = Some v" by (auto simp: a owns_def)
    then have xy: "x \<noteq> y" by auto
    have i: "sp_inv (set_var x null_sp s)" by (rule sp_null_inv [OF inv v(1)]) simp_all
    have "sp_inv (set_var y null_sp (set_var x v s))"
      by (rule sp_swap_inv [OF i, of x null_sp y v]) (use v xy in auto)
    with Sp_move v xy show ?thesis by (auto simp: sp_move_def sp_rel_def a owns_def fun_eq_iff)
  next
    case (Sp_assign x y)
    show ?thesis
    proof (cases "x = y")
      case False
      with Sp_assign ok clean [of x] obtain s1 where
        s1: "sp_clean x s = Some s1" "sp_inv s1" "sp_vars s1 = (sp_vars s)(x \<mapsto> null_sp)" by auto
      from ok Sp_assign obtain v where v: "sp_vars s y = Some v" by (auto simp: a owns_def)
      with s1 False have "sp_vars s1 y = Some v" "sp_vars s1 x = Some null_sp" by auto
      with sp_share_inv [OF s1(2), of y v x] Sp_assign s1 v False show ?thesis
        by (auto simp: sp_assign_def sp_rel_def a owns_def fun_eq_iff)
    qed (use Sp_assign rel in \<open>simp add: sp_assign_def\<close>)
  next
    case (Sp_move_assign x y)
    show ?thesis
    proof (cases "x = y")
      case False
      with Sp_move_assign ok clean [of x] obtain s1 where
        s1: "sp_clean x s = Some s1" "sp_inv s1" "sp_vars s1 = (sp_vars s)(x \<mapsto> null_sp)" by auto
      from ok Sp_move_assign obtain v where v: "sp_vars s y = Some v" by (auto simp: a owns_def)
      have "sp_inv (set_var y null_sp (set_var x v s1))"
        by (rule sp_swap_inv [OF s1(2), of x null_sp y v]) (use v False s1(3) in auto)
      with Sp_move_assign s1 v False show ?thesis by (auto simp: sp_move_assign_def sp_rel_def a owns_def fun_eq_iff)
    qed (use Sp_move_assign rel in \<open>simp add: sp_move_assign_def\<close>)
  next
    case (Sp_reset x)
    with ok clean [of x] show ?thesis by (auto simp: sp_reset_def sp_rel_def a owns_def fun_eq_iff)
  next
    case (Sp_reset_new x p)
    with ok clean [of x] obtain s1 where
      s1: "sp_clean x s = Some s1" "sp_inv s1" "sp_vars s1 = (sp_vars s)(x \<mapsto> null_sp)" by auto
    have p: "p \<notin> sp_objs s" "p \<notin> sp_objs s1"
    proof -
      show "p \<notin> sp_objs s" using ok Sp_reset_new inv by (auto simp: a owned_def owns_def sp_inv_def managed_def)
      then show "p \<notin> sp_objs s1" using s1 inv by (auto simp: sp_inv_def managed_def split: if_splits)
    qed
    let ?c = "new (dom (sp_counts s1))"
    have "finite (dom (sp_counts s1))" using sp_counts_finite [OF s1(2)] .
    then have c: "sp_counts s1 ?c = None" using new by (auto simp: domIff)
    let ?s = "s1\<lparr>sp_vars := (sp_vars s1)(x \<mapsto> \<lparr>sp_ptr = Some p, sp_ref = Some ?c\<rparr>), sp_counts := (sp_counts s1)(?c \<mapsto> 1),
                  sp_objs := insert p (sp_objs s1)\<rparr>"
    have "sp_do new op s = Some ?s"
      using Sp_reset_new sp_clean_extra [OF inv p(1) s1(1)] by (simp add: sp_reset_def count_new_def Let_def set_var_def)
    moreover have "sp_inv ?s" by (rule sp_fresh_inv [OF s1(2) _ p(2) c refl]) (simp add: s1(3))
    ultimately show ?thesis using Sp_reset_new s1(3) by (auto simp: sp_rel_def a owns_def fun_eq_iff)
  next
    case (Sp_swap x y)
    with ok obtain v w where v: "sp_vars s x = Some v" "sp_vars s y = Some w" by (auto simp: a owns_def)
    have "sp_inv (set_var y v (set_var x w s))" by (rule sp_swap_inv [OF inv v]) simp_all
    with Sp_swap v show ?thesis by (auto simp: sp_swap_def sp_rel_def a owns_def fun_eq_iff)
  qed
qed

text \<open>An allocator of control blocks: the least free address.\<close>

fun free_from :: "nat \<Rightarrow> nat \<Rightarrow> addr set \<Rightarrow> addr" where
  "free_from 0 a A = a"
| "free_from (Suc n) a A = (if a \<in> A then free_from n (Suc a) A else a)"

lemma free_from_fresh: "finite A \<Longrightarrow> card (A \<inter> {a..}) \<le> n \<Longrightarrow> free_from n a A \<notin> A"
proof (induction n arbitrary: a)
  case 0
  then have "A \<inter> {a..} = {}" by simp
  then show ?case by auto
next
  case (Suc n)
  show ?case
  proof (cases "a \<in> A")
    case True
    have "A \<inter> {a..} = insert a (A \<inter> {Suc a..})" using True by (auto simp: Suc_le_eq order_le_less)
    moreover have "finite (A \<inter> {Suc a..})" "a \<notin> A \<inter> {Suc a..}" using Suc.prems by auto
    ultimately have "card (A \<inter> {Suc a..}) \<le> n" using Suc.prems(2) by simp
    with Suc.IH [OF Suc.prems(1)] True show ?thesis by simp
  qed simp
qed

definition first_free :: "addr set \<Rightarrow> addr" where
  "first_free A = free_from (card A) 0 A"

lemma first_free_fresh: "finite A \<Longrightarrow> first_free A \<notin> A"
  unfolding first_free_def by (rule free_from_fresh) auto

interpretation sharing: simulation "\<lambda>s a. (\<forall>A. finite A \<longrightarrow> new A \<notin> A) \<and> sp_rel s a" "sp_do new" own_do own_ok for new
proof
  fix s a op
  assume "(\<forall>A. finite A \<longrightarrow> new A \<notin> A) \<and> sp_rel s a" "own_ok op a"
  with sp_do_sim [of new s a op] show "\<exists>s'. sp_do new op s = Some s' \<and> (\<forall>A. finite A \<longrightarrow> new A \<notin> A) \<and> sp_rel s' (own_do op a)"
    by simp
qed

definition sp_start :: sp_state where
  "sp_start = \<lparr>sp_vars = Map.empty, sp_counts = Map.empty, sp_objs = {}\<rparr>"

lemma sp_start_rel: "sp_rel sp_start Map.empty"
  by (auto simp: sp_rel_def sp_start_def sp_inv_def sp_paired_def owners_def managed_def owns_def)

lemma managed_owned: "managed s = owned (owns s)"
proof -
  have "owns s x = Some (Some p) \<longleftrightarrow> (\<exists>v. sp_vars s x = Some v \<and> sp_ptr v = Some p)" for x p by (auto simp: owns_def)
  then show ?thesis by (simp add: managed_def owned_def)
qed

text \<open>Claim C36: ownership.  Every legal sequence of default, copy and move construction, copy and move assignment (to itself
  too), \<^verbatim>\<open>reset\<close>, \<^verbatim>\<open>swap\<close> and destruction of shared pointers runs without using or deleting anything that is not live,
  and leaves each pointer with the object the specification says; the count of every control block is the number of its
  owners, and the objects alive are exactly those that some pointer owns, so each was deleted when its last owner left.\<close>

theorem shared_ptr_owns:
  assumes "\<And>A. finite A \<Longrightarrow> new A \<notin> A" and "ops_ok own_ok own_do ops Map.empty"
  shows "\<exists>s. run_ops (sp_do new) ops sp_start = Some s \<and> owns s = fold own_do ops Map.empty
     \<and> sp_objs s = owned (fold own_do ops Map.empty)
     \<and> (\<forall>c. sp_counts s c = (if owners s c = {} then None else Some (int (card (owners s c)))))"
proof -
  obtain s where s: "run_ops (sp_do new) ops sp_start = Some s" "sp_rel s (fold own_do ops Map.empty)"
    using sharing.run_sim [OF _ assms(2), of new sp_start] assms(1) sp_start_rel by blast
  then have "sp_inv s" "owns s = fold own_do ops Map.empty" by (simp_all add: sp_rel_def)
  moreover from this have "sp_objs s = owned (fold own_do ops Map.empty)"
    using managed_owned [of s] by (simp add: sp_inv_def)
  ultimately show ?thesis using s(1) by (simp add: sp_inv_def)
qed

theorem shared_ptr_owns_witness:
  "\<exists>s. run_ops (sp_do first_free) [Sp_default 0, Sp_reset_new 0 7, Sp_copy 1 0, Sp_reset_new 0 8, Sp_assign 0 1, Sp_destroy 1] sp_start
        = Some s \<and> sp_objs s = {7} \<and> owns s 0 = Some (Some 7)"
proof -
  let ?ops = "[Sp_default 0, Sp_reset_new 0 7, Sp_copy 1 0, Sp_reset_new 0 8, Sp_assign 0 1, Sp_destroy 1]"
  have ok: "ops_ok own_ok own_do ?ops Map.empty" by (simp add: owned_def)
  have f: "fold own_do ?ops Map.empty = [0 \<mapsto> Some 7]" by (auto simp: fun_eq_iff)
  from shared_ptr_owns [OF first_free_fresh ok] show ?thesis
    unfolding f by (auto simp: owned_def)
qed

end
