(* ===== verification/Proc_Sums.thy ===== *)
theory Proc_Sums
  imports Clang_Prelude "HOL-Library.Multiset"
begin

text \<open>
  \<^verbatim>\<open>process/multi_thread_cal.cpp\<close>, \<^verbatim>\<open>chrono_test.cpp\<close> and \<^verbatim>\<open>multi_process.cpp\<close>: sums of squares computed by one thread, by
  several threads that add their part to a shared sum under a mutex, and by processes.

  A \<^verbatim>\<open>long long\<close> that leaves its range is undefined (\<open>None\<close>), as is the increment of the largest \<^verbatim>\<open>int\<close> and a division by zero.
  The threads take the mutex in any order.  The number of threads is small enough for the bounds of their ranges to stay
  inside \<^verbatim>\<open>int\<close>.  The printed times are left out.

  The lemmas give the exact result of the loops, overflow included; the property compares the threads with the single
  thread, for every order in which the threads finish.
\<close>

subsection \<open>Loops\<close>

definition ll_add :: "int \<Rightarrow> int \<Rightarrow> int option" where
  "ll_add a b = (if - (2 ^ 63) \<le> a + b \<and> a + b < 2 ^ 63 then Some (a + b) else None)"

text \<open>\<^verbatim>\<open>for (int i = minV; i <= maxV; ++ i) sum += i * (LL)i;\<close>\<close>

function square_loop :: "int \<Rightarrow> int \<Rightarrow> int \<Rightarrow> int option" where
  "square_loop i maxV acc =
     (if i \<le> maxV then do {
        s \<leftarrow> ll_add acc (i * i);
        if i = 2 ^ 31 - 1 then None else square_loop (i + 1) maxV s }
      else Some acc)"
  by auto
termination
  by (relation "measure (\<lambda>(i, maxV, acc). nat (maxV + 1 - i))") auto

declare square_loop.simps [simp del]

text \<open>\<^verbatim>\<open>worker\<close> on the global \<^verbatim>\<open>sum\<close>, and \<^verbatim>\<open>serial_task\<close>, for the bound \<^verbatim>\<open>MAX\<close>.\<close>

definition MAX_cal :: int where "MAX_cal = 100000000"

definition cal_worker :: "int \<Rightarrow> int \<Rightarrow> int \<Rightarrow> int option" where
  "cal_worker minV maxV acc = square_loop minV maxV acc"

definition serial_task :: "int \<Rightarrow> int option" where
  "serial_task maxV = cal_worker 1 maxV 0"

text \<open>The local part of \<^verbatim>\<open>concurrent_worker\<close>, and its critical section.\<close>

definition concurrent_part :: "int \<times> int \<Rightarrow> int option" where
  "concurrent_part r = square_loop (fst r) (snd r) 0"

definition concurrent_add :: "int \<times> int \<Rightarrow> int \<Rightarrow> int option" where
  "concurrent_add r acc = do { tmp \<leftarrow> concurrent_part r; ll_add acc tmp }"

text \<open>The ranges of the threads, from the thread \<open>t\<close> on.\<close>

function thread_ranges :: "nat \<Rightarrow> nat \<Rightarrow> int \<Rightarrow> int \<Rightarrow> int \<Rightarrow> (int \<times> int) list" where
  "thread_ranges t cnt minV rng maxV =
     (if t < cnt then
        (if t < cnt - 1 then (minV, minV + rng) # thread_ranges (Suc t) cnt (minV + rng + 1) rng maxV
         else (minV, maxV) # thread_ranges (Suc t) cnt minV rng maxV)
      else [])"
  by auto
termination
  by (relation "measure (\<lambda>(t, cnt, minV, rng, maxV). cnt - t)") auto

declare thread_ranges.simps [simp del]

fun add_parts :: "(int \<times> int) list \<Rightarrow> int \<Rightarrow> int option" where
  "add_parts [] acc = Some acc"
| "add_parts (r # rs) acc = do { s \<leftarrow> concurrent_add r acc; add_parts rs s }"

text \<open>\<^verbatim>\<open>concurrent_task\<close>; \<open>order\<close> is the order in which the threads pass the mutex.\<close>

definition concurrent_task :: "nat \<Rightarrow> int \<Rightarrow> int \<Rightarrow> ((int \<times> int) list \<Rightarrow> (int \<times> int) list) \<Rightarrow> int option" where
  "concurrent_task concurrent_count minV maxV order =
     (if concurrent_count = 0 then None
      else (let minV = 0; rng = maxV div int concurrent_count
            in add_parts (order (thread_ranges 0 concurrent_count minV rng maxV)) 0))"

definition chrono_main :: "int option" where
  "chrono_main = square_loop 0 99999 0"

subsection \<open>What the loops compute\<close>

lemma ll_add_nonneg: "0 \<le> a \<Longrightarrow> 0 \<le> b \<Longrightarrow> ll_add a b = (if a + b < 2 ^ 63 then Some (a + b) else None)"
proof -
  assume "0 \<le> a" "0 \<le> b"
  then have "0 \<le> a + b" by simp
  with order_trans [of "- (2 ^ 63)" 0 "a + b"] have "- (2 ^ 63) \<le> a + b" by simp
  then show ?thesis by (simp add: ll_add_def)
qed

definition sq_sum :: "int \<Rightarrow> int \<Rightarrow> int" where
  "sq_sum a b = (\<Sum>i \<in> {a..b}. i * i)"

lemma sq_sum_empty [simp]: "b < a \<Longrightarrow> sq_sum a b = 0"
  by (simp add: sq_sum_def)

lemma sq_sum_rec: "a \<le> b \<Longrightarrow> sq_sum a b = a * a + sq_sum (a + 1) b"
proof -
  assume "a \<le> b"
  then have "{a..b} = insert a {a + 1..b}" by auto
  then show ?thesis by (simp add: sq_sum_def)
qed

lemma sq_sum_nonneg: "0 \<le> sq_sum a b"
  by (simp add: sq_sum_def sum_nonneg)

lemma sq_sum_append: "a \<le> c \<Longrightarrow> c \<le> b + 1 \<Longrightarrow> sq_sum a b = sq_sum a (c - 1) + sq_sum c b"
proof -
  assume "a \<le> c" "c \<le> b + 1"
  then have "{a..b} = {a..c - 1} \<union> {c..b}" "{a..c - 1} \<inter> {c..b} = {}" by auto
  then show ?thesis by (simp add: sq_sum_def sum.union_disjoint)
qed

lemma square_loop_result:
  "0 \<le> s \<Longrightarrow> s < 2 ^ 63 \<Longrightarrow> maxV < 2 ^ 31 - 1 \<Longrightarrow>
     square_loop i maxV s = (if s + sq_sum i maxV < 2 ^ 63 then Some (s + sq_sum i maxV) else None)"
proof (induction i maxV s rule: square_loop.induct)
  case (1 i maxV s)
  show ?case
  proof (cases "i \<le> maxV")
    case True
    have sq: "0 \<le> i * i" by simp
    note rec = sq_sum_rec [OF True]
    show ?thesis
    proof (cases "s + i * i < 2 ^ 63")
      case lt: True
      then have a: "ll_add s (i * i) = Some (s + i * i)" using "1.prems"(1) sq by (simp add: ll_add_nonneg)
      have "i \<noteq> 2 ^ 31 - 1" using True "1.prems"(3) by simp
      with "1.IH" [OF True a] "1.prems" sq lt show ?thesis
        by (subst square_loop.simps) (simp add: True a rec add.assoc)
    next
      case False
      then have "ll_add s (i * i) = None" using "1.prems"(1) sq by (simp add: ll_add_nonneg)
      moreover have "\<not> s + sq_sum i maxV < 2 ^ 63" using False rec sq_sum_nonneg [of "i + 1" maxV] by linarith
      ultimately show ?thesis by (subst square_loop.simps) (simp add: True)
    qed
  next
    case False
    with "1.prems" show ?thesis by (subst square_loop.simps) simp
  qed
qed

lemma sq_sum_closed: "0 \<le> n \<Longrightarrow> 6 * sq_sum 1 n = n * (n + 1) * (2 * n + 1)"
proof (induction n rule: int_ge_induct)
  case base
  then show ?case by simp
next
  case (step n)
  have "sq_sum 1 (n + 1) = sq_sum 1 n + (n + 1) * (n + 1)"
    using sq_sum_append [of 1 "n + 1" "n + 1"] sq_sum_rec [of "n + 1" "n + 1"] step by simp
  then show ?case using step by (simp add: algebra_simps)
qed

text \<open>The sum for \<^verbatim>\<open>MAX\<close> does not fit a \<^verbatim>\<open>long long\<close>: the single thread already overflows.\<close>

lemma serial_task_overflows: "serial_task MAX_cal = None"
proof -
  have "6 * sq_sum 1 100000000 = 2000000030000000100000000" using sq_sum_closed [of 100000000] by simp
  then show ?thesis
    using square_loop_result [of 0 100000000 1] by (simp add: serial_task_def cal_worker_def MAX_cal_def)
qed

lemma chrono_result: "chrono_main = Some 333328333350000"
proof -
  have "6 * sq_sum 1 99999 = 1999970000100000" using sq_sum_closed [of 99999] by simp
  moreover have "sq_sum 0 99999 = sq_sum 1 99999" using sq_sum_rec [of 0 99999] by simp
  ultimately show ?thesis using square_loop_result [of 0 99999 0] by (simp add: chrono_main_def)
qed

subsection \<open>Threads\<close>

lemma thread_ranges_sum:
  "t < cnt \<Longrightarrow> 0 \<le> minV \<Longrightarrow> 0 \<le> rng \<Longrightarrow> minV + int (cnt - 1 - t) * (rng + 1) \<le> maxV + 1 \<Longrightarrow>
     sum_list (map (\<lambda>r. sq_sum (fst r) (snd r)) (thread_ranges t cnt minV rng maxV)) = sq_sum minV maxV
     \<and> (\<forall>r \<in> set (thread_ranges t cnt minV rng maxV). snd r \<le> maxV)"
proof (induction t cnt minV rng maxV rule: thread_ranges.induct)
  case (1 t cnt minV rng maxV)
  show ?case
  proof (cases "t < cnt - 1")
    case True
    then obtain k where k: "cnt - 1 - t = Suc k" "cnt - 1 - Suc t = k" by (metis Suc_diff_Suc)
    have nn: "0 \<le> int k * (rng + 1)" using "1.prems"(3) by simp
    have le: "minV + rng + 1 + int (cnt - 1 - Suc t) * (rng + 1) \<le> maxV + 1"
      using "1.prems"(4) unfolding k by (simp add: algebra_simps)
    with nn have mid: "minV + rng + 1 \<le> maxV + 1" unfolding k by linarith
    have "sq_sum minV maxV = sq_sum minV (minV + rng) + sq_sum (minV + rng + 1) maxV"
      using sq_sum_append [of minV "minV + rng + 1" maxV] "1.prems" mid by simp
    with "1.IH"(1) [OF "1.prems"(1) True] True "1.prems" le mid show ?thesis
      by (subst (1 2) thread_ranges.simps) auto
  next
    case False
    then have "thread_ranges t cnt minV rng maxV = [(minV, maxV)]"
      using "1.prems"(1) by (subst thread_ranges.simps) (simp add: thread_ranges.simps [of "Suc t"])
    then show ?thesis by simp
  qed
qed

lemma add_parts_result:
  "0 \<le> s \<Longrightarrow> s + sum_list (map (\<lambda>r. sq_sum (fst r) (snd r)) rs) < 2 ^ 63 \<Longrightarrow> (\<forall>r \<in> set rs. snd r < 2 ^ 31 - 1) \<Longrightarrow>
     add_parts rs s = Some (s + sum_list (map (\<lambda>r. sq_sum (fst r) (snd r)) rs))"
proof (induction rs arbitrary: s)
  case (Cons r rs)
  let ?q = "sq_sum (fst r) (snd r)" and ?rest = "sum_list (map (\<lambda>r. sq_sum (fst r) (snd r)) rs)"
  have rest: "0 \<le> ?rest" by (auto intro!: sum_list_nonneg simp: sq_sum_nonneg)
  have q: "0 \<le> ?q" by (rule sq_sum_nonneg)
  have bound: "s + ?q + ?rest < 2 ^ 63" using Cons.prems(2) by simp
  then have lt: "?q < 2 ^ 63" "s + ?q < 2 ^ 63" using Cons.prems(1) q rest by linarith+
  have "concurrent_part r = Some ?q"
    using square_loop_result [of 0 "snd r" "fst r"] lt(1) Cons.prems(3) by (simp add: concurrent_part_def)
  then have "concurrent_add r s = Some (s + ?q)"
    using lt(2) Cons.prems(1) q by (simp add: concurrent_add_def ll_add_nonneg)
  with Cons.IH [of "s + ?q"] Cons.prems q bound show ?case by (simp add: add.assoc)
qed simp



text \<open>With more threads the last ranges pass the bound and the sum is too large: eight threads for the bound 10 add the
  squares up to 13.\<close>

lemma too_many_threads: "concurrent_task 8 1 10 id = Some 819" "serial_task 10 = Some 385"
  by code_simp+

subsection \<open>Processes\<close>

text \<open>\<^verbatim>\<open>get_interval_sum\<close>, and the sum the parent prints after it has collected its children: each child adds to its own copy.\<close>

definition get_interval_sum :: "int \<Rightarrow> int option" where
  "get_interval_sum start = square_loop (start * 20000) (start * 20000 + 19999) 0"

definition child_total :: "int \<Rightarrow> int \<Rightarrow> int option" where
  "child_total total_sum i = do { t \<leftarrow> get_interval_sum i; ll_add total_sum t }"

text \<open>The loop of the parent on the results of \<^verbatim>\<open>waitpid\<close>; \<open>None\<close> while it is still polling.\<close>

fun reclaim_loop :: "nat \<Rightarrow> int list \<Rightarrow> nat \<Rightarrow> int \<Rightarrow> int option" where
  "reclaim_loop reclaim_num [] THREAD_NUM total_sum = None"
| "reclaim_loop reclaim_num (wpid # ws) THREAD_NUM total_sum =
     (let n = (if wpid > 0 then Suc reclaim_num else reclaim_num)
      in if n = THREAD_NUM then Some total_sum else reclaim_loop n ws THREAD_NUM total_sum)"

text \<open>The parent: its own sum is never added to, and \<^verbatim>\<open>waitpid\<close> returns \<open>ws\<close>.\<close>

definition multi_process_parent :: "int list \<Rightarrow> int option" where
  "multi_process_parent ws = reclaim_loop 0 ws 5 0"

lemma children_sums:
  "get_interval_sum 0 = Some 2666466670000" "get_interval_sum 4 = Some (sq_sum 80000 99999)"
proof -
  have c: "6 * sq_sum 1 19999 = 15998800020000" using sq_sum_closed [of 19999] by simp
  have "sq_sum 0 19999 = sq_sum 1 19999" using sq_sum_rec [of 0 19999] by simp
  with c show "get_interval_sum 0 = Some 2666466670000"
    using square_loop_result [of 0 19999 0] by (simp add: get_interval_sum_def)
  have "sq_sum 0 99999 = sq_sum 0 79999 + sq_sum 80000 99999" using sq_sum_append [of 0 80000 99999] by simp
  moreover have "6 * sq_sum 1 99999 = 1999970000100000" "sq_sum 0 99999 = sq_sum 1 99999"
    using sq_sum_closed [of 99999] sq_sum_rec [of 0 99999] by simp_all
  ultimately have "sq_sum 80000 99999 < 2 ^ 63" using sq_sum_nonneg [of 0 79999] by simp
  then show "get_interval_sum 4 = Some (sq_sum 80000 99999)"
    using square_loop_result [of 0 99999 80000] by (simp add: get_interval_sum_def)
qed

text \<open>The parent prints 0, whatever the children computed, and only after it has collected as many children as it meant to
  start: when a \<^verbatim>\<open>fork\<close> failed it polls forever.\<close>

lemma reclaim_prints_own: "reclaim_loop k ws n s = Some v \<Longrightarrow> v = s"
  by (induction k ws n s rule: reclaim_loop.induct) (auto simp: Let_def split: if_splits)

lemma parent_prints_zero: "multi_process_parent ws = Some v \<Longrightarrow> v = 0"
  unfolding multi_process_parent_def by (rule reclaim_prints_own)

lemma reclaim_polls_forever:
  "k + length (filter (\<lambda>w. 0 < w) ws) < n \<Longrightarrow> reclaim_loop k ws n s = None"
  by (induction k ws n s rule: reclaim_loop.induct) (auto simp: Let_def split: if_splits)

end
