(* ===== verification/Rw_Lock.thy ===== *)
theory Rw_Lock
  imports Clang_Prelude
begin

text \<open>
  \<^verbatim>\<open>learnOS/sync/read_write.cpp\<close>: readers and writers on one integer under a \<^verbatim>\<open>std::shared_mutex\<close>.

  A thread is the statement it is at.  \<open>reader_step\<close> and \<open>writer_step\<close> run the next statement of a thread, or give \<open>None\<close>
  where the thread is blocked on the lock, or where \<^verbatim>\<open>shared_data += 1\<close> would overflow (undefined).  The destructor of the lock
  object at the end of the loop body is the step after the sleep.  Every printed line is one event; the lines of two threads
  that print at the same time are not torn apart.  The lock is the standard one: shared when no writer owns it, exclusive
  when nobody owns it.

  The property: under every interleaving the writers exclude everybody else, the written values are 1, 2, 3, \<dots>, every reader
  prints the value of the last writer before it, and no state is a deadlock.
\<close>

datatype reader_pc = R_lock | R_print | R_sleep

datatype writer_pc = W_ask | W_lock | W_got | W_add | W_print | W_sleep

datatype rw_event = Read_line nat int | Try_line nat | Got_line nat | Wrote_line nat int

record rwsys =
  rpc :: "nat \<Rightarrow> reader_pc"
  wpc :: "nat \<Rightarrow> writer_pc"
  sharers :: "nat set"
  owner :: "nat option"
  shared_data :: int
  lines_out :: "rw_event list"

subsection \<open>The threads\<close>

text \<open>\<^verbatim>\<open>reader\<close>.\<close>

definition reader_step :: "nat \<Rightarrow> rwsys \<Rightarrow> rwsys option" where
  "reader_step i s =
     (case rpc s i of
        R_lock \<Rightarrow> (if owner s = None
          then Some (s\<lparr>rpc := (rpc s)(i := R_print), sharers := insert i (sharers s)\<rparr>) else None)
      | R_print \<Rightarrow> Some (s\<lparr>rpc := (rpc s)(i := R_sleep), lines_out := lines_out s @ [Read_line i (shared_data s)]\<rparr>)
      | R_sleep \<Rightarrow> Some (s\<lparr>rpc := (rpc s)(i := R_lock), sharers := sharers s - {i}\<rparr>))"

text \<open>\<^verbatim>\<open>writer\<close>.\<close>

definition writer_step :: "nat \<Rightarrow> rwsys \<Rightarrow> rwsys option" where
  "writer_step i s =
     (case wpc s i of
        W_ask \<Rightarrow> Some (s\<lparr>wpc := (wpc s)(i := W_lock), lines_out := lines_out s @ [Try_line i]\<rparr>)
      | W_lock \<Rightarrow> (if owner s = None \<and> sharers s = {}
          then Some (s\<lparr>wpc := (wpc s)(i := W_got), owner := Some i\<rparr>) else None)
      | W_got \<Rightarrow> Some (s\<lparr>wpc := (wpc s)(i := W_add), lines_out := lines_out s @ [Got_line i]\<rparr>)
      | W_add \<Rightarrow> (if shared_data s < 2 ^ 31 - 1
          then Some (s\<lparr>wpc := (wpc s)(i := W_print), shared_data := shared_data s + 1\<rparr>) else None)
      | W_print \<Rightarrow> Some (s\<lparr>wpc := (wpc s)(i := W_sleep), lines_out := lines_out s @ [Wrote_line i (shared_data s)]\<rparr>)
      | W_sleep \<Rightarrow> Some (s\<lparr>wpc := (wpc s)(i := W_ask), owner := None\<rparr>))"

text \<open>\<^verbatim>\<open>main\<close> starts three readers and two writers, which run in any order.\<close>

datatype rw_thread = Reader nat | Writer nat

fun rw_step :: "rw_thread \<Rightarrow> rwsys \<Rightarrow> rwsys option" where
  "rw_step (Reader i) s = (if i < 3 then reader_step i s else None)"
| "rw_step (Writer i) s = (if i < 2 then writer_step i s else None)"

definition rw_start :: rwsys where
  "rw_start = \<lparr>rpc = (\<lambda>_. R_lock), wpc = (\<lambda>_. W_ask), sharers = {}, owner = None, shared_data = 0, lines_out = []\<rparr>"

inductive rw_reach :: "rwsys \<Rightarrow> bool" where
  start: "rw_reach rw_start"
| more: "rw_reach s \<Longrightarrow> rw_step t s = Some s' \<Longrightarrow> rw_reach s'"

fun rw_execs :: "rw_thread list \<Rightarrow> rwsys \<Rightarrow> rwsys option" where
  "rw_execs [] s = Some s"
| "rw_execs (t # ts) s = do { s' \<leftarrow> rw_step t s; rw_execs ts s' }"

lemma rw_execs_reach: "rw_reach s \<Longrightarrow> rw_execs ts s = Some s' \<Longrightarrow> rw_reach s'"
  by (induction ts arbitrary: s) (auto split: bind_splits intro: rw_reach.more)

subsection \<open>What the lines say\<close>

text \<open>The lines are those of a counter that starts at \<open>n\<close>: a writer prints the next value, a reader the current one.\<close>

fun counts :: "int \<Rightarrow> rw_event list \<Rightarrow> bool" where
  "counts n [] = True"
| "counts n (Read_line i v # es) = (v = n \<and> counts n es)"
| "counts n (Wrote_line i v # es) = (v = n + 1 \<and> counts (n + 1) es)"
| "counts n (_ # es) = counts n es"

fun writes :: "rw_event list \<Rightarrow> int" where
  "writes [] = 0"
| "writes (Wrote_line i v # es) = writes es + 1"
| "writes (_ # es) = writes es"

lemma counts_append [simp]: "counts n (es @ fs) \<longleftrightarrow> counts n es \<and> counts (n + writes es) fs"
  by (induction n es rule: counts.induct) (auto simp: algebra_simps)

lemma writes_append [simp]: "writes (es @ fs) = writes es + writes fs"
  by (induction es rule: writes.induct) auto

fun w_holds :: "writer_pc \<Rightarrow> bool" where
  "w_holds W_ask = False"
| "w_holds W_lock = False"
| "w_holds _ = True"

fun r_holds :: "reader_pc \<Rightarrow> bool" where
  "r_holds R_lock = False"
| "r_holds _ = True"

definition writing :: "rwsys \<Rightarrow> nat \<Rightarrow> bool" where
  "writing s i \<longleftrightarrow> w_holds (wpc s i)"

definition reading :: "rwsys \<Rightarrow> nat \<Rightarrow> bool" where
  "reading s i \<longleftrightarrow> r_holds (rpc s i)"

lemmas rw_defs = writing_def reading_def reader_step_def writer_step_def

definition rw_inv :: "rwsys \<Rightarrow> bool" where
  "rw_inv s \<longleftrightarrow> (\<forall>i. writing s i \<longleftrightarrow> owner s = Some i) \<and> (\<forall>i. reading s i \<longleftrightarrow> i \<in> sharers s)
     \<and> (owner s \<noteq> None \<longrightarrow> sharers s = {}) \<and> counts 0 (lines_out s)
     \<and> (\<forall>i. owner s = Some i \<longrightarrow> i < 2)
     \<and> shared_data s = writes (lines_out s) + (if owner s \<noteq> None \<and> wpc s (the (owner s)) = W_print then 1 else 0)"

lemma rw_inv_start: "rw_inv rw_start"
  by (simp add: rw_inv_def rw_start_def rw_defs)

lemma rw_inv_owner: "rw_inv s \<Longrightarrow> w_holds (wpc s i) \<Longrightarrow> owner s = Some i"
  by (simp add: rw_inv_def writing_def)

lemma rw_inv_free: "rw_inv s \<Longrightarrow> owner s = None \<Longrightarrow> \<not> w_holds (wpc s i)"
  by (simp add: rw_inv_def writing_def)

lemma rw_inv_sharer: "rw_inv s \<Longrightarrow> r_holds (rpc s i) \<Longrightarrow> owner s = None \<and> i \<in> sharers s"
  by (auto simp: rw_inv_def reading_def)

lemma rw_inv_reader:
  assumes "rw_inv s" "reader_step i s = Some s'"
  shows "rw_inv s'"
proof (cases "rpc s i")
  case R_lock
  with assms(2) have s': "owner s = None" "s' = s\<lparr>rpc := (rpc s)(i := R_print), sharers := insert i (sharers s)\<rparr>"
    by (simp_all add: reader_step_def split: if_splits)
  with assms(1) show ?thesis by (simp add: rw_inv_def writing_def reading_def)
next
  case R_print
  with assms(2) have s': "s' = s\<lparr>rpc := (rpc s)(i := R_sleep), lines_out := lines_out s @ [Read_line i (shared_data s)]\<rparr>"
    by (simp add: reader_step_def)
  with assms(1) rw_inv_sharer [OF assms(1), of i] R_print show ?thesis
    by (simp add: rw_inv_def writing_def reading_def)
next
  case R_sleep
  with assms(2) have s': "s' = s\<lparr>rpc := (rpc s)(i := R_lock), sharers := sharers s - {i}\<rparr>"
    by (simp add: reader_step_def)
  with assms(1) rw_inv_sharer [OF assms(1), of i] R_sleep show ?thesis
    by (simp add: rw_inv_def writing_def reading_def)
qed

lemma rw_inv_writer:
  assumes "rw_inv s" "i < 2" "writer_step i s = Some s'"
  shows "rw_inv s'"
proof (cases "w_holds (wpc s i)")
  case True
  with assms(1) have "owner s = Some i" by (rule rw_inv_owner)
  moreover have "writer_step i s \<noteq> None" using assms(3) by simp
  ultimately have "rw_inv (the (writer_step i s))" using assms(1,2) True
    by (cases "wpc s i") (simp_all add: rw_inv_def writing_def reading_def writer_step_def split: if_splits)
  with assms(3) show ?thesis by simp
next
  case False
  show ?thesis
  proof (cases "wpc s i")
    case W_ask
    with assms have s': "s' = s\<lparr>wpc := (wpc s)(i := W_lock), lines_out := lines_out s @ [Try_line i]\<rparr>"
      by (simp add: writer_step_def)
    have "owner s \<noteq> Some i" using assms(1) False by (simp add: rw_inv_def writing_def)
    with assms s' show ?thesis by (cases "owner s") (simp_all add: rw_inv_def writing_def reading_def)
  next
    case W_lock
    with assms(3) have s': "s' = s\<lparr>wpc := (wpc s)(i := W_got), owner := Some i\<rparr>" and "owner s = None" "sharers s = {}"
      by (simp_all add: writer_step_def split: if_splits)
    with assms show ?thesis by (simp add: rw_inv_def writing_def reading_def)
  qed (use False in simp_all)
qed

lemma rw_inv_reach: "rw_reach s \<Longrightarrow> rw_inv s"
proof (induction rule: rw_reach.induct)
  case (more s t s')
  then show ?case by (cases t) (auto split: if_splits intro: rw_inv_reader rw_inv_writer)
qed (rule rw_inv_start)

text \<open>Some thread can go on: the owner, a reader that holds the lock, or, when the lock is free, any thread.\<close>

lemma rw_inv_progress:
  assumes "rw_inv s" "shared_data s < 2 ^ 31 - 1"
  shows "\<exists>t s'. rw_step t s = Some s'"
proof (cases "owner s")
  case (Some i)
  with assms(1) have "i < 2" "w_holds (wpc s i)" by (simp_all add: rw_inv_def writing_def)
  with assms(2) have "\<exists>s'. rw_step (Writer i) s = Some s'" by (cases "wpc s i") (simp_all add: writer_step_def)
  then show ?thesis by blast
next
  case None
  then have "\<exists>s'. rw_step (Reader 0) s = Some s'" by (cases "rpc s 0") (auto simp: reader_step_def)
  then show ?thesis by blast
qed

text \<open>Claim C38: under every interleaving of the three readers and the two writers, a writer between \<^verbatim>\<open>unique_lock\<close> and the end of its
  loop body is the only thread in its critical section, the lines printed so far are those of a counter (the writers print 1, 2, 3, \<dots>
  in turn, each reader the value of the last write before it), and unless the counter has reached the largest \<^verbatim>\<open>int\<close> some thread
  can go on.\<close>

theorem readers_writers:
  assumes "rw_reach s"
  shows "(\<forall>i j. writing s i \<and> writing s j \<longrightarrow> i = j) \<and> (\<forall>i j. \<not> (writing s i \<and> reading s j))
    \<and> counts 0 (lines_out s) \<and> (shared_data s < 2 ^ 31 - 1 \<longrightarrow> (\<exists>t s'. rw_step t s = Some s'))"
proof -
  note i = rw_inv_reach [OF assms]
  from i have own: "\<And>i. writing s i \<longleftrightarrow> owner s = Some i" and sh: "\<And>i. reading s i \<longleftrightarrow> i \<in> sharers s"
    and ex: "owner s \<noteq> None \<longrightarrow> sharers s = {}" and c: "counts 0 (lines_out s)" by (simp_all add: rw_inv_def)
  from own sh ex c rw_inv_progress [OF i] show ?thesis by auto
qed

text \<open>A reader and a writer, then a reader that waits for the second writer.\<close>

definition rw_sched :: "rw_thread list" where
  "rw_sched = [Reader 0, Writer 1, Reader 2, Reader 0, Reader 2, Reader 0, Reader 2, Writer 1, Writer 1, Writer 1, Writer 1,
     Writer 0, Writer 1, Reader 1, Reader 1]"

theorem readers_writers_witness:
  "map_option lines_out (rw_execs rw_sched rw_start)
     = Some [Try_line 1, Read_line 0 0, Read_line 2 0, Got_line 1, Wrote_line 1 1, Try_line 0, Read_line 1 1]
   \<and> counts 0 [Try_line 1, Read_line 0 0, Read_line 2 0, Got_line 1, Wrote_line 1 1, Try_line 0, Read_line 1 1]"
proof -
  have "map_option lines_out (rw_execs rw_sched rw_start)
     = Some [Try_line 1, Read_line 0 0, Read_line 2 0, Got_line 1, Wrote_line 1 1, Try_line 0, Read_line 1 1]"
    by code_simp
  moreover from this obtain s where s: "rw_execs rw_sched rw_start = Some s" by (auto simp: map_option_case split: option.splits)
  moreover have "counts 0 (lines_out s)" using readers_writers [OF rw_execs_reach [OF rw_reach.start s]] by simp
  ultimately show ?thesis by simp
qed

end
