(* ===== verification/Tiny_Alloc.thy ===== *)
theory Tiny_Alloc
  imports Clang_Prelude "HOL-Library.Word"
begin

text \<open>
  \<^verbatim>\<open>TinySTL/alloc.h\<close>: the size classes of the memory pool and its two operations.

  \<^verbatim>\<open>size_t\<close> is a 64-bit word.  A block is a number, \<open>None\<close> is the null pointer; the state is the array of free lists and the
  \<^verbatim>\<open>next\<close> field stored in the blocks.  \<^verbatim>\<open>M_refill\<close> is declared and never defined in the repository, and \<^verbatim>\<open>malloc\<close> and \<^verbatim>\<open>free\<close> are
  the library's: all three are arguments.  An index outside the array is undefined (the outer \<open>None\<close>).  The declarations of the
  header do not compile (\<^verbatim>\<open>EFreeListNumber\<close> in line 51, \<^verbatim>\<open>M_align\<close> not a member, \<^verbatim>\<open>reallocate\<close> outside the class); the
  bodies are taken as they are meant to be declared.

  The property says that the index, the rounding and the alignment fit each other for every size the pool serves.  The
  lemmas on the operations show that both change only a local copy of the head of the list, so that a head is handed
  out again and again and a released block never.
\<close>

unbundle bit_operations_syntax

subsection \<open>Sizes\<close>

definition ESmallObjectBytes :: "64 word" where "ESmallObjectBytes = 4096"

definition EFreeListsNumber :: nat where "EFreeListsNumber = 56"

definition M_align :: "64 word \<Rightarrow> 64 word" where
  "M_align bytes =
     (if bytes \<le> 512 then (if bytes \<le> 256 then (if bytes \<le> 128 then 8 else 16) else 32)
      else if bytes \<le> 2048 then (if bytes \<le> 1024 then 64 else 128) else 256)"

definition M_round_up :: "64 word \<Rightarrow> 64 word" where
  "M_round_up bytes = (bytes + M_align bytes - 1) AND NOT (M_align bytes - 1)"

definition M_freelist_index :: "64 word \<Rightarrow> 64 word" where
  "M_freelist_index bytes =
     (if bytes \<le> 512 then
        (if bytes \<le> 256 then (if bytes \<le> 128 then (bytes + 8 - 1) div 8 - 1 else 15 + (bytes + 16 - 129) div 16)
         else 23 + (bytes + 32 - 257) div 32)
      else if bytes \<le> 2048 then
        (if bytes \<le> 1024 then 31 + (bytes + 64 - 513) div 64 else 39 + (bytes + 128 - 1025) div 128)
      else 47 + (bytes + 256 - 2049) div 256)"

subsection \<open>The pool\<close>

record pool =
  free_list :: "nat option list"
  nxt_block :: "nat \<Rightarrow> nat option"

definition pool_init :: pool where
  "pool_init = \<lparr>free_list = replicate EFreeListsNumber None, nxt_block = (\<lambda>_. None)\<rparr>"

type_synonym obtain_block = "64 word \<Rightarrow> pool \<Rightarrow> nat option \<times> pool"

definition allocate :: "obtain_block \<Rightarrow> obtain_block \<Rightarrow> 64 word \<Rightarrow> pool \<Rightarrow> (nat option \<times> pool) option" where
  "allocate malloc M_refill n p =
     (if ESmallObjectBytes < n then Some (malloc n p)
      else let i = unat (M_freelist_index n) in
        if i < length (free_list p) then
          (case free_list p ! i of
             None \<Rightarrow> Some (M_refill (M_round_up n) p)
           | Some result \<Rightarrow> (let my_free_list = nxt_block p result in Some (Some result, p)))
        else None)"

definition deallocate :: "(nat \<Rightarrow> pool \<Rightarrow> pool) \<Rightarrow> nat \<Rightarrow> 64 word \<Rightarrow> pool \<Rightarrow> pool option" where
  "deallocate std_free q n p =
     (if ESmallObjectBytes < n then Some (std_free q p)
      else let i = unat (M_freelist_index n) in
        if i < length (free_list p) then Some (p\<lparr>nxt_block := (nxt_block p)(q := free_list p ! i)\<rparr>)
        else None)"

definition reallocate :: "obtain_block \<Rightarrow> obtain_block \<Rightarrow> (nat \<Rightarrow> pool \<Rightarrow> pool) \<Rightarrow> nat \<Rightarrow> 64 word \<Rightarrow> 64 word \<Rightarrow> pool
    \<Rightarrow> (nat option \<times> pool) option" where
  "reallocate malloc M_refill std_free q old_size new_size p =
     do { p' \<leftarrow> deallocate std_free q old_size p; allocate malloc M_refill new_size p' }"

subsection \<open>The size classes\<close>

text \<open>The block size of the list \<open>i\<close>, and the list for \<open>n\<close> bytes, as numbers.\<close>

definition class_size :: "nat \<Rightarrow> nat" where
  "class_size i =
     (if i < 16 then 8 * (i + 1) else if i < 24 then 16 * (i - 7) else if i < 32 then 32 * (i - 15)
      else if i < 40 then 64 * (i - 23) else if i < 48 then 128 * (i - 31) else 256 * (i - 39))"

definition class_index :: "nat \<Rightarrow> nat" where
  "class_index n =
     (if n \<le> 128 then (n + 7) div 8 - 1 else if n \<le> 256 then (n + 15) div 16 + 7 else if n \<le> 512 then (n + 31) div 32 + 15
      else if n \<le> 1024 then (n + 63) div 64 + 23 else if n \<le> 2048 then (n + 127) div 128 + 31 else (n + 255) div 256 + 39)"

text \<open>The alignment is a power of two.\<close>

definition align_bits :: "nat \<Rightarrow> nat" where
  "align_bits n = (if n \<le> 128 then 3 else if n \<le> 256 then 4 else if n \<le> 512 then 5
     else if n \<le> 1024 then 6 else if n \<le> 2048 then 7 else 8)"

lemma M_align_power: "M_align b = 2 ^ align_bits (unat b)" "unat (M_align b) = 2 ^ align_bits (unat b)"
  by (simp_all add: M_align_def align_bits_def word_le_nat_alt)

lemma word_add_sub:
  fixes w :: "64 word"
  assumes "unat w + m < 2 ^ 64" "k \<le> unat w + m"
  shows "unat (w + word_of_nat m - word_of_nat k) = unat w + m - k"
proof -
  have "w + word_of_nat m - word_of_nat k = word_of_nat (unat w + m - k)"
    using assms(2) by (simp add: of_nat_diff)
  then show ?thesis using assms(1) by (simp add: unat_of_nat)
qed

lemma and_not_mask_unat: "unat ((w :: 64 word) AND NOT (mask k)) = unat w div 2 ^ k * 2 ^ k"
proof -
  have "unat (w AND NOT (mask k)) = push_bit k (drop_bit k (unat w))"
    by (rule bit_eqI) (auto simp: bit_push_bit_iff bit_drop_bit_eq bit_and_iff bit_not_iff bit_mask_iff bit_unsigned_iff
        dest: bit_imp_le_length)
  then show ?thesis by (simp add: push_bit_eq_mult drop_bit_eq_div)
qed

lemma round_unat:
  assumes "b \<le> 4096"
  shows "unat (M_round_up b) = (unat b + 2 ^ align_bits (unat b) - 1) div 2 ^ align_bits (unat b) * 2 ^ align_bits (unat b)"
proof -
  let ?k = "align_bits (unat b)"
  have k: "(2 :: nat) ^ ?k \<le> 256" "0 < (2 :: nat) ^ ?k" by (simp_all add: align_bits_def)
  have n: "unat b \<le> 4096" using assms by (simp add: word_le_nat_alt)
  have "unat (b + M_align b - 1) = unat b + 2 ^ ?k - 1"
    using word_add_sub [of b "2 ^ ?k" 1] n k by (simp add: M_align_power)
  moreover have "M_align b - 1 = mask ?k" by (simp add: M_align_power mask_eq_exp_minus_1)
  ultimately show ?thesis by (simp add: M_round_up_def and_not_mask_unat)
qed

text \<open>Numbers of blocks, rounded up.\<close>

lemma ceil_bounds:
  fixes a :: nat
  assumes "0 < a" "m * a < n" "n \<le> k * a"
  shows "m < (n + a - 1) div a" "(n + a - 1) div a \<le> k"
proof -
  have "Suc m * a \<le> n + a - 1" using assms(1,2) by (simp add: algebra_simps)
  then show "m < (n + a - 1) div a" using assms(1) by (simp add: less_eq_div_iff_mult_less_eq flip: Suc_le_eq)
  have "n + a - 1 < Suc k * a" using assms(1,3) by (simp add: algebra_simps)
  then show "(n + a - 1) div a \<le> k" using assms(1) by (simp add: div_less_iff_less_mult flip: less_Suc_eq_le)
qed

lemma ceil_shift:
  fixes a :: nat
  assumes "0 < a" "m * a < n"
  shows "(n + a - (m * a + 1)) div a = (n + a - 1) div a - m"
proof -
  have "n + a - 1 = (n + a - (m * a + 1)) + m * a" using assms by simp
  then have "(n + a - 1) div a = (n + a - (m * a + 1)) div a + m" using assms(1) by (metis div_mult_self1 add.commute less_numeral_extra(3))
  then show ?thesis by simp
qed

lemma index_unat:
  assumes "0 < b" "b \<le> 4096"
  shows "unat (M_freelist_index b) = class_index (unat b)"
proof -
  have n: "0 < unat b" "unat b \<le> 4096" using assms by (simp_all add: word_le_nat_alt word_less_nat_alt)
  note a = word_add_sub [of b 8 1] word_add_sub [of b 16 129] word_add_sub [of b 32 257] word_add_sub [of b 64 513]
    word_add_sub [of b 128 1025] word_add_sub [of b 256 2049]
  have d: "unat ((b + 8 - 1) div 8) = (unat b + 7) div 8" using word_add_sub [of b 8 1] n by (simp add: unat_div_distrib)
  then have "unat ((b + 8 - 1) div 8 - 1) = (unat b + 7) div 8 - 1"
    using n unat_sub [of 1 "(b + 8 - 1) div 8"] by (simp add: word_le_nat_alt div_greater_zero_iff)
  with n a ceil_shift [of 256 8 "unat b"] ceil_bounds [of 256 8 "unat b" 16] show ?thesis
    by (auto simp: add.commute [of "unat b"] M_freelist_index_def class_index_def word_le_nat_alt unat_div_distrib unat_word_ariths)
qed

lemma class_of:
  assumes "0 < n" "n \<le> 4096"
  shows "(n + 2 ^ align_bits n - 1) div 2 ^ align_bits n * 2 ^ align_bits n = class_size (class_index n)
    \<and> class_index n < 56"
proof -
  note c = ceil_bounds [of 8 0 n 16] ceil_bounds [of 16 8 n 16] ceil_bounds [of 32 8 n 16] ceil_bounds [of 64 8 n 16]
    ceil_bounds [of 128 8 n 16] ceil_bounds [of 256 8 n 16]
  consider "n \<le> 128" | "128 < n" "n \<le> 256" | "256 < n" "n \<le> 512" | "512 < n" "n \<le> 1024" | "1024 < n" "n \<le> 2048"
    | "2048 < n" using assms by linarith
  then show ?thesis using c assms by cases (simp_all add: align_bits_def class_index_def class_size_def add.commute [of n])
qed

lemma class_size_inj: "i < 56 \<Longrightarrow> j < 56 \<Longrightarrow> class_size i = class_size j \<Longrightarrow> i = j"
  by (auto simp: class_size_def split: if_splits)

lemma class_index_size: "i < 56 \<Longrightarrow> class_index (class_size i) = i \<and> class_size i \<le> 4096"
  by (auto simp: class_size_def class_index_def)

text \<open>Claim C39: for every size from 1 to 4096 bytes the free list index is inside the array of 56 lists, the size is rounded
  up to the least multiple of its alignment, a block of the rounded size belongs to the same list, and two sizes share
  a list exactly when they are rounded to the same size: every list holds blocks of one size.\<close>

theorem alloc_size_classes:
  assumes "0 < b" "b \<le> ESmallObjectBytes"
  shows "unat (M_freelist_index b) < EFreeListsNumber \<and> b \<le> M_round_up b
    \<and> unat (M_round_up b) < unat b + unat (M_align b) \<and> unat (M_align b) dvd unat (M_round_up b)
    \<and> M_freelist_index (M_round_up b) = M_freelist_index b
    \<and> (\<forall>c. 0 < c \<and> c \<le> ESmallObjectBytes \<longrightarrow>
         (M_freelist_index b = M_freelist_index c \<longleftrightarrow> M_round_up b = M_round_up c))"
proof -
  have size: "0 < unat c \<and> unat c \<le> 4096 \<and> unat (M_freelist_index c) = class_index (unat c)
      \<and> unat (M_round_up c) = class_size (class_index (unat c)) \<and> class_index (unat c) < 56"
    if "0 < c" "c \<le> ESmallObjectBytes" for c :: "64 word"
    using that index_unat [of c] round_unat [of c] class_of [of "unat c"]
    by (simp add: ESmallObjectBytes_def word_le_nat_alt word_less_nat_alt)
  let ?k = "align_bits (unat b)"
  note b = size [OF assms]
  have r: "unat (M_round_up b) = (unat b + 2 ^ ?k - 1) div 2 ^ ?k * 2 ^ ?k"
    using assms(2) by (simp add: round_unat ESmallObjectBytes_def)
  have mod: "(unat b + 2 ^ ?k - 1) div 2 ^ ?k * 2 ^ ?k + (unat b + 2 ^ ?k - 1) mod 2 ^ ?k = unat b + 2 ^ ?k - 1"
    by (rule div_mult_mod_eq)
  have "(unat b + 2 ^ ?k - 1) mod 2 ^ ?k < 2 ^ ?k" by simp
  with mod r have le: "unat b \<le> unat (M_round_up b)" "unat (M_round_up b) < unat b + 2 ^ ?k" using b by linarith+
  have pos: "0 < M_round_up b" "M_round_up b \<le> ESmallObjectBytes"
    using le b class_index_size [of "class_index (unat b)"] by (simp_all add: ESmallObjectBytes_def word_le_nat_alt word_less_nat_alt)
  have "M_freelist_index (M_round_up b) = M_freelist_index b"
    using size [OF pos] b class_index_size [of "class_index (unat b)"] by (metis word_unat_eq_iff)
  moreover have "M_freelist_index b = M_freelist_index c \<longleftrightarrow> M_round_up b = M_round_up c"
    if "0 < c" "c \<le> ESmallObjectBytes" for c
    using size [OF that] b class_size_inj by (metis word_unat_eq_iff)
  moreover have "2 ^ ?k dvd unat (M_round_up b)" unfolding r by simp
  ultimately show ?thesis using b le by (simp add: EFreeListsNumber_def M_align_power(2) word_le_nat_alt)
qed

theorem alloc_size_classes_witness:
  "M_round_up 1000 = 1024 \<and> M_freelist_index (M_round_up 1000) = M_freelist_index 1000 \<and> unat (M_freelist_index 1000) < EFreeListsNumber"
  using alloc_size_classes [of 1000] by (simp add: ESmallObjectBytes_def M_round_up_def M_align_def)

subsection \<open>What the operations do to the lists\<close>

text \<open>The head of a list is handed out and stays the head: the next request gets the same block.\<close>

lemma index_in_array: "0 < n \<Longrightarrow> n \<le> ESmallObjectBytes \<Longrightarrow> unat (M_freelist_index n) < 56"
  using index_unat [of n] class_of [of "unat n"] by (simp add: ESmallObjectBytes_def word_le_nat_alt word_less_nat_alt)

lemma allocate_repeats:
  assumes "0 < n" "n \<le> ESmallObjectBytes" "length (free_list p) = EFreeListsNumber"
    and "free_list p ! unat (M_freelist_index n) = Some q"
  shows "do { (r, p') \<leftarrow> allocate malloc M_refill n p; (r', p'') \<leftarrow> allocate malloc M_refill n p'; Some (r, r') }
    = Some (Some q, Some q)"
  using assms index_in_array [OF assms(1,2)] by (simp add: allocate_def EFreeListsNumber_def Let_def linorder_not_less [symmetric])

text \<open>A released block is linked to the head and the head is not moved: no list ever leads to it.\<close>

lemma deallocate_keeps_heads:
  assumes "0 < n" "n \<le> ESmallObjectBytes" "length (free_list p) = EFreeListsNumber"
  shows "\<exists>p'. deallocate std_free q n p = Some p' \<and> free_list p' = free_list p
    \<and> nxt_block p' q = free_list p ! unat (M_freelist_index n)"
  using assms index_in_array [OF assms(1,2)] by (simp add: deallocate_def EFreeListsNumber_def Let_def linorder_not_less [symmetric])

text \<open>So a pool that starts empty gets every small block from \<^verbatim>\<open>M_refill\<close>, also after releases.\<close>

lemma allocate_after_deallocate:
  assumes "0 < n" "n \<le> ESmallObjectBytes"
  shows "do { p \<leftarrow> deallocate std_free q n pool_init; allocate malloc M_refill n p }
    = Some (M_refill (M_round_up n) (pool_init\<lparr>nxt_block := (nxt_block pool_init)(q := None)\<rparr>))"
  using assms index_in_array [OF assms]
  by (simp add: deallocate_def allocate_def EFreeListsNumber_def Let_def pool_init_def linorder_not_less [symmetric])

text \<open>Zero bytes are excluded by a comment only: the index wraps around.\<close>

lemma allocate_zero: "length (free_list p) = EFreeListsNumber \<Longrightarrow> allocate malloc M_refill 0 p = None"
  by (simp add: allocate_def M_freelist_index_def EFreeListsNumber_def ESmallObjectBytes_def unsigned_minus_1_eq_mask mask_eq_exp_minus_1)

end
