(* ===== verification/Tiny_Iter.thy ===== *)
theory Tiny_Iter
  imports Clang_Prelude
begin

text \<open>
  \<^verbatim>\<open>TinySTL/iterator.h\<close>, \<^verbatim>\<open>construct.h\<close> and \<^verbatim>\<open>util.h\<close>: iterator categories, \<^verbatim>\<open>distance\<close> and \<^verbatim>\<open>advance\<close>, destruction and exchange of
  ranges, and pairs.

  The categories are the tag classes with their bases; a trait is a function of the category of a type (\<open>None\<close>: the type has no
  category).  Overloads are chosen by the nearest base.  The operators of an iterator are a record, its laws the locale
  \<open>stepping\<close>, and the pointers of \<^verbatim>\<open>iterator_traits<T*>\<close> an instance.  A loop that never ends has the value \<open>None\<close>.  Memory is a
  function from positions to values.  Moving a value is copying it, and the type computations that choose constructors have
  no run-time counterpart.

  The lemmas of the locale show that the loops compute what the operators of a random access iterator compute, and when
  they do not end; the property states it for every category.
\<close>

subsection \<open>Categories\<close>

datatype iter_tag = Input_tag | Output_tag | Forward_tag | Bidirectional_tag | Random_tag

fun tag_base :: "iter_tag \<Rightarrow> iter_tag option" where
  "tag_base Input_tag = None"
| "tag_base Output_tag = None"
| "tag_base Forward_tag = Some Input_tag"
| "tag_base Bidirectional_tag = Some Input_tag"
| "tag_base Random_tag = Some Bidirectional_tag"

function is_convertible :: "iter_tag \<Rightarrow> iter_tag \<Rightarrow> bool" where
  "is_convertible t u = (t = u \<or> (case tag_base t of None \<Rightarrow> False | Some b \<Rightarrow> is_convertible b u))"
  by auto
termination
  by (relation "measure (\<lambda>(t, u). case t of Random_tag \<Rightarrow> 2 | Bidirectional_tag \<Rightarrow> 1 | Forward_tag \<Rightarrow> 1 | _ \<Rightarrow> 0)")
    (auto elim!: tag_base.elims split: iter_tag.splits)

declare is_convertible.simps [simp del]

text \<open>\<^verbatim>\<open>iterator_traits\<close> keeps a category only if it is one of an input or output iterator.\<close>

definition iterator_traits :: "iter_tag option \<Rightarrow> iter_tag option" where
  "iterator_traits c = (case c of None \<Rightarrow> None
     | Some t \<Rightarrow> if is_convertible t Input_tag \<or> is_convertible t Output_tag then Some t else None)"

definition has_iterator_cat_of :: "iter_tag option \<Rightarrow> iter_tag \<Rightarrow> bool" where
  "has_iterator_cat_of c u = (case iterator_traits c of None \<Rightarrow> False | Some t \<Rightarrow> is_convertible t u)"

definition is_exactly_input_iterator :: "iter_tag option \<Rightarrow> bool" where
  "is_exactly_input_iterator c \<longleftrightarrow> has_iterator_cat_of c Input_tag \<and> \<not> has_iterator_cat_of c Forward_tag"

definition is_forward_iterator :: "iter_tag option \<Rightarrow> bool" where
  "is_forward_iterator c \<longleftrightarrow> has_iterator_cat_of c Forward_tag"

definition is_iterator :: "iter_tag option \<Rightarrow> bool" where
  "is_iterator c \<longleftrightarrow> has_iterator_cat_of c Input_tag \<or> has_iterator_cat_of c Output_tag"

lemmas category_defs = has_iterator_cat_of_def iterator_traits_def is_exactly_input_iterator_def is_forward_iterator_def
  is_iterator_def is_convertible.simps

lemma every_category_is_iterator: "is_iterator (Some t)" "\<not> is_iterator None"
  by (cases t) (simp_all add: category_defs)

text \<open>The class of bidirectional iterators is derived from the input iterators directly: a pointer is no forward iterator, and
  counts as an iterator that can only be read once.\<close>

lemma random_not_forward:
  "\<not> is_forward_iterator (Some Random_tag)" "is_exactly_input_iterator (Some Random_tag)"
  "\<not> is_forward_iterator (Some Bidirectional_tag)" "is_exactly_input_iterator (Some Bidirectional_tag)"
  by (simp_all add: category_defs)

subsection \<open>Distance and advance\<close>

record 'i iter_ops =
  inc :: "'i \<Rightarrow> 'i"
  dec :: "'i \<Rightarrow> 'i"
  plus :: "'i \<Rightarrow> int \<Rightarrow> 'i"
  minus :: "'i \<Rightarrow> 'i \<Rightarrow> int"

partial_function (option) distance_loop :: "('i \<Rightarrow> 'i) \<Rightarrow> 'i \<Rightarrow> 'i \<Rightarrow> int \<Rightarrow> int option" where
  "distance_loop nxt i j n = (if i \<noteq> j then distance_loop nxt (nxt i) j (n + 1) else Some n)"

fun distance :: "iter_tag \<Rightarrow> 'i iter_ops \<Rightarrow> 'i \<Rightarrow> 'i \<Rightarrow> int option" where
  "distance Random_tag it i j = Some (minus it j i)"
| "distance _ it i j = distance_loop (inc it) i j 0"

text \<open>\<^verbatim>\<open>while (n--) ++i\<close> and \<^verbatim>\<open>while (n++) --i\<close>.\<close>

partial_function (option) advance_up :: "('i \<Rightarrow> 'i) \<Rightarrow> 'i \<Rightarrow> int \<Rightarrow> 'i option" where
  "advance_up nxt i n = (if n \<noteq> 0 then advance_up nxt (nxt i) (n - 1) else Some i)"

partial_function (option) advance_down :: "('i \<Rightarrow> 'i) \<Rightarrow> 'i \<Rightarrow> int \<Rightarrow> 'i option" where
  "advance_down prv i n = (if n \<noteq> 0 then advance_down prv (prv i) (n + 1) else Some i)"

fun advance :: "iter_tag \<Rightarrow> 'i iter_ops \<Rightarrow> 'i \<Rightarrow> int \<Rightarrow> 'i option" where
  "advance Random_tag it i n = Some (plus it i n)"
| "advance Bidirectional_tag it i n = (if 0 \<le> n then advance_up (inc it) i n else advance_down (dec it) i n)"
| "advance _ it i n = advance_up (inc it) i n"

text \<open>The pointers.\<close>

definition pointer_ops :: "int iter_ops" where
  "pointer_ops = \<lparr>inc = (\<lambda>i. i + 1), dec = (\<lambda>i. i - 1), plus = (\<lambda>i n. i + n), minus = (\<lambda>j i. j - i)\<rparr>"

lemmas loop_rec = distance_loop.simps advance_up.simps advance_down.simps

lemma advance_up_ends: "advance_up nxt i n = Some j \<Longrightarrow> 0 \<le> n"
  by (erule advance_up.raw_induct [where P = "\<lambda>nxt i n j. 0 \<le> n", rotated]) (fastforce split: if_splits)

locale stepping =
  fixes it :: "'i iter_ops"
  assumes plus_0: "plus it i 0 = i"
    and inc_plus: "plus it (inc it i) n = plus it i (n + 1)"
    and dec_plus: "plus it (dec it i) n = plus it i (n - 1)"
    and minus_plus: "minus it (plus it i n) i = n"
begin

lemma inc_eq: "inc it i = plus it i 1"
  using inc_plus [of i 0] by (simp add: plus_0)

lemma plus_inj: "plus it i m = plus it i n \<longleftrightarrow> m = n"
  using minus_plus by metis

lemma distance_counts: "0 \<le> k \<Longrightarrow> distance_loop (inc it) i (plus it i k) n = Some (n + k)"
proof (induction k arbitrary: i n rule: int_ge_induct)
  case base
  then show ?case by (subst distance_loop.simps) (simp add: plus_0)
next
  case (step k)
  have "i \<noteq> plus it i (k + 1)" using plus_inj [of i 0 "k + 1"] step.hyps by (simp add: plus_0)
  with step.IH [of "inc it i" "n + 1"] show ?case by (subst distance_loop.simps) (simp add: inc_plus)
qed

lemma advance_up_plus: "0 \<le> n \<Longrightarrow> advance_up (inc it) i n = Some (plus it i n)"
proof (induction n arbitrary: i rule: int_ge_induct)
  case (step k)
  from step.IH [of "inc it i"] step.hyps show ?case by (subst advance_up.simps) (simp add: inc_plus)
qed (simp add: advance_up.simps plus_0)

lemma advance_down_plus: "n \<le> 0 \<Longrightarrow> advance_down (dec it) i n = Some (plus it i n)"
proof (induction n arbitrary: i rule: int_le_induct)
  case (step k)
  from step.IH [of "dec it i"] step.hyps show ?case by (subst advance_down.simps) (simp add: dec_plus)
qed (simp add: advance_down.simps plus_0)

lemma distance_ends: "distance_loop (inc it) i j n = Some d \<Longrightarrow> n \<le> d \<and> j = plus it i (d - n)"
proof -
  assume d: "distance_loop (inc it) i j n = Some d"
  have "inc it = inc it \<longrightarrow> n \<le> d \<and> j = plus it i (d - n)"
  proof (rule distance_loop.raw_induct [where P = "\<lambda>nxt i j n d. nxt = inc it \<longrightarrow> n \<le> d \<and> j = plus it i (d - n)", OF _ d])
    fix f nxt i j n d
    assume IH: "\<And>nxt i j n d. f nxt i j n = Some d \<Longrightarrow> nxt = inc it \<longrightarrow> n \<le> d \<and> j = plus it i (d - n)"
      and r: "(if i \<noteq> j then f nxt (nxt i) j (n + 1) else Some n) = Some d"
    show "nxt = inc it \<longrightarrow> n \<le> d \<and> j = plus it i (d - n)"
      using r IH [of nxt "nxt i" j "n + 1" d] by (auto simp: plus_0 inc_plus split: if_splits)
  qed
  then show ?thesis by simp
qed

lemma advance_back: "0 \<le> n \<Longrightarrow> advance_up (inc it) i n = Some j \<Longrightarrow> distance_loop (inc it) i j 0 = Some n"
  using distance_counts [of n i 0] by (simp add: advance_up_plus)

end

interpretation ptr: stepping pointer_ops
  by unfold_locales (simp_all add: pointer_ops_def)

lemma pointer_simps [simp]: "inc pointer_ops i = i + 1" "dec pointer_ops i = i - 1" "plus pointer_ops i n = i + n"
  "minus pointer_ops j i = j - i"
  by (simp_all add: pointer_ops_def)

lemma pointer_distance: "distance_loop (inc pointer_ops) i j 0 = (if i \<le> j then Some (j - i) else None)"
proof (cases "i \<le> j")
  case True
  with ptr.distance_counts [of "j - i" i 0] show ?thesis by simp
next
  case False
  with ptr.distance_ends [of i j 0] show ?thesis by (cases "distance_loop (inc pointer_ops) i j 0") fastforce+
qed

lemma pointer_advance_up: "advance_up (inc pointer_ops) i n = (if 0 \<le> n then Some (i + n) else None)"
  using ptr.advance_up_plus [of n i] advance_up_ends [of "inc pointer_ops" i n]
  by (cases "advance_up (inc pointer_ops) i n") auto

text \<open>On pointers every overload of \<^verbatim>\<open>distance\<close> and \<^verbatim>\<open>advance\<close> computes what the random access version computes, in the
  cases for which its category is meant: \<^verbatim>\<open>distance\<close> when the first position is not behind the last one, \<^verbatim>\<open>advance\<close> when the
  number is not negative or the category is bidirectional.  In the other cases the loops never end.\<close>

theorem iterator_dispatch:
  assumes "t \<noteq> Output_tag"
  shows "distance t pointer_ops i j
      = (if i \<le> j \<or> t = Random_tag then distance Random_tag pointer_ops i j else None)
    \<and> advance t pointer_ops i n
      = (if 0 \<le> n \<or> t \<in> {Bidirectional_tag, Random_tag} then advance Random_tag pointer_ops i n else None)
    \<and> distance Random_tag pointer_ops i j = Some (j - i) \<and> advance Random_tag pointer_ops i n = Some (i + n)"
  using assms ptr.advance_down_plus [of n i]
  by (cases t) (simp_all add: pointer_distance pointer_advance_up)

theorem iterator_dispatch_witness:
  "distance Forward_tag pointer_ops 3 7 = Some 4 \<and> advance Bidirectional_tag pointer_ops 7 (- 4) = Some 3
   \<and> distance Forward_tag pointer_ops 7 3 = None"
  using iterator_dispatch [of Forward_tag 3 7 0] iterator_dispatch [of Bidirectional_tag 7 0 "- 4"]
    iterator_dispatch [of Forward_tag 7 3 0] by simp

subsection \<open>Destroying a range\<close>

text \<open>The destructors called, in order, for a range of a type whose destructor does something or not; \<^verbatim>\<open>destroy_one\<close> does nothing
  for the null pointer.\<close>

definition destroy_one :: "bool \<Rightarrow> int option \<Rightarrow> int list \<Rightarrow> int list" where
  "destroy_one trivially p called = (if trivially then called else case p of None \<Rightarrow> called | Some q \<Rightarrow> called @ [q])"

partial_function (option) destroy_loop_stl :: "bool \<Rightarrow> int \<Rightarrow> int \<Rightarrow> int list \<Rightarrow> int list option" where
  "destroy_loop_stl trivially i j called =
     (if i \<noteq> j then destroy_loop_stl trivially (i + 1) j (destroy_one trivially (Some i) called) else Some called)"

definition destroy_range :: "bool \<Rightarrow> int \<Rightarrow> int \<Rightarrow> int list \<Rightarrow> int list option" where
  "destroy_range trivially i j called = (if trivially then Some called else destroy_loop_stl trivially i j called)"

lemma destroy_loop_calls: "i \<le> j \<Longrightarrow> destroy_loop_stl False i j called = Some (called @ [i..j - 1])"
proof (induction "nat (j - i)" arbitrary: i called)
  case 0
  then show ?case by (subst destroy_loop_stl.simps) simp
next
  case (Suc k)
  then have "destroy_loop_stl False (i + 1) j (called @ [i]) = Some (called @ [i] @ [i + 1..j - 1])" by simp
  moreover have "[i..j - 1] = i # [i + 1..j - 1]" using Suc by (simp add: upto_rec1)
  ultimately show ?case using Suc by (subst destroy_loop_stl.simps) (simp add: destroy_one_def)
qed

lemma destroy_range_calls: "i \<le> j \<Longrightarrow> destroy_range triv i j called = Some (if triv then called else called @ [i..j - 1])"
  by (simp add: destroy_range_def destroy_loop_calls)

subsection \<open>Exchanging\<close>

definition swap_cells :: "int \<Rightarrow> int \<Rightarrow> (int \<Rightarrow> 'a) \<Rightarrow> int \<Rightarrow> 'a" where
  "swap_cells lhs rhs m = (let tmp = m lhs; m = m(lhs := m rhs) in m(rhs := tmp))"

partial_function (option) swap_range :: "int \<Rightarrow> int \<Rightarrow> int \<Rightarrow> (int \<Rightarrow> 'a) \<Rightarrow> (int \<times> (int \<Rightarrow> 'a)) option" where
  "swap_range first1 last1 first2 m =
     (if first1 \<noteq> last1 then swap_range (first1 + 1) last1 (first2 + 1) (swap_cells first1 first2 m)
      else Some (first2, m))"

definition swap_array :: "nat \<Rightarrow> int \<Rightarrow> int \<Rightarrow> (int \<Rightarrow> 'a) \<Rightarrow> (int \<times> (int \<Rightarrow> 'a)) option" where
  "swap_array N a b m = swap_range a (a + int N) b m"

definition exchanged :: "int \<Rightarrow> int \<Rightarrow> nat \<Rightarrow> (int \<Rightarrow> 'a) \<Rightarrow> int \<Rightarrow> 'a" where
  "exchanged a b n m = (\<lambda>x. if a \<le> x \<and> x < a + int n then m (x - a + b)
     else if b \<le> x \<and> x < b + int n then m (x - b + a) else m x)"

lemma swap_range_exchanges:
  "a + int n \<le> b \<or> b + int n \<le> a \<Longrightarrow> swap_range a (a + int n) b m = Some (b + int n, exchanged a b n m)"
proof (induction n arbitrary: a b m)
  case 0
  have "exchanged a b 0 m = m" by (auto simp: exchanged_def fun_eq_iff)
  then show ?case by (subst swap_range.simps) simp
next
  case (Suc n)
  have "swap_range (a + 1) (a + 1 + int n) (b + 1) (swap_cells a b m)
      = Some (b + 1 + int n, exchanged (a + 1) (b + 1) n (swap_cells a b m))"
    using Suc.prems by (intro Suc.IH) auto
  moreover have "exchanged (a + 1) (b + 1) n (swap_cells a b m) = exchanged a b (Suc n) m"
    using Suc.prems by (intro ext) (auto simp: exchanged_def swap_cells_def Let_def intro!: arg_cong [of _ _ m])
  ultimately show ?case by (subst swap_range.simps) (simp add: add.assoc)
qed

text \<open>Two arrays that do not overlap exchange their contents, and get them back when they are exchanged again.\<close>

lemma swap_array_twice:
  assumes "a + int N \<le> b \<or> b + int N \<le> a"
  shows "do { (_, m') \<leftarrow> swap_array N a b m; map_option snd (swap_array N a b m') } = Some m"
proof -
  have "exchanged a b N (exchanged a b N m) = m" using assms by (intro ext) (auto simp: exchanged_def)
  with assms show ?thesis by (simp add: swap_array_def swap_range_exchanges)
qed

subsection \<open>Pairs\<close>

record ('a, 'b) pr =
  first :: 'a
  second :: 'b

definition make_pair :: "'a \<Rightarrow> 'b \<Rightarrow> ('a, 'b) pr" where
  "make_pair a b = \<lparr>first = a, second = b\<rparr>"

definition pair_eq :: "('a, 'b) pr \<Rightarrow> ('a, 'b) pr \<Rightarrow> bool" where
  "pair_eq lhs rhs \<longleftrightarrow> first lhs = first rhs \<and> second lhs = second rhs"

definition pair_lt :: "('a :: linorder, 'b :: linorder) pr \<Rightarrow> ('a, 'b) pr \<Rightarrow> bool" where
  "pair_lt lhs rhs \<longleftrightarrow> first lhs < first rhs \<or> (first lhs = first rhs \<and> second lhs < second rhs)"

definition pair_ne :: "('a, 'b) pr \<Rightarrow> ('a, 'b) pr \<Rightarrow> bool" where
  "pair_ne lhs rhs \<longleftrightarrow> \<not> pair_eq lhs rhs"

definition pair_gt :: "('a :: linorder, 'b :: linorder) pr \<Rightarrow> ('a, 'b) pr \<Rightarrow> bool" where
  "pair_gt lhs rhs \<longleftrightarrow> pair_lt rhs lhs"

definition pair_le :: "('a :: linorder, 'b :: linorder) pr \<Rightarrow> ('a, 'b) pr \<Rightarrow> bool" where
  "pair_le lhs rhs \<longleftrightarrow> \<not> pair_lt rhs lhs"

definition pair_ge :: "('a :: linorder, 'b :: linorder) pr \<Rightarrow> ('a, 'b) pr \<Rightarrow> bool" where
  "pair_ge lhs rhs \<longleftrightarrow> \<not> pair_lt lhs rhs"

text \<open>\<^verbatim>\<open>operator=\<close> and \<^verbatim>\<open>swap\<close> on pairs stored at two places, which may be the same.\<close>

definition pair_assign :: "nat \<Rightarrow> nat \<Rightarrow> (nat \<Rightarrow> ('a, 'b) pr) \<Rightarrow> nat \<Rightarrow> ('a, 'b) pr" where
  "pair_assign self rhs m =
     (if self \<noteq> rhs then
        (let m = m(self := (m self)\<lparr>first := first (m rhs)\<rparr>) in m(self := (m self)\<lparr>second := second (m rhs)\<rparr>))
      else m)"

definition pair_swap :: "nat \<Rightarrow> nat \<Rightarrow> (nat \<Rightarrow> ('a, 'b) pr) \<Rightarrow> nat \<Rightarrow> ('a, 'b) pr" where
  "pair_swap self other m =
     (if self \<noteq> other then
        (let tmp = first (m self); m = m(self := (m self)\<lparr>first := first (m other)\<rparr>); m = m(other := (m other)\<lparr>first := tmp\<rparr>);
             tmp = second (m self); m = m(self := (m self)\<lparr>second := second (m other)\<rparr>)
         in m(other := (m other)\<lparr>second := tmp\<rparr>))
      else m)"

lemma pair_eq_iff: "pair_eq p q \<longleftrightarrow> p = q"
  by (auto simp: pair_eq_def intro!: pr.equality)

lemma pair_assign_copies: "pair_assign a b m = m(a := m b)"
  by (auto simp: pair_assign_def Let_def fun_eq_iff)

lemma pair_swap_exchanges: "pair_swap a b m = m(a := m b, b := m a)"
  by (auto simp: pair_swap_def Let_def fun_eq_iff)

text \<open>The comparisons are those of the lexicographic order.\<close>

interpretation pair_order: linorder "pair_le :: ('a :: linorder, 'b :: linorder) pr \<Rightarrow> _" pair_lt
proof
  fix p q r :: "('a, 'b) pr"
  show "pair_lt p q \<longleftrightarrow> pair_le p q \<and> \<not> pair_le q p" by (auto simp: pair_lt_def pair_le_def)
  show "pair_le p p" by (simp add: pair_lt_def pair_le_def)
  show "pair_le p q \<Longrightarrow> pair_le q r \<Longrightarrow> pair_le p r" by (auto simp: pair_lt_def pair_le_def not_less)
  show "pair_le p q \<Longrightarrow> pair_le q p \<Longrightarrow> p = q"
    by (auto simp: pair_lt_def pair_le_def not_less intro!: pr.equality)
  show "pair_le p q \<or> pair_le q p" by (auto simp: pair_lt_def pair_le_def)
qed

lemma pair_trichotomy: "pair_lt p q \<or> pair_eq p q \<or> pair_gt p q" "pair_gt p q \<longleftrightarrow> pair_ge p q \<and> pair_ne p q"
  using pair_order.less_linear [of p q] pair_order.less_le [of q p]
  by (auto simp: pair_eq_iff pair_gt_def pair_ge_def pair_ne_def pair_le_def)

end
