(* ===== verification/Os_Small.thy ===== *)
theory Os_Small
  imports Net_Os
begin

text \<open>
  The small programs on processes, pipes, mapped files and timers: \<^verbatim>\<open>process/fork_test.cpp\<close> and \<^verbatim>\<open>multi_thread.cpp\<close>, \<^verbatim>\<open>IPC/pipe_test.cpp\<close>,
  \<^verbatim>\<open>fifo_read.cpp\<close> and \<^verbatim>\<open>fifo_write.cpp\<close>, \<^verbatim>\<open>learnOS/IPC/pipe.cpp\<close>, \<^verbatim>\<open>timer/\<close> and \<^verbatim>\<open>mmap/\<close>.

  A program is a function on its history of calls, as in the network programs; a chain of \<^verbatim>\<open><<\<close> on \<^verbatim>\<open>cout\<close> is one \<open>Printf\<close> of its pieces.
  The two processes after a \<^verbatim>\<open>fork\<close> are the two runs in which it returned zero and a process number.  A successful \<^verbatim>\<open>execlp\<close>
  does not return: the reply is then the exit status of the new program.  The mapped file is its bytes; whether each call
  succeeded is an argument.

  The theorems state what arrives at the other end of the pipes, what the two \<^verbatim>\<open>mmap\<close> programs leave in the file, and where
  the FIFO programs leave their buffers.
\<close>

subsection \<open>process\<close>

definition fork_test_main :: "os \<Rightarrow> hist \<Rightarrow> int flow" where
  "fork_test_main os h =
     (let x = (0 :: int);
          h = do_call os (Printf (ln ''x = %d'') [PI x]) h;
          (me, h) = call os Getpid h;
          h = do_call os (Printf (ln ''parent pid = %d'') [PI (ret me)]) h;
          (pid, h) = call os Fork h
      in if ret pid = 0 then
           let x = x + 1;
               h = do_call os (Printf (ln ''x = %d'') [PI x]) h;
               h = do_call os (Printf (ln ''success'') []) h;
               (me, h) = call os Getpid h
           in Next 0 (do_call os (Printf (ln ''child getpid = %d'') [PI (ret me)]) h)
         else if ret pid < 0 then Next 0 (do_call os (Printf (ln ''failure'') []) h)
         else Next 0 (do_call os (Printf (ln ''pid = %d'') [PI (ret pid)]) (do_call os (Printf (ln ''x = %d'') [PI x]) h)))"

text \<open>Each thread of \<^verbatim>\<open>multi_thread.cpp\<close> is joined before the next one starts.\<close>

definition thread_hello :: "os \<Rightarrow> hist \<Rightarrow> hist" where
  "thread_hello os h = do_call os (Printf (ln ''hello world'') []) h"

definition thread_print :: "os \<Rightarrow> string \<Rightarrow> hist \<Rightarrow> hist" where
  "thread_print os name h = do_call os (Printf (ln ''%s'') [PS name]) h"

definition thread_test :: "os \<Rightarrow> hist \<Rightarrow> int flow" where
  "thread_test os h =
     (let h = thread_hello os h; h = do_call os (Printf (ln ''hello lambda'') []) h
      in Next 0 (thread_print os ''transfer parameter'' h))"

subsection \<open>Pipes\<close>

definition pipe_test_main :: "os \<Rightarrow> string \<Rightarrow> hist \<Rightarrow> int flow" where
  "pipe_test_main os buf h =
     (let (p, h) = call os Pipe h
      in if ret p = - 1 then Exited 1 (do_call os (Perror ''pipe error!'') h)
         else let (pid, h) = call os Fork h
         in if ret pid = - 1 then Exited 1 (do_call os (Perror ''fork error!'') h)
            else then_do
              (if ret pid = 0 then
                 (let h = do_call os (Close (int (fds p ! 1))) h;
                      (me, h) = call os Getpid h;
                      h = do_call os (Printf (ln ''child pid = %d'') [PI (ret me)]) h;
                      (r, h) = call os (Read (int (fds p ! 0)) (length buf)) h
                  in if ret r < 0 then Undef h
                     else Next () (do_call os (Write c_stdout (take (nat (ret r)) (fill buf (data r)))) h))
               else if 0 < ret pid then
                 (let h = do_call os (Close (int (fds p ! 0))) (do_call os (Sleep 1) h);
                      (me, h) = call os Getpid h;
                      h = do_call os (Printf (ln ''parent pid = %d'') [PI (ret me)]) h;
                      h = do_call os (Write (int (fds p ! 1)) (ln ''hello pipe'')) h
                  in Next () (do_call os Wait h))
               else Next () h)
              (\<lambda>_ h. let (me, h) = call os Getpid h in Next 0 (do_call os (Printf (ln ''complete! pid = %d'') [PI (ret me)]) h)))"

text \<open>The message of \<^verbatim>\<open>learnOS/IPC/pipe.cpp\<close> and the text before it, in UTF-8.\<close>

definition pipe_msg :: string where
  "pipe_msg = map char_of [228, 189, 160, 229, 165, 189, 239, 188, 140, 230, 136, 145, 230, 152, 175, 231, 136, 182, 232,
     191, 155, 231, 168, 139, 239, 188, 129 :: nat]"

definition pipe_prefix :: string where
  "pipe_prefix = map char_of [91, 229, 173, 144, 232, 191, 155, 231, 168, 139, 93, 32, 230, 142, 165, 230, 148, 182, 229, 136,
     176, 231, 136, 182, 232, 191, 155, 231, 168, 139, 230, 182, 136, 230, 129, 175, 58, 32 :: nat]"

definition os_pipe_child :: "os \<Rightarrow> reply \<Rightarrow> string \<Rightarrow> hist \<Rightarrow> unit flow" where
  "os_pipe_child os p buffer h =
     (let h = do_call os (Close (int (fds p ! 1))) h;
          (r, h) = call os (Read (int (fds p ! 0)) (length buffer)) h
      in then_do
           (if 0 < ret r then
              (case put_nul (fill buffer (data r)) (ret r) of
                 None \<Rightarrow> Undef h
               | Some b \<Rightarrow> Next () (do_call os (Printf (ln ''%s%s'') [PS pipe_prefix, PS (c_str b)]) h))
            else Next () h)
           (\<lambda>_ h. Next () (do_call os (Close (int (fds p ! 0))) h)))"

definition os_pipe_parent :: "os \<Rightarrow> reply \<Rightarrow> hist \<Rightarrow> unit flow" where
  "os_pipe_parent os p h =
     (let h = do_call os (Close (int (fds p ! 0))) h;
          h = do_call os (Write (int (fds p ! 1)) pipe_msg) h;
          h = do_call os (Close (int (fds p ! 1))) h
      in Next () (do_call os Wait h))"

definition os_pipe_main :: "os \<Rightarrow> string \<Rightarrow> hist \<Rightarrow> int flow" where
  "os_pipe_main os buffer h =
     (let (p, h) = call os Pipe h
      in if ret p = - 1 then Next 1 (do_call os (Perror ''pipe failed'') h)
         else let (pid, h) = call os Fork h
         in if ret pid = - 1 then Next 1 (do_call os (Perror ''fork failed'') h)
            else then_do (if ret pid = 0 then os_pipe_child os p buffer h else os_pipe_parent os p h) (\<lambda>_ h. Next 0 h))"

text \<open>A read from the pipe that gets a whole message of at least one byte.\<close>

definition delivers :: "os \<Rightarrow> int \<Rightarrow> string \<Rightarrow> bool" where
  "delivers os fd m \<longleftrightarrow> (\<forall>h n. length m \<le> n \<longrightarrow> ret (os h (Read fd n)) = int (length m) \<and> data (os h (Read fd n)) = m)"

lemma pipe_test_child:
  assumes "ret (os h Pipe) \<noteq> - 1" "ret (os (h @ [(Pipe, os h Pipe)]) Fork) = 0" "length m \<le> length buf"
    and "delivers os (int (fds (os h Pipe) ! 0)) m"
  shows "\<exists>h'. pipe_test_main os buf h = Next 0 h' \<and> written c_stdout h' = written c_stdout h @ m"
  using assms by (simp add: pipe_test_main_def call_def do_call_eq delivers_def Let_def)

lemma pipe_test_parent:
  assumes "ret (os h Pipe) \<noteq> - 1" "0 < ret (os (h @ [(Pipe, os h Pipe)]) Fork)"
  shows "\<exists>h'. pipe_test_main os buf h = Next 0 h'
    \<and> written (int (fds (os h Pipe) ! 1)) h' = written (int (fds (os h Pipe) ! 1)) h @ ln ''hello pipe''"
  using assms by (simp add: pipe_test_main_def call_def do_call_eq Let_def)

text \<open>A message fills the buffer of the child, terminator included, only up to 127 bytes.\<close>

lemma os_pipe_child_prints:
  assumes "delivers os (int (fds p ! 0)) m" "m \<noteq> []" "length m < length buffer" "NUL \<notin> set m"
  shows "\<exists>h' r r'. os_pipe_child os p buffer h = Next () (h' @ [(Printf (ln ''%s%s'') [PS pipe_prefix, PS m], r), r'])"
proof -
  have "put_nul (fill buffer m) (int (length m)) = Some ((fill buffer m)[length m := NUL])"
    using assms(3) by (simp add: put_nul_def)
  moreover have "c_str ((fill buffer m)[length m := NUL]) = m"
  proof -
    have "drop (length m) buffer \<noteq> []" using assms(3) by simp
    then obtain b bs where "drop (length m) buffer = b # bs" by (cases "drop (length m) buffer") auto
    moreover have "takeWhile (\<lambda>c. c \<noteq> NUL) m = m" using assms(4) by (auto simp: takeWhile_eq_all_conv)
    ultimately show ?thesis by (simp add: fill_def c_str_def list_update_append takeWhile_append)
  qed
  ultimately show ?thesis using assms(1-3)
    by (auto simp: os_pipe_child_def call_def do_call_eq delivers_def Let_def)
qed

lemma os_pipe_child_full:
  assumes "delivers os (int (fds p ! 0)) m" "m \<noteq> []" "length m = length buffer"
  shows "\<exists>h'. os_pipe_child os p buffer h = Undef h'"
  using assms by (auto simp: os_pipe_child_def call_def do_call_eq delivers_def Let_def put_nul_def)

lemma pipe_msg_fits: "length pipe_msg = 27" "NUL \<notin> set pipe_msg"
  by code_simp+

subsection \<open>Named pipes\<close>

abbreviation P_FIFO :: string where "P_FIFO \<equiv> ''p_fifo''"
abbreviation RDONLY_NONBLOCK :: int where "RDONLY_NONBLOCK \<equiv> 2048"
abbreviation WRONLY_NONBLOCK :: int where "WRONLY_NONBLOCK \<equiv> 2049"

text \<open>The loop of \<^verbatim>\<open>fifo_read.cpp\<close>; a message without a terminator inside the 100 bytes is read past the buffer.\<close>

fun fifo_read_loop :: "os \<Rightarrow> nat \<Rightarrow> int \<Rightarrow> hist \<Rightarrow> int flow" where
  "fifo_read_loop os 0 fd h = Cut h"
| "fifo_read_loop os (Suc n) fd h =
     (let cache = replicate 100 NUL;
          (r, h) = call os (Read fd 100) h;
          cache = fill cache (data r)
      in if ret r = 0 then fifo_read_loop os n fd (do_call os (Sleep 1) (do_call os (Printf (ln ''no data'') []) h))
         else if NUL \<notin> set cache then Undef h
         else fifo_read_loop os n fd (do_call os (Sleep 1) (do_call os (Printf (ln ''data: %s'') [PS (c_str cache)]) h)))"

definition fifo_read_main :: "os \<Rightarrow> nat \<Rightarrow> hist \<Rightarrow> int flow" where
  "fifo_read_main os fuel h =
     (let (a, h) = call os (Access P_FIFO) h
      in then_do
           (if ret a = 0 then
              (let (e, h) = call os (Execlp [''rm'', ''-f'', P_FIFO]) h
               in if ret e = - 1 then Next () (do_call os (Printf (ln ''access.'') []) h) else Exited (ret e) h)
            else Next () h)
           (\<lambda>_ h. let (m, h) = call os (Mkfifo P_FIFO 511) h
             in if ret m < 0 then Exited 1 (do_call os (Printf (ln ''create named pipe failed'') []) h)
                else let (f, h) = call os (Open P_FIFO RDONLY_NONBLOCK) h in fifo_read_loop os fuel (ret f) h))"

text \<open>\<^verbatim>\<open>fifo_write.cpp\<close>: the \<^verbatim>\<open>write\<close> takes 100 bytes from the argument, whatever its length.\<close>

definition fifo_write_main :: "os \<Rightarrow> string list \<Rightarrow> hist \<Rightarrow> int flow" where
  "fifo_write_main os argv h =
     (if length argv < 2 then Exited 1 (do_call os (Printf (ln ''please input the write data.'') []) h)
      else let (f, h) = call os (Open P_FIFO WRONLY_NONBLOCK) h
        in if ret f = - 1 then Exited 1 (do_call os (Printf (ln ''open failed!'') []) h)
           else let h = do_call os (Printf ''open named pipe successful'' []) h
             in if length (argv ! 1) + 1 < 100 then Undef h
                else Next 0 (do_call os (Close (ret f)) (do_call os (Write (ret f) (take 100 (argv ! 1 @ [NUL]))) h)))"

text \<open>When the FIFO is there, the reader turns into \<^verbatim>\<open>rm\<close> and reads nothing.\<close>

lemma fifo_read_replaced:
  assumes "ret (os h (Access P_FIFO)) = 0"
    and "ret (os (h @ [(Access P_FIFO, os h (Access P_FIFO))]) (Execlp [''rm'', ''-f'', P_FIFO])) = 0"
  shows "\<exists>h'. fifo_read_main os fuel h = Exited 0 h' \<and> received fd h' = received fd h"
  using assms by (simp add: fifo_read_main_def call_def do_call_eq Let_def)

text \<open>A message shorter than 99 characters is read past its end, one of 100 or more past the buffer of the reader.\<close>

lemma fifo_write_overreads:
  assumes "length argv = 2" "length (argv ! 1) < 99" "ret (os h (Open P_FIFO WRONLY_NONBLOCK)) \<noteq> - 1"
  shows "\<exists>h'. fifo_write_main os argv h = Undef h'"
  using assms by (simp add: fifo_write_main_def call_def do_call_eq Let_def)

lemma fifo_read_overreads:
  assumes "ret (os h (Read fd 100)) = 100" "length (data (os h (Read fd 100))) = 100" "NUL \<notin> set (data (os h (Read fd 100)))"
  shows "\<exists>h'. fifo_read_loop os (Suc n) fd h = Undef h'"
  using assms by (simp add: call_def Let_def fill_def)

subsection \<open>Timers\<close>

text \<open>The endless loops that print a counter until the signal comes.\<close>

fun count_loop :: "os \<Rightarrow> string \<Rightarrow> nat \<Rightarrow> int \<Rightarrow> hist \<Rightarrow> int flow" where
  "count_loop os fmt 0 i h = Cut h"
| "count_loop os fmt (Suc n) i h =
     (let h = do_call os (Printf fmt [PI i]) h in if i = 2 ^ 31 - 1 then Undef h else count_loop os fmt n (i + 1) h)"

definition alarm_main :: "os \<Rightarrow> nat \<Rightarrow> hist \<Rightarrow> int flow" where
  "alarm_main os fuel h = count_loop os (ln ''processing...%d'') fuel 0 (do_call os (Alarm 1) h)"

definition my_alarm :: "os \<Rightarrow> nat \<Rightarrow> hist \<Rightarrow> int flow" where
  "my_alarm os sec h =
     (let (r, h) = call os (Setitimer sec 0) h
      in if ret r = - 1 then Exited 1 (do_call os (Perror ''setitimer error'') h)
         else (case outv r of None \<Rightarrow> Undef h | Some old \<Rightarrow> Next old h))"

definition setitimer_main :: "os \<Rightarrow> nat \<Rightarrow> hist \<Rightarrow> int flow" where
  "setitimer_main os fuel h = then_do (my_alarm os 1 h) (\<lambda>_ h. count_loop os (ln ''%d'') fuel 0 h)"

definition process_func :: "os \<Rightarrow> hist \<Rightarrow> hist" where
  "process_func os h = do_call os (Printf (ln ''I catch a signal. ha ha ha ...'') []) h"

text \<open>The handler runs once for every signal that arrives in the endless loop.\<close>

fun busy_wait :: "os \<Rightarrow> nat \<Rightarrow> hist \<Rightarrow> int flow" where
  "busy_wait os 0 h = Cut h"
| "busy_wait os (Suc signals) h = busy_wait os signals (process_func os h)"

definition setitimer2_main :: "os \<Rightarrow> nat \<Rightarrow> hist \<Rightarrow> int flow" where
  "setitimer2_main os signals h =
     (let h = do_call os (Signal 14 ''process_func'') h;
          (r, h) = call os (Setitimer 1 3) h
      in if ret r = - 1 then Exited 1 (do_call os (Perror ''setitimer error'') h) else busy_wait os signals h)"

lemma count_loop_counts:
  "int n + i < 2 ^ 31 \<Longrightarrow> \<exists>h'. count_loop os fmt n i h = Cut h'
     \<and> map fst h' = map fst h @ map (\<lambda>k. Printf fmt [PI (i + int k)]) [0..<n]"
proof (induction n arbitrary: i h)
  case (Suc n)
  from Suc.prems have "int n + (i + 1) < 2 ^ 31" by simp
  from Suc.IH [OF this, of "do_call os (Printf fmt [PI i]) h"] obtain h' where "count_loop os fmt n (i + 1) (do_call os (Printf fmt [PI i]) h) = Cut h'"
    "map fst h' = map fst (do_call os (Printf fmt [PI i]) h) @ map (\<lambda>k. Printf fmt [PI (i + 1 + int k)]) [0..<n]"
    by blast
  moreover have "i \<noteq> 2 ^ 31 - 1" using Suc.prems by simp
  moreover have "[0..<Suc n] = 0 # map Suc [0..<n]" by (simp add: upt_conv_Cons map_Suc_upt)
  ultimately show ?case by (simp add: do_call_eq Let_def comp_def algebra_simps)
qed simp

subsection \<open>Mapped files\<close>

record map_env =
  open_ok :: bool
  truncate_ok :: bool
  mmap_ok :: bool
  munmap_ok :: bool

definition ftruncate :: "nat \<Rightarrow> string \<Rightarrow> string" where
  "ftruncate n f = take n f @ replicate (n - length f) NUL"

definition strcpy_at :: "nat \<Rightarrow> string \<Rightarrow> string \<Rightarrow> string" where
  "strcpy_at i s m = take i m @ s @ [NUL] @ drop (i + length s + 1) m"

text \<open>Both programs up to the text and where it is put: the exit status, the messages and the file.\<close>

definition mmap_program :: "nat \<Rightarrow> string \<Rightarrow> string \<Rightarrow> map_env \<Rightarrow> string \<Rightarrow> int \<times> string list \<times> string" where
  "mmap_program offset s open_error e f =
     (if \<not> open_ok e then (1, [open_error], f)
      else if \<not> truncate_ok e then (1, [ln ''ftruncate error!''], f)
      else let f = ftruncate 64 f
        in if \<not> mmap_ok e then (1, [ln ''mmap error!''], f)
           else let f = strcpy_at offset s f
             in if \<not> munmap_ok e then (1, [ln ''munmap error!''], f) else (0, [], f))"

definition mmap_test_main :: "map_env \<Rightarrow> string \<Rightarrow> int \<times> string list \<times> string" where
  "mmap_test_main = mmap_program 0 ''hello mmap'' (ln ''open file error!'')"

definition mmap_test2_main :: "map_env \<Rightarrow> string \<Rightarrow> int \<times> string list \<times> string" where
  "mmap_test2_main = mmap_program 6 (ln ''new mmap'') ''open error!''"

lemma ftruncate_length [simp]: "length (ftruncate n f) = n"
  by (simp add: ftruncate_def)

lemma strcpy_at_length [simp]: "i + length s < length m \<Longrightarrow> length (strcpy_at i s m) = length m"
  by (simp add: strcpy_at_def)

lemma ftruncate_same: "length f = n \<Longrightarrow> ftruncate n f = f"
  by (simp add: ftruncate_def)

text \<open>The two programs one after the other leave a file of 64 bytes that starts with \<^verbatim>\<open>hello new mmap\<close>, whatever it held.\<close>

theorem mmap_programs:
  assumes "open_ok e" "truncate_ok e" "mmap_ok e" "munmap_ok e"
  shows "\<exists>f1 f2. mmap_test_main e f = (0, [], f1) \<and> c_str f1 = ''hello mmap'' \<and> mmap_test2_main e f1 = (0, [], f2)
    \<and> c_str f2 = ln ''hello new mmap'' \<and> length f2 = 64"
proof -
  let ?f1 = "strcpy_at 0 ''hello mmap'' (ftruncate 64 f)"
  let ?f2 = "strcpy_at 6 (ln ''new mmap'') ?f1"
  have len: "length ?f1 = 64" by (subst strcpy_at_length) simp_all
  have "mmap_test_main e f = (0, [], ?f1)" "mmap_test2_main e ?f1 = (0, [], ?f2)"
    using assms len by (simp_all add: mmap_test_main_def mmap_test2_main_def mmap_program_def ftruncate_same Let_def)
  moreover have "c_str ?f1 = ''hello mmap''" "c_str ?f2 = ln ''hello new mmap''"
    by (simp_all add: strcpy_at_def c_str_def NUL_def nl_def)
  moreover have "length ?f2 = 64" using len by (subst strcpy_at_length) simp_all
  ultimately show ?thesis by blast
qed

end
