(* ===== verification/Spec2Isabelle.thy ===== *)
theory Spec2Isabelle
  imports Nty_Slist Nty_Stailq Nty_List Nty_Tailq Nty_Rb_Order Nty_Splay_Order
    Net_Stream Net_File Net_Calc Net_Select Net_Pipe Net_News Web_Main Web_Workers Web_Life Vid_Edit Vid_Test
    Lru_Cache Random_List Shared_Ptr Proc_Sums Rw_Lock Tiny_Alloc Tiny_Iter Os_Small
begin

text \<open>
  A verification of the C and C++ programs of this repository: the queue and tree macros of the
  coroutine library \<^verbatim>\<open>kvstore/NtyCo\<close>, the socket programs of \<^verbatim>\<open>net-program\<close>, the web server
  \<^verbatim>\<open>TinyWebServer\<close>, the command line front end \<^verbatim>\<open>videoedit\<close>, the containers of \<^verbatim>\<open>TinySTL\<close>, \<^verbatim>\<open>algo\<close> and \<^verbatim>\<open>Cpp\<close>, and the
  exercises on processes and threads.  All paths are below \<^verbatim>\<open>src/\<close>.

  \<^bold>\<open>The parts and how they interact.\<close>

  \<^item> \<^verbatim>\<open>kvstore/NtyCo/core/nty_queue.h\<close> and \<^verbatim>\<open>nty_tree.h\<close> are the intrusive lists and search trees in which a
    coroutine scheduler keeps its ready queue and its sleeping and waiting coroutines.  They call
    nothing but the comparison function of the user.

  \<^item> \<^verbatim>\<open>net-program\<close> holds one directory per chapter with small servers and clients.  They share their
    prologue (argument check, socket, bind, listen or connect) and talk to each other through sockets,
    pipes and files.

  \<^item> \<^verbatim>\<open>TinyWebServer\<close> is one program.  \<^verbatim>\<open>WebServer\<close> (\<^verbatim>\<open>webserver.cpp\<close>) runs the event loop; it hands
    connections (\<^verbatim>\<open>http/http_conn.cpp\<close>) to the workers of \<^verbatim>\<open>ThreadPool\<close>, which borrow a connection from
    \<^verbatim>\<open>ConnectionPool\<close> and call \<^verbatim>\<open>HttpConn::process\<close>; the list of timers (\<^verbatim>\<open>timer/lst_timer.cpp\<close>) closes idle
    connections; \<^verbatim>\<open>Log\<close> passes lines through \<^verbatim>\<open>BlockQueue\<close> to its writer thread.  The locks of
    \<^verbatim>\<open>lock/locker.h\<close> are below all of them.

  \<^item> \<^verbatim>\<open>videoedit\<close> is one program.  \<^verbatim>\<open>UserInput\<close> reads lines and calls the task registered for the first word;
    \<^verbatim>\<open>XVideoInput\<close> turns the options into the data of a task; \<^verbatim>\<open>FFTask\<close> builds an ffmpeg command and follows its
    progress; \<^verbatim>\<open>XExec\<close> runs the command in a worker thread that hands every line of output to a callback or
    to a \<^verbatim>\<open>BlockQueue\<close>.  The log of \<^verbatim>\<open>xlog\<close> is configured from a file.

  \<^item> The other directories hold independent programs and headers: a cache, a copy of a list and a shared pointer on
    the heap; sums computed by threads and processes; readers and writers; pipes, timers and mapped files.

  \<^bold>\<open>How the code is represented.\<close>

  \<^item> A structure is a record, an enumeration a datatype, memory shared between structures a heap of
    records or a function from addresses; a pointer is an \<open>addr option\<close>.  Arrays are lists and pointers
    into them indices.  Integers are \<open>int\<close> where the code cannot overflow, words or explicit \<open>mod\<close>
    where it can (\<^verbatim>\<open>htonl\<close>, \<^verbatim>\<open>inet_addr\<close>, the counts passed as \<^verbatim>\<open>size_t\<close>).

  \<^item> Undefined behaviour, a NULL dereference, an access out of bounds or an exit of the process is
    \<open>None\<close> in the queue, tree and web server theories, and \<open>Undef\<close> or \<open>Exit\<close> of the type
    \<open>flow\<close> in the net-program theories.  A theorem that states \<open>Some\<close> or \<open>Next\<close> therefore
    states that the code does not crash.

  \<^item> Loops over linked structures are \<open>partial_function (option)\<close>, so that \<open>None\<close> also covers a loop that does
    not end; the theorems prove \<open>Some\<close>.  Loops of net-program that wait for the environment take
    the number of rounds they may still make; \<open>Cut\<close> is a program that is still running when the rounds
    are used up.  The theorems that a program returns give a number of rounds that suffices.

  \<^item> The operating system is a parameter: \<open>os\<close> answers every call from the history of the calls and
    replies so far, and what a theorem needs of it (a stream peer, a file, a child that exits) is a named
    hypothesis on the replies with a concrete instance in its witness.  In the web server the results
    of \<^verbatim>\<open>recv\<close>, \<^verbatim>\<open>writev\<close>, \<^verbatim>\<open>stat\<close>, \<^verbatim>\<open>mmap\<close>, \<^verbatim>\<open>epoll_wait\<close>, the clock and the MySQL client are arguments.

  \<^item> Threads are interleavings of steps.  A critical section under one mutex is one step, a blocked thread
    is a step that is not enabled (\<open>Queue_Threads\<close>, \<open>Sem_Threads\<close>, \<open>Vid_Task\<close>, \<open>Vid_Test\<close>, \<open>Rw_Lock\<close>).  For the blocking queue
    and the pools of the web server the statements inside the sections are modelled as well, and refine that (\<open>Web_Locks\<close>, \<open>Web_Workers\<close>).

  \<^item> The C++ of \<^verbatim>\<open>videoedit\<close> ends in an \<open>outcome\<close> of \<open>Cpp_Std\<close>: a value, an exception, undefined behaviour, the end of the process, or a
    thread that waits for ever.

  \<^bold>\<open>The theories.\<close>

  \<^item> \<open>Clang_Prelude\<close>: options as runs, pointers, chains of pointers, traversal loops, the locale
    \<open>simulation\<close> (a step function refines another, hence every sequence does).

  \<^item> \<open>Nty_Queue_Base\<close>, \<open>Nty_Slist\<close>, \<open>Nty_Stailq\<close>, \<open>Nty_List\<close>, \<open>Nty_Tailq\<close>: \<^verbatim>\<open>nty_queue.h\<close>.  Each
    family of macros has its heads and entries, all its operations and traversals.  Every legal
    sequence of operations refines the corresponding operations on lists, passes the consistency
    checks of the \<^verbatim>\<open>INVARIANTS\<close> build, and the traversals visit exactly that list; \<^verbatim>\<open>TAILQ_CONCAT\<close> and
    \<^verbatim>\<open>TAILQ_SWAP\<close> keep all links.

  \<^item> \<open>Nty_Order\<close> (the contract \<open>ordered_tree\<close>, interpreted for both trees), \<open>Nty_Rbtree\<close>,
    \<open>Nty_Rb_Shape\<close>, \<open>Nty_Rb_Insert\<close>, \<open>Nty_Rb_Remove\<close>, \<open>Nty_Rb_Order\<close>: what \<^verbatim>\<open>RB_GENERATE\<close> produces.
    Pointers and colours are related to a tree with a context (zipper); insertion and removal
    keep every red-black invariant, return the right element and refine the sorted list;
    searching, iteration and removal during \<^verbatim>\<open>RB_FOREACH_SAFE\<close> are right.

  \<^item> \<open>Nty_Splay\<close>, \<open>Nty_Splay_Order\<close>: what \<^verbatim>\<open>SPLAY_GENERATE\<close> produces, with the same contract.

  \<^item> \<open>Net_Os\<close> (system calls, \<open>flow\<close>, byte order, \<^verbatim>\<open>atoi\<close>), \<open>Net_Addr\<close> (chapters 3, 8), \<open>Net_Echo\<close> and
    \<open>Net_Stream\<close> (the echo programs of chapters 4, 5, 6, 9, 10, 11 and what they guarantee over a stream),
    \<open>Net_File\<close> (1, 2, 7), \<open>Net_Calc\<close> (5), \<open>Net_Select\<close> (12), \<open>Net_Pipe\<close> (11), \<open>Net_Proc\<close> (1, 6, 9, 10, 13),
    \<open>Net_News\<close> (14).

  \<^item> \<open>Queue_Threads\<close> (a blocking queue used by several threads, over the locale \<open>fifo_queue\<close>) and
    \<open>Web_Queue\<close>: \<^verbatim>\<open>log/block_queue.h\<close>, the circular buffer as a bounded list, and the order of the items
    under every interleaving.

  \<^item> \<open>Sem_Threads\<close> (a list behind a mutex and a counting semaphore, over the locale \<open>sem_store\<close>) and \<open>Web_Pool\<close>:
    \<^verbatim>\<open>lock/locker.h\<close>, \<^verbatim>\<open>CGImysql/sql_connection_pool.cpp\<close>, \<^verbatim>\<open>threadpool/threadpool.h\<close>.  No element is handed
    out twice or lost, and the semaphore admits no thread to an empty list.

  \<^item> \<open>Web_Timer\<close>: \<^verbatim>\<open>SortTimeLst\<close> of \<^verbatim>\<open>timer/lst_timer.cpp\<close> as an agenda sorted by expiry, and the insertions for which the code
    does not keep its list.

  \<^item> \<open>Web_Http\<close> (the connection, reading, the line scanner), \<open>Web_Request\<close> (parsers, the main state
    machine, \<^verbatim>\<open>do_request\<close>), \<open>Web_Response\<close> (response, writing, \<^verbatim>\<open>process\<close>): \<^verbatim>\<open>http/http_conn.cpp\<close>.  The
    scanner does not depend on how the input is cut; the buffers keep their bounds under every
    operation; requests are answered as the code does it, including the inverted loop condition
    that stops at the first complete line.

  \<^item> \<open>Web_Log\<close>: \<^verbatim>\<open>log/log.cpp\<close>, lines and the files they go to.

  \<^item> \<open>Web_Server\<close>: \<^verbatim>\<open>webserver.cpp\<close>, \<^verbatim>\<open>Utils\<close> and \<^verbatim>\<open>cb_func\<close>, \<^verbatim>\<open>config.cpp\<close>.  Idle connections are closed as an
    abstract table of deadlines prescribes; the ways in which closing a connection deletes its timer
    twice; the number of users.


  \<^item> \<open>Web_Locks\<close>: the classes of \<^verbatim>\<open>lock/locker.h\<close> as transitions of mutex, semaphore and condition variable, and \<^verbatim>\<open>push\<close> and \<^verbatim>\<open>pop\<close> of \<^verbatim>\<open>log/block_queue.h\<close>
    statement by statement on top of them.  Every run of the statements is a run of \<open>Queue_Threads\<close>, in which a critical section is one step.

  \<^item> \<open>Web_Workers\<close>: all threads of the server together, \<^verbatim>\<open>run\<close>, \<^verbatim>\<open>append\<close> and \<^verbatim>\<open>append_p\<close> of \<^verbatim>\<open>threadpool/threadpool.h\<close> with the connection that
    \<^verbatim>\<open>ConnectionRAII\<close> takes from the pool and the handling of the request by \<open>Web_Pool\<close> and \<open>Web_Response\<close>.  The abstractions to
    \<open>Sem_Threads\<close>, once for the requests and once for the connections, give safety and freedom from deadlock.

  \<^item> \<open>Web_Main\<close>: \<^verbatim>\<open>main.cpp\<close>, the start of the server from its options.  \<open>Web_Life\<close>: the way of a signal through \<^verbatim>\<open>Utils::sig_handler\<close> and the pipe to
    the event loop, and the destructors that run when \<^verbatim>\<open>main\<close> returns.

  \<^item> \<open>Cpp_Std\<close>: strings, streams, \<^verbatim>\<open>stoi\<close> and exceptions of the C++ library, as far as \<^verbatim>\<open>videoedit\<close> uses them.

  \<^item> \<open>Vid_Log\<close> (\<^verbatim>\<open>xlog\<close>): after a configuration file has been read, exactly the messages of the chosen level or above
    arrive, in order, at the chosen output.  \<open>Vid_Exec\<close> (\<^verbatim>\<open>xexec\<close>): the output of a command is cut into its lines without loss;
    the queue between worker and main thread is an instance of \<open>fifo_queue\<close>.  \<open>Vid_Task\<close> (\<^verbatim>\<open>xtask\<close>, \<^verbatim>\<open>XVideoInput::RunTask\<close>): when the task
    loop returns and when it waits for ever, and the progress it reports.  \<open>Vid_Input\<close>, \<open>Vid_Edit\<close> (\<^verbatim>\<open>xinput\<close>, \<^verbatim>\<open>xdir\<close>, \<^verbatim>\<open>test\<close>): the loop
    ends exactly at \<^verbatim>\<open>exit\<close>; a typed line runs exactly the command it describes.  \<open>Vid_Test\<close> (\<^verbatim>\<open>xexec/test.cpp\<close>, \<^verbatim>\<open>xlog/test_log.cpp\<close>): when
    the test of the command runner returns, which lines it loses, and when it waits for ever.

  \<^item> \<open>Lru_Cache\<close> (\<^verbatim>\<open>algo/Ya_10.cpp\<close>): the cache refines a list ordered by last use.  \<open>Random_List\<close> (\<^verbatim>\<open>algo/Ya_4.cpp\<close>): the heap that the
    unfinished copy of a list leaves.  \<open>Shared_Ptr\<close> (\<^verbatim>\<open>Cpp/shared_ptr.cpp\<close>): counts are numbers of owners, and objects live exactly as long
    as they are owned.

  \<^item> \<open>Tiny_Alloc\<close>, \<open>Tiny_Iter\<close> (\<^verbatim>\<open>TinySTL\<close>): the size classes of the allocator fit together, its free lists are never
    changed; the overloads of \<^verbatim>\<open>distance\<close> and \<^verbatim>\<open>advance\<close> agree (over the locale \<open>stepping\<close>); ranges are exchanged and destroyed; pairs are
    ordered lexicographically.

  \<^item> \<open>Proc_Sums\<close> (\<^verbatim>\<open>process\<close>): the threads compute what the single thread computes, and when the sum overflows.  \<open>Rw_Lock\<close>
    (\<^verbatim>\<open>learnOS/sync/read_write.cpp\<close>): exclusion, what readers see, and no deadlock.  \<open>Os_Small\<close>: the programs of \<^verbatim>\<open>IPC\<close>, \<^verbatim>\<open>learnOS/IPC\<close>, \<^verbatim>\<open>mmap\<close>,
    \<^verbatim>\<open>timer\<close> and two of \<^verbatim>\<open>process\<close>, as functions on their calls.

  \<^bold>\<open>Bounds.\<close>  The constants of the source are kept: 2048 and 1024 bytes for the buffers of a connection, 200 for a
  file name, 30, 100 and 1024 bytes for the buffers of net-program, 1024 descriptors in a set, 65536 in
  the server, 5 seconds for a time slot, 4096 bytes and 56 free lists in the allocator.

  \<^bold>\<open>Not modelled.\<close>
  \<^item> Memory exhaustion; the contents of MySQL, of the file
    system and of the network, which are arguments; the moment at which a signal handler interrupts
    (its effect is a definition of its own).

  \<^item> Logging inside the HTTP connection and the server, which only writes text; the formatting of the
    message of a log line is an argument.

  \<^item> \<^verbatim>\<open>net-program/chap5/op_client.c\<close> and \<^verbatim>\<open>op_server.c\<close>, which use undeclared variables and do not compile, except the function
    \<^verbatim>\<open>calculate\<close> of the latter.

  \<^item> \<^verbatim>\<open>kvstore/config.h\<close>, \<^verbatim>\<open>kvstore.h\<close> and \<^verbatim>\<open>nty_coroutine.h\<close>: declarations whose implementation is not in the
    repository.

  \<^item> In \<^verbatim>\<open>TinySTL\<close>: \<^verbatim>\<open>M_refill\<close> and \<^verbatim>\<open>M_chunk_alloc\<close>, which are declared and not defined; the templates that only compute
    types (\<^verbatim>\<open>type_traits.h\<close>, the constructors of \<^verbatim>\<open>pair\<close>, \<^verbatim>\<open>move\<close>, \<^verbatim>\<open>forward\<close>).

  \<^item> In \<^verbatim>\<open>videoedit\<close>: \<^verbatim>\<open>xtask/test.cpp\<close>, which only calls modelled operations, the destruction of a task while its worker
    runs, and the file that CMake generated below \<^verbatim>\<open>build\<close>.

  \<^item> Printed times, and the tearing of lines that several threads print at once.

  \<^item> The constructor of \<^verbatim>\<open>SharedPtr\<close> from a raw pointer, which does not compile, and operations on one \<^verbatim>\<open>SharedPtr\<close> object by several
    threads.
\<close>

end
